(* ===== verification/Rust_Str.thy ===== *)
theory Rust_Str
  imports Prelude
begin

text \<open>
  Rust strings. A \<open>String\<close> or \<open>str\<close> is its UTF-8 encoding, a list of bytes, and a byte is a
  HOL \<open>char\<close> (eight bits), so \<open>len\<close> is \<open>length\<close>, \<open>bytes\<close> is the list itself and the order of
  strings is the lexicographic order of bytes. Operations on scalar values go through
  \<open>utf8_decode\<close>, which accepts exactly the well-formed sequences that \<open>str::from_utf8\<close>
  accepts (no overlong forms, no surrogates, nothing above U+10FFFF).
\<close>

subsection \<open>Bytes\<close>

definition byte :: "char \<Rightarrow> nat" where
  "byte c = of_char c"

lemma byte_less [simp]: "byte c < 256"
  by (simp add: byte_def)

lemma byte_inject [simp]: "byte c = byte d \<longleftrightarrow> c = d"
  by (simp add: byte_def)

definition is_ascii_digit :: "char \<Rightarrow> bool" where
  "is_ascii_digit c = (48 \<le> byte c \<and> byte c \<le> 57)"

definition is_ascii_lowercase :: "char \<Rightarrow> bool" where
  "is_ascii_lowercase c = (97 \<le> byte c \<and> byte c \<le> 122)"

definition is_ascii_uppercase :: "char \<Rightarrow> bool" where
  "is_ascii_uppercase c = (65 \<le> byte c \<and> byte c \<le> 90)"

definition is_ascii_alphanumeric :: "char \<Rightarrow> bool" where
  "is_ascii_alphanumeric c = (is_ascii_digit c \<or> is_ascii_lowercase c \<or> is_ascii_uppercase c)"

definition byte_to_ascii_lowercase :: "char \<Rightarrow> char" where
  "byte_to_ascii_lowercase c = (if is_ascii_uppercase c then char_of (byte c + 32) else c)"

definition to_ascii_lowercase :: "string \<Rightarrow> string" where
  "to_ascii_lowercase s = map byte_to_ascii_lowercase s"

definition eq_ignore_ascii_case :: "string \<Rightarrow> string \<Rightarrow> bool" where
  "eq_ignore_ascii_case s t = (to_ascii_lowercase s = to_ascii_lowercase t)"

fun strip_prefix :: "'a list \<Rightarrow> 'a list \<Rightarrow> 'a list option" where
  "strip_prefix [] s = Some s"
| "strip_prefix (p # ps) [] = None"
| "strip_prefix (p # ps) (c # s) = (if p = c then strip_prefix ps s else None)"

definition starts_with :: "'a list \<Rightarrow> 'a list \<Rightarrow> bool" where
  "starts_with p s = (strip_prefix p s \<noteq> None)"

definition strip_suffix :: "'a list \<Rightarrow> 'a list \<Rightarrow> 'a list option" where
  "strip_suffix p s = map_option rev (strip_prefix (rev p) (rev s))"

definition ends_with :: "'a list \<Rightarrow> 'a list \<Rightarrow> bool" where
  "ends_with p s = (strip_suffix p s \<noteq> None)"

lemma strip_prefix_Some [simp]: "strip_prefix p s = Some t \<longleftrightarrow> s = p @ t"
  by (induction p s rule: strip_prefix.induct) auto

lemma strip_prefix_append [simp]: "strip_prefix p (p @ t) = Some t"
  by simp

lemma starts_with_iff: "starts_with p s \<longleftrightarrow> (\<exists>t. s = p @ t)"
  by (auto simp: starts_with_def)

lemma strip_suffix_Some: "strip_suffix p s = Some t \<longleftrightarrow> s = t @ p"
  by (auto simp: strip_suffix_def) (metis rev_append rev_rev_ident)

lemma ends_with_iff: "ends_with p s \<longleftrightarrow> (\<exists>t. s = t @ p)"
  by (auto simp: ends_with_def strip_suffix_Some)

subsection \<open>UTF-8\<close>

definition utf8_cont :: "nat \<Rightarrow> bool" where
  "utf8_cont b = (128 \<le> b \<and> b \<le> 191)"

text \<open>The second byte of a three- and of a four-byte sequence, by its first byte.\<close>

definition utf8_second3 :: "nat \<Rightarrow> nat \<Rightarrow> bool" where
  "utf8_second3 a b =
     (if a = 224 then 160 \<le> b \<and> b \<le> 191
      else if a = 237 then 128 \<le> b \<and> b \<le> 159
      else utf8_cont b)"

definition utf8_second4 :: "nat \<Rightarrow> nat \<Rightarrow> bool" where
  "utf8_second4 a b =
     (if a = 240 then 144 \<le> b \<and> b \<le> 191
      else if a = 244 then 128 \<le> b \<and> b \<le> 143
      else utf8_cont b)"

text \<open>The first scalar value of a string and what follows it.\<close>

definition utf8_next :: "char \<Rightarrow> string \<Rightarrow> (nat \<times> string) option" where
  "utf8_next a s =
     (let x = byte a in
      if x < 128 then Some (x, s)
      else if 194 \<le> x \<and> x \<le> 223 then
        (case s of
           b # s1 \<Rightarrow> if utf8_cont (byte b) then Some ((x - 192) * 64 + (byte b - 128), s1) else None
         | _ \<Rightarrow> None)
      else if 224 \<le> x \<and> x \<le> 239 then
        (case s of
           b # c # s2 \<Rightarrow>
             if utf8_second3 x (byte b) \<and> utf8_cont (byte c)
             then Some ((x - 224) * 4096 + (byte b - 128) * 64 + (byte c - 128), s2) else None
         | _ \<Rightarrow> None)
      else if 240 \<le> x \<and> x \<le> 244 then
        (case s of
           b # c # d # s3 \<Rightarrow>
             if utf8_second4 x (byte b) \<and> utf8_cont (byte c) \<and> utf8_cont (byte d)
             then Some ((x - 240) * 262144 + (byte b - 128) * 4096 + (byte c - 128) * 64
                          + (byte d - 128), s3) else None
         | _ \<Rightarrow> None)
      else None)"

lemma utf8_next_length: "utf8_next a s = Some (c, r) \<Longrightarrow> length r < Suc (length s)"
  by (auto simp: utf8_next_def Let_def split: if_splits list.splits)

lemma utf8_next_append:
  "utf8_next a s = Some (c, r) \<Longrightarrow> utf8_next a (s @ t) = Some (c, r @ t)"
  by (auto simp: utf8_next_def Let_def split: if_splits list.splits)

function utf8_decode :: "string \<Rightarrow> nat list option" where
  "utf8_decode [] = Some []"
| "utf8_decode (a # s) =
     (case utf8_next a s of
        None \<Rightarrow> None
      | Some (c, r) \<Rightarrow> map_option ((#) c) (utf8_decode r))"
  by pat_completeness auto
termination
  by (relation "measure length") (auto dest: utf8_next_length)

definition utf8_valid :: "string \<Rightarrow> bool" where
  "utf8_valid s = (utf8_decode s \<noteq> None)"

lemma utf8_decode_append:
  "utf8_decode s = Some xs \<Longrightarrow> utf8_decode (s @ t) = map_option ((@) xs) (utf8_decode t)"
proof (induction s arbitrary: xs rule: utf8_decode.induct)
  case 1
  then show ?case by (simp add: option.map_id0 flip: id_def)
next
  case (2 a s)
  then obtain c r ys where next_ar: "utf8_next a s = Some (c, r)" and ys: "utf8_decode r = Some ys"
    and xs: "xs = c # ys"
    by (auto split: option.splits prod.splits)
  from 2(1) [OF next_ar] ys have "utf8_decode (r @ t) = map_option ((@) ys) (utf8_decode t)"
    by simp
  then show ?case
    by (simp add: utf8_next_append [OF next_ar] xs option.map_comp comp_def)
qed

lemma utf8_valid_append: "utf8_valid s \<Longrightarrow> utf8_valid t \<Longrightarrow> utf8_valid (s @ t)"
  by (auto simp: utf8_valid_def utf8_decode_append)

lemma utf8_decode_ascii: "\<forall>c \<in> set s. byte c < 128 \<Longrightarrow> utf8_decode s = Some (map byte s)"
  by (induction s) (simp_all add: utf8_next_def)

lemma utf8_valid_ascii: "\<forall>c \<in> set s. byte c < 128 \<Longrightarrow> utf8_valid s"
  by (simp add: utf8_valid_def utf8_decode_ascii)

subsection \<open>Scalar values\<close>

text \<open>\<open>char::is_whitespace\<close> (the Unicode property White_Space) and \<open>char::is_control\<close> (Cc).\<close>

definition is_white_space :: "nat \<Rightarrow> bool" where
  "is_white_space c =
     ((9 \<le> c \<and> c \<le> 13) \<or> c = 32 \<or> c = 133 \<or> c = 160 \<or> c = 5760 \<or> (8192 \<le> c \<and> c \<le> 8202)
      \<or> c = 8232 \<or> c = 8233 \<or> c = 8239 \<or> c = 8287 \<or> c = 12288)"

definition is_control :: "nat \<Rightarrow> bool" where
  "is_control c = (c \<le> 31 \<or> (127 \<le> c \<and> c \<le> 159))"

definition chars :: "string \<Rightarrow> nat list" where
  "chars s = (case utf8_decode s of None \<Rightarrow> [] | Some cs \<Rightarrow> cs)"

text \<open>\<open>s.trim().is_empty()\<close>: only white space is left out by trimming both ends.\<close>

definition trim_is_empty :: "string \<Rightarrow> bool" where
  "trim_is_empty s = list_all is_white_space (chars s)"

definition has_control :: "string \<Rightarrow> bool" where
  "has_control s = list_ex is_control (chars s)"

lemma chars_Nil [simp]: "chars [] = []"
  by (simp add: chars_def)

lemma trim_is_empty_Nil [simp]: "trim_is_empty []"
  by (simp add: trim_is_empty_def)

lemma chars_ascii: "\<forall>c \<in> set s. byte c < 128 \<Longrightarrow> chars s = map byte s"
  by (simp add: chars_def utf8_decode_ascii)

text \<open>An unsigned integer in decimal notation.\<close>

fun dec_string :: "nat \<Rightarrow> string" where
  "dec_string n = (if n < 10 then [char_of (48 + n)] else dec_string (n div 10) @ [char_of (48 + n mod 10)])"

declare dec_string.simps [simp del]

text \<open>Evaluation of the predicates above on literals.\<close>

lemmas str_eval = trim_is_empty_def has_control_def chars_def utf8_next_def byte_def
  is_white_space_def is_control_def is_ascii_alphanumeric_def is_ascii_digit_def
  is_ascii_lowercase_def is_ascii_uppercase_def

end
