(* ===== verification/Net_Url.thy ===== *)
theory Net_Url
  imports Rust_Str
begin

text \<open>
  Addresses and URLs as the sources use them: the standard library's \<open>IpAddr\<close> with the
  predicates called on it, and the components of a parsed URL. Parsing itself
  (\<open>Url::parse\<close> of the \<open>url\<close> crate) is not part of the repository; every definition that
  parses takes the parser as an argument of type \<open>url_parser\<close>.
\<close>

unbundle bit_operations_syntax

subsection \<open>IP addresses\<close>

datatype ipv4 = Ipv4Addr u8 u8 u8 u8

datatype ipv6 = Ipv6Addr u16 u16 u16 u16 u16 u16 u16 u16

datatype ip_addr = V4 ipv4 | V6 ipv6

fun octet0 :: "ipv4 \<Rightarrow> u8" where
  "octet0 (Ipv4Addr a b c d) = a"

fun octet1 :: "ipv4 \<Rightarrow> u8" where
  "octet1 (Ipv4Addr a b c d) = b"

fun v4_is_private :: "ipv4 \<Rightarrow> bool" where
  "v4_is_private (Ipv4Addr a b c d) =
     (a = 10 \<or> (a = 172 \<and> 16 \<le> b \<and> b \<le> 31) \<or> (a = 192 \<and> b = 168))"

fun v4_is_loopback :: "ipv4 \<Rightarrow> bool" where
  "v4_is_loopback (Ipv4Addr a b c d) = (a = 127)"

fun v4_is_link_local :: "ipv4 \<Rightarrow> bool" where
  "v4_is_link_local (Ipv4Addr a b c d) = (a = 169 \<and> b = 254)"

fun v4_is_broadcast :: "ipv4 \<Rightarrow> bool" where
  "v4_is_broadcast (Ipv4Addr a b c d) = (a = 255 \<and> b = 255 \<and> c = 255 \<and> d = 255)"

fun v4_is_documentation :: "ipv4 \<Rightarrow> bool" where
  "v4_is_documentation (Ipv4Addr a b c d) =
     ((a = 192 \<and> b = 0 \<and> c = 2) \<or> (a = 198 \<and> b = 51 \<and> c = 100) \<or> (a = 203 \<and> b = 0 \<and> c = 113))"

fun v4_is_unspecified :: "ipv4 \<Rightarrow> bool" where
  "v4_is_unspecified (Ipv4Addr a b c d) = (a = 0 \<and> b = 0 \<and> c = 0 \<and> d = 0)"

fun v4_is_multicast :: "ipv4 \<Rightarrow> bool" where
  "v4_is_multicast (Ipv4Addr a b c d) = (224 \<le> a \<and> a \<le> 239)"

fun segment0 :: "ipv6 \<Rightarrow> u16" where
  "segment0 (Ipv6Addr s0 s1 s2 s3 s4 s5 s6 s7) = s0"

fun segment1 :: "ipv6 \<Rightarrow> u16" where
  "segment1 (Ipv6Addr s0 s1 s2 s3 s4 s5 s6 s7) = s1"

text \<open>The first two bytes of \<open>Ipv6Addr::octets\<close>, high byte first.\<close>

definition v6_octet0 :: "ipv6 \<Rightarrow> u8" where
  "v6_octet0 a = ucast (drop_bit 8 (segment0 a))"

definition v6_octet1 :: "ipv6 \<Rightarrow> u8" where
  "v6_octet1 a = ucast (segment0 a)"

definition v6_is_loopback :: "ipv6 \<Rightarrow> bool" where
  "v6_is_loopback a = (a = Ipv6Addr 0 0 0 0 0 0 0 1)"

definition v6_is_unspecified :: "ipv6 \<Rightarrow> bool" where
  "v6_is_unspecified a = (a = Ipv6Addr 0 0 0 0 0 0 0 0)"

definition v6_is_multicast :: "ipv6 \<Rightarrow> bool" where
  "v6_is_multicast a = (segment0 a AND 0xFF00 = 0xFF00)"

fun to_ipv4_mapped :: "ipv6 \<Rightarrow> ipv4 option" where
  "to_ipv4_mapped (Ipv6Addr s0 s1 s2 s3 s4 s5 s6 s7) =
     (if s0 = 0 \<and> s1 = 0 \<and> s2 = 0 \<and> s3 = 0 \<and> s4 = 0 \<and> s5 = 0xFFFF
      then Some (Ipv4Addr (ucast (drop_bit 8 s6)) (ucast s6) (ucast (drop_bit 8 s7)) (ucast s7))
      else None)"

fun ip_is_loopback :: "ip_addr \<Rightarrow> bool" where
  "ip_is_loopback (V4 a) = v4_is_loopback a"
| "ip_is_loopback (V6 a) = v6_is_loopback a"

subsection \<open>URLs\<close>

datatype host = Domain string | HostV4 ipv4 | HostV6 ipv6

record url =
  url_scheme :: string
  url_username :: string
  url_password :: "string option"
  url_host :: "host option"
  url_port :: "u16 option"
  url_query :: "string option"
  url_fragment :: "string option"

type_synonym url_parser = "string \<Rightarrow> url option"

definition http_or_https :: "string \<Rightarrow> bool" where
  "http_or_https s = (s = ''http'' \<or> s = ''https'')"

end
