(* ===== verification/Ordered_Map.thy ===== *)
theory Ordered_Map
  imports Prelude
begin

text \<open>
  The standard library's \<open>BTreeMap\<close> and \<open>BTreeSet\<close> as the sources use them: a map whose
  iteration runs in increasing key order. The locale \<open>ordered_map\<close> states what a client may
  rely on; the executable model, a strictly increasing association list, is its
  interpretation \<open>bt\<close>.
\<close>

lemma map_of_rev_distinct: "distinct (map fst kvs) \<Longrightarrow> map_of (rev kvs) = map_of kvs"
  by (subst map_of_inject_set) (simp_all flip: rev_map)

subsection \<open>The contract of an ordered map\<close>

locale ordered_map =
  fixes wf :: "'m \<Rightarrow> bool"
    and empty :: 'm
    and get :: "'m \<Rightarrow> 'k::linorder \<Rightarrow> 'v option"
    and insert :: "'k \<Rightarrow> 'v \<Rightarrow> 'm \<Rightarrow> 'm"
    and retain :: "('k \<Rightarrow> 'v \<Rightarrow> bool) \<Rightarrow> 'm \<Rightarrow> 'm"
    and entries :: "'m \<Rightarrow> ('k \<times> 'v) list"
  assumes wf_empty: "wf empty"
    and wf_insert: "wf m \<Longrightarrow> wf (insert k v m)"
    and wf_retain: "wf m \<Longrightarrow> wf (retain P m)"
    and get_empty: "get empty k = None"
    and get_insert: "wf m \<Longrightarrow> get (insert k v m) k' = (if k' = k then Some v else get m k')"
    and get_retain: "wf m \<Longrightarrow>
          get (retain P m) k = (case get m k of None \<Rightarrow> None | Some v \<Rightarrow> if P k v then Some v else None)"
    and entries_sorted: "wf m \<Longrightarrow> sorted_wrt (<) (map fst (entries m))"
    and entries_get: "wf m \<Longrightarrow> (k, v) \<in> set (entries m) \<longleftrightarrow> get m k = Some v"
begin

text \<open>\<open>collect\<close> of key-value pairs inserts them in order, so the last pair of a key wins.\<close>

lemma wf_collect: "wf m \<Longrightarrow> wf (fold (\<lambda>(k, v). insert k v) kvs m)"
  by (induction kvs arbitrary: m) (auto intro: wf_insert)

lemma get_collect:
  "wf m \<Longrightarrow> get (fold (\<lambda>(k, v). insert k v) kvs m) k =
     (case map_of (rev kvs) k of None \<Rightarrow> get m k | Some v \<Rightarrow> Some v)"
proof (induction kvs arbitrary: m)
  case Nil
  then show ?case by simp
next
  case (Cons kv kvs)
  obtain k' v' where kv: "kv = (k', v')" by (cases kv)
  show ?case
    using Cons.prems
    by (simp add: kv Cons.IH wf_insert get_insert map_add_def split: option.split)
qed

lemma get_collect_distinct:
  assumes "distinct (map fst kvs)"
  shows "get (fold (\<lambda>(k, v). insert k v) kvs empty) k = map_of kvs k"
  using assms
  by (simp add: get_collect wf_empty get_empty map_of_rev_distinct split: option.split)

lemma retain_retain:
  "wf m \<Longrightarrow> get (retain P (retain Q m)) k = get (retain (\<lambda>k v. Q k v \<and> P k v) m) k"
  by (simp add: get_retain wf_retain split: option.split)

lemma distinct_entries: "wf m \<Longrightarrow> distinct (map fst (entries m))"
  using entries_sorted [of m] by (simp add: strict_sorted_iff)

end

subsection \<open>The executable model\<close>

type_synonym ('k, 'v) btree = "('k \<times> 'v) list"

abbreviation bt_wf :: "('k::linorder, 'v) btree \<Rightarrow> bool" where
  "bt_wf m \<equiv> sorted_wrt (<) (map fst m)"

fun bt_insert :: "'k::linorder \<Rightarrow> 'v \<Rightarrow> ('k, 'v) btree \<Rightarrow> ('k, 'v) btree" where
  "bt_insert k v [] = [(k, v)]"
| "bt_insert k v ((k', v') # m) =
     (if k < k' then (k, v) # (k', v') # m
      else if k = k' then (k, v) # m
      else (k', v') # bt_insert k v m)"

definition bt_get :: "('k, 'v) btree \<Rightarrow> 'k \<Rightarrow> 'v option" where
  "bt_get m k = map_of m k"

definition bt_retain :: "('k \<Rightarrow> 'v \<Rightarrow> bool) \<Rightarrow> ('k, 'v) btree \<Rightarrow> ('k, 'v) btree" where
  "bt_retain P m = filter (\<lambda>(k, v). P k v) m"

definition bt_remove :: "'k \<Rightarrow> ('k, 'v) btree \<Rightarrow> ('k, 'v) btree" where
  "bt_remove k m = bt_retain (\<lambda>k' _. k' \<noteq> k) m"

text \<open>\<open>get_mut\<close> followed by an assignment through the reference.\<close>

definition bt_modify :: "'k \<Rightarrow> ('v \<Rightarrow> 'v) \<Rightarrow> ('k, 'v) btree \<Rightarrow> ('k, 'v) btree" where
  "bt_modify k f m = map (\<lambda>(k', v). (k', if k' = k then f v else v)) m"

text \<open>\<open>entry(k).or_insert_with(..)\<close>: the first binding of a key stays.\<close>

definition bt_or_insert :: "'k::linorder \<Rightarrow> 'v \<Rightarrow> ('k, 'v) btree \<Rightarrow> ('k, 'v) btree" where
  "bt_or_insert k v m = (case bt_get m k of None \<Rightarrow> bt_insert k v m | Some _ \<Rightarrow> m)"

definition bt_collect :: "('k::linorder \<times> 'v) list \<Rightarrow> ('k, 'v) btree" where
  "bt_collect kvs = fold (\<lambda>(k, v). bt_insert k v) kvs []"

lemma set_bt_insert: "fst ` set (bt_insert k v m) = insert k (fst ` set m)"
  by (induction k v m rule: bt_insert.induct) auto

lemma bt_insert_wf: "bt_wf m \<Longrightarrow> bt_wf (bt_insert k v m)"
proof (induction k v m rule: bt_insert.induct)
  case (2 k v k' v' m)
  then have "\<forall>x \<in> fst ` set m. k' < x" by simp
  with 2 show ?case by (auto simp flip: image_image simp: set_bt_insert)
qed simp

lemma map_of_bt_insert: "bt_wf m \<Longrightarrow> map_of (bt_insert k v m) = (map_of m)(k \<mapsto> v)"
proof (induction k v m rule: bt_insert.induct)
  case (2 k v k' v' m)
  show ?case
  proof (cases "k < k'")
    case True
    with 2 show ?thesis by auto
  next
    case False
    with 2 show ?thesis by (auto simp: fun_upd_twist)
  qed
qed auto

lemma map_of_filter_wf:
  "bt_wf m \<Longrightarrow> map_of (filter (\<lambda>(k, v). P k v) m) k =
     (case map_of m k of None \<Rightarrow> None | Some v \<Rightarrow> if P k v then Some v else None)"
proof (induction m)
  case (Cons kv m)
  obtain k' v' where kv: "kv = (k', v')" by (cases kv)
  have "map_of m k' = None"
    using Cons.prems by (auto simp: kv map_of_eq_None_iff)
  with Cons show ?case by (auto simp: kv split: option.split)
qed simp

lemma bt_filter_wf: "bt_wf m \<Longrightarrow> bt_wf (filter P m)"
  by (induction m) auto

interpretation bt: ordered_map "bt_wf" "[]" bt_get bt_insert bt_retain "\<lambda>m. m"
proof (unfold_locales, goal_cases)
  case (2 m k v)
  then show ?case by (rule bt_insert_wf)
next
  case (3 m P)
  then show ?case by (simp add: bt_retain_def bt_filter_wf)
next
  case (5 m k v k')
  then show ?case by (simp add: bt_get_def map_of_bt_insert)
next
  case (6 m P k)
  then show ?case by (simp add: bt_get_def bt_retain_def map_of_filter_wf)
next
  case (8 m k v)
  then have "distinct (map fst m)" by (simp add: strict_sorted_iff)
  then show ?case by (simp add: bt_get_def)
qed (simp_all add: bt_get_def)

lemmas bt_wf_intros [intro] = bt.wf_insert bt.wf_retain

lemma bt_get_Nil [simp]: "bt_get [] k = None"
  by (simp add: bt_get_def)

lemma bt_remove_wf [intro]: "bt_wf m \<Longrightarrow> bt_wf (bt_remove k m)"
  by (auto simp: bt_remove_def)

lemma bt_get_remove: "bt_wf m \<Longrightarrow> bt_get (bt_remove k m) k' = (if k' = k then None else bt_get m k')"
  by (simp add: bt_remove_def bt.get_retain split: option.split)

lemma bt_modify_keys [simp]: "map fst (bt_modify k f m) = map fst m"
  by (simp add: bt_modify_def case_prod_beta comp_def)

lemma bt_modify_wf [intro]: "bt_wf m \<Longrightarrow> bt_wf (bt_modify k f m)"
  by simp

lemma bt_modify_length [simp]: "length (bt_modify k f m) = length m"
  by (simp add: bt_modify_def)

lemma bt_get_modify:
  "bt_get (bt_modify k f m) k' = (if k' = k then map_option f (bt_get m k) else bt_get m k')"
  by (induction m) (auto simp: bt_get_def bt_modify_def)

lemma bt_or_insert_wf [intro]: "bt_wf m \<Longrightarrow> bt_wf (bt_or_insert k v m)"
  by (auto simp: bt_or_insert_def split: option.split)

lemma bt_get_or_insert:
  "bt_wf m \<Longrightarrow> bt_get (bt_or_insert k v m) k' =
     (case bt_get m k' of Some w \<Rightarrow> Some w | None \<Rightarrow> if k' = k then Some v else None)"
  by (auto simp: bt_or_insert_def bt.get_insert split: option.split)

lemma bt_retain_length: "length (bt_retain P m) \<le> length m"
  by (simp add: bt_retain_def)

lemma bt_insert_length:
  "bt_wf m \<Longrightarrow> length (bt_insert k v m) = (if bt_get m k = None then Suc (length m) else length m)"
proof (induction k v m rule: bt_insert.induct)
  case (2 k v k' v' m)
  then have "\<forall>x \<in> fst ` set m. k' < x" by simp
  then have "k < k' \<Longrightarrow> map_of m k = None"
    by (auto simp: map_of_eq_None_iff)
  with 2 show ?case by (auto simp: bt_get_def)
qed simp

lemma bt_remove_length:
  assumes "bt_wf m" and "bt_get m k = Some v"
  shows "length (bt_remove k m) < length m"
proof -
  have "(k, v) \<in> set m" using assms by (simp add: bt.entries_get)
  then show ?thesis
    by (auto simp: bt_remove_def bt_retain_def intro!: length_filter_less)
qed

lemma bt_collect_wf [simp]: "bt_wf (bt_collect kvs)"
  by (simp add: bt_collect_def bt.wf_collect)

lemma bt_get_collect_distinct:
  "distinct (map fst kvs) \<Longrightarrow> bt_get (bt_collect kvs) k = map_of kvs k"
  by (simp add: bt_collect_def bt.get_collect_distinct)

end
