(* ===== verification/Core_Config.thy ===== *)
theory Core_Config
  imports Net_Url Ordered_Map
begin

text \<open>
  Domain types of \<open>crates/wokcore-core\<close>: the validated identifiers of \<open>id.rs\<close> and the
  Provider and routing configuration of \<open>config.rs\<close> with its shape validation. The URL
  parser that \<open>validate_endpoint_shape\<close> calls is an argument.
\<close>

subsection \<open>Identifiers (\<open>id.rs\<close>)\<close>

datatype provider_id = ProviderId (provider_str: string)

datatype account_id = AccountId (account_str: string)

datatype client_id = ClientId (client_str: string)

text \<open>The derived \<open>Ord\<close> of a tuple struct compares its only field.\<close>

instantiation provider_id :: linorder
begin

definition less_eq_provider_id :: "provider_id \<Rightarrow> provider_id \<Rightarrow> bool" where
  "less_eq_provider_id a b = (provider_str a \<le> provider_str b)"

definition less_provider_id :: "provider_id \<Rightarrow> provider_id \<Rightarrow> bool" where
  "less_provider_id a b = (provider_str a < provider_str b)"

instance
  by standard (auto simp: less_eq_provider_id_def less_provider_id_def provider_id.expand)

end

instantiation account_id :: linorder
begin

definition less_eq_account_id :: "account_id \<Rightarrow> account_id \<Rightarrow> bool" where
  "less_eq_account_id a b = (account_str a \<le> account_str b)"

definition less_account_id :: "account_id \<Rightarrow> account_id \<Rightarrow> bool" where
  "less_account_id a b = (account_str a < account_str b)"

instance
  by standard (auto simp: less_eq_account_id_def less_account_id_def account_id.expand)

end

datatype invalid_id = InvalidId

definition MAX_IDENTIFIER_LENGTH :: nat where
  "MAX_IDENTIFIER_LENGTH = 128"

definition is_identifier_byte :: "char \<Rightarrow> bool" where
  "is_identifier_byte c =
     (is_ascii_lowercase c \<or> is_ascii_digit c \<or> c = CHR ''.'' \<or> c = CHR ''_'' \<or> c = CHR ''-'')"

definition is_valid_identifier :: "string \<Rightarrow> bool" where
  "is_valid_identifier v =
     (v \<noteq> [] \<and> length v \<le> MAX_IDENTIFIER_LENGTH \<and> v \<noteq> ''.'' \<and> v \<noteq> ''..''
      \<and> list_ex is_ascii_alphanumeric v \<and> list_all is_identifier_byte v)"

definition provider_id_new :: "string \<Rightarrow> invalid_id + provider_id" where
  "provider_id_new v = (if \<not> is_valid_identifier v then Err InvalidId else Ok (ProviderId v))"

definition account_id_new :: "string \<Rightarrow> invalid_id + account_id" where
  "account_id_new v = (if \<not> is_valid_identifier v then Err InvalidId else Ok (AccountId v))"

definition client_id_new :: "string \<Rightarrow> invalid_id + client_id" where
  "client_id_new v = (if \<not> is_valid_identifier v then Err InvalidId else Ok (ClientId v))"

subsection \<open>Configuration data (\<open>config.rs\<close>)\<close>

type_synonym secret_ref = string

datatype account_auth_config =
    Forward (credential: secret_ref)
  | Oauth (access_ref: secret_ref) (refresh_ref: "secret_ref option")
  | ApiKey (secret_of: secret_ref)
  | Local

record provider_instance_config =
  inst_id :: provider_id
  inst_catalog_id :: provider_id
  inst_enabled :: bool
  inst_endpoint :: "string option"
  inst_allow_private_network :: bool

record account_config =
  acct_id :: account_id
  acct_provider :: provider_id
  acct_enabled :: bool
  acct_auth :: account_auth_config

record provider_config =
  instances :: "provider_instance_config list"
  accounts :: "account_config list"

record route_target =
  target_provider :: provider_id
  target_model :: string

record model_alias =
  alias_name :: string
  alias_target :: route_target

record route_rule =
  rule_client_id :: "client_id option"
  rule_model :: "string option"
  rule_target :: route_target

record routing_config =
  aliases :: "model_alias list"
  rules :: "route_rule list"
  default_target :: "route_target option"

datatype config_shape_error =
    ShapeProviderLimitExceeded
  | ShapeAccountLimitExceeded
  | ShapeAliasLimitExceeded
  | ShapeRouteRuleLimitExceeded
  | ShapeDuplicateProvider
  | ShapeDuplicateAccount
  | ShapeUnknownAccountProvider
  | ShapeInvalidEndpoint
  | ShapeDuplicateAlias
  | ShapeInvalidModel
  | ShapeUnknownRouteProvider

definition MAX_PROVIDER_INSTANCES :: nat where "MAX_PROVIDER_INSTANCES = 64"
definition MAX_CONFIG_ACCOUNTS :: nat where "MAX_CONFIG_ACCOUNTS = 256"
definition MAX_MODEL_ALIASES :: nat where "MAX_MODEL_ALIASES = 1024"
definition MAX_ROUTE_RULES :: nat where "MAX_ROUTE_RULES = 1024"
definition MAX_MODEL_ID_BYTES :: nat where "MAX_MODEL_ID_BYTES = 256"
definition MAX_ENDPOINT_BYTES :: nat where "MAX_ENDPOINT_BYTES = 2048"

subsection \<open>Shape validation\<close>

definition validate_model :: "string \<Rightarrow> config_shape_error + unit" where
  "validate_model m =
     (if trim_is_empty m \<or> MAX_MODEL_ID_BYTES < length m \<or> has_control m
      then Err ShapeInvalidModel else Ok ())"

definition validate_target ::
  "route_target \<Rightarrow> provider_id set \<Rightarrow> config_shape_error + unit" where
  "validate_target t ids =
     (if target_provider t \<notin> ids then Err ShapeUnknownRouteProvider
      else validate_model (target_model t))"

definition validate_endpoint_shape :: "url_parser \<Rightarrow> string \<Rightarrow> config_shape_error + unit" where
  "validate_endpoint_shape parse e =
     (if e = [] \<or> MAX_ENDPOINT_BYTES < length e \<or> CHR ''{'' \<in> set e \<or> CHR ''}'' \<in> set e
      then Err ShapeInvalidEndpoint
      else case parse e of
        None \<Rightarrow> Err ShapeInvalidEndpoint
      | Some u \<Rightarrow>
          if \<not> http_or_https (url_scheme u) \<or> url_username u \<noteq> [] \<or> url_password u \<noteq> None
             \<or> url_query u \<noteq> None \<or> url_fragment u \<noteq> None \<or> url_host u = None
          then Err ShapeInvalidEndpoint else Ok ())"

text \<open>The three loops that fill \<open>provider_ids\<close>, \<open>account_ids\<close> and \<open>aliases\<close>.\<close>

fun shape_instances ::
  "url_parser \<Rightarrow> provider_instance_config list \<Rightarrow> provider_id set
     \<Rightarrow> config_shape_error + provider_id set" where
  "shape_instances parse [] ids = Ok ids"
| "shape_instances parse (p # ps) ids =
     (if inst_id p \<in> ids then Err ShapeDuplicateProvider
      else and_then
        (case inst_endpoint p of None \<Rightarrow> Ok () | Some e \<Rightarrow> validate_endpoint_shape parse e)
        (\<lambda>_. shape_instances parse ps (insert (inst_id p) ids)))"

fun shape_accounts ::
  "provider_id set \<Rightarrow> account_config list \<Rightarrow> account_id set \<Rightarrow> config_shape_error + unit" where
  "shape_accounts ids [] seen = Ok ()"
| "shape_accounts ids (a # as) seen =
     (if acct_id a \<in> seen then Err ShapeDuplicateAccount
      else if acct_provider a \<notin> ids then Err ShapeUnknownAccountProvider
      else shape_accounts ids as (insert (acct_id a) seen))"

fun shape_aliases ::
  "provider_id set \<Rightarrow> model_alias list \<Rightarrow> string set \<Rightarrow> config_shape_error + unit" where
  "shape_aliases ids [] seen = Ok ()"
| "shape_aliases ids (a # as) seen =
     and_then (validate_model (alias_name a)) (\<lambda>_.
       if alias_name a \<in> seen then Err ShapeDuplicateAlias
       else and_then (validate_target (alias_target a) ids)
         (\<lambda>_. shape_aliases ids as (insert (alias_name a) seen)))"

definition shape_rule :: "provider_id set \<Rightarrow> route_rule \<Rightarrow> config_shape_error + unit" where
  "shape_rule ids r =
     and_then (case rule_model r of None \<Rightarrow> Ok () | Some m \<Rightarrow> validate_model m)
       (\<lambda>_. validate_target (rule_target r) ids)"

definition validate_provider_configuration_shape ::
  "url_parser \<Rightarrow> provider_config \<Rightarrow> routing_config \<Rightarrow> config_shape_error + unit" where
  "validate_provider_configuration_shape parse ps rs =
     (if MAX_PROVIDER_INSTANCES < length (instances ps) then Err ShapeProviderLimitExceeded
      else if MAX_CONFIG_ACCOUNTS < length (accounts ps) then Err ShapeAccountLimitExceeded
      else if MAX_MODEL_ALIASES < length (aliases rs) then Err ShapeAliasLimitExceeded
      else if MAX_ROUTE_RULES < length (rules rs) then Err ShapeRouteRuleLimitExceeded
      else and_then (shape_instances parse (instances ps) {}) (\<lambda>ids.
        and_then (shape_accounts ids (accounts ps) {}) (\<lambda>_.
        and_then (shape_aliases ids (aliases rs) {}) (\<lambda>_.
        and_then (try_for_each (shape_rule ids) (rules rs)) (\<lambda>_.
          case default_target rs of None \<Rightarrow> Ok () | Some t \<Rightarrow> validate_target t ids)))))"

subsection \<open>What the validation accepts\<close>

text \<open>The declarative shape: bounds, unique identifiers, and no dangling reference.\<close>

definition target_ok :: "provider_id set \<Rightarrow> route_target \<Rightarrow> bool" where
  "target_ok ids t = (target_provider t \<in> ids \<and> validate_model (target_model t) = Ok ())"

definition config_shape_ok :: "url_parser \<Rightarrow> provider_config \<Rightarrow> routing_config \<Rightarrow> bool" where
  "config_shape_ok parse ps rs =
     (let ids = inst_id ` set (instances ps) in
      length (instances ps) \<le> MAX_PROVIDER_INSTANCES \<and> length (accounts ps) \<le> MAX_CONFIG_ACCOUNTS
      \<and> length (aliases rs) \<le> MAX_MODEL_ALIASES \<and> length (rules rs) \<le> MAX_ROUTE_RULES
      \<and> distinct (map inst_id (instances ps))
      \<and> (\<forall>p \<in> set (instances ps). \<forall>e. inst_endpoint p = Some e
            \<longrightarrow> validate_endpoint_shape parse e = Ok ())
      \<and> distinct (map acct_id (accounts ps))
      \<and> (\<forall>a \<in> set (accounts ps). acct_provider a \<in> ids)
      \<and> distinct (map alias_name (aliases rs))
      \<and> (\<forall>a \<in> set (aliases rs). validate_model (alias_name a) = Ok () \<and> target_ok ids (alias_target a))
      \<and> (\<forall>r \<in> set (rules rs). (\<forall>m. rule_model r = Some m \<longrightarrow> validate_model m = Ok ())
            \<and> target_ok ids (rule_target r))
      \<and> (\<forall>t. default_target rs = Some t \<longrightarrow> target_ok ids t))"

lemma validate_target_ok: "validate_target t ids = Ok () \<longleftrightarrow> target_ok ids t"
  by (simp add: validate_target_def target_ok_def)

lemma shape_instances_ok:
  "shape_instances parse ps ids = Ok ids' \<longleftrightarrow>
     distinct (map inst_id ps) \<and> inst_id ` set ps \<inter> ids = {}
     \<and> (\<forall>p \<in> set ps. \<forall>e. inst_endpoint p = Some e \<longrightarrow> validate_endpoint_shape parse e = Ok ())
     \<and> ids' = inst_id ` set ps \<union> ids"
  by (induction ps arbitrary: ids) (auto split: option.split)

lemma shape_accounts_ok:
  "shape_accounts ids as seen = Ok () \<longleftrightarrow>
     distinct (map acct_id as) \<and> acct_id ` set as \<inter> seen = {} \<and> (\<forall>a \<in> set as. acct_provider a \<in> ids)"
  by (induction as arbitrary: seen) auto

lemma shape_aliases_ok:
  "shape_aliases ids as seen = Ok () \<longleftrightarrow>
     distinct (map alias_name as) \<and> alias_name ` set as \<inter> seen = {}
     \<and> (\<forall>a \<in> set as. validate_model (alias_name a) = Ok () \<and> target_ok ids (alias_target a))"
  by (induction as arbitrary: seen) (auto simp: validate_target_ok)

lemma shape_rule_ok:
  "shape_rule ids r = Ok () \<longleftrightarrow>
     (\<forall>m. rule_model r = Some m \<longrightarrow> validate_model m = Ok ()) \<and> target_ok ids (rule_target r)"
  by (auto simp: shape_rule_def validate_target_ok split: option.split)

lemma shape_ok_iff:
  "validate_provider_configuration_shape parse ps rs = Ok () \<longleftrightarrow> config_shape_ok parse ps rs"
  by (auto simp: validate_provider_configuration_shape_def config_shape_ok_def Let_def not_less
        shape_instances_ok shape_accounts_ok shape_aliases_ok try_for_each_Ok shape_rule_ok
        validate_target_ok split: option.split if_splits)

lemmas config_eval = is_valid_identifier_def MAX_IDENTIFIER_LENGTH_def is_identifier_byte_def
  provider_id_new_def MAX_PROVIDER_INSTANCES_def MAX_CONFIG_ACCOUNTS_def MAX_MODEL_ALIASES_def
  MAX_ROUTE_RULES_def MAX_MODEL_ID_BYTES_def MAX_ENDPOINT_BYTES_def validate_model_def
  validate_target_def validate_endpoint_shape_def shape_rule_def
  validate_provider_configuration_shape_def try_for_each_def

end
