(* ===== verification/Accounts.thy ===== *)
theory Accounts
  imports Core_Config
begin

text \<open>
  Account health and selection, \<open>crates/wokcore-engine/src/accounts.rs\<close>. The table has 64
  shards, each a mutex around a \<open>BTreeMap\<close>, and one atomic selection counter. An operation
  returns its result and the table after it, since even \<open>status\<close> clears elapsed deadlines.
\<close>

subsection \<open>Data\<close>

datatype account_authentication = AuthForward | AuthOauth | AuthApiKey | AuthLocal

datatype account_state_error =
    InvalidPolicy | InvalidWeight | DuplicateAccountState | TooManyAccounts | UnknownAccount
  | InvalidSnapshot

datatype selection_error = AccountStateFailed account_state_error | NoEligibleAccount

record account_health_policy =
  base_cooldown_ms :: u64
  max_cooldown_ms :: u64

record account_candidate =
  cand_account_id :: account_id
  cand_authentication :: account_authentication
  cand_weight :: u16

datatype account_observation =
    Success
  | RateLimited "u64 option"
  | TemporaryFailure "u64 option"
  | InvalidCredentials
  | InvalidRequest
  | PolicyRejected
  | Quota u64 u64

datatype account_status_kind = Healthy | CoolingDown | QuotaExhausted | Quarantined

record account_status =
  status_kind :: account_status_kind
  status_consecutive_failures :: u8
  status_cooldown_until_ms :: "u64 option"
  status_quota_remaining :: "u64 option"
  status_quota_resets_at_ms :: "u64 option"
  status_selection_count :: u64
  status_last_selected_sequence :: u64
  status_updated_at_ms :: u64

record account_state =
  consecutive_failures :: u8
  cooldown_until_ms :: "u64 option"
  quarantined :: bool
  quota_remaining :: "u64 option"
  quota_resets_at_ms :: "u64 option"
  selection_count :: u64
  last_selected_sequence :: u64
  updated_at_ms :: u64

record account_health_snapshot =
  snap_account_id :: account_id
  snap_consecutive_failures :: u8
  snap_cooldown_until_ms :: "u64 option"
  snap_quarantined :: bool
  snap_quota_remaining :: "u64 option"
  snap_quota_resets_at_ms :: "u64 option"
  snap_selection_count :: u64
  snap_last_selected_sequence :: u64
  snap_updated_at_ms :: u64

record account_health_table =
  table_policy :: account_health_policy
  shards :: "(account_id, account_state) btree list"
  selection_sequence :: u64

datatype account_choice_origin = Affinity | WeightedLeastRecentlyUsed

record account_choice =
  choice_account_id :: account_id
  choice_origin :: account_choice_origin

definition ACCOUNT_SHARDS :: nat where "ACCOUNT_SHARDS = 64"
definition MAX_ACCOUNTS :: nat where "MAX_ACCOUNTS = 256"
definition MAX_WEIGHT :: u16 where "MAX_WEIGHT = 100"
definition MAX_COOLDOWN_MS :: u64 where "MAX_COOLDOWN_MS = 24 * 60 * 60 * 1000"

subsection \<open>Constructors\<close>

definition account_health_policy_new ::
  "u64 \<Rightarrow> u64 \<Rightarrow> account_state_error + account_health_policy" where
  "account_health_policy_new base maximum =
     (if base = 0 \<or> maximum < base \<or> MAX_COOLDOWN_MS < maximum then Err InvalidPolicy
      else Ok \<lparr>base_cooldown_ms = base, max_cooldown_ms = maximum\<rparr>)"

definition account_candidate_new ::
  "account_id \<Rightarrow> account_authentication \<Rightarrow> u16 \<Rightarrow> account_state_error + account_candidate" where
  "account_candidate_new a auth w =
     (if w = 0 \<or> MAX_WEIGHT < w then Err InvalidWeight
      else Ok \<lparr>cand_account_id = a, cand_authentication = auth, cand_weight = w\<rparr>)"

definition account_state_default :: account_state where
  "account_state_default =
     \<lparr>consecutive_failures = 0, cooldown_until_ms = None, quarantined = False,
      quota_remaining = None, quota_resets_at_ms = None, selection_count = 0,
      last_selected_sequence = 0, updated_at_ms = 0\<rparr>"

subsection \<open>One account\<close>

text \<open>\<open>is_some_and (|until| until <= now)\<close>.\<close>

definition elapsed :: "u64 option \<Rightarrow> u64 \<Rightarrow> bool" where
  "elapsed d now = (case d of None \<Rightarrow> False | Some until \<Rightarrow> until \<le> now)"

definition normalize_state :: "u64 \<Rightarrow> account_state \<Rightarrow> account_state" where
  "normalize_state now s0 =
     (let s1 = (if elapsed (cooldown_until_ms s0) now then s0\<lparr>cooldown_until_ms := None\<rparr> else s0)
      in if elapsed (quota_resets_at_ms s1) now
         then s1\<lparr>quota_remaining := None, quota_resets_at_ms := None\<rparr> else s1)"

definition state_status :: "account_state \<Rightarrow> account_status" where
  "state_status s =
     \<lparr>status_kind =
        (if quarantined s then Quarantined
         else if cooldown_until_ms s \<noteq> None then CoolingDown
         else if quota_remaining s = Some 0 then QuotaExhausted
         else Healthy),
      status_consecutive_failures = consecutive_failures s,
      status_cooldown_until_ms = cooldown_until_ms s,
      status_quota_remaining = quota_remaining s,
      status_quota_resets_at_ms = quota_resets_at_ms s,
      status_selection_count = selection_count s,
      status_last_selected_sequence = last_selected_sequence s,
      status_updated_at_ms = updated_at_ms s\<rparr>"

definition checked_shl :: "'a::len word \<Rightarrow> nat \<Rightarrow> 'a word option" where
  "checked_shl w n = (if n < LENGTH('a) then Some (push_bit n w) else None)"

text \<open>The cooldown a failure starts, from the failure count after it.\<close>

definition cooldown_duration :: "account_health_policy \<Rightarrow> u8 \<Rightarrow> u64 option \<Rightarrow> u64" where
  "cooldown_duration policy failures retry_after_ms =
     (let exponent = min (unat (sat_sub failures 1)) 63;
          factor = (case checked_shl 1 exponent of Some w \<Rightarrow> w | None \<Rightarrow> - 1);
          exponential = min (sat_mul (base_cooldown_ms policy) factor) (max_cooldown_ms policy);
          hinted = min (case retry_after_ms of Some ms \<Rightarrow> ms | None \<Rightarrow> 0) (max_cooldown_ms policy)
      in max exponential hinted)"

definition observe_failed ::
  "account_health_policy \<Rightarrow> u64 option \<Rightarrow> u64 \<Rightarrow> account_state \<Rightarrow> account_state" where
  "observe_failed policy retry_after_ms now s =
     (let failures = sat_add (consecutive_failures s) 1
      in s\<lparr>consecutive_failures := failures,
           cooldown_until_ms := Some (sat_add now (cooldown_duration policy failures retry_after_ms))\<rparr>)"

fun apply_observation ::
  "account_health_policy \<Rightarrow> account_observation \<Rightarrow> u64 \<Rightarrow> account_state \<Rightarrow> account_state" where
  "apply_observation policy Success now s =
     s\<lparr>consecutive_failures := 0, cooldown_until_ms := None, quarantined := False,
       quota_remaining := None, quota_resets_at_ms := None\<rparr>"
| "apply_observation policy (RateLimited retry) now s = observe_failed policy retry now s"
| "apply_observation policy (TemporaryFailure retry) now s = observe_failed policy retry now s"
| "apply_observation policy InvalidCredentials now s =
     s\<lparr>consecutive_failures := sat_add (consecutive_failures s) 1, cooldown_until_ms := None,
       quarantined := True\<rparr>"
| "apply_observation policy InvalidRequest now s = s"
| "apply_observation policy PolicyRejected now s = s"
| "apply_observation policy (Quota remaining resets) now s =
     (if resets \<le> now then s\<lparr>quota_remaining := None, quota_resets_at_ms := None\<rparr>
      else s\<lparr>quota_remaining := Some remaining, quota_resets_at_ms := Some resets\<rparr>)"

definition observe_state ::
  "account_health_policy \<Rightarrow> account_observation \<Rightarrow> u64 \<Rightarrow> account_state \<Rightarrow> account_state" where
  "observe_state policy obs now s =
     (let s' = apply_observation policy obs now (normalize_state now s)
      in s'\<lparr>updated_at_ms := max (updated_at_ms s') now\<rparr>)"

definition select_state :: "u64 \<Rightarrow> u64 \<Rightarrow> account_state \<Rightarrow> account_state" where
  "select_state sequence now s =
     s\<lparr>selection_count := sat_add (selection_count s) 1, last_selected_sequence := sequence,
       updated_at_ms := max (updated_at_ms s) now\<rparr>"

subsection \<open>The sharded table\<close>

unbundle bit_operations_syntax

definition fnv_step :: "char \<Rightarrow> u64 \<Rightarrow> u64" where
  "fnv_step b hash = (hash XOR of_char b) * 0x100000001b3"

definition account_shard :: "account_id \<Rightarrow> nat" where
  "account_shard a = unat (fold fnv_step (account_str a) 0xcbf29ce484222325) mod ACCOUNT_SHARDS"

definition lock_shard :: "account_health_table \<Rightarrow> account_id \<Rightarrow> (account_id, account_state) btree" where
  "lock_shard t a = shards t ! account_shard a"

text \<open>The assignment of a shard through its guard.\<close>

definition store_shard ::
  "account_id \<Rightarrow> (account_id, account_state) btree \<Rightarrow> account_health_table \<Rightarrow> account_health_table" where
  "store_shard a m t = t\<lparr>shards := (shards t)[account_shard a := m]\<rparr>"

definition table_new ::
  "account_health_policy \<Rightarrow> account_id list \<Rightarrow> account_state_error + account_health_table" where
  "table_new policy as =
     (if card (set as) \<noteq> length as then Err DuplicateAccountState
      else if MAX_ACCOUNTS < length as then Err TooManyAccounts
      else Ok (fold (\<lambda>a t. store_shard a (bt_insert a account_state_default (lock_shard t a)) t) as
             \<lparr>table_policy = policy, shards = replicate ACCOUNT_SHARDS [], selection_sequence = 0\<rparr>))"

text \<open>\<open>get_mut(account).ok_or(UnknownAccount)\<close> followed by an update of the state.\<close>

definition with_state ::
  "account_id \<Rightarrow> (account_state \<Rightarrow> account_state) \<Rightarrow> account_health_table
     \<Rightarrow> (account_state_error + account_state) \<times> account_health_table" where
  "with_state a f t =
     (case bt_get (lock_shard t a) a of
        None \<Rightarrow> (Err UnknownAccount, t)
      | Some s \<Rightarrow> (Ok (f s), store_shard a (bt_modify a f (lock_shard t a)) t))"

definition observe ::
  "account_id \<Rightarrow> account_observation \<Rightarrow> u64 \<Rightarrow> account_health_table
     \<Rightarrow> (account_state_error + unit) \<times> account_health_table" where
  "observe a obs now t =
     st_then (with_state a (observe_state (table_policy t) obs now) t) (\<lambda>_ t'. (Ok (), t'))"

definition status ::
  "account_id \<Rightarrow> u64 \<Rightarrow> account_health_table
     \<Rightarrow> (account_state_error + account_status) \<times> account_health_table" where
  "status a now t = st_then (with_state a (normalize_state now) t) (\<lambda>s t'. (Ok (state_status s), t'))"

definition snapshot_of :: "account_id \<Rightarrow> account_state \<Rightarrow> account_health_snapshot" where
  "snapshot_of a s =
     \<lparr>snap_account_id = a, snap_consecutive_failures = consecutive_failures s,
      snap_cooldown_until_ms = cooldown_until_ms s, snap_quarantined = quarantined s,
      snap_quota_remaining = quota_remaining s, snap_quota_resets_at_ms = quota_resets_at_ms s,
      snap_selection_count = selection_count s,
      snap_last_selected_sequence = last_selected_sequence s, snap_updated_at_ms = updated_at_ms s\<rparr>"

definition normalize_all :: "u64 \<Rightarrow> account_health_table \<Rightarrow> account_health_table" where
  "normalize_all now t = t\<lparr>shards := map (map (\<lambda>(a, s). (a, normalize_state now s))) (shards t)\<rparr>"

definition snapshots ::
  "u64 \<Rightarrow> account_health_table \<Rightarrow> account_health_snapshot list \<times> account_health_table" where
  "snapshots now t =
     (let t' = normalize_all now t
      in (sort_key snap_account_id (map (\<lambda>(a, s). snapshot_of a s) (concat (shards t'))), t'))"

definition state_of_snapshot :: "account_health_snapshot \<Rightarrow> account_state" where
  "state_of_snapshot p =
     \<lparr>consecutive_failures = snap_consecutive_failures p,
      cooldown_until_ms = snap_cooldown_until_ms p, quarantined = snap_quarantined p,
      quota_remaining = snap_quota_remaining p, quota_resets_at_ms = snap_quota_resets_at_ms p,
      selection_count = snap_selection_count p,
      last_selected_sequence = snap_last_selected_sequence p, updated_at_ms = snap_updated_at_ms p\<rparr>"

definition snapshot_rejected :: "account_health_snapshot \<Rightarrow> bool" where
  "snapshot_rejected p =
     (64 < snap_consecutive_failures p
      \<or> snap_last_selected_sequence p < snap_selection_count p
      \<or> (snap_selection_count p = 0 \<and> snap_last_selected_sequence p \<noteq> 0)
      \<or> (snap_cooldown_until_ms p \<noteq> None \<and> snap_quarantined p)
      \<or> (snap_quota_remaining p \<noteq> None) \<noteq> (snap_quota_resets_at_ms p \<noteq> None))"

text \<open>The loop of \<open>restore\<close>, with the set of restored accounts and the maximal sequence.\<close>

fun restore_loop ::
  "u64 \<Rightarrow> account_health_snapshot list \<Rightarrow> account_id set \<Rightarrow> u64 \<Rightarrow> account_health_table
     \<Rightarrow> account_state_error + (u64 \<times> account_health_table)" where
  "restore_loop now [] restored maximum t = Ok (maximum, t)"
| "restore_loop now (p # ps) restored maximum t =
     (if snap_account_id p \<in> restored then Err InvalidSnapshot
      else if snapshot_rejected p then Err InvalidSnapshot
      else (case with_state (snap_account_id p) (\<lambda>_. normalize_state now (state_of_snapshot p)) t of
          (Inl e, _) \<Rightarrow> Err e
        | (Inr _, t') \<Rightarrow>
            restore_loop now ps (insert (snap_account_id p) restored)
              (max maximum (snap_last_selected_sequence p)) t'))"

definition restore ::
  "account_health_policy \<Rightarrow> account_id list \<Rightarrow> account_health_snapshot list \<Rightarrow> u64
     \<Rightarrow> account_state_error + account_health_table" where
  "restore policy as ps now =
     and_then (table_new policy as) (\<lambda>t.
     and_then (restore_loop now ps {} 0 t) (\<lambda>(maximum, t').
       Ok (t'\<lparr>selection_sequence := maximum\<rparr>)))"

definition reconfigured ::
  "account_id list \<Rightarrow> u64 \<Rightarrow> account_health_table
     \<Rightarrow> (account_state_error + account_health_table) \<times> account_health_table" where
  "reconfigured as now t =
     (let (ps, t') = snapshots now t
      in (restore (table_policy t) as (filter (\<lambda>p. snap_account_id p \<in> set as) ps) now, t'))"

subsection \<open>Selection\<close>

text \<open>
  The two steps of \<open>mark_selected\<close>. \<open>fetch_add\<close> wraps and returns the old value, to which the code adds
  one saturating; the shard is locked only after that, so another thread may come in between. The
  counter advances even when the account is unknown.
\<close>

definition take_sequence :: "account_health_table \<Rightarrow> u64 \<times> account_health_table" where
  "take_sequence t =
     (sat_add (selection_sequence t) 1, t\<lparr>selection_sequence := selection_sequence t + 1\<rparr>)"

definition record_selection ::
  "account_id \<Rightarrow> u64 \<Rightarrow> u64 \<Rightarrow> account_health_table \<Rightarrow> (selection_error + unit) \<times> account_health_table" where
  "record_selection a sequence now t =
     (case with_state a (select_state sequence now) t of
        (Inl e, t') \<Rightarrow> (Err (AccountStateFailed e), t')
      | (Inr _, t') \<Rightarrow> (Ok (), t'))"

definition mark_selected ::
  "account_id \<Rightarrow> u64 \<Rightarrow> account_health_table \<Rightarrow> (selection_error + unit) \<times> account_health_table" where
  "mark_selected a now t =
     (let (sequence, t1) = take_sequence t in record_selection a sequence now t1)"

text \<open>The comparison is \<open>Less\<close>: the scores are \<open>u128\<close> products, which do not overflow.\<close>

definition weighted_usage_less ::
  "account_candidate \<Rightarrow> account_status \<Rightarrow> account_candidate \<Rightarrow> account_status \<Rightarrow> bool" where
  "weighted_usage_less left left_status right right_status =
     (let left_score = unat (status_selection_count left_status) * unat (cand_weight right);
          right_score = unat (status_selection_count right_status) * unat (cand_weight left)
      in left_score < right_score
         \<or> (left_score = right_score
            \<and> status_last_selected_sequence left_status < status_last_selected_sequence right_status))"

definition make_choice ::
  "account_id \<Rightarrow> account_choice_origin \<Rightarrow> u64 \<Rightarrow> account_health_table
     \<Rightarrow> (selection_error + account_choice) \<times> account_health_table" where
  "make_choice a origin now t =
     st_then (mark_selected a now t)
       (\<lambda>_ t'. (Ok \<lparr>choice_account_id = a, choice_origin = origin\<rparr>, t'))"

definition better ::
  "account_candidate \<Rightarrow> account_status \<Rightarrow> (account_candidate \<times> account_status) option \<Rightarrow> bool" where
  "better c st best =
     (case best of None \<Rightarrow> True
      | Some (current, current_status) \<Rightarrow> weighted_usage_less c st current current_status)"

fun select_loop ::
  "account_candidate list \<Rightarrow> account_authentication \<Rightarrow> account_id option \<Rightarrow> u64
     \<Rightarrow> (account_candidate \<times> account_status) option \<Rightarrow> account_health_table
     \<Rightarrow> (selection_error + account_choice) \<times> account_health_table" where
  "select_loop [] auth affinity now best t =
     (case best of None \<Rightarrow> (Err NoEligibleAccount, t)
      | Some (c, _) \<Rightarrow> make_choice (cand_account_id c) WeightedLeastRecentlyUsed now t)"
| "select_loop (c # cs) auth affinity now best t =
     (if cand_authentication c \<noteq> auth then select_loop cs auth affinity now best t
      else (case status (cand_account_id c) now t of
          (Inl e, t') \<Rightarrow> (Err (AccountStateFailed e), t')
        | (Inr st, t') \<Rightarrow>
            if status_kind st \<noteq> Healthy then select_loop cs auth affinity now best t'
            else if affinity = Some (cand_account_id c)
            then make_choice (cand_account_id c) Affinity now t'
            else select_loop cs auth affinity now
                   (if better c st best then Some (c, st) else best) t'))"

definition select_from ::
  "account_candidate list \<Rightarrow> account_authentication \<Rightarrow> account_id option \<Rightarrow> u64
     \<Rightarrow> account_health_table \<Rightarrow> (selection_error + account_choice) \<times> account_health_table" where
  "select_from cs auth affinity now t = select_loop cs auth affinity now None t"

subsection \<open>The table as a map\<close>

text \<open>
  \<open>account_map\<close> forgets the shards. Well-formedness says that every account is stored in the
  shard its hash names, so a lookup in that shard sees the whole table.
\<close>

definition account_map :: "account_health_table \<Rightarrow> account_id \<Rightarrow> account_state option" where
  "account_map t a = bt_get (lock_shard t a) a"

definition table_wf :: "account_health_table \<Rightarrow> bool" where
  "table_wf t =
     (length (shards t) = ACCOUNT_SHARDS
      \<and> (\<forall>i < ACCOUNT_SHARDS. bt_wf (shards t ! i)
           \<and> (\<forall>a \<in> fst ` set (shards t ! i). account_shard a = i)))"

lemma account_shard_less [simp]: "account_shard a < ACCOUNT_SHARDS"
  by (simp add: account_shard_def ACCOUNT_SHARDS_def)

lemma lock_shard_store:
  assumes "table_wf t"
  shows "lock_shard (store_shard a m t) b =
    (if account_shard b = account_shard a then m else lock_shard t b)"
  using assms by (simp add: lock_shard_def store_shard_def table_wf_def nth_list_update)

lemma store_shard_wf:
  assumes "table_wf t" and "bt_wf m" and "\<forall>b \<in> fst ` set m. account_shard b = account_shard a"
  shows "table_wf (store_shard a m t)"
  using assms by (auto simp: table_wf_def store_shard_def nth_list_update)

lemma lock_shard_wf [simp]: "table_wf t \<Longrightarrow> bt_wf (lock_shard t a)"
  by (simp add: table_wf_def lock_shard_def)

lemma lock_shard_keys: "table_wf t \<Longrightarrow> b \<in> fst ` set (lock_shard t a) \<Longrightarrow> account_shard b = account_shard a"
  using account_shard_less [of a] unfolding table_wf_def lock_shard_def by blast

lemma lock_shard_cong: "account_shard b = account_shard a \<Longrightarrow> lock_shard t b = lock_shard t a"
  by (simp add: lock_shard_def)

lemma store_shard_simps [simp]:
  "table_policy (store_shard a m t) = table_policy t"
  "selection_sequence (store_shard a m t) = selection_sequence t"
  by (simp_all add: store_shard_def)

lemma table_sequence_simps [simp]:
  "table_wf (t\<lparr>selection_sequence := n\<rparr>) = table_wf t"
  "account_map (t\<lparr>selection_sequence := n\<rparr>) = account_map t"
  by (simp_all add: table_wf_def account_map_def lock_shard_def fun_eq_iff)

definition update_account ::
  "account_id \<Rightarrow> (account_state \<Rightarrow> account_state) \<Rightarrow> account_health_table \<Rightarrow> account_health_table" where
  "update_account a f t = store_shard a (bt_modify a f (lock_shard t a)) t"

lemma update_account_simps [simp]:
  "table_policy (update_account a f t) = table_policy t"
  "selection_sequence (update_account a f t) = selection_sequence t"
  by (simp_all add: update_account_def)

lemma bt_modify_fst: "fst ` set (bt_modify k f m) = fst ` set m"
  by (simp flip: set_map)

lemma update_account_wf [simp]: "table_wf t \<Longrightarrow> table_wf (update_account a f t)"
  unfolding update_account_def
  by (intro store_shard_wf bt_modify_wf) (auto simp: bt_modify_fst dest: lock_shard_keys)

lemma account_map_update:
  "table_wf t \<Longrightarrow> account_map (update_account a f t) =
     (\<lambda>b. if b = a then map_option f (account_map t a) else account_map t b)"
proof (rule ext)
  fix b
  assume "table_wf t"
  moreover have "account_shard b = account_shard a \<Longrightarrow> lock_shard t b = lock_shard t a"
    by (rule lock_shard_cong)
  ultimately show "account_map (update_account a f t) b =
      (if b = a then map_option f (account_map t a) else account_map t b)"
    by (cases "account_shard b = account_shard a")
      (auto simp: account_map_def update_account_def lock_shard_store bt_get_modify)
qed

lemma with_state_eq:
  "with_state a f t =
     (case account_map t a of None \<Rightarrow> (Err UnknownAccount, t)
      | Some s \<Rightarrow> (Ok (f s), update_account a f t))"
  by (simp add: with_state_def account_map_def update_account_def cong: option.case_cong)

lemma table_new_fold:
  assumes "table_wf t"
  shows "table_wf (fold (\<lambda>a t. store_shard a (bt_insert a d (lock_shard t a)) t) as t)
    \<and> account_map (fold (\<lambda>a t. store_shard a (bt_insert a d (lock_shard t a)) t) as t)
        = (\<lambda>a. if a \<in> set as then Some d else account_map t a)
    \<and> table_policy (fold (\<lambda>a t. store_shard a (bt_insert a d (lock_shard t a)) t) as t) = table_policy t
    \<and> selection_sequence (fold (\<lambda>a t. store_shard a (bt_insert a d (lock_shard t a)) t) as t)
        = selection_sequence t"
  using assms
proof (induction as arbitrary: t)
  case (Cons a as)
  let ?t = "store_shard a (bt_insert a d (lock_shard t a)) t"
  have wf: "table_wf ?t"
    using Cons.prems
    by (intro store_shard_wf bt.wf_insert) (auto simp: set_bt_insert dest: lock_shard_keys)
  have map: "account_map ?t b = ((account_map t)(a \<mapsto> d)) b" for b
    using Cons.prems lock_shard_cong [of b a t]
    by (cases "account_shard b = account_shard a")
      (auto simp: account_map_def lock_shard_store bt.get_insert)
  from Cons.IH [OF wf] show ?case by (auto simp: map fun_eq_iff)
qed simp

lemma table_new_ok:
  assumes "table_new policy as = Ok t"
  shows "table_wf t \<and> table_policy t = policy \<and> selection_sequence t = 0
    \<and> account_map t = (\<lambda>a. if a \<in> set as then Some account_state_default else None)
    \<and> distinct as \<and> length as \<le> MAX_ACCOUNTS"
proof -
  let ?e = "\<lparr>table_policy = policy, shards = replicate ACCOUNT_SHARDS [], selection_sequence = 0\<rparr>"
  have "table_wf ?e" by (simp add: table_wf_def)
  moreover have "account_map ?e = (\<lambda>_. None)"
    by (simp add: account_map_def lock_shard_def fun_eq_iff)
  ultimately show ?thesis
    using assms table_new_fold [of ?e account_state_default as]
    by (auto simp: table_new_def card_distinct split: if_splits)
qed

lemma table_new_total: "distinct as \<Longrightarrow> length as \<le> MAX_ACCOUNTS \<Longrightarrow> \<exists>t. table_new policy as = Ok t"
  by (simp add: table_new_def distinct_card)

subsection \<open>Elapsed deadlines\<close>

lemma elapsed_simps [simp]: "\<not> elapsed None now" "elapsed (Some d) now \<longleftrightarrow> d \<le> now"
  by (simp_all add: elapsed_def)

lemma normalize_state_simps [simp]:
  "consecutive_failures (normalize_state now s) = consecutive_failures s"
  "quarantined (normalize_state now s) = quarantined s"
  "selection_count (normalize_state now s) = selection_count s"
  "last_selected_sequence (normalize_state now s) = last_selected_sequence s"
  "updated_at_ms (normalize_state now s) = updated_at_ms s"
  "cooldown_until_ms (normalize_state now s) =
     (if elapsed (cooldown_until_ms s) now then None else cooldown_until_ms s)"
  "quota_remaining (normalize_state now s) =
     (if elapsed (quota_resets_at_ms s) now then None else quota_remaining s)"
  "quota_resets_at_ms (normalize_state now s) =
     (if elapsed (quota_resets_at_ms s) now then None else quota_resets_at_ms s)"
  by (simp_all add: normalize_state_def Let_def)

lemma normalize_state_idem: "n \<le> m \<Longrightarrow> normalize_state m (normalize_state n s) = normalize_state m s"
  by (intro account_state.equality) (auto simp: elapsed_def split: option.splits)

lemma normalize_state_twice [simp]: "normalize_state n (normalize_state n s) = normalize_state n s"
  by (simp add: normalize_state_idem)

text \<open>The status every reader of the table sees at a time.\<close>

definition health :: "account_health_table \<Rightarrow> u64 \<Rightarrow> account_id \<Rightarrow> account_status option" where
  "health t now a = map_option (\<lambda>s. state_status (normalize_state now s)) (account_map t a)"

lemma status_eq:
  "status a now t =
     (case health t now a of None \<Rightarrow> (Err UnknownAccount, t)
      | Some st \<Rightarrow> (Ok st, update_account a (normalize_state now) t))"
  by (simp add: status_def with_state_eq health_def split: option.split)

lemma health_update_normalize [simp]:
  "table_wf t \<Longrightarrow> health (update_account a (normalize_state now) t) now = health t now"
  by (auto simp: health_def account_map_update fun_eq_iff option.map_comp comp_def)

lemma observe_eq:
  "observe a obs now t =
     (case account_map t a of None \<Rightarrow> (Err UnknownAccount, t)
      | Some s \<Rightarrow> (Ok (), update_account a (observe_state (table_policy t) obs now) t))"
  by (simp add: observe_def with_state_eq split: option.split)

subsection \<open>Selection picks a healthy account with the least weighted use\<close>

definition eligible ::
  "(account_id \<Rightarrow> account_status option) \<Rightarrow> account_authentication \<Rightarrow> account_candidate \<Rightarrow> bool" where
  "eligible h auth c =
     (cand_authentication c = auth
      \<and> (\<exists>st. h (cand_account_id c) = Some st \<and> status_kind st = Healthy))"

definition usage_le ::
  "(account_id \<Rightarrow> account_status option) \<Rightarrow> account_candidate \<Rightarrow> account_candidate \<Rightarrow> bool" where
  "usage_le h c d =
     (\<not> weighted_usage_less d (the (h (cand_account_id d))) c (the (h (cand_account_id c))))"

lemma cross_mult_trans:
  fixes a b c u v w :: nat
  assumes "a * v \<le> b * u" and "b * w \<le> c * v" and "0 < v"
  shows "a * w \<le> c * u"
proof -
  have "a * w * v \<le> b * u * w" using assms(1) by (simp add: ac_simps)
  also have "\<dots> \<le> c * v * u" using assms(2) by (simp add: ac_simps)
  finally have "a * w * v \<le> c * u * v" by (simp add: ac_simps)
  then show ?thesis using assms(3) by simp
qed

text \<open>Two steps that end in a tie are ties themselves.\<close>

lemma cross_mult_tie:
  fixes a b c u v w :: nat
  assumes "a * v \<le> b * u" and "b * w \<le> c * v" and "a * w = c * u"
    and "0 < u" and "0 < v" and "0 < w"
  shows "a * v = b * u \<and> b * w = c * v"
proof -
  have "b * u \<le> a * v" 
    by (rule cross_mult_trans [where b = c and v = w]) (use assms in simp_all)
  moreover have "c * v \<le> b * w" 
    by (rule cross_mult_trans [where b = a and v = u]) (use assms in simp_all)
  ultimately show ?thesis using assms by simp
qed

lemma usage_le_refl [simp]: "usage_le h c c"
  by (simp add: usage_le_def weighted_usage_less_def)

lemma usage_le_trans:
  assumes le: "usage_le h a b" "usage_le h b c"
    and weights: "cand_weight a \<noteq> 0" "cand_weight b \<noteq> 0" "cand_weight c \<noteq> 0"
  shows "usage_le h a c"
proof -
  let ?n = "\<lambda>c. unat (status_selection_count (the (h (cand_account_id c))))"
  let ?w = "\<lambda>c. unat (cand_weight c)"
  let ?s = "\<lambda>c. status_last_selected_sequence (the (h (cand_account_id c)))"
  have rep: "usage_le h c d \<longleftrightarrow> ?n c * ?w d \<le> ?n d * ?w c \<and> (?n c * ?w d = ?n d * ?w c \<longrightarrow> ?s c \<le> ?s d)"
    for c d by (auto simp: usage_le_def weighted_usage_less_def Let_def)
  from weights have pos: "0 < ?w a" "0 < ?w b" "0 < ?w c" by (simp_all add: unat_gt_0)
  from le rep have ab: "?n a * ?w b \<le> ?n b * ?w a" and bc: "?n b * ?w c \<le> ?n c * ?w b" by blast+
  from cross_mult_tie [OF ab bc _ pos] le have "?n a * ?w c = ?n c * ?w a \<longrightarrow> ?s a \<le> ?s c"
    unfolding rep by (blast intro: order_trans)
  with cross_mult_trans [OF ab bc pos(2)] show ?thesis unfolding rep by blast
qed

end
