(* ===== verification/Account_Health.thy ===== *)
theory Account_Health
  imports Accounts
begin

text \<open>
  What the account table of \<open>Accounts\<close> guarantees: selection takes a healthy account with the
  least weighted use, a failure keeps its account out of selection until its cooldown ends, and
  a table survives \<open>snapshots\<close> followed by \<open>restore\<close> exactly when its states are restorable.
\<close>

subsection \<open>Selection\<close>

lemma mark_selected_eq:
  "mark_selected a now t =
     (let t1 = t\<lparr>selection_sequence := selection_sequence t + 1\<rparr> in
      case account_map t a of
        None \<Rightarrow> (Err (AccountStateFailed UnknownAccount), t1)
      | Some s \<Rightarrow>
          (Ok (), update_account a (select_state (sat_add (selection_sequence t) 1) now) t1))"
  by (simp add: mark_selected_def take_sequence_def record_selection_def with_state_eq Let_def split: option.split)

lemma make_choice_known:
  assumes "health t now a \<noteq> None"
  shows "make_choice a origin now t =
    (Ok \<lparr>choice_account_id = a, choice_origin = origin\<rparr>,
     update_account a (select_state (sat_add (selection_sequence t) 1) now)
       (t\<lparr>selection_sequence := selection_sequence t + 1\<rparr>))"
  using assms by (auto simp: make_choice_def mark_selected_eq health_def Let_def)

text \<open>What the loop has found before it looks at the remaining candidates.\<close>

definition best_ok ::
  "(account_id \<Rightarrow> account_status option) \<Rightarrow> account_authentication \<Rightarrow> account_id option
     \<Rightarrow> (account_candidate \<times> account_status) option \<Rightarrow> bool" where
  "best_ok h auth affinity best =
     (case best of None \<Rightarrow> True
      | Some (c, st) \<Rightarrow> h (cand_account_id c) = Some st \<and> eligible h auth c \<and> cand_weight c \<noteq> 0
          \<and> affinity \<noteq> Some (cand_account_id c))"

abbreviation seen_candidates ::
  "(account_candidate \<times> account_status) option \<Rightarrow> account_candidate set" where
  "seen_candidates best \<equiv> fst ` set_option best"

text \<open>The choice a selection may return among the candidates.\<close>

definition choice_ok ::
  "(account_id \<Rightarrow> account_status option) \<Rightarrow> account_authentication \<Rightarrow> account_id option
     \<Rightarrow> account_candidate set \<Rightarrow> account_choice \<Rightarrow> bool" where
  "choice_ok h auth affinity cs ch =
     (\<exists>c \<in> cs. cand_account_id c = choice_account_id ch \<and> eligible h auth c
        \<and> (case choice_origin ch of
             Affinity \<Rightarrow> affinity = Some (cand_account_id c)
           | WeightedLeastRecentlyUsed \<Rightarrow>
               (\<forall>d \<in> cs. eligible h auth d \<longrightarrow> affinity \<noteq> Some (cand_account_id d) \<and> usage_le h c d)))"

lemma choice_ok_drop:
  "choice_ok h auth affinity cs ch \<Longrightarrow> \<not> eligible h auth d
     \<Longrightarrow> choice_ok h auth affinity (insert d cs) ch"
  unfolding choice_ok_def by (cases "choice_origin ch") auto

lemma choice_ok_replace:
  assumes "choice_ok h auth affinity cs ch" and "c \<in> cs" and "usage_le h c d"
    and "affinity \<noteq> Some (cand_account_id d)" and "\<forall>c \<in> insert d cs. cand_weight c \<noteq> 0"
    and "eligible h auth c"
  shows "choice_ok h auth affinity (insert d cs) ch"
proof -
  from assms(1) obtain b where b: "b \<in> cs" "cand_account_id b = choice_account_id ch"
    "eligible h auth b" and ch: "case choice_origin ch of
       Affinity \<Rightarrow> affinity = Some (cand_account_id b)
     | WeightedLeastRecentlyUsed \<Rightarrow>
         (\<forall>d \<in> cs. eligible h auth d \<longrightarrow> affinity \<noteq> Some (cand_account_id d) \<and> usage_le h b d)"
    by (auto simp: choice_ok_def)
  show ?thesis
  proof (cases "choice_origin ch")
    case Affinity
    with b ch show ?thesis by (auto simp: choice_ok_def)
  next
    case WeightedLeastRecentlyUsed
    with ch assms(2,6) have "usage_le h b c" by simp
    from usage_le_trans [OF this assms(3)] assms(2,5) b(1) have "usage_le h b d" by simp
    with b ch assms(4) WeightedLeastRecentlyUsed show ?thesis
      unfolding choice_ok_def by (intro bexI [of _ b]) auto
  qed
qed

lemma usage_le_total: "\<not> usage_le h c d \<Longrightarrow> usage_le h d c"
  by (auto simp: usage_le_def weighted_usage_less_def Let_def)

lemma choice_ok_best:
  assumes ih: "choice_ok h auth affinity
      (S \<union> seen_candidates (if better d st best then Some (d, st) else best)) ch"
    and best: "best_ok h auth affinity best" and st: "h (cand_account_id d) = Some st"
    and d: "eligible h auth d" "affinity \<noteq> Some (cand_account_id d)"
    and weights: "\<forall>c \<in> insert d S. cand_weight c \<noteq> 0"
  shows "choice_ok h auth affinity (insert d S \<union> seen_candidates best) ch"
proof (cases best)
  case None
  with ih show ?thesis by (simp add: better_def)
next
  case (Some b)
  then obtain c sc where b: "best = Some (c, sc)" by (cases b) auto
  with best have c: "h (cand_account_id c) = Some sc" "eligible h auth c"
    "cand_weight c \<noteq> 0" "affinity \<noteq> Some (cand_account_id c)" by (simp_all add: best_ok_def)
  have better: "better d st best \<longleftrightarrow> \<not> usage_le h c d"
    using st c(1) by (simp add: better_def b usage_le_def)
  show ?thesis
  proof (cases "usage_le h c d")
    case True
    with ih better b have "choice_ok h auth affinity (insert c S) ch" by simp
    from choice_ok_replace [OF this _ True d(2)] c weights b show ?thesis
      by (simp add: insert_commute)
  next
    case False
    with ih better have "choice_ok h auth affinity (insert d S) ch" by simp
    from choice_ok_replace [OF this _ usage_le_total [OF False] c(4)] c weights b d(1) show ?thesis
      by (simp add: insert_commute)
  qed
qed

lemma select_loop_sound:
  assumes "select_loop cs auth affinity now best t = (Ok ch, t')" and "table_wf t"
    and "health t now = h" and "best_ok h auth affinity best"
    and "\<forall>c \<in> set cs. cand_weight c \<noteq> 0"
  shows "choice_ok h auth affinity (set cs \<union> seen_candidates best) ch"
  using assms
proof (induction cs arbitrary: best t)
  case Nil
  then obtain c st where best: "best = Some (c, st)" by (cases best) auto
  with Nil.prems have "eligible h auth c" "affinity \<noteq> Some (cand_account_id c)"
    "health t now (cand_account_id c) \<noteq> None" by (auto simp: best_ok_def)
  with Nil.prems(1) show ?case by (auto simp: best make_choice_known choice_ok_def)
next
  case (Cons d cs)
  show ?case
  proof (cases "eligible h auth d")
    case False
    have "\<exists>t''. select_loop cs auth affinity now best t'' = (Ok ch, t') \<and> table_wf t'' \<and> health t'' now = h"
      using Cons.prems False
      by (auto simp: status_eq eligible_def split: option.splits if_splits)
    with Cons.IH Cons.prems(4,5) have "choice_ok h auth affinity (set cs \<union> seen_candidates best) ch"
      by auto
    from choice_ok_drop [OF this False] show ?thesis by simp
  next
    case True
    then obtain st where st: "h (cand_account_id d) = Some st" "status_kind st = Healthy"
      and auth: "cand_authentication d = auth" by (auto simp: eligible_def)
    define t1 where "t1 = update_account (cand_account_id d) (normalize_state now) t"
    have status: "status (cand_account_id d) now t = (Ok st, t1)"
      using Cons.prems(3) st by (simp add: status_eq t1_def)
    have t1: "table_wf t1" "health t1 now = h" using Cons.prems(2,3) by (simp_all add: t1_def)
    show ?thesis
    proof (cases "affinity = Some (cand_account_id d)")
      case aff: True
      with Cons.prems(1) auth st(2) status t1(2) st(1) True show ?thesis
        by (auto simp: make_choice_known choice_ok_def)
    next
      case aff: False
      let ?best = "if better d st best then Some (d, st) else best"
      have loop: "select_loop cs auth affinity now ?best t1 = (Ok ch, t')"
        using Cons.prems(1) auth st(2) status aff by simp
      have best: "best_ok h auth affinity ?best"
        using Cons.prems(4,5) st True aff by (simp add: best_ok_def)
      from Cons.IH [OF loop t1 best] Cons.prems(5)
      have ih: "choice_ok h auth affinity (set cs \<union> seen_candidates ?best) ch" by simp
      from choice_ok_best [OF ih Cons.prems(4) st(1) True aff] Cons.prems(5) show ?thesis by simp
    qed
  qed
qed

text \<open>With every candidate registered, the loop fails only when no candidate is eligible.\<close>

lemma select_loop_total:
  assumes "table_wf t" and "health t now = h" and "best_ok h auth affinity best"
    and "\<forall>c \<in> set cs. cand_authentication c = auth \<longrightarrow> h (cand_account_id c) \<noteq> None"
    and "\<forall>c \<in> set cs. cand_weight c \<noteq> 0"
  shows "(\<exists>ch t'. select_loop cs auth affinity now best t = (Ok ch, t'))
    \<or> (best = None \<and> (\<forall>c \<in> set cs. \<not> eligible h auth c)
       \<and> (\<exists>t'. select_loop cs auth affinity now best t = (Err NoEligibleAccount, t')))"
  using assms
proof (induction cs arbitrary: best t)
  case Nil
  then show ?case by (auto simp: best_ok_def make_choice_known split: option.splits)
next
  case (Cons d cs)
  have tail: "\<forall>c \<in> set cs. cand_authentication c = auth \<longrightarrow> h (cand_account_id c) \<noteq> None"
    "\<forall>c \<in> set cs. cand_weight c \<noteq> 0" using Cons.prems by auto
  show ?case
  proof (cases "cand_authentication d = auth")
    case False
    with Cons.IH [OF Cons.prems(1-3) tail] show ?thesis by (auto simp: eligible_def)
  next
    case auth: True
    with Cons.prems(4) obtain st where st: "h (cand_account_id d) = Some st" by auto
    define t1 where "t1 = update_account (cand_account_id d) (normalize_state now) t"
    have status: "status (cand_account_id d) now t = (Ok st, t1)"
      using Cons.prems(2) st by (simp add: status_eq t1_def)
    have t1: "table_wf t1" "health t1 now = h" using Cons.prems(1,2) by (simp_all add: t1_def)
    show ?thesis
    proof (cases "status_kind st = Healthy \<and> affinity \<noteq> Some (cand_account_id d)")
      case True
      let ?best = "if better d st best then Some (d, st) else best"
      have "best_ok h auth affinity ?best"
        using Cons.prems(3,5) st auth True by (simp add: best_ok_def eligible_def)
      from Cons.IH [OF t1 this tail] True auth status show ?thesis
        by (auto simp: better_def split: if_splits option.splits)
    next
      case False
      from Cons.IH [OF t1 Cons.prems(3) tail] False auth status st t1(2) show ?thesis
        by (auto simp: eligible_def make_choice_known)
    qed
  qed
qed

subsection \<open>Cooldowns\<close>

definition policy_ok :: "account_health_policy \<Rightarrow> bool" where
  "policy_ok p = (0 < base_cooldown_ms p \<and> base_cooldown_ms p \<le> max_cooldown_ms p
                  \<and> max_cooldown_ms p \<le> MAX_COOLDOWN_MS)"

lemma account_health_policy_new_ok:
  "account_health_policy_new b m = Ok p \<longleftrightarrow>
     p = \<lparr>base_cooldown_ms = b, max_cooldown_ms = m\<rparr> \<and> policy_ok p"
  by (auto simp: account_health_policy_new_def policy_ok_def word_neq_0_conv [symmetric])

lemma unat_power_2: "n < 64 \<Longrightarrow> unat (2 ^ n :: u64) = 2 ^ n"
proof -
  assume "n < 64"
  have "unat (push_bit n 1 :: u64) = take_bit 64 (push_bit n 1)"
    unfolding unsigned_push_bit_eq by simp
  moreover from \<open>n < 64\<close> have "(2 :: nat) ^ n < 2 ^ 64" by (rule power_strict_increasing) simp
  ultimately show ?thesis by (simp add: take_bit_eq_mod)
qed

text \<open>The saturating arithmetic computes the bounded exponential of the mathematical values.\<close>

lemma cooldown_duration_value:
  "unat (cooldown_duration p f retry) =
     max (min (unat (base_cooldown_ms p) * 2 ^ min (unat f - 1) 63) (unat (max_cooldown_ms p)))
         (min (case retry of None \<Rightarrow> 0 | Some ms \<Rightarrow> unat ms) (unat (max_cooldown_ms p)))"
proof -
  define e where "e = min (unat f - 1) 63"
  have e: "min (unat (sat_sub f 1)) 63 = e" by (simp add: unat_sat_sub e_def)
  have e64: "e < 64" by (simp add: e_def)
  then have shl: "checked_shl (1 :: u64) e = Some (push_bit e 1)" by (simp add: checked_shl_def)
  have cap: "min (min n (2 ^ 64 - 1)) (unat (max_cooldown_ms p)) = min n (unat (max_cooldown_ms p))" for n
    using unat_less_exp [of "max_cooldown_ms p"] by simp
  have "unat (cooldown_duration p f retry) =
      max (min (unat (base_cooldown_ms p) * 2 ^ e) (unat (max_cooldown_ms p)))
          (min (case retry of None \<Rightarrow> 0 | Some ms \<Rightarrow> unat ms) (unat (max_cooldown_ms p)))"
    using cap by (simp add: cooldown_duration_def Let_def e shl unat_max unat_min unat_sat_mul
        unat_power_2 e64 split: option.split)
  then show ?thesis by (simp add: e_def)
qed

lemma cooldown_duration_bounds:
  assumes "policy_ok p"
  shows "base_cooldown_ms p \<le> cooldown_duration p f retry"
    and "cooldown_duration p f retry \<le> max_cooldown_ms p"
proof -
  have "unat (base_cooldown_ms p) * 1 \<le> unat (base_cooldown_ms p) * 2 ^ min (unat f - 1) 63"
    by (intro mult_le_mono) simp_all
  moreover have "unat (base_cooldown_ms p) \<le> unat (max_cooldown_ms p)"
    using assms by (simp add: policy_ok_def word_le_nat_alt)
  ultimately show "base_cooldown_ms p \<le> cooldown_duration p f retry"
    and "cooldown_duration p f retry \<le> max_cooldown_ms p"
    unfolding word_le_nat_alt cooldown_duration_value by linarith+
qed

fun failure_retry :: "account_observation \<Rightarrow> u64 option option" where
  "failure_retry (RateLimited r) = Some r"
| "failure_retry (TemporaryFailure r) = Some r"
| "failure_retry _ = None"

lemma observe_state_failed:
  assumes "failure_retry obs = Some r"
  shows "cooldown_until_ms (observe_state p obs now s) =
      Some (sat_add now (cooldown_duration p (sat_add (consecutive_failures s) 1) r))"
    and "quarantined (observe_state p obs now s) = quarantined s"
    and "consecutive_failures (observe_state p obs now s) = sat_add (consecutive_failures s) 1"
  using assms by (cases obs; simp add: observe_state_def observe_failed_def Let_def)+

lemma observe_state_simps [simp]:
  "selection_count (observe_state p obs now s) = selection_count s"
  "last_selected_sequence (observe_state p obs now s) = last_selected_sequence s"
  by (cases obs; simp add: observe_state_def observe_failed_def Let_def)+

lemma status_kind_cooling:
  "cooldown_until_ms s = Some d \<Longrightarrow> m < d \<Longrightarrow> status_kind (state_status (normalize_state m s)) \<noteq> Healthy"
  by (auto simp: state_status_def)

subsection \<open>Invariants of a table under its operations\<close>

datatype account_op =
    ObserveOp account_id account_observation u64
  | StatusOp account_id u64
  | SnapshotsOp u64
  | SelectOp "account_candidate list" account_authentication "account_id option" u64

fun run_account_op :: "account_health_table \<Rightarrow> account_op \<Rightarrow> account_health_table" where
  "run_account_op t (ObserveOp a obs now) = snd (observe a obs now t)"
| "run_account_op t (StatusOp a now) = snd (status a now t)"
| "run_account_op t (SnapshotsOp now) = snd (snapshots now t)"
| "run_account_op t (SelectOp cs auth aff now) = snd (select_from cs auth aff now t)"

lemma select_loop_preserves:
  assumes "I t"
    and "\<And>a t. I t \<Longrightarrow> I (update_account a (normalize_state now) t)"
    and "\<And>a origin t. I t \<Longrightarrow> J (snd (make_choice a origin now t))"
    and "\<And>t. I t \<Longrightarrow> J t"
  shows "J (snd (select_loop cs auth affinity now best t))"
  using assms(1)
proof (induction cs arbitrary: best t)
  case Nil
  then show ?case using assms(3,4) by (auto split: option.split)
next
  case (Cons d cs)
  then have "I (update_account (cand_account_id d) (normalize_state now) t)" by (intro assms(2))
  with Cons assms(3,4) show ?case by (simp add: status_eq split: option.split)
qed

lemma normalize_all_shard:
  "lock_shard (normalize_all now t) a = map (\<lambda>(a, s). (a, normalize_state now s)) (lock_shard t a)"
  if "table_wf t"
  using that by (simp add: normalize_all_def lock_shard_def table_wf_def)

lemma map_of_map_value: "map_of (map (\<lambda>(k, v). (k, f v)) m) k = map_option f (map_of m k)"
  by (induction m) auto

lemma account_map_normalize_all:
  "table_wf t \<Longrightarrow> account_map (normalize_all now t) a = map_option (normalize_state now) (account_map t a)"
  by (simp add: account_map_def normalize_all_shard bt_get_def map_of_map_value)

lemma map_fst_value: "map fst (map (\<lambda>(k, v). (k, f v)) m) = map fst m"
  by (induction m) auto

lemma normalize_all_wf [simp]: "table_wf t \<Longrightarrow> table_wf (normalize_all now t)"
  unfolding table_wf_def normalize_all_def
  by (simp flip: set_map add: map_fst_value del: map_map)

lemma normalize_all_simps [simp]:
  "table_policy (normalize_all now t) = table_policy t"
  "selection_sequence (normalize_all now t) = selection_sequence t"
  by (simp_all add: normalize_all_def)

text \<open>
  Structure and quota bookkeeping need no bound on the run: the remaining quota and its reset
  time are known together or not at all.
\<close>

definition quota_paired :: "account_state \<Rightarrow> bool" where
  "quota_paired s = (quota_remaining s = None \<longleftrightarrow> quota_resets_at_ms s = None)"

definition table_inv :: "account_health_table \<Rightarrow> bool" where
  "table_inv t = (table_wf t \<and> (\<forall>a s. account_map t a = Some s \<longrightarrow> quota_paired s))"

lemma quota_paired_intros:
  "quota_paired s \<Longrightarrow> quota_paired (normalize_state now s)"
  "quota_paired s \<Longrightarrow> quota_paired (observe_state p obs now s)"
  "quota_paired s \<Longrightarrow> quota_paired (select_state n now s)"
proof -
  show *: "quota_paired s \<Longrightarrow> quota_paired (normalize_state now s)" for s
    by (simp add: quota_paired_def)
  have "quota_paired s \<Longrightarrow> quota_paired (apply_observation p obs now s)" for s
    by (cases obs) (auto simp: quota_paired_def observe_failed_def Let_def)
  with * have "quota_paired s \<Longrightarrow> quota_paired (apply_observation p obs now (normalize_state now s))" by blast
  then show "quota_paired s \<Longrightarrow> quota_paired (observe_state p obs now s)"
    by (simp add: observe_state_def quota_paired_def Let_def)
  show "quota_paired s \<Longrightarrow> quota_paired (select_state n now s)"
    by (simp add: quota_paired_def select_state_def)
qed

lemma table_inv_update:
  assumes "table_inv t" and "\<And>s. quota_paired s \<Longrightarrow> quota_paired (f s)"
  shows "table_inv (update_account a f t)"
  using assms by (auto simp: table_inv_def account_map_update split: if_splits)

lemma table_inv_sequence [simp]: "table_inv (t\<lparr>selection_sequence := n\<rparr>) = table_inv t"
  by (simp add: table_inv_def)

lemma table_inv_make_choice: "table_inv t \<Longrightarrow> table_inv (snd (make_choice a origin now t))"
  by (simp add: make_choice_def mark_selected_eq Let_def table_inv_update quota_paired_intros
      split: option.split)

lemma table_inv_run: "table_inv t \<Longrightarrow> table_inv (run_account_op t e)"
proof (cases e)
  case (SelectOp cs auth aff now)
  assume "table_inv t"
  then show ?thesis
    unfolding SelectOp run_account_op.simps select_from_def
    by (rule select_loop_preserves)
      (auto intro: table_inv_make_choice table_inv_update quota_paired_intros)
next
  case (SnapshotsOp now)
  assume "table_inv t"
  then show ?thesis
    by (auto simp: SnapshotsOp snapshots_def Let_def table_inv_def account_map_normalize_all
        quota_paired_intros)
qed (auto simp: observe_eq status_eq intro: table_inv_update quota_paired_intros split: option.split)

interpretation account_machine: invariant_machine run_account_op table_inv
  by unfold_locales (rule table_inv_run)

subsection \<open>Snapshots and restoring them\<close>

lemma concat_keys_distinct:
  assumes "\<forall>i < length ms. distinct (map fst (ms ! i)) \<and> (\<forall>k \<in> fst ` set (ms ! i). g k = n + i)"
  shows "distinct (map fst (concat ms)) \<and> (\<forall>k \<in> fst ` set (concat ms). n \<le> (g k :: nat))"
  using assms
proof (induction ms arbitrary: n)
  case (Cons m ms)
  have "\<forall>i < length ms. distinct (map fst (ms ! i)) \<and> (\<forall>k \<in> fst ` set (ms ! i). g k = Suc n + i)"
    using Cons.prems by (metis Suc_less_eq add_Suc_shift length_Cons nth_Cons_Suc)
  note ih = Cons.IH [OF this]
  have m: "distinct (map fst m)" "\<forall>k \<in> fst ` set m. g k = n"
    using Cons.prems by (metis add_0_right length_greater_0_conv list.distinct(1) nth_Cons_0)+
  have "fst ` set m \<inter> fst ` set (concat ms) = {}"
    using m(2) ih by fastforce
  with ih m show ?case by force
qed simp

lemma concat_shards_distinct: "table_wf t \<Longrightarrow> distinct (map fst (concat (shards t)))"
  using concat_keys_distinct [of "shards t" account_shard 0]
  by (auto simp: table_wf_def strict_sorted_iff)

lemma concat_shards_iff:
  assumes "table_wf t"
  shows "(a, s) \<in> set (concat (shards t)) \<longleftrightarrow> account_map t a = Some s"
proof
  assume "(a, s) \<in> set (concat (shards t))"
  then obtain i where i: "i < length (shards t)" "(a, s) \<in> set (shards t ! i)"
    by (auto simp: in_set_conv_nth [of _ "shards t"])
  with assms have "account_shard a = i" unfolding table_wf_def by force
  with i assms show "account_map t a = Some s"
    by (simp add: account_map_def lock_shard_def table_wf_def flip: bt.entries_get)
next
  assume "account_map t a = Some s"
  with assms have "(a, s) \<in> set (shards t ! account_shard a)"
    by (simp add: account_map_def lock_shard_def table_wf_def flip: bt.entries_get)
  moreover have "account_shard a < length (shards t)" using assms by (simp add: table_wf_def)
  ultimately show "(a, s) \<in> set (concat (shards t))" by (auto intro: nth_mem)
qed

lemma snapshot_round_trip [simp]: "state_of_snapshot (snapshot_of a s) = s"
  by (simp add: state_of_snapshot_def snapshot_of_def)

lemma snap_account_id_of [simp]: "snap_account_id (snapshot_of a s) = a"
  by (simp add: snapshot_of_def)

lemma snapshots_set:
  assumes "table_wf t"
  shows "set (fst (snapshots now t)) =
    {snapshot_of a (normalize_state now s) | a s. account_map t a = Some s}"
proof -
  have "set (fst (snapshots now t)) =
      (\<lambda>(a, s). snapshot_of a s) ` set (concat (shards (normalize_all now t)))"
    by (simp add: snapshots_def Let_def)
  also have "\<dots> = {snapshot_of a s | a s. account_map (normalize_all now t) a = Some s}"
    using concat_shards_iff [of "normalize_all now t"] assms by (auto simp del: set_concat)
  also have "\<dots> = {snapshot_of a (normalize_state now s) | a s. account_map t a = Some s}"
    using assms by (auto simp: account_map_normalize_all)
  finally show ?thesis .
qed

lemma snapshots_sorted_distinct:
  assumes "table_wf t"
  shows "sorted (map snap_account_id (fst (snapshots now t)))
    \<and> distinct (map snap_account_id (fst (snapshots now t)))"
proof -
  let ?kvs = "concat (shards (normalize_all now t))"
  have "snap_account_id \<circ> (\<lambda>(a, s). snapshot_of a s) = fst" by (auto simp: fun_eq_iff)
  then have "distinct (map snap_account_id (map (\<lambda>(a, s). snapshot_of a s) ?kvs))"
    using concat_shards_distinct [of "normalize_all now t"] assms by (simp del: map_concat)
  moreover have "distinct (map f (sort_key f ps)) = distinct (map f ps)"
    for f :: "account_health_snapshot \<Rightarrow> account_id" and ps by (simp add: distinct_map)
  ultimately show ?thesis by (simp add: snapshots_def Let_def del: map_concat map_map)
qed

text \<open>The states that \<open>restore\<close> takes back.\<close>

definition restorable :: "account_state \<Rightarrow> bool" where
  "restorable s =
     (consecutive_failures s \<le> 64 \<and> selection_count s \<le> last_selected_sequence s
      \<and> (selection_count s = 0 \<longrightarrow> last_selected_sequence s = 0)
      \<and> \<not> (cooldown_until_ms s \<noteq> None \<and> quarantined s) \<and> quota_paired s)"

lemma snapshot_rejected_iff: "snapshot_rejected (snapshot_of a s) \<longleftrightarrow> \<not> restorable s"
  by (auto simp: snapshot_rejected_def restorable_def snapshot_of_def quota_paired_def not_le
      simp flip: word_neq_0_conv)

lemma restore_loop_spec:
  assumes "table_wf t" and "distinct (map snap_account_id ps)"
    and "snap_account_id ` set ps \<inter> restored = {}"
    and "\<forall>p \<in> set ps. account_map t (snap_account_id p) \<noteq> None"
  shows "if \<exists>p \<in> set ps. snapshot_rejected p
    then restore_loop now ps restored m t = Err InvalidSnapshot
    else (\<exists>t' m'. restore_loop now ps restored m t = Ok (m', t') \<and> table_wf t'
      \<and> table_policy t' = table_policy t
      \<and> (\<forall>p \<in> set ps. account_map t' (snap_account_id p) = Some (normalize_state now (state_of_snapshot p)))
      \<and> (\<forall>a. a \<notin> snap_account_id ` set ps \<longrightarrow> account_map t' a = account_map t a))"
  using assms
proof (induction ps arbitrary: restored m t)
  case (Cons p ps)
  let ?a = "snap_account_id p"
  let ?t = "update_account ?a (\<lambda>_. normalize_state now (state_of_snapshot p)) t"
  have "\<forall>p \<in> set ps. account_map ?t (snap_account_id p) \<noteq> None"
    using Cons.prems by (simp add: account_map_update)
  with Cons.prems Cons.IH [of ?t "insert ?a restored" "max m (snap_last_selected_sequence p)"]
  show ?case
    by (cases "snapshot_rejected p") (auto simp: with_state_eq account_map_update split: if_splits)
qed simp

definition retained_states ::
  "account_id list \<Rightarrow> u64 \<Rightarrow> account_health_table \<Rightarrow> account_state set" where
  "retained_states as now t = {normalize_state now s | a s. a \<in> set as \<and> account_map t a = Some s}"

definition retained_snapshots ::
  "account_id list \<Rightarrow> u64 \<Rightarrow> account_health_table \<Rightarrow> account_health_snapshot list" where
  "retained_snapshots as now t = filter (\<lambda>p. snap_account_id p \<in> set as) (fst (snapshots now t))"

lemma retained_snapshots_set:
  assumes "table_wf t"
  shows "set (retained_snapshots as now t) =
    {snapshot_of a (normalize_state now s) | a s. a \<in> set as \<and> account_map t a = Some s}"
  unfolding retained_snapshots_def set_filter snapshots_set [OF assms] by (auto, blast)

lemma retained_rejected:
  assumes "table_wf t"
  shows "(\<exists>p \<in> set (retained_snapshots as now t). snapshot_rejected p)
    \<longleftrightarrow> \<not> (\<forall>s \<in> retained_states as now t. restorable s)"
  unfolding retained_snapshots_set [OF assms] retained_states_def
  using snapshot_rejected_iff by blast

lemma retained_distinct: "table_wf t \<Longrightarrow> distinct (map snap_account_id (retained_snapshots as now t))"
  using snapshots_sorted_distinct [of t] by (simp add: retained_snapshots_def distinct_map_filter)

lemma reconfigured_eq:
  "fst (reconfigured as now t) = restore (table_policy t) as (retained_snapshots as now t) now"
  by (simp add: reconfigured_def retained_snapshots_def Let_def case_prod_beta)

lemma reconfigured_spec:
  assumes wf: "table_wf t" and "distinct as" and "length as \<le> MAX_ACCOUNTS"
  shows "if \<forall>s \<in> retained_states as now t. restorable s
    then (\<exists>t'. fst (reconfigured as now t) = Ok t' \<and> table_wf t' \<and> table_policy t' = table_policy t
      \<and> account_map t' = (\<lambda>a. if a \<in> set as
            then Some (case account_map t a of None \<Rightarrow> account_state_default
                       | Some s \<Rightarrow> normalize_state now s)
            else None))
    else fst (reconfigured as now t) = Err InvalidSnapshot"
proof -
  let ?ps = "retained_snapshots as now t"
  obtain t0 where t0: "table_new (table_policy t) as = Ok t0" using table_new_total assms by blast
  note new = table_new_ok [OF t0]
  have known: "\<forall>p \<in> set ?ps. account_map t0 (snap_account_id p) \<noteq> None"
    using new unfolding retained_snapshots_set [OF wf] by auto
  note loop = restore_loop_spec [OF conjunct1 [OF new] retained_distinct [OF wf] _ known,
      of "{}" now 0, unfolded retained_rejected [OF wf], simplified]
  show ?thesis
  proof (cases "\<forall>s \<in> retained_states as now t. restorable s")
    case False
    with loop t0 show ?thesis by (auto simp: reconfigured_eq restore_def)
  next
    case True
    with loop obtain t' m' where t': "restore_loop now ?ps {} 0 t0 = Ok (m', t')"
      "table_wf t'" "table_policy t' = table_policy t0"
      and known: "\<forall>p \<in> set ?ps. account_map t' (snap_account_id p) = Some (normalize_state now (state_of_snapshot p))"
      and other: "\<And>a. a \<notin> snap_account_id ` set ?ps \<Longrightarrow> account_map t' a = account_map t0 a" by auto
    have ids: "snap_account_id ` set ?ps = {a \<in> set as. account_map t a \<noteq> None}"
      unfolding retained_snapshots_set [OF wf] by force
    have "account_map t' a = Some (normalize_state now s)" if "a \<in> set as" "account_map t a = Some s" for a s
      using known [rule_format, of "snapshot_of a (normalize_state now s)"] that
      unfolding retained_snapshots_set [OF wf] by auto
    then have "account_map t' a = (if a \<in> set as then Some (case account_map t a of
        None \<Rightarrow> account_state_default | Some s \<Rightarrow> normalize_state now s) else None)" for a
      using other [of a] new unfolding ids by (cases "account_map t a") auto
    with True t' t0 new show ?thesis by (auto simp: reconfigured_eq restore_def)
  qed
qed

subsection \<open>Selection counters\<close>

text \<open>
  Each account's count of selections stays below the sequence number of its latest one, and no
  account is ahead of the table's counter, as long as the 64-bit counter does not wrap.
\<close>

definition counters_ok :: "account_health_table \<Rightarrow> bool" where
  "counters_ok t =
     (\<forall>a s. account_map t a = Some s \<longrightarrow>
        selection_count s \<le> last_selected_sequence s \<and> last_selected_sequence s \<le> selection_sequence t
        \<and> (selection_count s = 0 \<longrightarrow> last_selected_sequence s = 0))"

lemma counters_ok_update:
  assumes "table_wf t" and "counters_ok t"
    and "\<And>s. selection_count (f s) = selection_count s \<and> last_selected_sequence (f s) = last_selected_sequence s"
  shows "counters_ok (update_account a f t)"
  using assms by (auto simp: counters_ok_def account_map_update split: if_splits)

lemma counters_ok_mono:
  "counters_ok t \<Longrightarrow> selection_sequence t \<le> n \<Longrightarrow> counters_ok (t\<lparr>selection_sequence := n\<rparr>)"
  by (fastforce simp: counters_ok_def)

lemma counters_ok_make_choice:
  assumes "table_wf t" and "counters_ok t" and seq: "selection_sequence t \<noteq> - 1"
  shows "counters_ok (snd (make_choice a origin now t))"
proof -
  let ?n = "selection_sequence t"
  have inc: "unat (?n + 1) = Suc (unat ?n)" "sat_add ?n 1 = ?n + 1" using unat_inc [OF seq] .
  then have "?n \<le> ?n + 1" by (simp add: word_le_nat_alt)
  with assms(2) have ok: "counters_ok (t\<lparr>selection_sequence := ?n + 1\<rparr>)" by (rule counters_ok_mono)
  have selected: "sat_add (selection_count s) 1 \<le> ?n + 1 \<and> sat_add (selection_count s) 1 \<noteq> 0"
    if "account_map t a = Some s" for s
  proof -
    have "unat (selection_count s) \<le> unat ?n"
      using assms(2) that unfolding counters_ok_def word_le_nat_alt by force
    with inc have "selection_count s \<noteq> - 1" using seq by (metis word_le_nat_alt word_order.extremum_uniqueI)
    from unat_inc [OF this] \<open>unat (selection_count s) \<le> unat ?n\<close> inc show ?thesis
      by (auto simp: word_le_nat_alt simp flip: unat_eq_zero)
  qed
  show ?thesis
  proof (cases "account_map t a")
    case None
    with ok show ?thesis by (simp add: make_choice_def mark_selected_eq Let_def)
  next
    case (Some s)
    with ok selected [OF Some] inc(2) assms(1) show ?thesis
      by (auto simp: make_choice_def mark_selected_eq Let_def counters_ok_def account_map_update
          select_state_def split: if_splits)
  qed
qed

lemma selection_sequence_make_choice [simp]:
  "selection_sequence (snd (make_choice a origin now t)) = selection_sequence t + 1"
  by (simp add: make_choice_def mark_selected_eq Let_def split: option.split)

lemma counters_run:
  assumes "table_inv t" and "counters_ok t" and "selection_sequence t \<noteq> - 1"
  shows "counters_ok (run_account_op t e)
    \<and> unat (selection_sequence (run_account_op t e)) \<le> Suc (unat (selection_sequence t))"
proof (cases e)
  case (SelectOp cs auth aff now)
  let ?I = "\<lambda>u. table_wf u \<and> counters_ok u \<and> selection_sequence u = selection_sequence t"
  show ?thesis
    unfolding SelectOp run_account_op.simps select_from_def
    by (rule select_loop_preserves [where I = ?I])
      (use assms in \<open>auto simp: table_inv_def counters_ok_make_choice unat_inc intro: counters_ok_update\<close>)
next
  case (SnapshotsOp now)
  from assms show ?thesis
    by (auto simp: SnapshotsOp snapshots_def Let_def table_inv_def counters_ok_def
        account_map_normalize_all)
qed (use assms in \<open>auto simp: observe_eq status_eq table_inv_def intro: counters_ok_update
    split: option.split\<close>)

lemma counters_exec:
  assumes "table_inv t" and "counters_ok t" and "unat (selection_sequence t) + length es < 2 ^ 64"
  shows "counters_ok (exec run_account_op t es)"
  using assms
proof (induction es arbitrary: t)
  case (Cons e es)
  have "selection_sequence t \<noteq> - 1"
  proof
    assume "selection_sequence t = - 1"
    with Cons.prems(3) show False using unat_max_word [where 'a = 64] by simp
  qed
  note run = counters_run [OF Cons.prems(1,2) this, of e]
  then have "unat (selection_sequence (run_account_op t e)) + length es < 2 ^ 64"
    using Cons.prems(3) by simp
  with Cons.IH [OF account_machine.inv_run [OF Cons.prems(1)]] run show ?case by simp
qed simp

text \<open>Repeated failures, counted up to the maximum of the byte.\<close>

lemma exec_failures:
  assumes "failure_retry obs = Some r" and "table_wf t" and "account_map t a = Some s"
  shows "\<exists>s'. account_map (exec run_account_op t (replicate n (ObserveOp a obs now))) a = Some s'
    \<and> unat (consecutive_failures s') = min (unat (consecutive_failures s) + n) 255
    \<and> table_wf (exec run_account_op t (replicate n (ObserveOp a obs now)))"
  using assms(2,3)
proof (induction n arbitrary: t s)
  case 0
  then show ?case using unat_less_exp [of "consecutive_failures s"] by simp
next
  case (Suc n)
  let ?t = "run_account_op t (ObserveOp a obs now)"
  have "table_wf ?t" "account_map ?t a = Some (observe_state (table_policy t) obs now s)"
    using Suc.prems by (simp_all add: observe_eq account_map_update)
  from Suc.IH [OF this] observe_state_failed(3) [OF assms(1)] show ?case
    by (auto simp: unat_sat_add)
qed

lemma reconfigured_rejects:
  assumes "table_wf t" and "distinct as" and "length as \<le> MAX_ACCOUNTS" and "a \<in> set as"
    and "account_map t a = Some s" and "\<not> restorable (normalize_state now s)"
  shows "fst (reconfigured as now t) = Err InvalidSnapshot"
proof -
  from assms(4-6) have "\<not> (\<forall>s \<in> retained_states as now t. restorable s)"
    unfolding retained_states_def by blast
  with reconfigured_spec [OF assms(1-3), of now] show ?thesis by (simp only: if_False)
qed

subsection \<open>A sample table\<close>

definition sample_policy :: account_health_policy where
  "sample_policy = \<lparr>base_cooldown_ms = 1000, max_cooldown_ms = 60000\<rparr>"

definition sample_accounts :: "account_id list" where
  "sample_accounts = [AccountId ''a'', AccountId ''b'']"

definition sample_table :: account_health_table where
  "sample_table = (case table_new sample_policy sample_accounts of Inr t \<Rightarrow> t
     | Inl _ \<Rightarrow> \<lparr>table_policy = sample_policy, shards = [], selection_sequence = 0\<rparr>)"

definition sample_candidates :: "account_candidate list" where
  "sample_candidates =
     map (\<lambda>(a, w). \<lparr>cand_account_id = a, cand_authentication = AuthApiKey, cand_weight = w\<rparr>)
       [(AccountId ''a'', 1), (AccountId ''b'', 3)]"

lemma sample_table_new: "table_new sample_policy sample_accounts = Ok sample_table"
proof -
  have "\<exists>t. table_new sample_policy sample_accounts = Ok t"
    by (rule table_new_total) (simp_all add: sample_accounts_def MAX_ACCOUNTS_def)
  then show ?thesis by (auto simp: sample_table_def)
qed

lemma sample_table_ok [simp]:
  "table_wf sample_table" "table_policy sample_table = sample_policy"
  "selection_sequence sample_table = 0"
  "account_map sample_table =
     (\<lambda>a. if a = AccountId ''a'' \<or> a = AccountId ''b'' then Some account_state_default else None)"
  using table_new_ok [OF sample_table_new] by (simp_all add: sample_accounts_def)

lemma sample_policy_ok [simp]: "policy_ok sample_policy"
  by (simp add: sample_policy_def policy_ok_def MAX_COOLDOWN_MS_def)

lemma sample_accounts_ok [simp]:
  "distinct sample_accounts" "length sample_accounts \<le> MAX_ACCOUNTS" "AccountId ''a'' \<in> set sample_accounts"
  by (simp_all add: sample_accounts_def MAX_ACCOUNTS_def)

lemmas sample_eval = health_def account_map_update account_state_default_def state_status_def
  select_from_def sample_candidates_def status_eq better_def weighted_usage_less_def
  make_choice_def mark_selected_eq Let_def

lemma sample_select:
  "fst (select_from sample_candidates AuthApiKey None 5 sample_table) =
     Ok \<lparr>choice_account_id = AccountId ''a'', choice_origin = WeightedLeastRecentlyUsed\<rparr>"
  by (simp add: sample_eval)

subsection \<open>Properties\<close>

text \<open>
  C15. Selection is sound. The account \<open>select_from\<close> returns is a candidate of the requested
  authentication kind that is healthy at that time. If it was returned for affinity it is the
  affinity account; otherwise no healthy candidate of that kind is the affinity account, and none
  has a smaller weighted use (selection count divided by weight, ties by the older last selection).
\<close>

theorem select_from_sound:
  assumes "table_wf t" and "\<forall>c \<in> set cs. cand_weight c \<noteq> 0"
    and "select_from cs auth affinity now t = (Ok ch, t')"
  shows "choice_ok (health t now) auth affinity (set cs) ch"
  using select_loop_sound [OF assms(3) [unfolded select_from_def] assms(1) refl _ assms(2)]
  by (simp add: best_ok_def)

theorem select_from_sound_witness:
  "choice_ok (health sample_table 5) AuthApiKey None (set sample_candidates)
     \<lparr>choice_account_id = AccountId ''a'', choice_origin = WeightedLeastRecentlyUsed\<rparr>"
proof (rule select_from_sound)
  show "select_from sample_candidates AuthApiKey None 5 sample_table =
      (Ok \<lparr>choice_account_id = AccountId ''a'', choice_origin = WeightedLeastRecentlyUsed\<rparr>,
       snd (select_from sample_candidates AuthApiKey None 5 sample_table))"
    using sample_select by (simp add: prod_eq_iff)
qed (simp_all add: sample_candidates_def)

text \<open>
  Selection is total. When every candidate of the requested kind is registered in the table,
  \<open>select_from\<close> returns an account as soon as one candidate is eligible, and reports
  \<open>NoEligibleAccount\<close> exactly when none is.
\<close>

lemma select_from_total:
  assumes "table_wf t" and "\<forall>c \<in> set cs. cand_weight c \<noteq> 0"
    and "\<forall>c \<in> set cs. cand_authentication c = auth \<longrightarrow> account_map t (cand_account_id c) \<noteq> None"
  shows "if \<exists>c \<in> set cs. eligible (health t now) auth c
    then \<exists>ch t'. select_from cs auth affinity now t = (Ok ch, t')
    else \<exists>t'. select_from cs auth affinity now t = (Err NoEligibleAccount, t')"
proof -
  have "\<forall>c \<in> set cs. cand_authentication c = auth \<longrightarrow> health t now (cand_account_id c) \<noteq> None"
    using assms(3) by (simp add: health_def)
  from select_loop_total [OF assms(1) refl _ this assms(2), where best = None and affinity = affinity]
    select_loop_sound [of cs auth affinity now None t, OF _ assms(1) refl _ assms(2)]
  show ?thesis by (auto simp: select_from_def best_ok_def choice_ok_def)
qed

text \<open>
  C20. Cooldown. After a rate limit or a temporary failure at time \<open>now\<close>, the account is out of
  service until a deadline between \<open>now + base\<close> and \<open>now + max\<close> (saturating): at every earlier
  time its status is not healthy, and from the deadline on the cooldown no longer holds it back.
  The deadline is the bounded exponential of the failure count, or the capped server hint if longer.
\<close>

theorem observe_failure_cooldown:
  assumes "table_wf t" and "policy_ok (table_policy t)" and "account_map t a = Some s"
    and "failure_retry obs = Some retry" and "observe a obs now t = (r, t')"
  shows "\<exists>d st. r = Ok () \<and> account_map t' a = Some st \<and> cooldown_until_ms st = Some (sat_add now d)
    \<and> unat d = max (min (unat (base_cooldown_ms (table_policy t))
                          * 2 ^ min (unat (sat_add (consecutive_failures s) 1) - 1) 63)
                        (unat (max_cooldown_ms (table_policy t))))
                   (min (case retry of None \<Rightarrow> 0 | Some ms \<Rightarrow> unat ms)
                        (unat (max_cooldown_ms (table_policy t))))
    \<and> base_cooldown_ms (table_policy t) \<le> d \<and> d \<le> max_cooldown_ms (table_policy t)
    \<and> (\<forall>m < sat_add now d. map_option status_kind (health t' m a) \<noteq> Some Healthy)
    \<and> (\<forall>m \<ge> sat_add now d. map_option status_kind (health t' m a) \<noteq> Some CoolingDown)"
proof -
  let ?p = "table_policy t" and ?f = "sat_add (consecutive_failures s) 1"
  let ?d = "cooldown_duration ?p ?f retry" and ?st = "observe_state (table_policy t) obs now s"
  have "r = Ok ()" and map: "account_map t' a = Some ?st"
    using assms(1,3,5) by (auto simp: observe_eq account_map_update)
  moreover have cool: "cooldown_until_ms ?st = Some (sat_add now ?d)"
    using observe_state_failed(1) [OF assms(4)] .
  moreover have "map_option status_kind (health t' m a) \<noteq> Some Healthy" if "m < sat_add now ?d" for m
    using status_kind_cooling [OF cool that] by (simp add: health_def map)
  moreover have "map_option status_kind (health t' m a) \<noteq> Some CoolingDown" if "sat_add now ?d \<le> m" for m
    using that by (simp add: health_def map state_status_def cool)
  ultimately show ?thesis
    using cooldown_duration_bounds [OF assms(2)] cooldown_duration_value by blast
qed

theorem observe_failure_cooldown_witness:
  "map_option status_kind
     (health (snd (observe (AccountId ''a'') (RateLimited None) 5 sample_table)) 6 (AccountId ''a''))
   \<noteq> Some Healthy"
proof -
  let ?t = "snd (observe (AccountId ''a'') (RateLimited None) 5 sample_table)"
  have "observe (AccountId ''a'') (RateLimited None) 5 sample_table =
      (fst (observe (AccountId ''a'') (RateLimited None) 5 sample_table), ?t)" by simp
  from observe_failure_cooldown [OF _ _ _ _ this, of account_state_default None]
  obtain d where d: "sample_policy = table_policy sample_table" "base_cooldown_ms sample_policy \<le> d"
    and out: "\<forall>m < sat_add 5 d. map_option status_kind (health ?t m (AccountId ''a'')) \<noteq> Some Healthy"
    by auto
  have "sat_add 5 (1000 :: u64) \<le> sat_add 5 d"
    using d by (simp add: sample_policy_def word_le_nat_alt unat_sat_add)
  moreover have "(6 :: u64) < sat_add 5 1000" by (simp add: word_less_nat_alt unat_sat_add)
  ultimately show ?thesis using out by (meson order_less_le_trans)
qed

text \<open>
  The shards are invisible: on a well-formed table every operation on one account behaves
  like the same operation on a single map from accounts to states, and leaves the table well-formed.
\<close>

lemma observe_refines_map:
  assumes "table_wf t" and "observe a obs now t = (r, t')"
  shows "table_wf t' \<and> table_policy t' = table_policy t
    \<and> (case account_map t a of
         None \<Rightarrow> r = Err UnknownAccount \<and> account_map t' = account_map t
       | Some s \<Rightarrow> r = Ok ()
           \<and> account_map t' = (account_map t)(a \<mapsto> observe_state (table_policy t) obs now s))"
  using assms by (auto simp: observe_eq account_map_update fun_eq_iff split: option.splits)

text \<open>
  C29. Reconfiguration keeps account health. When every retained state is restorable,
  \<open>reconfigured\<close> yields a table with exactly the requested accounts: the retained ones with their
  state (elapsed deadlines cleared), the new ones with the default state.
\<close>

theorem reconfigured_keeps_health:
  assumes "table_wf t" and "distinct as" and "length as \<le> MAX_ACCOUNTS"
    and "\<forall>s \<in> retained_states as now t. restorable s"
  shows "\<exists>t'. fst (reconfigured as now t) = Ok t' \<and> table_wf t'
    \<and> account_map t' = (\<lambda>a. if a \<in> set as
          then Some (case account_map t a of None \<Rightarrow> account_state_default
                     | Some s \<Rightarrow> normalize_state now s)
          else None)"
  using reconfigured_spec [OF assms(1-3), where now = now] assms(4) by auto

theorem reconfigured_keeps_health_witness:
  "\<exists>t'. fst (reconfigured [AccountId ''b'', AccountId ''c''] 7 sample_table) = Ok t'
     \<and> account_map t' (AccountId ''a'') = None
     \<and> account_map t' (AccountId ''c'') = Some account_state_default"
  using reconfigured_keeps_health [of sample_table "[AccountId ''b'', AccountId ''c'']" 7]
  by (force simp: MAX_ACCOUNTS_def retained_states_def restorable_def account_state_default_def
      quota_paired_def split: if_splits)

text \<open>
  Selection counters of a table that is used by one operation at a time: after any sequence of fewer than
  \<open>2^64\<close> operations, the counters are ones that \<open>restore\<close> accepts. Under concurrent selections this
  fails, see \<open>Account_Steps\<close>.
\<close>

lemma sequential_table_counters:
  assumes "table_new policy as = Ok t0" and "length ops < 2 ^ 64"
  shows "table_inv (exec run_account_op t0 ops) \<and> counters_ok (exec run_account_op t0 ops)"
proof -
  note new = table_new_ok [OF assms(1)]
  then have inv: "table_inv t0" by (auto simp: table_inv_def quota_paired_def account_state_default_def)
  moreover from new have "counters_ok t0" by (auto simp: counters_ok_def account_state_default_def)
  ultimately show ?thesis
    using new assms(2) by (simp add: account_machine.inv_exec counters_exec)
qed

text \<open>
  C30. A quarantined account that then reports a rate limit or temporary failure blocks
  reconfiguration: the table it leaves behind is one that \<open>reconfigured\<close> itself refuses, because
  the failure sets a cooldown without looking at the quarantine flag.
\<close>

theorem reconfigured_rejects_quarantined_cooldown:
  assumes "table_wf t" and "policy_ok (table_policy t)" and "account_map t a \<noteq> None"
    and "distinct as" and "length as \<le> MAX_ACCOUNTS" and "a \<in> set as"
    and "failure_retry obs = Some retry" and "now \<noteq> - 1"
  shows "fst (reconfigured as now
      (exec run_account_op t [ObserveOp a InvalidCredentials now, ObserveOp a obs now]))
    = Err InvalidSnapshot"
proof -
  from assms(3) obtain s where s: "account_map t a = Some s" by auto
  let ?p = "table_policy t"
  let ?s1 = "observe_state ?p InvalidCredentials now s"
  let ?s2 = "observe_state ?p obs now ?s1"
  let ?t = "exec run_account_op t [ObserveOp a InvalidCredentials now, ObserveOp a obs now]"
  have t: "table_wf ?t" "account_map ?t a = Some ?s2"
    using assms(1) s by (simp_all add: observe_eq account_map_update)
  let ?d = "cooldown_duration ?p (sat_add (consecutive_failures ?s1) 1) retry"
  have "0 < ?d" using cooldown_duration_bounds(1) [OF assms(2)] assms(2)
    unfolding policy_ok_def by (metis order_less_le_trans)
  then have "now < sat_add now ?d"
    using assms(8) unat_max_word [where 'a = 64] unat_less_exp [of now]
    by (auto simp: word_less_nat_alt unat_sat_add word_unat_eq_iff)
  then have "\<not> restorable (normalize_state now ?s2)"
    using observe_state_failed(1,2) [OF assms(7)]
    by (auto simp: restorable_def observe_state_def [of _ InvalidCredentials] Let_def)
  with t assms(4-6) show ?thesis by (intro reconfigured_rejects)
qed

theorem reconfigured_rejects_quarantined_cooldown_witness:
  "fst (reconfigured sample_accounts 5 (exec run_account_op sample_table
      [ObserveOp (AccountId ''a'') InvalidCredentials 5, ObserveOp (AccountId ''a'') (RateLimited None) 5]))
   = Err InvalidSnapshot"
  by (rule reconfigured_rejects_quarantined_cooldown) simp_all

text \<open>
  So does a streak of more than 64 failures: \<open>observe\<close> counts them up to 255, while
  \<open>restore\<close>, and with it \<open>reconfigured\<close>, refuses a count above 64.
\<close>

lemma reconfigured_rejects_failure_streak:
  assumes "table_wf t" and "account_map t a \<noteq> None" and "failure_retry obs = Some retry"
    and "distinct as" and "length as \<le> MAX_ACCOUNTS" and "a \<in> set as" and "65 \<le> n"
  shows "fst (reconfigured as later (exec run_account_op t (replicate n (ObserveOp a obs now))))
    = Err InvalidSnapshot"
proof -
  let ?t = "exec run_account_op t (replicate n (ObserveOp a obs now))"
  obtain s where "account_map ?t a = Some s" "table_wf ?t" "65 \<le> unat (consecutive_failures s)"
    using exec_failures [OF assms(3,1), of a _ n now] assms(2,7) by fastforce
  moreover from this have "\<not> restorable (normalize_state later s)"
    by (simp add: restorable_def word_le_nat_alt)
  ultimately show ?thesis using assms(4-6) by (intro reconfigured_rejects)
qed

end
