(* ===== verification/Account_Steps.thy ===== *)
theory Account_Steps
  imports Account_Health
begin

text \<open>
  The account table of \<open>accounts.rs\<close> under concurrent use. Each shard has its own lock and the selection
  sequence is an atomic counter, so the atomic steps are smaller than the operations of \<open>Accounts\<close>:
  \<open>observe\<close> and \<open>status\<close> hold one lock, \<open>snapshots\<close> locks one shard after the other, and \<open>mark_selected\<close>
  takes a sequence number in one step and stores it in another. Any thread may take any step at any
  time, so a selection is free to choose any account: it may have read the states long before.
\<close>

subsection \<open>Steps\<close>

text \<open>
  A table and the selections that have taken their sequence number and not stored it: the account,
  the number and the time. \<open>ct_taken\<close> counts the numbers taken since the table was created.
\<close>

record concurrent_table =
  ct_table :: account_health_table
  ct_pending :: "(account_id \<times> u64 \<times> u64) list"
  ct_taken :: nat

datatype table_event =
    ObserveStep account_id account_observation u64
  | StatusStep account_id u64
  | ShardStep nat u64
  | TakeStep account_id u64
  | StoreStep nat

definition normalize_shard :: "u64 \<Rightarrow> nat \<Rightarrow> account_health_table \<Rightarrow> account_health_table" where
  "normalize_shard now i t =
     t\<lparr>shards := (shards t)[i := map (\<lambda>(a, s). (a, normalize_state now s)) (shards t ! i)]\<rparr>"

definition remove_nth :: "nat \<Rightarrow> 'a list \<Rightarrow> 'a list" where
  "remove_nth i xs = take i xs @ drop (Suc i) xs"

inductive table_step :: "concurrent_table \<Rightarrow> table_event \<Rightarrow> concurrent_table \<Rightarrow> bool" where
  step_observe: "table_step c (ObserveStep a obs now) (c\<lparr>ct_table := snd (observe a obs now (ct_table c))\<rparr>)"
| step_status: "table_step c (StatusStep a now) (c\<lparr>ct_table := snd (status a now (ct_table c))\<rparr>)"
| step_shard: "i < ACCOUNT_SHARDS \<Longrightarrow>
    table_step c (ShardStep i now) (c\<lparr>ct_table := normalize_shard now i (ct_table c)\<rparr>)"
| step_take: "take_sequence (ct_table c) = (sequence, t) \<Longrightarrow>
    table_step c (TakeStep a now)
      (c\<lparr>ct_table := t, ct_pending := ct_pending c @ [(a, sequence, now)], ct_taken := Suc (ct_taken c)\<rparr>)"
| step_store: "i < length (ct_pending c) \<Longrightarrow> ct_pending c ! i = (a, sequence, now) \<Longrightarrow>
    table_step c (StoreStep i)
      (c\<lparr>ct_table := snd (record_selection a sequence now (ct_table c)), ct_pending := remove_nth i (ct_pending c)\<rparr>)"

inductive_cases table_stepE: "table_step c e c'"

inductive table_run :: "concurrent_table \<Rightarrow> table_event list \<Rightarrow> concurrent_table \<Rightarrow> bool" where
  run_done: "table_run c [] c"
| run_step: "table_step c e c1 \<Longrightarrow> table_run c1 es c2 \<Longrightarrow> table_run c (e # es) c2"

inductive_simps table_run_simps: "table_run c [] c2" "table_run c (e # es) c2"

definition alone :: "nat \<Rightarrow> account_health_table \<Rightarrow> concurrent_table" where
  "alone n t = \<lparr>ct_table = t, ct_pending = [], ct_taken = n\<rparr>"

inductive table_init :: "concurrent_table \<Rightarrow> bool" where
  "table_new policy as = Ok t \<Longrightarrow> table_init (alone 0 t)"

subsection \<open>Operations are runs of steps\<close>

lemma table_run_append: "table_run c es c1 \<Longrightarrow> table_run c1 fs c2 \<Longrightarrow> table_run c (es @ fs) c2"
  by (induction rule: table_run.induct) (auto intro: run_step)

lemma table_run_one: "table_step c e c' \<Longrightarrow> table_run c [e] c'"
  by (auto intro: table_run.intros)

definition performs :: "account_health_table \<Rightarrow> account_health_table \<Rightarrow> bool" where
  "performs t t' = (\<forall>n. \<exists>es m. table_run (alone n t) es (alone m t'))"

lemma performs_refl: "performs t t"
  by (auto simp: performs_def intro: run_done)

lemma performs_trans: "performs t u \<Longrightarrow> performs u v \<Longrightarrow> performs t v"
  unfolding performs_def by (meson table_run_append)

lemma performs_step:
  assumes "\<And>n. table_step (alone n t) e (alone n t')"
  shows "performs t t'"
  unfolding performs_def using assms table_run_one by blast

lemma performs_observe: "performs t (snd (observe a obs now t))"
  using step_observe [of "alone n t" a obs now for n] by (intro performs_step) (auto simp: alone_def)

lemma performs_status: "performs t (snd (status a now t))"
  using step_status [of "alone n t" a now for n] by (intro performs_step) (auto simp: alone_def)

lemma performs_shard: "i < ACCOUNT_SHARDS \<Longrightarrow> performs t (normalize_shard now i t)"
  using step_shard [of i "alone n t" now for n] by (intro performs_step) (auto simp: alone_def)

lemma performs_mark_selected: "performs t (snd (mark_selected a now t))"
proof -
  obtain q u where q: "take_sequence t = (q, u)" by fastforce
  have "table_run (alone n t) [TakeStep a now, StoreStep 0] (alone (Suc n) (snd (record_selection a q now u)))" for n
    using step_take [of "alone n t" q u a now] step_store [of 0 "\<lparr>ct_table = u, ct_pending = [(a, q, now)], ct_taken = Suc n\<rparr>" a q now] q
    by (fastforce simp: alone_def remove_nth_def table_run_simps)
  then show ?thesis unfolding performs_def mark_selected_def q by auto
qed

lemma performs_make_choice: "performs t (snd (make_choice a origin now t))"
proof -
  have "snd (make_choice a origin now t) = snd (mark_selected a now t)"
    by (simp add: make_choice_def mark_selected_eq Let_def split: option.split)
  then show ?thesis by (simp add: performs_mark_selected)
qed

lemma performs_select_loop: "performs t (snd (select_loop cs auth affinity now best t))"
proof (induction cs arbitrary: best t)
  case Nil
  then show ?case by (auto simp: performs_refl performs_make_choice split: option.split)
next
  case (Cons c cs)
  obtain r u where u: "status (cand_account_id c) now t = (r, u)" by fastforce
  then have "performs t u" using performs_status [of t "cand_account_id c" now] by simp
  then show ?case
    using Cons.IH u by (auto simp: performs_make_choice intro: performs_trans [OF \<open>performs t u\<close>] split: sum.split)
qed

text \<open>\<open>snapshots\<close> normalises the shards one by one.\<close>

lemma shards_one_by_one:
  assumes "n \<le> length xs"
  shows "fold (\<lambda>i ys. ys[i := f (ys ! i)]) [0..<n] xs = map f (take n xs) @ drop n xs"
  using assms
proof (induction n)
  case (Suc n)
  then show ?case
    by (simp add: nth_append list_update_append take_Suc_conv_app_nth Cons_nth_drop_Suc [symmetric])
qed simp

lemma normalize_all_shards:
  assumes "table_wf t"
  shows "normalize_all now t = fold (normalize_shard now) [0..<ACCOUNT_SHARDS] t"
proof -
  let ?f = "map (\<lambda>(a, s). (a, normalize_state now s))"
  have "fold (normalize_shard now) is t = t\<lparr>shards := fold (\<lambda>i ys. ys[i := ?f (ys ! i)]) is (shards t)\<rparr>" for "is"
    by (induction "is" arbitrary: t) (simp_all add: normalize_shard_def)
  with shards_one_by_one [of ACCOUNT_SHARDS "shards t" ?f] assms show ?thesis
    by (simp add: normalize_all_def table_wf_def)
qed

lemma performs_snapshots:
  assumes "table_wf t"
  shows "performs t (snd (snapshots now t))"
proof -
  have "performs t (fold (normalize_shard now) is t)" if "\<forall>i \<in> set is. i < ACCOUNT_SHARDS" for "is" t
    using that
    by (induction "is" arbitrary: t) (auto intro: performs_refl performs_trans [OF performs_shard])
  with assms show ?thesis by (simp add: snapshots_def Let_def normalize_all_shards)
qed

lemma performs_operation: "table_wf t \<Longrightarrow> performs t (run_account_op t e)"
  by (cases e) (simp_all add: performs_observe performs_status performs_snapshots performs_select_loop select_from_def)

subsection \<open>Invariant\<close>

text \<open>
  What holds in every interleaving. The counter is the number of selections, until it wraps at \<open>2^64\<close>:
  every number is taken once and is either pending or was stored for one account, and an account has been selected
  at most as often as numbers were taken for it.
\<close>

definition pending_of :: "account_id \<Rightarrow> concurrent_table \<Rightarrow> nat" where
  "pending_of a c = length (filter (\<lambda>(b, _). b = a) (ct_pending c))"

definition pending_numbers :: "concurrent_table \<Rightarrow> u64 list" where
  "pending_numbers c = map (fst \<circ> snd) (ct_pending c)"

definition pending_ok :: "concurrent_table \<Rightarrow> bool" where
  "pending_ok c =
     (distinct (pending_numbers c) \<and> (\<forall>n \<in> set (pending_numbers c). 0 < unat n \<and> unat n \<le> ct_taken c))"

definition account_ok :: "concurrent_table \<Rightarrow> account_id \<Rightarrow> account_state \<Rightarrow> bool" where
  "account_ok c a s =
     (unat (selection_count s) + pending_of a c \<le> ct_taken c \<and> unat (last_selected_sequence s) \<le> ct_taken c
      \<and> (selection_count s = 0 \<longleftrightarrow> last_selected_sequence s = 0)
      \<and> last_selected_sequence s \<notin> set (pending_numbers c))"

definition selections_ok :: "concurrent_table \<Rightarrow> bool" where
  "selections_ok c =
     (unat (selection_sequence (ct_table c)) = ct_taken c \<and> pending_ok c
      \<and> (\<forall>a s. account_map (ct_table c) a = Some s \<longrightarrow> account_ok c a s)
      \<and> (\<forall>a b s u. account_map (ct_table c) a = Some s \<and> account_map (ct_table c) b = Some u
           \<and> last_selected_sequence s = last_selected_sequence u \<and> last_selected_sequence s \<noteq> 0 \<longrightarrow> a = b))"

definition steps_inv :: "concurrent_table \<Rightarrow> bool" where
  "steps_inv c = (table_inv (ct_table c) \<and> (ct_taken c < 2 ^ 64 \<longrightarrow> selections_ok c))"

text \<open>Steps that leave the selection fields alone.\<close>

lemma account_ok_cong:
  assumes "selection_count s = selection_count u" "last_selected_sequence s = last_selected_sequence u"
    and "ct_pending c = ct_pending d" "ct_taken c = ct_taken d"
  shows "account_ok c a s = account_ok d a u"
  using assms by (simp add: account_ok_def pending_of_def pending_numbers_def)

definition keeps_counts :: "account_health_table \<Rightarrow> account_health_table \<Rightarrow> bool" where
  "keeps_counts t t' =
     (selection_sequence t' = selection_sequence t
      \<and> (\<forall>a u. account_map t' a = Some u \<longrightarrow> (\<exists>s. account_map t a = Some s
            \<and> selection_count u = selection_count s \<and> last_selected_sequence u = last_selected_sequence s)))"

lemma selections_ok_keeps:
  assumes "selections_ok c" "keeps_counts (ct_table c) t'"
  shows "selections_ok (c\<lparr>ct_table := t'\<rparr>)"
proof -
  have same: "account_ok (c\<lparr>ct_table := t'\<rparr>) a u" if "account_map t' a = Some u" for a u
  proof -
    from that assms(2) obtain s where "account_map (ct_table c) a = Some s"
      "selection_count u = selection_count s" "last_selected_sequence u = last_selected_sequence s"
      by (auto simp: keeps_counts_def)
    with assms(1) account_ok_cong [of u s "c\<lparr>ct_table := t'\<rparr>" c a] show ?thesis by (simp add: selections_ok_def)
  qed
  have "a = b" if "account_map t' a = Some s" "account_map t' b = Some u"
    "last_selected_sequence s = last_selected_sequence u" "last_selected_sequence s \<noteq> 0" for a b s u
    using that assms unfolding selections_ok_def keeps_counts_def by metis
  with same assms show ?thesis
    by (auto simp: selections_ok_def keeps_counts_def pending_ok_def pending_numbers_def)
qed

lemma keeps_counts_update:
  assumes "table_wf t" "\<And>s. selection_count (f s) = selection_count s \<and> last_selected_sequence (f s) = last_selected_sequence s"
  shows "keeps_counts t (update_account a f t)"
  using assms by (auto simp: keeps_counts_def account_map_update split: if_splits)

lemma keeps_counts_refl: "keeps_counts t t"
  by (simp add: keeps_counts_def)

lemma account_map_normalize_shard:
  assumes "table_wf t"
  shows "account_map (normalize_shard now i t) a =
    map_option (if account_shard a = i then normalize_state now else id) (account_map t a)"
proof -
  have "account_shard a < length (shards t)" using assms by (simp add: table_wf_def)
  then show ?thesis
    by (simp add: account_map_def lock_shard_def normalize_shard_def bt_get_def map_of_map_value option.map_id)
qed

lemma normalize_shard_wf:
  assumes "table_wf t"
  shows "table_wf (normalize_shard now i t)"
proof -
  have "map fst ((shards t)[i := map (\<lambda>(a, s). (a, normalize_state now s)) (shards t ! i)] ! j) = map fst (shards t ! j)"
    if "j < length (shards t)" for j
    using that by (cases "i = j") (simp_all add: map_fst_value del: map_map)
  with assms show ?thesis unfolding table_wf_def normalize_shard_def by (simp flip: set_map)
qed

lemma normalize_shard_sequence [simp]: "selection_sequence (normalize_shard now i t) = selection_sequence t"
  by (simp add: normalize_shard_def)

lemma table_inv_shard: "table_inv t \<Longrightarrow> table_inv (normalize_shard now i t)"
  by (auto simp: table_inv_def normalize_shard_wf account_map_normalize_shard quota_paired_intros split: if_splits)

lemma keeps_counts_shard: "table_wf t \<Longrightarrow> keeps_counts t (normalize_shard now i t)"
  by (auto simp: keeps_counts_def account_map_normalize_shard split: if_splits)

text \<open>The step that takes a number and the step that stores it.\<close>

lemma selections_ok_take:
  assumes "selections_ok c" "Suc (ct_taken c) < 2 ^ 64" "take_sequence (ct_table c) = (q, t)"
  shows "selections_ok (c\<lparr>ct_table := t, ct_pending := ct_pending c @ [(a, q, now)], ct_taken := Suc (ct_taken c)\<rparr>)"
    (is "selections_ok ?c")
proof -
  let ?n = "selection_sequence (ct_table c)"
  have n: "unat ?n = ct_taken c" using assms(1) by (simp add: selections_ok_def)
  then have "?n \<noteq> - 1" using assms(2) unat_max_word [where 'a = 64] by auto
  then have q: "unat q = Suc (ct_taken c)" "unat (?n + 1) = Suc (ct_taken c)" "account_map t = account_map (ct_table c)"
    "selection_sequence t = ?n + 1"
    using assms(3) n unat_inc [of ?n] by (auto simp: take_sequence_def)
  have old: "m \<noteq> q" if "unat m \<le> ct_taken c" for m using that q(1) by auto
  have "pending_ok ?c"
    using assms(1) q(1) old by (auto simp: selections_ok_def pending_ok_def pending_numbers_def intro: le_SucI)
  moreover have "account_ok ?c b s" if "account_map (ct_table c) b = Some s" for b s
    using assms(1) that old by (fastforce simp: selections_ok_def account_ok_def pending_of_def pending_numbers_def)
  ultimately show ?thesis using assms(1) q by (simp add: selections_ok_def)
qed

lemma set_remove_nth: "set (remove_nth i xs) \<subseteq> set xs"
  by (auto simp: remove_nth_def dest: in_set_takeD in_set_dropD)

lemma remove_nth_split:
  assumes "i < length xs"
  shows "\<exists>ys zs. xs = ys @ xs ! i # zs \<and> remove_nth i xs = ys @ zs"
  using id_take_nth_drop [OF assms] by (auto simp: remove_nth_def)

lemma selections_ok_store:
  assumes ok: "selections_ok c" "table_wf (ct_table c)" "ct_taken c < 2 ^ 64"
    and i: "i < length (ct_pending c)" "ct_pending c ! i = (a, q, now)"
  shows "selections_ok (c\<lparr>ct_table := snd (record_selection a q now (ct_table c)), ct_pending := remove_nth i (ct_pending c)\<rparr>)"
    (is "selections_ok ?c")
proof -
  let ?t = "ct_table c" and ?u = "ct_table ?c"
  obtain ys zs where split: "ct_pending c = ys @ (a, q, now) # zs" "remove_nth i (ys @ (a, q, now) # zs) = ys @ zs"
    using remove_nth_split [OF i(1)] i(2) by auto
  have q: "q \<in> set (pending_numbers c)" "0 < unat q" "unat q \<le> ct_taken c"
    using ok(1) split(1) by (auto simp: selections_ok_def pending_ok_def pending_numbers_def)
  have less: "set (pending_numbers ?c) = set (pending_numbers c) - {q}" "distinct (pending_numbers ?c)"
    using ok(1) by (auto simp: selections_ok_def pending_ok_def pending_numbers_def split)
  have pend: "pending_of b c = pending_of b ?c + (if b = a then 1 else 0)" for b
    by (simp add: pending_of_def split)
  have map: "account_map ?u b = (if b = a then map_option (select_state q now) (account_map ?t a) else account_map ?t b)"
    and seq: "selection_sequence ?u = selection_sequence ?t" for b
    using ok(2) by (auto simp: record_selection_def with_state_eq account_map_update split: option.splits)
  have "account_ok ?c b u" if u: "account_map ?u b = Some u" for b u
  proof (cases "b = a")
    case False
    with u map [of b] ok(1) have "account_ok c b u" by (simp add: selections_ok_def)
    with less(1) pend [of b] False show ?thesis by (simp add: account_ok_def)
  next
    case True
    with u map [of b] obtain s where s: "account_map ?t a = Some s" "u = select_state q now s"
      by (cases "account_map ?t a") auto
    with ok(1) have s_ok: "account_ok c a s" by (simp add: selections_ok_def)
    then have "unat (selection_count s) + 1 < 2 ^ 64" using pend [of a] ok(3) by (simp add: account_ok_def)
    then have "unat (sat_add (selection_count s) 1) = unat (selection_count s) + 1" by (simp add: unat_sat_add)
    with s_ok q less(1) pend [of a] True s(2) show ?thesis
      by (auto simp: account_ok_def select_state_def simp flip: unat_eq_zero)
  qed
  moreover have "x = y" if "account_map ?u x = Some s" "account_map ?u y = Some v"
    "last_selected_sequence s = last_selected_sequence v" "last_selected_sequence s \<noteq> 0" for x y s v
  proof -
    have newest: "last_selected_sequence w = q \<longleftrightarrow> z = a" if w: "account_map ?u z = Some w" for z w
    proof (cases "z = a")
      case True
      with w map [of z] show ?thesis by (cases "account_map ?t a") (auto simp: select_state_def)
    next
      case False
      with w map [of z] ok(1) q(1) show ?thesis by (auto simp: selections_ok_def account_ok_def)
    qed
    show ?thesis
    proof (cases "x = a")
      case True
      with newest [OF that(1)] newest [OF that(2)] that(3) show ?thesis by simp
    next
      case False
      with newest [OF that(1)] newest [OF that(2)] that(3) have "y \<noteq> a" by auto
      with False that map [of x] map [of y] ok(1) show ?thesis unfolding selections_ok_def by metis
    qed
  qed
  moreover have "pending_ok ?c" using ok(1) less by (auto simp: selections_ok_def pending_ok_def)
  ultimately show ?thesis using ok(1) seq unfolding selections_ok_def by auto
qed

lemma table_inv_take: "table_inv t \<Longrightarrow> take_sequence t = (q, u) \<Longrightarrow> table_inv u"
  by (auto simp: take_sequence_def)

lemma table_inv_record: "table_inv t \<Longrightarrow> table_inv (snd (record_selection a q now t))"
  by (auto simp: record_selection_def with_state_eq table_inv_update quota_paired_intros split: option.split)

lemma table_inv_op: "table_inv t \<Longrightarrow> table_inv (snd (observe a obs now t))" "table_inv t \<Longrightarrow> table_inv (snd (status a now t))"
  using table_inv_run [of t "ObserveOp a obs now"] table_inv_run [of t "StatusOp a now"] by simp_all

lemma keeps_counts_op:
  "table_wf t \<Longrightarrow> keeps_counts t (snd (observe a obs now t))" "table_wf t \<Longrightarrow> keeps_counts t (snd (status a now t))"
  by (auto simp: observe_eq status_eq intro: keeps_counts_update keeps_counts_refl split: option.split)

lemma table_inv_wf: "table_inv t \<Longrightarrow> table_wf t"
  by (simp add: table_inv_def)

lemma steps_inv_step: "steps_inv c \<Longrightarrow> table_step c e c' \<Longrightarrow> steps_inv c'"
  by (erule table_stepE)
     (auto simp: steps_inv_def table_inv_op table_inv_shard table_inv_record table_inv_wf
       intro!: selections_ok_keeps keeps_counts_op keeps_counts_shard selections_ok_take selections_ok_store
       dest: table_inv_take)

lemma steps_inv_init: "table_init c \<Longrightarrow> steps_inv c"
proof (erule table_init.cases)
  fix policy as t
  assume "c = alone 0 t" "table_new policy as = Ok t"
  with table_new_ok [of policy as t] show "steps_inv c"
    by (auto simp: steps_inv_def alone_def table_inv_def selections_ok_def pending_ok_def account_ok_def pending_of_def
        pending_numbers_def quota_paired_def account_state_default_def split: if_splits)
qed

interpretation table_steps: invariant_system table_init table_step steps_inv
  by unfold_locales (blast intro: steps_inv_init steps_inv_step)+

subsection \<open>Racing selections\<close>

lemma reach_table_run: "reach table_init table_step c \<Longrightarrow> table_run c es c' \<Longrightarrow> reach table_init table_step c'"
  by (rotate_tac, induction rule: table_run.induct) (auto intro: reach_step)

definition racing_selections :: "account_id \<Rightarrow> u64 \<Rightarrow> u64 \<Rightarrow> table_event list" where
  "racing_selections a first second = [TakeStep a first, TakeStep a second, StoreStep 1, StoreStep 0]"

lemma record_selection_known:
  assumes "table_wf t" "account_map t a = Some s"
  shows "table_wf (snd (record_selection a q now t))
    \<and> account_map (snd (record_selection a q now t)) a = Some (select_state q now s)"
  using assms by (simp add: record_selection_def with_state_eq account_map_update)

lemma racing_selections_run:
  assumes "table_wf t" "account_map t a = Some s"
  shows "\<exists>t'. table_run (alone k t) (racing_selections a first second) (alone (k + 2) t') \<and> table_wf t'
    \<and> account_map t' a = Some (select_state (sat_add (selection_sequence t) 1) first
        (select_state (sat_add (selection_sequence t + 1) 1) second s))"
proof -
  let ?n = "selection_sequence t"
  let ?t2 = "t\<lparr>selection_sequence := ?n + 1 + 1\<rparr>"
  let ?t3 = "snd (record_selection a (sat_add (?n + 1) 1) second ?t2)"
  let ?t4 = "snd (record_selection a (sat_add ?n 1) first ?t3)"
  let ?c1 = "\<lparr>ct_table = t\<lparr>selection_sequence := ?n + 1\<rparr>, ct_pending = [(a, sat_add ?n 1, first)], ct_taken = k + 1\<rparr>"
  let ?c2 = "\<lparr>ct_table = ?t2, ct_pending = [(a, sat_add ?n 1, first), (a, sat_add (?n + 1) 1, second)], ct_taken = k + 2\<rparr>"
  let ?c3 = "\<lparr>ct_table = ?t3, ct_pending = [(a, sat_add ?n 1, first)], ct_taken = k + 2\<rparr>"
  have "table_step (alone k t) (TakeStep a first) ?c1"
    using step_take [of "alone k t" _ _ a first] by (simp add: alone_def take_sequence_def)
  moreover have "table_step ?c1 (TakeStep a second) ?c2"
    using step_take [of ?c1 _ _ a second] by (simp add: take_sequence_def)
  moreover have "table_step ?c2 (StoreStep 1) ?c3"
    using step_store [of 1 ?c2 a _ second] by (simp add: remove_nth_def)
  moreover have "table_step ?c3 (StoreStep 0) (alone (k + 2) ?t4)"
    using step_store [of 0 ?c3 a _ first] by (simp add: remove_nth_def alone_def)
  ultimately have "table_run (alone k t) (racing_selections a first second) (alone (k + 2) ?t4)"
    unfolding racing_selections_def by (blast intro: table_run.intros)
  moreover have "table_wf ?t3" "account_map ?t3 a = Some (select_state (sat_add (?n + 1) 1) second s)"
    using record_selection_known [of ?t2 a s] assms by simp_all
  ultimately show ?thesis using record_selection_known by blast
qed

subsection \<open>Properties\<close>

text \<open>
  C26. Selection counters of a running table, in every interleaving of the atomic steps of any number of
  threads. The table is well-formed, and quota and reset time are known together. Until \<open>2^64\<close> selections
  were made, the sequence counter is their exact number, no account counts more selections than were made
  for it or in flight, no account holds a number that was not handed out, a number is set exactly when the
  account was selected, and no two accounts hold the same number.
\<close>

theorem account_table_invariant:
  assumes "reach table_init table_step c"
  shows "table_inv (ct_table c)
    \<and> (ct_taken c < 2 ^ 64 \<longrightarrow> unat (selection_sequence (ct_table c)) = ct_taken c
        \<and> (\<forall>a s. account_map (ct_table c) a = Some s \<longrightarrow>
             unat (selection_count s) + pending_of a c \<le> ct_taken c
             \<and> last_selected_sequence s \<le> selection_sequence (ct_table c)
             \<and> (selection_count s = 0 \<longleftrightarrow> last_selected_sequence s = 0)
             \<and> (\<forall>b u. account_map (ct_table c) b = Some u \<and> b \<noteq> a \<and> selection_count s \<noteq> 0 \<longrightarrow>
                  last_selected_sequence s \<noteq> last_selected_sequence u)))"
proof -
  have inv: "steps_inv c" by (rule table_steps.reach_inv [OF assms])
  have "unat (selection_count s) + pending_of a c \<le> ct_taken c
      \<and> last_selected_sequence s \<le> selection_sequence (ct_table c)
      \<and> (selection_count s = 0 \<longleftrightarrow> last_selected_sequence s = 0)
      \<and> (\<forall>b u. account_map (ct_table c) b = Some u \<and> b \<noteq> a \<and> selection_count s \<noteq> 0 \<longrightarrow>
           last_selected_sequence s \<noteq> last_selected_sequence u)"
    if "ct_taken c < 2 ^ 64" "account_map (ct_table c) a = Some s" for a s
  proof -
    from inv that(1) have ok: "selections_ok c" by (simp add: steps_inv_def)
    with that(2) have "account_ok c a s" by (simp add: selections_ok_def)
    with ok that(2) show ?thesis
      by (auto simp: selections_ok_def account_ok_def word_le_nat_alt)
  qed
  with inv show ?thesis by (auto simp: steps_inv_def selections_ok_def)
qed

text \<open>Two selections of one account, the second of which stores its number first.\<close>

theorem account_table_invariant_witness:
  "\<exists>c. reach table_init table_step c \<and> ct_taken c = 2 \<and> unat (selection_sequence (ct_table c)) = 2
     \<and> table_inv (ct_table c)"
proof -
  obtain t' where run: "table_run (alone 0 sample_table) (racing_selections (AccountId ''a'') 5 6) (alone 2 t')"
    using racing_selections_run [of sample_table "AccountId ''a''" account_state_default 0 5 6] by (auto simp: numeral_2_eq_2)
  have "reach table_init table_step (alone 2 t')"
    by (rule reach_table_run [OF _ run]) (intro reach_init table_init.intros [OF sample_table_new])
  then show ?thesis using account_table_invariant [of "alone 2 t'"] by (auto simp: alone_def)
qed

text \<open>
  C27. Two concurrent selections of one account can block reconfiguration. When all selections so far
  were of that account, which is so for the only account of a Provider and for every account of a new
  table, there is an interleaving of two selections after which \<open>reconfigured\<close> refuses the table it runs
  on: both take their sequence numbers before either locks the shard, the later one stores first, and
  the number left behind is smaller than the number of selections.
\<close>

theorem racing_selections_block_reconfiguration:
  assumes "table_wf t" and "account_map t a = Some s" and "selection_count s = selection_sequence t"
    and "unat (selection_sequence t) + 2 < 2 ^ 64"
    and "distinct as" and "length as \<le> MAX_ACCOUNTS" and "a \<in> set as"
  shows "\<exists>t'. table_run (alone k t) [TakeStep a first, TakeStep a second, StoreStep 1, StoreStep 0] (alone (k + 2) t')
    \<and> fst (reconfigured as now t') = Err InvalidSnapshot"
proof -
  let ?n = "selection_sequence t"
  obtain t' where run: "table_run (alone k t) (racing_selections a first second) (alone (k + 2) t')" "table_wf t'"
    and state: "account_map t' a = Some (select_state (sat_add ?n 1) first (select_state (sat_add (?n + 1) 1) second s))"
    using racing_selections_run [OF assms(1,2)] by blast
  have "\<not> restorable (normalize_state now (select_state (sat_add ?n 1) first (select_state (sat_add (?n + 1) 1) second s)))"
    using assms(3,4) by (simp add: restorable_def select_state_def word_le_nat_alt unat_sat_add)
  with reconfigured_rejects [OF run(2) assms(5-7) state] run(1) show ?thesis
    by (auto simp: racing_selections_def)
qed

theorem racing_selections_block_reconfiguration_witness:
  "\<exists>t'. table_run (alone 0 sample_table) [TakeStep (AccountId ''a'') 5, TakeStep (AccountId ''a'') 6, StoreStep 1, StoreStep 0]
       (alone 2 t') \<and> fst (reconfigured sample_accounts 7 t') = Err InvalidSnapshot"
  using racing_selections_block_reconfiguration [of sample_table "AccountId ''a''" account_state_default sample_accounts 0 5 6 7]
  by (simp add: account_state_default_def) (simp add: numeral_2_eq_2)

end
