(* ===== verification/Catalog.thy ===== *)
theory Catalog
  imports Core_Config
begin

text \<open>
  The Provider catalog of \<open>crates/wokcore-engine/src/catalog.rs\<close>: its data, the validation
  of a decoded catalog file and the private-address test. Decoding the TOML text and parsing
  URLs are third-party code; the URL parser is an argument.
\<close>

unbundle bit_operations_syntax

subsection \<open>Data\<close>

datatype adapter_family =
    OpenAiResponses | OpenAiChat | Anthropic | Google | AzureOpenAi | Cursor | Kiro | MimoFree

datatype auth_kind = KindForward | KindOauth | KindKey | KindLocal

datatype endpoint_policy = PublicHttps | HttpsTemplate | LoopbackHttp

datatype model_source_kind = SourceNone | SourceStatic | SourceLive | SourceHybrid

record provider_capabilities =
  cap_text :: bool
  cap_streaming :: bool
  cap_tools :: bool
  cap_vision :: bool
  cap_images :: bool
  cap_reasoning :: bool
  cap_count_tokens :: bool

record provider_definition =
  def_id :: string
  def_label :: string
  def_adapter :: adapter_family
  def_base_url :: string
  def_auth_kind :: auth_kind
  def_endpoint_policy :: endpoint_policy
  def_model_source :: model_source_kind
  def_aliases :: "string list"
  def_models :: "string list"
  def_default_model :: "string option"
  def_allow_endpoint_override :: bool
  def_key_optional :: bool
  def_allow_key_auth_override :: bool
  def_reasoning_efforts :: "string list"
  def_reasoning_effort_map :: "(string, string) btree"
  def_capabilities :: provider_capabilities

record provider_catalog =
  cat_schema_version :: "32 word"
  cat_baseline_commit :: string
  cat_providers :: "provider_definition list"

text \<open>\<open>CatalogError\<close> carries a stable code.\<close>

datatype catalog_error = CatalogError string

definition CATALOG_SCHEMA_VERSION :: "32 word" where "CATALOG_SCHEMA_VERSION = 1"
definition MAX_PROVIDERS :: nat where "MAX_PROVIDERS = 256"
definition MAX_ALIASES_PER_PROVIDER :: nat where "MAX_ALIASES_PER_PROVIDER = 32"
definition MAX_MODELS_PER_PROVIDER :: nat where "MAX_MODELS_PER_PROVIDER = 512"
definition MAX_LABEL_BYTES :: nat where "MAX_LABEL_BYTES = 256"

definition catalog_provider :: "provider_catalog \<Rightarrow> string \<Rightarrow> provider_definition option" where
  "catalog_provider cat i = find (\<lambda>p. def_id p = i) (cat_providers cat)"

subsection \<open>Private addresses\<close>

definition is_ipv6_unique_local :: "ipv6 \<Rightarrow> bool" where
  "is_ipv6_unique_local a = (v6_octet0 a AND 0xFE = 0xFC)"

definition is_ipv6_link_local :: "ipv6 \<Rightarrow> bool" where
  "is_ipv6_link_local a = (v6_octet0 a = 0xFE \<and> v6_octet1 a AND 0xC0 = 0x80)"

definition is_private_ipv4 :: "ipv4 \<Rightarrow> bool" where
  "is_private_ipv4 a =
     (v4_is_private a \<or> v4_is_loopback a \<or> v4_is_link_local a \<or> v4_is_broadcast a
      \<or> v4_is_documentation a \<or> v4_is_unspecified a \<or> v4_is_multicast a \<or> octet0 a = 0)"

definition is_private_ipv6 :: "ipv6 \<Rightarrow> bool" where
  "is_private_ipv6 a =
     ((case to_ipv4_mapped a of None \<Rightarrow> False | Some m \<Rightarrow> is_private_ipv4 m)
      \<or> v6_is_loopback a \<or> v6_is_unspecified a \<or> v6_is_multicast a
      \<or> is_ipv6_unique_local a \<or> is_ipv6_link_local a)"

fun is_private_ip :: "ip_addr \<Rightarrow> bool" where
  "is_private_ip (V4 a) = is_private_ipv4 a"
| "is_private_ip (V6 a) = is_private_ipv6 a"

fun is_private_host :: "host \<Rightarrow> bool" where
  "is_private_host (Domain d) =
     (let d = to_ascii_lowercase d in
      d = ''localhost'' \<or> ends_with ''.localhost'' d \<or> ends_with ''.local'' d
      \<or> ends_with ''.internal'' d)"
| "is_private_host (HostV4 a) = is_private_ip (V4 a)"
| "is_private_host (HostV6 a) = is_private_ip (V6 a)"

subsection \<open>Endpoint validation\<close>

definition validate_public_url :: "url_parser \<Rightarrow> string \<Rightarrow> catalog_error + unit" where
  "validate_public_url parse e =
     (case parse e of
        None \<Rightarrow> Err (CatalogError ''invalid_endpoint'')
      | Some u \<Rightarrow>
          if url_scheme u \<noteq> ''https'' \<or> url_username u \<noteq> [] \<or> url_password u \<noteq> None
             \<or> url_fragment u \<noteq> None
          then Err (CatalogError ''unsafe_public_endpoint'')
          else (case url_host u of
            None \<Rightarrow> Err (CatalogError ''missing_endpoint_host'')
          | Some h \<Rightarrow>
              if is_private_host h then Err (CatalogError ''private_public_endpoint'') else Ok ()))"

fun catalog_host_is_loopback :: "host \<Rightarrow> bool" where
  "catalog_host_is_loopback (Domain d) = eq_ignore_ascii_case d ''localhost''"
| "catalog_host_is_loopback (HostV4 a) = v4_is_loopback a"
| "catalog_host_is_loopback (HostV6 a) = v6_is_loopback a"

definition validate_loopback_url :: "url_parser \<Rightarrow> string \<Rightarrow> catalog_error + unit" where
  "validate_loopback_url parse e =
     (case parse e of
        None \<Rightarrow> Err (CatalogError ''invalid_endpoint'')
      | Some u \<Rightarrow>
          if \<not> http_or_https (url_scheme u) \<or> url_username u \<noteq> [] \<or> url_password u \<noteq> None
             \<or> url_fragment u \<noteq> None
          then Err (CatalogError ''unsafe_loopback_endpoint'')
          else (case url_host u of
            None \<Rightarrow> Err (CatalogError ''missing_endpoint_host'')
          | Some h \<Rightarrow>
              if \<not> catalog_host_is_loopback h then Err (CatalogError ''non_loopback_endpoint'')
              else Ok ()))"

text \<open>
  The template expansion iterates over scalar values, but compares only with ASCII ones, so it
  is the same on bytes. \<open>read_placeholder\<close> is the inner loop after an opening brace.
\<close>

fun read_placeholder :: "string \<Rightarrow> string \<Rightarrow> (string \<times> string) option" where
  "read_placeholder placeholder [] = None"
| "read_placeholder placeholder (c # s) =
     (if c = CHR ''}'' then Some (placeholder, s)
      else if is_ascii_alphanumeric c \<or> c = CHR ''_'' \<or> c = CHR ''-''
      then read_placeholder (placeholder @ [c]) s
      else None)"

lemma read_placeholder_length: "read_placeholder p s = Some (q, r) \<Longrightarrow> length r < length s"
  by (induction p s rule: read_placeholder.induct) (auto split: if_splits)

function expand_loop :: "string \<Rightarrow> string \<Rightarrow> catalog_error + string" where
  "expand_loop expanded [] = Ok expanded"
| "expand_loop expanded (c # s) =
     (if c = CHR ''{'' then
        (case read_placeholder [] s of
           None \<Rightarrow> Err (CatalogError ''invalid_endpoint_template'')
         | Some (placeholder, r) \<Rightarrow>
             if placeholder = [] then Err (CatalogError ''invalid_endpoint_template'')
             else expand_loop (expanded @ ''placeholder'') r)
      else if c = CHR ''}'' then Err (CatalogError ''invalid_endpoint_template'')
      else expand_loop (expanded @ [c]) s)"
  by pat_completeness auto
termination
  by (relation "measure (\<lambda>(e, s). length s)") (auto dest!: read_placeholder_length)

definition expand_endpoint_template :: "string \<Rightarrow> catalog_error + string" where
  "expand_endpoint_template e =
     (if \<not> starts_with ''https://'' e then Err (CatalogError ''unsafe_template_endpoint'')
      else expand_loop [] e)"

definition validate_endpoint ::
  "url_parser \<Rightarrow> string \<Rightarrow> endpoint_policy \<Rightarrow> catalog_error + unit" where
  "validate_endpoint parse e policy =
     (if e = [] \<or> MAX_ENDPOINT_BYTES < length e then Err (CatalogError ''invalid_endpoint'')
      else case policy of
        PublicHttps \<Rightarrow> validate_public_url parse e
      | HttpsTemplate \<Rightarrow> and_then (expand_endpoint_template e) (validate_public_url parse)
      | LoopbackHttp \<Rightarrow> validate_loopback_url parse e)"

subsection \<open>Provider validation\<close>

fun check_models :: "string list \<Rightarrow> string set \<Rightarrow> catalog_error + string set" where
  "check_models [] seen = Ok seen"
| "check_models (m # ms) seen =
     (if trim_is_empty m \<or> MAX_MODEL_ID_BYTES < length m \<or> has_control m \<or> m \<in> seen
      then Err (CatalogError ''invalid_model'')
      else check_models ms (insert m seen))"

definition validate_models :: "provider_definition \<Rightarrow> catalog_error + unit" where
  "validate_models p =
     (if MAX_MODELS_PER_PROVIDER < length (def_models p) then Err (CatalogError ''too_many_models'')
      else if (def_model_source p = SourceStatic \<or> def_model_source p = SourceHybrid)
              \<and> def_models p = []
      then Err (CatalogError ''missing_static_models'')
      else if def_model_source p = SourceNone \<and> def_models p \<noteq> []
      then Err (CatalogError ''unexpected_models'')
      else and_then (check_models (def_models p) {}) (\<lambda>models.
        case def_default_model p of
          None \<Rightarrow> Ok ()
        | Some d \<Rightarrow>
            if d \<notin> models \<and> def_model_source p \<noteq> SourceLive
            then Err (CatalogError ''invalid_default_model'') else Ok ()))"

definition is_safe_reasoning_value :: "string \<Rightarrow> bool" where
  "is_safe_reasoning_value v =
     (v \<noteq> [] \<and> length v \<le> 32
      \<and> list_all (\<lambda>c. is_ascii_lowercase c \<or> is_ascii_digit c \<or> c = CHR ''-'') v)"

fun check_efforts :: "string list \<Rightarrow> string set \<Rightarrow> catalog_error + unit" where
  "check_efforts [] seen = Ok ()"
| "check_efforts (e # es) seen =
     (if \<not> is_safe_reasoning_value e \<or> e \<in> seen then Err (CatalogError ''invalid_reasoning_effort'')
      else check_efforts es (insert e seen))"

definition validate_reasoning_metadata :: "provider_definition \<Rightarrow> catalog_error + unit" where
  "validate_reasoning_metadata p =
     (if \<not> cap_reasoning (def_capabilities p)
         \<and> (def_reasoning_efforts p \<noteq> [] \<or> def_reasoning_effort_map p \<noteq> [])
      then Err (CatalogError ''unexpected_reasoning_metadata'')
      else if 16 < length (def_reasoning_efforts p) \<or> 32 < length (def_reasoning_effort_map p)
      then Err (CatalogError ''too_much_reasoning_metadata'')
      else and_then (check_efforts (def_reasoning_efforts p) {}) (\<lambda>_.
        try_for_each (\<lambda>(input, wire).
            if \<not> is_safe_reasoning_value input \<or> \<not> is_safe_reasoning_value wire
            then Err (CatalogError ''invalid_reasoning_effort_map'') else Ok ())
          (def_reasoning_effort_map p)))"

text \<open>The alias loop extends the set of aliases shared by all Providers.\<close>

definition check_alias :: "string set \<Rightarrow> string \<Rightarrow> string set \<Rightarrow> catalog_error + string set" where
  "check_alias canonical_ids a seen =
     (if \<not> is_ok (provider_id_new a) then Err (CatalogError ''invalid_alias'')
      else if a \<in> canonical_ids \<or> a \<in> seen then Err (CatalogError ''alias_collision'')
      else Ok (insert a seen))"

definition validate_provider ::
  "url_parser \<Rightarrow> string set \<Rightarrow> provider_definition \<Rightarrow> string set \<Rightarrow> catalog_error + string set" where
  "validate_provider parse canonical_ids p seen =
     (if trim_is_empty (def_label p) \<or> MAX_LABEL_BYTES < length (def_label p)
      then Err (CatalogError ''invalid_label'')
      else if MAX_ALIASES_PER_PROVIDER < length (def_aliases p)
      then Err (CatalogError ''too_many_aliases'')
      else and_then (try_fold (check_alias canonical_ids) (def_aliases p) seen) (\<lambda>seen'.
        and_then (validate_models p) (\<lambda>_.
        and_then (validate_endpoint parse (def_base_url p) (def_endpoint_policy p)) (\<lambda>_.
          if \<not> cap_text (def_capabilities p) \<or> \<not> cap_streaming (def_capabilities p)
          then Err (CatalogError ''invalid_capabilities'')
          else and_then (validate_reasoning_metadata p) (\<lambda>_. Ok seen')))))"

definition check_canonical_id ::
  "provider_definition \<Rightarrow> string set \<Rightarrow> catalog_error + string set" where
  "check_canonical_id p ids =
     (if \<not> is_ok (provider_id_new (def_id p)) then Err (CatalogError ''invalid_provider_id'')
      else if def_id p \<in> ids then Err (CatalogError ''duplicate_provider_id'')
      else Ok (insert (def_id p) ids))"

text \<open>\<open>CatalogFile\<close> and \<open>ProviderCatalog\<close> have the same fields.\<close>

definition catalog_validate ::
  "url_parser \<Rightarrow> provider_catalog \<Rightarrow> catalog_error + provider_catalog" where
  "catalog_validate parse file =
     (if cat_schema_version file \<noteq> CATALOG_SCHEMA_VERSION
      then Err (CatalogError ''unsupported_schema'')
      else if cat_baseline_commit file = [] \<or> 64 < length (cat_baseline_commit file)
              \<or> \<not> list_all (\<lambda>c. is_ascii_alphanumeric c \<or> c = CHR ''-'') (cat_baseline_commit file)
      then Err (CatalogError ''invalid_baseline'')
      else if cat_providers file = [] \<or> MAX_PROVIDERS < length (cat_providers file)
      then Err (CatalogError ''invalid_provider_count'')
      else and_then (try_fold check_canonical_id (cat_providers file) {}) (\<lambda>canonical_ids.
        and_then (try_fold (validate_provider parse canonical_ids) (cat_providers file) {}) (\<lambda>_.
          Ok file)))"

subsection \<open>What a validated catalog guarantees\<close>

definition brace_free :: "string \<Rightarrow> bool" where
  "brace_free s = (CHR ''{'' \<notin> set s \<and> CHR ''}'' \<notin> set s)"

lemma expand_loop_brace_free:
  "expand_loop acc s = Ok e \<Longrightarrow> brace_free acc \<Longrightarrow> brace_free e"
proof (induction acc s rule: expand_loop.induct)
  case (2 acc c s)
  have placeholder: "brace_free (acc @ ''placeholder'')"
    using 2(4) by (simp add: brace_free_def)
  show ?case
  proof (cases "c = CHR ''{''")
    case True
    with 2(3) obtain q r where q: "read_placeholder [] s = Some (q, r)" "q \<noteq> []"
      and rest: "expand_loop (acc @ ''placeholder'') r = Ok e"
      by (auto split: option.splits if_splits)
    show ?thesis by (rule 2(1) [OF True q(1) refl q(2) rest placeholder])
  next
    case False
    with 2 show ?thesis by (auto simp: brace_free_def split: if_splits)
  qed
qed simp

lemma expand_loop_id: "brace_free s \<Longrightarrow> expand_loop acc s = Ok (acc @ s)"
  by (induction s arbitrary: acc) (auto simp: brace_free_def)

lemma check_canonical_ids:
  "try_fold check_canonical_id ps ids = Ok ids' \<longleftrightarrow>
     (\<forall>p \<in> set ps. is_valid_identifier (def_id p)) \<and> distinct (map def_id ps)
     \<and> def_id ` set ps \<inter> ids = {} \<and> ids' = def_id ` set ps \<union> ids"
  by (induction ps arbitrary: ids)
    (auto simp: check_canonical_id_def provider_id_new_def split: if_splits)

lemma check_aliases:
  "try_fold (check_alias ids) as seen = Ok seen' \<longleftrightarrow>
     (\<forall>a \<in> set as. is_valid_identifier a) \<and> distinct as
     \<and> set as \<inter> (ids \<union> seen) = {} \<and> seen' = set as \<union> seen"
  by (induction as arbitrary: seen)
    (auto simp: check_alias_def provider_id_new_def split: if_splits)

text \<open>The address an endpoint of each policy may have, on the parsed URL.\<close>

definition public_url :: "url \<Rightarrow> bool" where
  "public_url u =
     (url_scheme u = ''https'' \<and> url_username u = [] \<and> url_password u = None
      \<and> url_fragment u = None \<and> (\<exists>h. url_host u = Some h \<and> \<not> is_private_host h))"

definition loopback_url :: "url \<Rightarrow> bool" where
  "loopback_url u =
     (http_or_https (url_scheme u) \<and> url_username u = [] \<and> url_password u = None
      \<and> url_fragment u = None \<and> (\<exists>h. url_host u = Some h \<and> catalog_host_is_loopback h))"

lemma validate_public_url_ok:
  "validate_public_url parse e = Ok () \<longleftrightarrow> (\<exists>u. parse e = Some u \<and> public_url u)"
  by (auto simp: validate_public_url_def public_url_def split: option.splits if_splits)

lemma validate_loopback_url_ok:
  "validate_loopback_url parse e = Ok () \<longleftrightarrow> (\<exists>u. parse e = Some u \<and> loopback_url u)"
  by (auto simp: validate_loopback_url_def loopback_url_def split: option.splits if_splits)

definition catalog_endpoint_ok :: "url_parser \<Rightarrow> provider_definition \<Rightarrow> bool" where
  "catalog_endpoint_ok parse p =
     (case def_endpoint_policy p of
        PublicHttps \<Rightarrow> (\<exists>u. parse (def_base_url p) = Some u \<and> public_url u)
      | HttpsTemplate \<Rightarrow>
          (\<exists>e u. expand_endpoint_template (def_base_url p) = Ok e \<and> brace_free e
                 \<and> parse e = Some u \<and> public_url u)
      | LoopbackHttp \<Rightarrow> (\<exists>u. parse (def_base_url p) = Some u \<and> loopback_url u))"

lemma expand_endpoint_template_brace_free:
  "expand_endpoint_template e = Ok e' \<Longrightarrow> brace_free e'"
  by (auto simp: expand_endpoint_template_def brace_free_def split: if_splits
      dest: expand_loop_brace_free)

lemma validate_endpoint_ok:
  "validate_endpoint parse (def_base_url p) (def_endpoint_policy p) = Ok ()
     \<Longrightarrow> catalog_endpoint_ok parse p"
  by (auto simp: validate_endpoint_def catalog_endpoint_ok_def validate_public_url_ok
        validate_loopback_url_ok split: if_splits endpoint_policy.splits
      dest: expand_endpoint_template_brace_free)

lemma validate_provider_ok:
  assumes "validate_provider parse ids p seen = Ok seen'"
  shows "catalog_endpoint_ok parse p \<and> distinct (def_aliases p)
    \<and> set (def_aliases p) \<inter> (ids \<union> seen) = {} \<and> seen' = set (def_aliases p) \<union> seen"
  using assms
  by (auto simp: validate_provider_def check_aliases validate_endpoint_ok split: if_splits)

lemma validate_providers_ok:
  assumes "try_fold (validate_provider parse ids) ps seen = Ok seen'"
  shows "(\<forall>p \<in> set ps. catalog_endpoint_ok parse p) \<and> distinct (concat (map def_aliases ps))
    \<and> set (concat (map def_aliases ps)) \<inter> (ids \<union> seen) = {}"
  using assms
proof (induction ps arbitrary: seen)
  case (Cons p ps)
  then obtain s where p: "validate_provider parse ids p seen = Ok s"
    and ps: "try_fold (validate_provider parse ids) ps s = Ok seen'" by auto
  from validate_provider_ok [OF p] Cons.IH [OF ps] show ?case by auto
qed simp

text \<open>The well-formedness a catalog has once it passed \<open>ProviderCatalog::validate\<close>.\<close>

definition catalog_wf :: "url_parser \<Rightarrow> provider_catalog \<Rightarrow> bool" where
  "catalog_wf parse cat =
     (distinct (map def_id (cat_providers cat))
      \<and> (\<forall>p \<in> set (cat_providers cat). is_valid_identifier (def_id p) \<and> catalog_endpoint_ok parse p)
      \<and> distinct (concat (map def_aliases (cat_providers cat)))
      \<and> set (concat (map def_aliases (cat_providers cat))) \<inter> def_id ` set (cat_providers cat) = {})"

lemma catalog_validate_wf:
  assumes "catalog_validate parse file = Ok cat"
  shows "cat = file \<and> catalog_wf parse cat"
proof -
  from assms obtain ids seen where same: "cat = file"
    and ids: "try_fold check_canonical_id (cat_providers file) {} = Ok ids"
    and seen: "try_fold (validate_provider parse ids) (cat_providers file) {} = Ok seen"
    by (auto simp: catalog_validate_def split: if_splits)
  from validate_providers_ok [OF seen] ids same show ?thesis
    by (auto simp: check_canonical_ids catalog_wf_def)
qed

lemma catalog_provider_lookup:
  assumes "distinct (map def_id (cat_providers cat))" and "p \<in> set (cat_providers cat)"
  shows "catalog_provider cat (def_id p) = Some p"
proof -
  have "distinct (map def_id ps) \<Longrightarrow> p \<in> set ps \<Longrightarrow> find (\<lambda>q. def_id q = def_id p) ps = Some p" for ps
    by (induction ps) (auto simp: rev_image_eqI)
  with assms show ?thesis by (simp add: catalog_provider_def)
qed

lemma catalog_provider_Some:
  "catalog_provider cat i = Some p \<Longrightarrow> p \<in> set (cat_providers cat) \<and> def_id p = i"
  by (auto simp: catalog_provider_def find_Some_iff)

subsection \<open>Properties\<close>

text \<open>
  A catalog that passes validation has valid, unique identifiers, aliases that collide with
  no identifier and no other alias, and endpoints that fit their policy: public HTTPS without
  credentials and outside the private ranges (after expanding a template), or a loopback address.
\<close>

lemma catalog_validated_wf:
  assumes "catalog_validate parse file = Ok cat"
  shows "cat = file \<and> catalog_wf parse cat"
  using catalog_validate_wf [OF assms] .

lemmas catalog_eval = catalog_validate_def CATALOG_SCHEMA_VERSION_def MAX_PROVIDERS_def
  check_canonical_id_def validate_provider_def check_alias_def validate_models_def
  validate_endpoint_def validate_public_url_def validate_reasoning_metadata_def MAX_LABEL_BYTES_def
  MAX_ALIASES_PER_PROVIDER_def MAX_MODELS_PER_PROVIDER_def to_ascii_lowercase_def
  byte_to_ascii_lowercase_def ends_with_def strip_suffix_def

definition sample_definition :: provider_definition where
  "sample_definition =
     \<lparr>def_id = ''p'', def_label = ''P'', def_adapter = OpenAiChat, def_base_url = ''https://p.x'',
      def_auth_kind = KindKey, def_endpoint_policy = PublicHttps, def_model_source = SourceStatic,
      def_aliases = [''q''], def_models = [''m''], def_default_model = Some ''m'',
      def_allow_endpoint_override = False, def_key_optional = False,
      def_allow_key_auth_override = False, def_reasoning_efforts = [], def_reasoning_effort_map = [],
      def_capabilities = \<lparr>cap_text = True, cap_streaming = True, cap_tools = True, cap_vision = False,
        cap_images = False, cap_reasoning = False, cap_count_tokens = False\<rparr>\<rparr>"

definition sample_catalog :: provider_catalog where
  "sample_catalog = \<lparr>cat_schema_version = 1, cat_baseline_commit = ''c1'',
     cat_providers = [sample_definition]\<rparr>"

definition sample_parse :: url_parser where
  "sample_parse e =
     (if e = ''https://p.x''
      then Some \<lparr>url_scheme = ''https'', url_username = [], url_password = None,
             url_host = Some (Domain ''p.x''), url_port = None, url_query = None, url_fragment = None\<rparr>
      else None)"

lemma sample_catalog_valid: "catalog_validate sample_parse sample_catalog = Ok sample_catalog"
  by (simp add: sample_catalog_def sample_definition_def sample_parse_def catalog_eval
      config_eval str_eval)

end
