(* ===== verification/Provider_Config.thy ===== *)
theory Provider_Config
  imports Catalog
begin

text \<open>
  \<open>crates/wokcore-engine/src/config.rs\<close>: validation of a Provider configuration against the
  catalog, after the shape validation of the core crate.
\<close>

datatype provider_config_error =
    ProviderLimitExceeded
  | AccountLimitExceeded
  | AliasLimitExceeded
  | RouteRuleLimitExceeded
  | DuplicateProvider
  | UnknownCatalogProvider
  | DuplicateAccount
  | UnknownAccountProvider
  | EndpointOverrideNotAllowed
  | InvalidEndpoint
  | PrivateNetworkOptInRequired
  | InsecurePublicEndpoint
  | AuthenticationMismatch
  | DuplicateAlias
  | InvalidModel
  | UnknownRouteProvider

record validated_provider_config =
  provider_count :: nat
  account_count :: nat
  route_count :: nat

fun map_shape_error :: "config_shape_error \<Rightarrow> provider_config_error" where
  "map_shape_error ShapeProviderLimitExceeded = ProviderLimitExceeded"
| "map_shape_error ShapeAccountLimitExceeded = AccountLimitExceeded"
| "map_shape_error ShapeAliasLimitExceeded = AliasLimitExceeded"
| "map_shape_error ShapeRouteRuleLimitExceeded = RouteRuleLimitExceeded"
| "map_shape_error ShapeDuplicateProvider = DuplicateProvider"
| "map_shape_error ShapeDuplicateAccount = DuplicateAccount"
| "map_shape_error ShapeUnknownAccountProvider = UnknownAccountProvider"
| "map_shape_error ShapeInvalidEndpoint = InvalidEndpoint"
| "map_shape_error ShapeDuplicateAlias = DuplicateAlias"
| "map_shape_error ShapeInvalidModel = InvalidModel"
| "map_shape_error ShapeUnknownRouteProvider = UnknownRouteProvider"

datatype endpoint_class = ClassPublic | ClassPrivate

definition classify_endpoint_override ::
  "url_parser \<Rightarrow> string \<Rightarrow> provider_config_error + endpoint_class" where
  "classify_endpoint_override parse e =
     (if e = [] \<or> MAX_ENDPOINT_BYTES < length e \<or> CHR ''{'' \<in> set e \<or> CHR ''}'' \<in> set e
      then Err InvalidEndpoint
      else (case parse e of
        None \<Rightarrow> Err InvalidEndpoint
      | Some u \<Rightarrow>
          if url_username u \<noteq> [] \<or> url_password u \<noteq> None \<or> url_query u \<noteq> None \<or> url_fragment u \<noteq> None
          then Err InvalidEndpoint
          else (case url_host u of
            None \<Rightarrow> Err InvalidEndpoint
          | Some h \<Rightarrow>
              if is_private_host h then
                (if \<not> http_or_https (url_scheme u) then Err InvalidEndpoint else Ok ClassPrivate)
              else if url_scheme u \<noteq> ''https'' then Err InsecurePublicEndpoint
              else Ok ClassPublic)))"

fun authentication_matches :: "provider_definition \<Rightarrow> account_auth_config \<Rightarrow> bool" where
  "authentication_matches p (Forward _) = (def_auth_kind p = KindForward)"
| "authentication_matches p (Oauth _ _) = (def_auth_kind p = KindOauth)"
| "authentication_matches p (ApiKey _) =
     (def_auth_kind p = KindKey \<or> (def_auth_kind p = KindOauth \<and> def_allow_key_auth_override p))"
| "authentication_matches p Local =
     (def_auth_kind p = KindLocal \<or> (def_auth_kind p = KindKey \<and> def_key_optional p))"

definition validate_instance ::
  "url_parser \<Rightarrow> provider_catalog \<Rightarrow> provider_instance_config
     \<Rightarrow> (provider_id, provider_definition) btree
     \<Rightarrow> provider_config_error + (provider_id, provider_definition) btree" where
  "validate_instance parse cat i validated =
     and_then (ok_or (catalog_provider cat (provider_str (inst_catalog_id i))) UnknownCatalogProvider)
       (\<lambda>d. and_then
          (case inst_endpoint i of
             None \<Rightarrow> Ok ()
           | Some e \<Rightarrow>
               if \<not> def_allow_endpoint_override d then Err EndpointOverrideNotAllowed
               else and_then (classify_endpoint_override parse e) (\<lambda>c. case c of
                   ClassPublic \<Rightarrow> Ok ()
                 | ClassPrivate \<Rightarrow>
                     if inst_allow_private_network i then Ok ()
                     else Err PrivateNetworkOptInRequired))
          (\<lambda>_. Ok (bt_insert (inst_id i) d validated)))"

definition validate_instances ::
  "url_parser \<Rightarrow> provider_catalog \<Rightarrow> provider_instance_config list
     \<Rightarrow> provider_config_error + (provider_id, provider_definition) btree" where
  "validate_instances parse cat is = try_fold (validate_instance parse cat) is []"

definition validate_account ::
  "(provider_id, provider_definition) btree \<Rightarrow> account_config \<Rightarrow> provider_config_error + unit" where
  "validate_account validated a =
     and_then (ok_or (bt_get validated (acct_provider a)) UnknownAccountProvider)
       (\<lambda>d. if \<not> authentication_matches d (acct_auth a) then Err AuthenticationMismatch else Ok ())"

definition validate_accounts ::
  "provider_config \<Rightarrow> (provider_id, provider_definition) btree \<Rightarrow> provider_config_error + unit" where
  "validate_accounts ps validated = try_for_each (validate_account validated) (accounts ps)"

definition validate_provider_configuration ::
  "url_parser \<Rightarrow> provider_catalog \<Rightarrow> provider_config \<Rightarrow> routing_config
     \<Rightarrow> provider_config_error + validated_provider_config" where
  "validate_provider_configuration parse cat ps rs =
     and_then (map_err map_shape_error (validate_provider_configuration_shape parse ps rs)) (\<lambda>_.
     and_then (validate_instances parse cat (instances ps)) (\<lambda>validated.
     and_then (validate_accounts ps validated) (\<lambda>_.
       Ok \<lparr>provider_count = length (instances ps), account_count = length (accounts ps),
           route_count = length (aliases rs) + length (rules rs)
             + (case default_target rs of None \<Rightarrow> 0 | Some _ \<Rightarrow> 1)\<rparr>)))"

subsection \<open>What an accepted configuration guarantees\<close>

text \<open>
  The endpoint an instance may use: only a Provider that allows it has an override, a public
  override is HTTPS, and an address in a private range needs the explicit opt-in.
\<close>

definition override_ok ::
  "url_parser \<Rightarrow> provider_definition \<Rightarrow> provider_instance_config \<Rightarrow> bool" where
  "override_ok parse d i =
     (\<forall>e. inst_endpoint i = Some e \<longrightarrow>
        def_allow_endpoint_override d \<and> brace_free e
        \<and> (\<exists>u h. parse e = Some u \<and> url_host u = Some h \<and> url_username u = [] \<and> url_password u = None
             \<and> url_query u = None \<and> url_fragment u = None
             \<and> (if is_private_host h then inst_allow_private_network i \<and> http_or_https (url_scheme u)
                else url_scheme u = ''https'')))"

definition instance_ok ::
  "url_parser \<Rightarrow> provider_catalog \<Rightarrow> provider_instance_config \<Rightarrow> bool" where
  "instance_ok parse cat i =
     (\<exists>d. catalog_provider cat (provider_str (inst_catalog_id i)) = Some d \<and> override_ok parse d i)"

lemma validate_instance_ok:
  assumes "validate_instance parse cat i m = Ok m'"
  obtains d where "catalog_provider cat (provider_str (inst_catalog_id i)) = Some d"
    and "override_ok parse d i" and "m' = bt_insert (inst_id i) d m"
proof -
  from assms obtain d where d: "catalog_provider cat (provider_str (inst_catalog_id i)) = Some d"
    and m': "m' = bt_insert (inst_id i) d m"
    and e: "(case inst_endpoint i of None \<Rightarrow> Ok ()
       | Some e \<Rightarrow> if \<not> def_allow_endpoint_override d then Err EndpointOverrideNotAllowed
           else and_then (classify_endpoint_override parse e) (\<lambda>c. case c of ClassPublic \<Rightarrow> Ok ()
             | ClassPrivate \<Rightarrow> if inst_allow_private_network i then Ok ()
                 else Err PrivateNetworkOptInRequired)) = Ok ()"
    by (auto simp: validate_instance_def)
  from e have "override_ok parse d i"
    by (auto simp: override_ok_def classify_endpoint_override_def brace_free_def
        split: option.splits if_splits endpoint_class.splits)
  with d m' that show thesis by blast
qed

text \<open>The definition each configured Provider identifier resolves to.\<close>

definition definition_of ::
  "provider_catalog \<Rightarrow> provider_instance_config list \<Rightarrow> provider_id \<Rightarrow> provider_definition option" where
  "definition_of cat is pid =
     (case find (\<lambda>i. inst_id i = pid) is of
        None \<Rightarrow> None
      | Some i \<Rightarrow> catalog_provider cat (provider_str (inst_catalog_id i)))"

lemma validate_instances_fold:
  assumes "try_fold (validate_instance parse cat) is m = Ok m'" and "bt_wf m"
    and "distinct (map inst_id is)"
  shows "bt_wf m' \<and> (\<forall>i \<in> set is. instance_ok parse cat i)
    \<and> (\<forall>pid. bt_get m' pid =
          (if pid \<in> inst_id ` set is then definition_of cat is pid else bt_get m pid))"
  using assms
proof (induction "is" arbitrary: m)
  case (Cons i "is")
  then obtain m1 where i: "validate_instance parse cat i m = Ok m1"
    and rest: "try_fold (validate_instance parse cat) is m1 = Ok m'" by auto
  from i obtain d where d: "catalog_provider cat (provider_str (inst_catalog_id i)) = Some d"
    and ov: "override_ok parse d i" and m1: "m1 = bt_insert (inst_id i) d m"
    by (rule validate_instance_ok)
  from Cons.prems m1 have wf1: "bt_wf m1" and dist: "distinct (map inst_id is)"
    and fresh: "inst_id i \<notin> inst_id ` set is" by auto
  have "definition_of cat (i # is) pid =
      (if pid = inst_id i then Some d else definition_of cat is pid)" for pid
    by (simp add: definition_of_def d)
  with Cons.IH [OF rest wf1 dist] d ov fresh Cons.prems(2) show ?case
    by (auto simp: m1 bt.get_insert instance_ok_def)
qed simp

definition provider_config_ok ::
  "url_parser \<Rightarrow> provider_catalog \<Rightarrow> provider_config \<Rightarrow> routing_config \<Rightarrow> bool" where
  "provider_config_ok parse cat ps rs =
     (config_shape_ok parse ps rs \<and> (\<forall>i \<in> set (instances ps). instance_ok parse cat i)
      \<and> (\<forall>a \<in> set (accounts ps). \<exists>d. definition_of cat (instances ps) (acct_provider a) = Some d
            \<and> authentication_matches d (acct_auth a)))"

lemma validate_provider_configuration_ok:
  assumes "validate_provider_configuration parse cat ps rs = Ok v"
  shows "provider_config_ok parse cat ps rs"
proof -
  from assms obtain m where shape: "config_shape_ok parse ps rs"
    and inst: "try_fold (validate_instance parse cat) (instances ps) [] = Ok m"
    and acct: "\<forall>a \<in> set (accounts ps). validate_account m a = Ok ()"
    by (auto simp: validate_provider_configuration_def validate_instances_def validate_accounts_def
        try_for_each_Ok shape_ok_iff)
  from shape have dist: "distinct (map inst_id (instances ps))"
    and known: "\<forall>a \<in> set (accounts ps). acct_provider a \<in> inst_id ` set (instances ps)"
    by (auto simp: config_shape_ok_def Let_def)
  from validate_instances_fold [OF inst _ dist] known acct shape show ?thesis
    by (auto simp: provider_config_ok_def validate_account_def split: if_splits)
qed

lemma validate_instance_total:
  assumes "instance_ok parse cat i"
    and "\<forall>e. inst_endpoint i = Some e \<longrightarrow> validate_endpoint_shape parse e = Ok ()"
  shows "\<exists>m'. validate_instance parse cat i m = Ok m'"
proof -
  from assms(1) obtain d where d: "catalog_provider cat (provider_str (inst_catalog_id i)) = Some d"
    and ov: "override_ok parse d i" by (auto simp: instance_ok_def)
  show ?thesis
  proof (cases "inst_endpoint i")
    case None
    with d show ?thesis by (simp add: validate_instance_def)
  next
    case (Some e)
    with assms(2) have "e \<noteq> [] \<and> length e \<le> MAX_ENDPOINT_BYTES"
      by (auto simp: validate_endpoint_shape_def split: if_splits)
    moreover from ov Some obtain u h where "def_allow_endpoint_override d" "brace_free e"
      "parse e = Some u" "url_host u = Some h" "url_username u = []" "url_password u = None"
      "url_query u = None" "url_fragment u = None"
      "if is_private_host h then inst_allow_private_network i \<and> http_or_https (url_scheme u)
       else url_scheme u = ''https''"
      by (auto simp: override_ok_def)
    ultimately show ?thesis
      using d Some
      by (auto simp: validate_instance_def classify_endpoint_override_def brace_free_def not_less
          split: if_splits)
  qed
qed

lemma validate_instances_total:
  assumes "\<forall>i \<in> set is. instance_ok parse cat i"
    and "\<forall>i \<in> set is. \<forall>e. inst_endpoint i = Some e \<longrightarrow> validate_endpoint_shape parse e = Ok ()"
  shows "\<exists>m'. try_fold (validate_instance parse cat) is m = Ok m'"
  using assms
proof (induction "is" arbitrary: m)
  case (Cons i "is")
  then obtain m1 where "validate_instance parse cat i m = Ok m1"
    using validate_instance_total [of parse cat i m] by auto
  with Cons show ?case by simp
qed simp

lemma validate_provider_configuration_total:
  assumes "provider_config_ok parse cat ps rs"
  shows "\<exists>v. validate_provider_configuration parse cat ps rs = Ok v"
proof -
  from assms have shape: "validate_provider_configuration_shape parse ps rs = Ok ()"
    and dist: "distinct (map inst_id (instances ps))"
    and known: "\<forall>a \<in> set (accounts ps). acct_provider a \<in> inst_id ` set (instances ps)"
    and ends: "\<forall>i \<in> set (instances ps). \<forall>e. inst_endpoint i = Some e \<longrightarrow> validate_endpoint_shape parse e = Ok ()"
    by (auto simp: provider_config_ok_def shape_ok_iff config_shape_ok_def Let_def)
  from validate_instances_total [OF _ ends, of cat "[]"] assms obtain m where
    m: "try_fold (validate_instance parse cat) (instances ps) [] = Ok m"
    by (auto simp: provider_config_ok_def)
  from validate_instances_fold [OF m _ dist] known assms
  have "validate_accounts ps m = Ok ()"
    by (auto simp: validate_accounts_def try_for_each_Ok provider_config_ok_def validate_account_def)
  with shape m show ?thesis
    by (simp add: validate_provider_configuration_def validate_instances_def)
qed

subsection \<open>Properties\<close>

text \<open>
  C28. The validation accepts exactly the configurations that meet their declarative description:
  sizes within bounds, unique identifiers, no dangling reference; every instance names a catalog
  entry and overrides its endpoint only where the entry allows it, with public HTTPS or, after
  opting in, a private address; every account's authentication kind suits its Provider.
\<close>

theorem provider_configuration_accepted_iff:
  "is_ok (validate_provider_configuration parse cat ps rs) \<longleftrightarrow> provider_config_ok parse cat ps rs"
  using validate_provider_configuration_ok validate_provider_configuration_total
  by (fastforce simp: is_ok_iff)

end
