(* ===== verification/Routing.thy ===== *)
theory Routing
  imports Provider_Config Accounts
begin

text \<open>
  Routing: \<open>routing.rs\<close>, \<open>models.rs\<close> and \<open>snapshot.rs\<close> of the engine. A runtime
  snapshot is compiled from a catalog and a configuration, and answers every request with a
  decision, from which the account candidates are enumerated. \<open>Arc\<close> shares immutable values,
  so it leaves no trace here.
\<close>

subsection \<open>Data\<close>

record route_request =
  req_provider :: "provider_id option"
  req_model :: string
  req_client_id :: "client_id option"

datatype route_origin = OriginExplicit | OriginAlias | OriginRule | OriginDefault

datatype endpoint_access = PublicOnly | PrivateAllowed | LoopbackOnly

record route_account =
  ra_id :: account_id
  ra_auth :: account_auth_config

record route_provider =
  rp_id :: provider_id
  rp_catalog_id :: provider_id
  rp_endpoint :: string
  rp_endpoint_access :: endpoint_access
  rp_adapter :: adapter_family
  rp_auth_kind :: auth_kind
  rp_capabilities :: provider_capabilities
  rp_accounts :: "route_account list"
  rp_reasoning_efforts :: "string list"
  rp_reasoning_effort_map :: "(string, string) btree"

record route_decision =
  dec_provider :: route_provider
  dec_model :: string
  dec_origin :: route_origin

record route_candidate =
  rc_provider :: route_provider
  rc_account :: "route_account option"
  rc_model :: string
  rc_origin :: route_origin

datatype route_error = NoRoute | ProviderUnavailable | UnsupportedReasoningEffort

record public_model_metadata =
  pm_id :: string
  pm_owned_by :: provider_id
  pm_capabilities :: provider_capabilities

record compiled_rule =
  cr_client_id :: "client_id option"
  cr_model :: "string option"
  cr_target :: route_target

record runtime_snapshot =
  rs_providers :: "(provider_id, route_provider) btree"
  rs_aliases :: "(string, route_target) btree"
  rs_rules :: "compiled_rule list"
  rs_default :: "route_target option"
  rs_public_models :: "public_model_metadata list"

datatype snapshot_error =
    ProviderConfigInvalid provider_config_error
  | NoEnabledAccount provider_id
  | UnresolvedEndpointTemplate provider_id

definition from_configuration :: "endpoint_policy \<Rightarrow> bool \<Rightarrow> endpoint_access" where
  "from_configuration policy allow_private_network =
     (if allow_private_network then PrivateAllowed
      else if policy = LoopbackHttp then LoopbackOnly
      else PublicOnly)"

fun authentication :: "account_auth_config \<Rightarrow> account_authentication" where
  "authentication (Forward _) = AuthForward"
| "authentication (Oauth _ _) = AuthOauth"
| "authentication (ApiKey _) = AuthApiKey"
| "authentication Local = AuthLocal"

subsection \<open>Compiling a snapshot\<close>

definition compiled_from_config :: "route_rule \<Rightarrow> compiled_rule" where
  "compiled_from_config r =
     \<lparr>cr_client_id = rule_client_id r, cr_model = rule_model r, cr_target = rule_target r\<rparr>"

text \<open>At most 2, so the sum of the two bytes does not wrap.\<close>

definition specificity :: "compiled_rule \<Rightarrow> nat" where
  "specificity r = of_bool (cr_client_id r \<noteq> None) + of_bool (cr_model r \<noteq> None)"

definition rule_matches :: "compiled_rule \<Rightarrow> route_request \<Rightarrow> bool" where
  "rule_matches r req =
     ((case cr_client_id r of None \<Rightarrow> True | Some c \<Rightarrow> req_client_id req = Some c)
      \<and> (case cr_model r of None \<Rightarrow> True | Some m \<Rightarrow> m = req_model req))"

definition account_is_required :: "provider_definition \<Rightarrow> bool" where
  "account_is_required d = (def_auth_kind d \<noteq> KindLocal \<and> \<not> def_key_optional d)"

definition runtime_accounts :: "provider_config \<Rightarrow> provider_instance_config \<Rightarrow> route_account list" where
  "runtime_accounts ps i =
     map (\<lambda>a. \<lparr>ra_id = acct_id a, ra_auth = acct_auth a\<rparr>)
       (filter (\<lambda>a. acct_enabled a \<and> acct_provider a = inst_id i) (accounts ps))"

definition runtime_endpoint :: "provider_definition \<Rightarrow> provider_instance_config \<Rightarrow> string" where
  "runtime_endpoint d i = (case inst_endpoint i of Some e \<Rightarrow> e | None \<Rightarrow> def_base_url d)"

definition runtime_provider ::
  "provider_config \<Rightarrow> provider_definition \<Rightarrow> provider_instance_config \<Rightarrow> route_provider" where
  "runtime_provider ps d i =
     \<lparr>rp_id = inst_id i, rp_catalog_id = inst_catalog_id i, rp_endpoint = runtime_endpoint d i,
      rp_endpoint_access =
        from_configuration (def_endpoint_policy d) (inst_allow_private_network i),
      rp_adapter = def_adapter d, rp_auth_kind = def_auth_kind d,
      rp_capabilities = def_capabilities d, rp_accounts = runtime_accounts ps i,
      rp_reasoning_efforts = def_reasoning_efforts d,
      rp_reasoning_effort_map = def_reasoning_effort_map d\<rparr>"

text \<open>One round of the loop over the enabled instances; \<open>expect\<close> panics on a missing entry.\<close>

definition build_runtime_provider ::
  "provider_catalog \<Rightarrow> provider_config \<Rightarrow> provider_instance_config
     \<Rightarrow> (provider_id, route_provider) btree
     \<Rightarrow> snapshot_error failure + (provider_id, route_provider) btree" where
  "build_runtime_provider cat ps i runtime =
     and_then (expect (catalog_provider cat (provider_str (inst_catalog_id i)))) (\<lambda>d.
       if CHR ''{'' \<in> set (runtime_endpoint d i) \<or> CHR ''}'' \<in> set (runtime_endpoint d i)
       then Err (Fail (UnresolvedEndpointTemplate (inst_id i)))
       else if runtime_accounts ps i = [] \<and> account_is_required d
       then Err (Fail (NoEnabledAccount (inst_id i)))
       else Ok (bt_insert (inst_id i) (runtime_provider ps d i) runtime))"

definition build_runtime_providers ::
  "provider_catalog \<Rightarrow> provider_config
     \<Rightarrow> snapshot_error failure + (provider_id, route_provider) btree" where
  "build_runtime_providers cat ps =
     try_fold (build_runtime_provider cat ps) (filter inst_enabled (instances ps)) []"

definition public_model :: "string \<Rightarrow> route_provider \<Rightarrow> public_model_metadata" where
  "public_model m p =
     \<lparr>pm_id = m, pm_owned_by = rp_id p, pm_capabilities = rp_capabilities p\<rparr>"

abbreviation or_insert_model ::
  "route_provider \<Rightarrow> string \<Rightarrow> (string, public_model_metadata) btree
     \<Rightarrow> (string, public_model_metadata) btree" where
  "or_insert_model p m \<equiv> bt_or_insert m (public_model m p)"

definition catalog_models ::
  "provider_catalog \<Rightarrow> route_provider \<Rightarrow> (string, public_model_metadata) btree
     \<Rightarrow> snapshot_error failure + (string, public_model_metadata) btree" where
  "catalog_models cat p models =
     and_then (expect (catalog_provider cat (provider_str (rp_catalog_id p)))) (\<lambda>d.
       let models1 = fold (or_insert_model p) (def_models d) models
       in Ok (case def_default_model d of
                None \<Rightarrow> models1
              | Some m \<Rightarrow> or_insert_model p m models1))"

definition alias_model ::
  "(provider_id, route_provider) btree \<Rightarrow> model_alias
     \<Rightarrow> (string, public_model_metadata) btree \<Rightarrow> (string, public_model_metadata) btree" where
  "alias_model ps a models =
     (case bt_get ps (target_provider (alias_target a)) of
        None \<Rightarrow> models
      | Some p \<Rightarrow> bt_insert (alias_name a) (public_model (alias_name a) p) models)"

definition rule_model_entry ::
  "(provider_id, route_provider) btree \<Rightarrow> route_rule
     \<Rightarrow> (string, public_model_metadata) btree \<Rightarrow> (string, public_model_metadata) btree" where
  "rule_model_entry ps r models =
     (case (rule_model r, bt_get ps (target_provider (rule_target r))) of
        (Some m, Some p) \<Rightarrow> or_insert_model p m models
      | _ \<Rightarrow> models)"

definition default_model_entry ::
  "(provider_id, route_provider) btree \<Rightarrow> route_target option
     \<Rightarrow> (string, public_model_metadata) btree \<Rightarrow> (string, public_model_metadata) btree" where
  "default_model_entry ps d models =
     (case d of None \<Rightarrow> models
      | Some t \<Rightarrow> (case bt_get ps (target_provider t) of
            None \<Rightarrow> models
          | Some p \<Rightarrow> or_insert_model p (target_model t) models))"

definition build_public_models ::
  "provider_catalog \<Rightarrow> (provider_id, route_provider) btree \<Rightarrow> routing_config
     \<Rightarrow> snapshot_error failure + public_model_metadata list" where
  "build_public_models cat ps rs =
     and_then (try_fold (catalog_models cat) (map snd ps) []) (\<lambda>m1.
       let m2 = fold (alias_model ps) (aliases rs) m1;
           m3 = fold (rule_model_entry ps) (rules rs) m2
       in Ok (map snd (default_model_entry ps (default_target rs) m3)))"

definition build_validated ::
  "url_parser \<Rightarrow> provider_catalog \<Rightarrow> provider_config \<Rightarrow> routing_config
     \<Rightarrow> snapshot_error failure + runtime_snapshot" where
  "build_validated parse cat ps rs =
     and_then (map_err (\<lambda>e. Fail (ProviderConfigInvalid e))
                 (validate_provider_configuration parse cat ps rs)) (\<lambda>_.
     and_then (build_runtime_providers cat ps) (\<lambda>providers.
     and_then (build_public_models cat providers rs) (\<lambda>models.
       Ok \<lparr>rs_providers = providers,
           rs_aliases = bt_collect (map (\<lambda>a. (alias_name a, alias_target a)) (aliases rs)),
           rs_rules = sort_key (\<lambda>r. - int (specificity r)) (map compiled_from_config (rules rs)),
           rs_default = default_target rs,
           rs_public_models = models\<rparr>)))"

text \<open>
  \<open>SnapshotPublisher\<close> holds the current snapshot; the atomic store is an assignment.
\<close>

definition rebuild_and_publish ::
  "url_parser \<Rightarrow> provider_catalog \<Rightarrow> provider_config \<Rightarrow> routing_config \<Rightarrow> runtime_snapshot
     \<Rightarrow> (snapshot_error failure + runtime_snapshot) \<times> runtime_snapshot" where
  "rebuild_and_publish parse cat ps rs current =
     (case build_validated parse cat ps rs of
        Inl e \<Rightarrow> (Err e, current)
      | Inr s \<Rightarrow> (Ok s, s))"

subsection \<open>Routing a request\<close>

definition decision ::
  "runtime_snapshot \<Rightarrow> route_target \<Rightarrow> route_origin \<Rightarrow> route_error + route_decision" where
  "decision s t origin =
     and_then (ok_or (bt_get (rs_providers s) (target_provider t)) ProviderUnavailable) (\<lambda>p.
       Ok \<lparr>dec_provider = p, dec_model = target_model t, dec_origin = origin\<rparr>)"

definition route :: "runtime_snapshot \<Rightarrow> route_request \<Rightarrow> route_error + route_decision" where
  "route s req =
     (case req_provider req of
        Some p \<Rightarrow> decision s \<lparr>target_provider = p, target_model = req_model req\<rparr> OriginExplicit
      | None \<Rightarrow>
          (case bt_get (rs_aliases s) (req_model req) of
             Some t \<Rightarrow> decision s t OriginAlias
           | None \<Rightarrow>
               (case find (\<lambda>r. rule_matches r req) (rs_rules s) of
                  Some r \<Rightarrow> decision s (cr_target r) OriginRule
                | None \<Rightarrow>
                    (case rs_default s of
                       Some t \<Rightarrow> decision s t OriginDefault
                     | None \<Rightarrow> Err NoRoute))))"

definition STANDARD_REASONING_EFFORTS :: "string list" where
  "STANDARD_REASONING_EFFORTS =
     [''none'', ''minimal'', ''low'', ''medium'', ''high'', ''xhigh'', ''max'']"

definition map_reasoning_effort :: "route_decision \<Rightarrow> string \<Rightarrow> route_error + string" where
  "map_reasoning_effort d effort =
     (let p = dec_provider d in
      if \<not> cap_reasoning (rp_capabilities p) then Err UnsupportedReasoningEffort
      else (case bt_get (rp_reasoning_effort_map p) effort of
          Some mapped \<Rightarrow> Ok mapped
        | None \<Rightarrow>
            if (if rp_reasoning_efforts p = [] then effort \<in> set STANDARD_REASONING_EFFORTS
                else effort \<in> set (rp_reasoning_efforts p))
            then Ok effort else Err UnsupportedReasoningEffort))"

subsection \<open>The iterator over candidates\<close>

record route_candidates =
  it_decision :: route_decision
  it_next_account :: nat
  it_yielded_accountless :: bool

definition candidates :: "route_decision \<Rightarrow> route_candidates" where
  "candidates d = \<lparr>it_decision = d, it_next_account = 0, it_yielded_accountless = False\<rparr>"

definition candidate_of :: "route_decision \<Rightarrow> route_account option \<Rightarrow> route_candidate" where
  "candidate_of d a =
     \<lparr>rc_provider = dec_provider d, rc_account = a, rc_model = dec_model d, rc_origin = dec_origin d\<rparr>"

definition candidates_next ::
  "route_candidates \<Rightarrow> route_candidate option \<times> route_candidates" where
  "candidates_next it =
     (let as = rp_accounts (dec_provider (it_decision it)) in
      if as = [] then
        (if it_yielded_accountless it then (None, it)
         else (Some (candidate_of (it_decision it) None), it\<lparr>it_yielded_accountless := True\<rparr>))
      else if it_next_account it < length as then
        (Some (candidate_of (it_decision it) (Some (as ! it_next_account it))),
         it\<lparr>it_next_account := it_next_account it + 1\<rparr>)
      else (None, it))"

definition size_hint :: "route_candidates \<Rightarrow> nat" where
  "size_hint it =
     (let as = rp_accounts (dec_provider (it_decision it)) in
      if as = [] then of_bool (\<not> it_yielded_accountless it)
      else length as - it_next_account it)"

lemma candidates_next_size:
  "candidates_next it = (Some c, it') \<Longrightarrow> size_hint it = Suc (size_hint it')"
  by (auto simp: candidates_next_def size_hint_def Let_def split: if_splits)

text \<open>Draining the iterator, as a \<open>for\<close> loop does.\<close>

function drain_candidates :: "route_candidates \<Rightarrow> route_candidate list" where
  "drain_candidates it =
     (case candidates_next it of
        (None, _) \<Rightarrow> []
      | (Some c, it') \<Rightarrow> c # drain_candidates it')"
  by pat_completeness auto
termination
  by (relation "measure size_hint") (auto dest: candidates_next_size [OF sym])

end
