(* ===== verification/Routing_Facts.thy ===== *)
theory Routing_Facts
  imports Routing
begin

text \<open>
  What a compiled snapshot guarantees: building never panics, a route follows the documented
  precedence, and whatever it returns uses an endpoint, an account and an authentication kind
  that the catalog and the configuration allow.
\<close>

declare drain_candidates.simps [simp del]

subsection \<open>The first match of a stable sort\<close>

lemma find_filter: "find P xs = (case filter P xs of [] \<Rightarrow> None | x # _ \<Rightarrow> Some x)"
  by (induction xs) auto

text \<open>
  The first match after a stable sort is the first match, in the original order, among those
  with the smallest key.
\<close>

lemma find_sort_key:
  assumes "find P (sort_key f xs) = Some x"
  shows "find (\<lambda>y. P y \<and> f y = f x) xs = Some x \<and> (\<forall>y \<in> set xs. P y \<longrightarrow> f x \<le> f y)"
proof -
  from assms obtain ys where ys: "filter P (sort_key f xs) = x # ys"
    by (auto simp: find_filter split: list.splits)
  then have sorted: "sorted (map f (x # ys))"
    by (metis filter_sort sorted_sort_key)
  have "filter (\<lambda>y. f y = f x) (filter P (sort_key f xs)) = filter (\<lambda>y. P y \<and> f y = f x) xs"
    using arg_cong [OF sort_key_stable [of f "f x" xs], of "filter P"]
    by (simp add: conj_commute del: filter_sort)
  with ys have "\<exists>zs. filter (\<lambda>y. P y \<and> f y = f x) xs = x # zs"
    by (metis (mono_tags, lifting) filter.simps(2))
  moreover have "f x \<le> f y" if "y \<in> set xs" "P y" for y
  proof -
    from that have "y \<in> set (filter P (sort_key f xs))" by simp
    with ys sorted show ?thesis by auto
  qed
  ultimately show ?thesis by (auto simp: find_filter)
qed

subsection \<open>The documented precedence\<close>

definition find_rule :: "route_rule list \<Rightarrow> route_request \<Rightarrow> nat \<Rightarrow> compiled_rule option" where
  "find_rule rs req k =
     find (\<lambda>r. rule_matches r req \<and> specificity r = k) (map compiled_from_config rs)"

text \<open>A rule for client and model first, then a rule for one of them, then a catch-all rule.\<close>

definition best_rule :: "route_rule list \<Rightarrow> route_request \<Rightarrow> compiled_rule option" where
  "best_rule rs req =
     (case find_rule rs req 2 of
        Some r \<Rightarrow> Some r
      | None \<Rightarrow> (case find_rule rs req 1 of Some r \<Rightarrow> Some r | None \<Rightarrow> find_rule rs req 0))"

definition choose_target ::
  "routing_config \<Rightarrow> route_request \<Rightarrow> (route_target \<times> route_origin) option" where
  "choose_target rs req =
     (case req_provider req of
        Some p \<Rightarrow> Some (\<lparr>target_provider = p, target_model = req_model req\<rparr>, OriginExplicit)
      | None \<Rightarrow>
          (case find (\<lambda>a. alias_name a = req_model req) (aliases rs) of
             Some a \<Rightarrow> Some (alias_target a, OriginAlias)
           | None \<Rightarrow>
               (case best_rule (rules rs) req of
                  Some r \<Rightarrow> Some (cr_target r, OriginRule)
                | None \<Rightarrow> map_option (\<lambda>t. (t, OriginDefault)) (default_target rs))))"

lemma specificity_le_2: "specificity r \<le> 2"
  by (simp add: specificity_def)

lemma best_rule_sorted:
  "find (\<lambda>r. rule_matches r req) (sort_key (\<lambda>r. - int (specificity r)) (map compiled_from_config rs))
     = best_rule rs req"
proof (cases "find (\<lambda>r. rule_matches r req)
    (sort_key (\<lambda>r. - int (specificity r)) (map compiled_from_config rs))")
  case None
  then have "\<forall>r \<in> set (map compiled_from_config rs). \<not> rule_matches r req"
    by (auto simp: find_None_iff)
  then have "find_rule rs req k = None" for k by (auto simp: find_rule_def find_None_iff)
  with None show ?thesis by (simp add: best_rule_def)
next
  case (Some r)
  from find_sort_key [OF this] have r: "find_rule rs req (specificity r) = Some r"
    and max: "\<forall>q \<in> set (map compiled_from_config rs). rule_matches q req \<longrightarrow> specificity q \<le> specificity r"
    by (auto simp: find_rule_def)
  have "find_rule rs req k = None" if "specificity r < k" for k
    using max that by (auto simp: find_rule_def find_None_iff)
  moreover have "specificity r = 0 \<or> specificity r = 1 \<or> specificity r = 2"
    using specificity_le_2 [of r] by linarith
  ultimately show ?thesis using r Some by (auto simp: best_rule_def)
qed

subsection \<open>Compiled Providers\<close>

lemma try_fold_Err:
  "try_fold f xs s = Err e \<Longrightarrow> \<exists>x \<in> set xs. \<exists>s. f x s = Err e"
proof (induction xs arbitrary: s)
  case (Cons x xs)
  then show ?case by (cases "f x s") auto
qed simp

lemma build_runtime_provider_ok:
  assumes "build_runtime_provider cat ps i m = Ok m'"
  obtains d where "catalog_provider cat (provider_str (inst_catalog_id i)) = Some d"
    and "brace_free (runtime_endpoint d i)"
    and "runtime_accounts ps i \<noteq> [] \<or> \<not> account_is_required d"
    and "m' = bt_insert (inst_id i) (runtime_provider ps d i) m"
  using assms that by (auto simp: build_runtime_provider_def brace_free_def split: if_splits)

text \<open>What the snapshot knows of a Provider: the enabled instance and definition it came from.\<close>

definition compiled_from ::
  "provider_catalog \<Rightarrow> provider_config \<Rightarrow> provider_instance_config \<Rightarrow> route_provider \<Rightarrow> bool" where
  "compiled_from cat ps i p =
     (\<exists>d. catalog_provider cat (provider_str (inst_catalog_id i)) = Some d
        \<and> brace_free (runtime_endpoint d i)
        \<and> (runtime_accounts ps i \<noteq> [] \<or> \<not> account_is_required d)
        \<and> p = runtime_provider ps d i)"

lemma build_runtime_fold:
  assumes "try_fold (build_runtime_provider cat ps) is m = Ok m'" and "bt_wf m"
    and "distinct (map inst_id is)"
  shows "bt_wf m' \<and> (\<forall>i \<in> set is. \<exists>p. bt_get m' (inst_id i) = Some p \<and> compiled_from cat ps i p)
    \<and> (\<forall>pid. pid \<notin> inst_id ` set is \<longrightarrow> bt_get m' pid = bt_get m pid)"
  using assms
proof (induction "is" arbitrary: m)
  case (Cons i "is")
  then obtain m1 where i: "build_runtime_provider cat ps i m = Ok m1"
    and rest: "try_fold (build_runtime_provider cat ps) is m1 = Ok m'" by auto
  from i obtain p where p: "compiled_from cat ps i p" and m1: "m1 = bt_insert (inst_id i) p m"
    by (rule build_runtime_provider_ok) (auto simp: compiled_from_def)
  from Cons.prems m1 have wf1: "bt_wf m1" and dist: "distinct (map inst_id is)"
    and fresh: "inst_id i \<notin> inst_id ` set is" by auto
  from Cons.IH [OF rest wf1 dist] p fresh Cons.prems(2) show ?case
    by (auto simp: m1 bt.get_insert)
qed simp

lemma distinct_map_filter_inst:
  "distinct (map inst_id is) \<Longrightarrow> distinct (map inst_id (filter inst_enabled is))"
  by (simp add: distinct_map_filter)

lemma build_runtime_providers_ok:
  assumes "build_runtime_providers cat ps = Ok m" and "distinct (map inst_id (instances ps))"
  shows "bt_wf m \<and> (\<forall>i \<in> set (instances ps). inst_enabled i \<longrightarrow>
        (\<exists>p. bt_get m (inst_id i) = Some p \<and> compiled_from cat ps i p))
    \<and> (\<forall>pid p. bt_get m pid = Some p \<longrightarrow>
        (\<exists>i \<in> set (instances ps). inst_enabled i \<and> inst_id i = pid \<and> compiled_from cat ps i p))"
proof -
  note fold = build_runtime_fold [OF assms(1) [unfolded build_runtime_providers_def] _
      distinct_map_filter_inst [OF assms(2)]]
  have "\<exists>i \<in> set (instances ps). inst_enabled i \<and> inst_id i = pid \<and> compiled_from cat ps i p"
    if "bt_get m pid = Some p" for pid p
  proof -
    from fold that have "pid \<in> inst_id ` set (filter inst_enabled (instances ps))"
      by (metis bt_get_Nil list.map(1) option.distinct(1) sorted_wrt.simps(1))
    with fold that show ?thesis by fastforce
  qed
  with fold show ?thesis by simp
qed

lemma runtime_provider_simps [simp]:
  "rp_id (runtime_provider ps d i) = inst_id i"
  "rp_catalog_id (runtime_provider ps d i) = inst_catalog_id i"
  by (simp_all add: runtime_provider_def)

subsection \<open>Building never panics\<close>

lemma build_runtime_no_panic:
  assumes "\<forall>i \<in> set (instances ps). instance_ok parse cat i"
  shows "build_runtime_providers cat ps \<noteq> Err Panic"
proof
  assume "build_runtime_providers cat ps = Err Panic"
  from try_fold_Err [OF this [unfolded build_runtime_providers_def]] obtain i m where
    "i \<in> set (instances ps)" "build_runtime_provider cat ps i m = Err Panic" by auto
  with assms show False
    by (fastforce simp: build_runtime_provider_def instance_ok_def split: if_splits)
qed

lemma build_public_models_ok:
  assumes "\<forall>p \<in> snd ` set m. catalog_provider cat (provider_str (rp_catalog_id p)) \<noteq> None"
  shows "\<exists>models. build_public_models cat m rs = Ok models"
proof (cases "try_fold (catalog_models cat) (map snd m) []")
  case (Inl e)
  from try_fold_Err [OF this] assms show ?thesis by (auto simp: catalog_models_def Let_def)
qed (simp add: build_public_models_def Let_def)

lemma validated_instances:
  assumes "validate_provider_configuration parse cat ps rs = Ok v"
  shows "\<forall>i \<in> set (instances ps). instance_ok parse cat i" and "distinct (map inst_id (instances ps))"
    and "distinct (map alias_name (aliases rs))"
  using validate_provider_configuration_ok [OF assms]
  by (auto simp: provider_config_ok_def config_shape_ok_def Let_def)

lemma compiled_catalog_entry:
  assumes "build_runtime_providers cat ps = Ok m" and "distinct (map inst_id (instances ps))"
  shows "\<forall>p \<in> snd ` set m. catalog_provider cat (provider_str (rp_catalog_id p)) \<noteq> None"
proof -
  note ok = build_runtime_providers_ok [OF assms]
  have "catalog_provider cat (provider_str (rp_catalog_id p)) \<noteq> None" if "(pid, p) \<in> set m" for pid p
  proof -
    from ok that have "bt_get m pid = Some p" by (simp add: bt.entries_get)
    with ok show ?thesis by (fastforce simp: compiled_from_def)
  qed
  then show ?thesis by auto
qed

lemma build_validated_no_panic: "build_validated parse cat ps rs \<noteq> Err Panic"
proof (cases "validate_provider_configuration parse cat ps rs")
  case (Inr v)
  note valid = validated_instances [OF Inr]
  show ?thesis
  proof (cases "build_runtime_providers cat ps")
    case (Inl e)
    with build_runtime_no_panic [OF valid(1)] show ?thesis by (auto simp: build_validated_def Inr)
  next
    case m: (Inr m)
    from build_public_models_ok [OF compiled_catalog_entry [OF m valid(2)], of rs] show ?thesis
      by (auto simp: build_validated_def Inr m)
  qed
qed (simp add: build_validated_def)

lemma build_validated_ok:
  assumes "build_validated parse cat ps rs = Ok s"
  shows "\<exists>v. validate_provider_configuration parse cat ps rs = Ok v"
    and "build_runtime_providers cat ps = Ok (rs_providers s)"
    and "build_public_models cat (rs_providers s) rs = Ok (rs_public_models s)"
    and "rs_aliases s = bt_collect (map (\<lambda>a. (alias_name a, alias_target a)) (aliases rs))"
    and "rs_rules s = sort_key (\<lambda>r. - int (specificity r)) (map compiled_from_config (rules rs))"
    and "rs_default s = default_target rs"
  using assms by (auto simp: build_validated_def)

lemma snapshot_provider:
  assumes "build_validated parse cat ps rs = Ok s"
  shows "bt_get (rs_providers s) pid = Some p \<longleftrightarrow>
    (\<exists>i \<in> set (instances ps). inst_enabled i \<and> inst_id i = pid \<and> compiled_from cat ps i p)"
proof -
  from build_validated_ok(1) [OF assms] validated_instances(2)
  have dist: "distinct (map inst_id (instances ps))" by blast
  note ok = build_runtime_providers_ok [OF build_validated_ok(2) [OF assms] dist]
  have "p = q" if "compiled_from cat ps i p" "compiled_from cat ps i q" for i q
    using that by (auto simp: compiled_from_def)
  with ok show ?thesis by (metis option.inject)
qed

lemma find_alias: "map_of (map (\<lambda>a. (alias_name a, alias_target a)) as) m =
    map_option alias_target (find (\<lambda>a. alias_name a = m) as)"
  by (induction as) auto

lemma route_eq:
  assumes "build_validated parse cat ps rs = Ok s"
  shows "route s req =
    (case choose_target rs req of
       None \<Rightarrow> Err NoRoute
     | Some (t, origin) \<Rightarrow> decision s t origin)"
proof -
  from build_validated_ok(1) [OF assms] validated_instances(3)
  have "distinct (map fst (map (\<lambda>a. (alias_name a, alias_target a)) (aliases rs)))"
    by (force simp: comp_def)
  from bt_get_collect_distinct [OF this]
  have "bt_get (rs_aliases s) m = map_option alias_target (find (\<lambda>a. alias_name a = m) (aliases rs))" for m
    unfolding build_validated_ok(4) [OF assms] find_alias .
  then show ?thesis
    by (simp add: route_def choose_target_def build_validated_ok(5,6) [OF assms] best_rule_sorted
        split: option.split)
qed

subsection \<open>Endpoints\<close>

text \<open>
  The URL a compiled Provider sends to: without credentials or fragment, over HTTP or HTTPS.
  \<open>endpoint_obeys\<close> is what the access class of the Provider demands of it: public HTTPS, a loopback
  address, or nothing.
\<close>

definition endpoint_safe :: "url_parser \<Rightarrow> route_provider \<Rightarrow> bool" where
  "endpoint_safe parse p =
     (\<exists>u h. parse (rp_endpoint p) = Some u \<and> url_host u = Some h \<and> url_username u = []
        \<and> url_password u = None \<and> url_fragment u = None \<and> http_or_https (url_scheme u))"

definition endpoint_obeys :: "url_parser \<Rightarrow> route_provider \<Rightarrow> bool" where
  "endpoint_obeys parse p =
     (\<exists>u. parse (rp_endpoint p) = Some u
        \<and> (case rp_endpoint_access p of
              PublicOnly \<Rightarrow> public_url u
            | LoopbackOnly \<Rightarrow> loopback_url u
            | PrivateAllowed \<Rightarrow> True))"

lemma loopback_is_private: "catalog_host_is_loopback h \<Longrightarrow> is_private_host h"
proof (cases h)
  case (Domain d)
  moreover have "to_ascii_lowercase ''localhost'' = ''localhost''" by code_simp
  ultimately show "catalog_host_is_loopback h \<Longrightarrow> is_private_host h"
    by (simp add: eq_ignore_ascii_case_def Let_def)
qed (auto simp: is_private_ipv4_def is_private_ipv6_def)

lemma public_not_loopback: "public_url u \<Longrightarrow> \<not> loopback_url u"
  by (auto simp: public_url_def loopback_url_def dest: loopback_is_private)

lemma http_or_https_https [simp]: "http_or_https ''https''"
  by (simp add: http_or_https_def)

text \<open>An override: public HTTPS, unless the instance allows the private network.\<close>

lemma override_endpoint:
  assumes "override_ok parse d i" and "inst_endpoint i = Some e"
  shows "endpoint_safe parse (runtime_provider ps d i)"
    and "endpoint_obeys parse (runtime_provider ps d i)
      \<longleftrightarrow> rp_endpoint_access (runtime_provider ps d i) \<noteq> LoopbackOnly"
proof -
  from assms obtain u h where u: "parse e = Some u" "url_host u = Some h" "url_username u = []" "url_password u = None"
    "url_fragment u = None" "if is_private_host h then inst_allow_private_network i \<and> http_or_https (url_scheme u)
      else url_scheme u = ''https''" by (auto simp: override_ok_def)
  have e: "rp_endpoint (runtime_provider ps d i) = e"
    "rp_endpoint_access (runtime_provider ps d i) = from_configuration (def_endpoint_policy d) (inst_allow_private_network i)"
    using assms(2) by (simp_all add: runtime_provider_def runtime_endpoint_def)
  from u show "endpoint_safe parse (runtime_provider ps d i)"
    by (auto simp: endpoint_safe_def e split: if_splits)
  have "public_url u" if "\<not> inst_allow_private_network i"
    using u that by (auto simp: public_url_def split: if_splits)
  with u(1) show "endpoint_obeys parse (runtime_provider ps d i)
      \<longleftrightarrow> rp_endpoint_access (runtime_provider ps d i) \<noteq> LoopbackOnly"
    by (auto simp: endpoint_obeys_def e from_configuration_def dest: public_not_loopback)
qed

lemma catalog_endpoint:
  assumes "catalog_endpoint_ok parse d" and "inst_endpoint i = None"
    and "brace_free (runtime_endpoint d i)"
  shows "endpoint_safe parse (runtime_provider ps d i)" and "endpoint_obeys parse (runtime_provider ps d i)"
proof -
  have base: "rp_endpoint (runtime_provider ps d i) = def_base_url d" "brace_free (def_base_url d)"
    using assms(2,3) by (simp_all add: runtime_provider_def runtime_endpoint_def)
  have access: "rp_endpoint_access (runtime_provider ps d i)
      = from_configuration (def_endpoint_policy d) (inst_allow_private_network i)"
    by (simp add: runtime_provider_def)
  have template: "expand_endpoint_template (def_base_url d) = Ok e \<Longrightarrow> e = def_base_url d" for e
    using base(2) by (simp add: expand_endpoint_template_def expand_loop_id split: if_splits)
  show "endpoint_safe parse (runtime_provider ps d i)"
    using assms(1) template unfolding catalog_endpoint_ok_def endpoint_safe_def base(1)
    by (cases "def_endpoint_policy d") (auto simp: public_url_def loopback_url_def)
  show "endpoint_obeys parse (runtime_provider ps d i)"
    using assms(1) template unfolding catalog_endpoint_ok_def endpoint_obeys_def base(1) access
    by (cases "def_endpoint_policy d") (auto simp: from_configuration_def)
qed

lemma compiled_endpoint:
  assumes "catalog_wf parse cat" and "instance_ok parse cat i" and "compiled_from cat ps i p"
  shows "endpoint_safe parse p"
    and "endpoint_obeys parse p \<longleftrightarrow> \<not> (rp_endpoint_access p = LoopbackOnly \<and> inst_endpoint i \<noteq> None)"
proof -
  from assms(2,3) obtain d where d: "catalog_provider cat (provider_str (inst_catalog_id i)) = Some d"
    "override_ok parse d i" "brace_free (runtime_endpoint d i)" "p = runtime_provider ps d i"
    by (auto simp: compiled_from_def instance_ok_def)
  from catalog_provider_Some [OF d(1)] assms(1) have "catalog_endpoint_ok parse d"
    by (simp add: catalog_wf_def)
  with d have "endpoint_safe parse p
      \<and> (endpoint_obeys parse p \<longleftrightarrow> \<not> (rp_endpoint_access p = LoopbackOnly \<and> inst_endpoint i \<noteq> None))"
    by (cases "inst_endpoint i") (auto simp: override_endpoint catalog_endpoint)
  then show "endpoint_safe parse p"
    "endpoint_obeys parse p \<longleftrightarrow> \<not> (rp_endpoint_access p = LoopbackOnly \<and> inst_endpoint i \<noteq> None)" by simp_all
qed

subsection \<open>Candidates\<close>

lemma drain_accounts:
  assumes "rp_accounts (dec_provider (it_decision it)) \<noteq> []"
  shows "drain_candidates it =
    map (\<lambda>a. candidate_of (it_decision it) (Some a))
      (drop (it_next_account it) (rp_accounts (dec_provider (it_decision it))))"
  using assms
proof (induction it rule: drain_candidates.induct)
  case (1 it)
  let ?as = "rp_accounts (dec_provider (it_decision it))"
  show ?case
  proof (cases "it_next_account it < length ?as")
    case True
    let ?it = "it\<lparr>it_next_account := it_next_account it + 1\<rparr>"
    have step: "candidates_next it =
        (Some (candidate_of (it_decision it) (Some (?as ! it_next_account it))), ?it)"
      using 1(2) True by (simp add: candidates_next_def Let_def)
    from 1(1) [OF step [symmetric]] 1(2) show ?thesis
      by (subst drain_candidates.simps) (simp add: step Cons_nth_drop_Suc [OF True, symmetric])
  next
    case False
    with 1(2) show ?thesis
      by (subst drain_candidates.simps) (simp add: candidates_next_def Let_def)
  qed
qed

lemma drain_accountless:
  assumes "rp_accounts (dec_provider d) = []"
  shows "drain_candidates (candidates d) = [candidate_of d None]"
  using assms
  by (subst drain_candidates.simps) (simp add: candidates_next_def candidates_def Let_def,
      subst drain_candidates.simps, simp add: candidates_next_def Let_def)

lemma drain_eq:
  "drain_candidates (candidates d) =
     (if rp_accounts (dec_provider d) = [] then [candidate_of d None]
      else map (\<lambda>a. candidate_of d (Some a)) (rp_accounts (dec_provider d)))"
  using drain_accounts [of "candidates d"] drain_accountless by (simp add: candidates_def)

lemma drain_length: "length (drain_candidates it) = size_hint it"
proof (induction it rule: drain_candidates.induct)
  case (1 it)
  show ?case
  proof (cases "candidates_next it")
    case (Pair c it')
    show ?thesis
    proof (cases c)
      case None
      then have "size_hint it = 0"
        using Pair by (auto simp: candidates_next_def size_hint_def Let_def split: if_splits)
      then show ?thesis by (subst drain_candidates.simps) (simp add: Pair None)
    next
      case (Some x)
      with 1 Pair candidates_next_size [of it x it'] show ?thesis
        by (subst drain_candidates.simps) simp
    qed
  qed
qed

subsection \<open>Public models\<close>

definition models_ok ::
  "(provider_id, route_provider) btree \<Rightarrow> (string, public_model_metadata) btree \<Rightarrow> bool" where
  "models_ok ps models =
     (bt_wf models \<and> (\<forall>m v. bt_get models m = Some v \<longrightarrow> (\<exists>p \<in> snd ` set ps. v = public_model m p)))"

lemma models_ok_or_insert: "models_ok ps models \<Longrightarrow> p \<in> snd ` set ps \<Longrightarrow> models_ok ps (or_insert_model p m models)"
  by (auto simp: models_ok_def bt_get_or_insert split: option.splits if_splits)

lemma models_ok_fold: "models_ok ps models \<Longrightarrow> p \<in> snd ` set ps \<Longrightarrow> models_ok ps (fold (or_insert_model p) ms models)"
  by (induction ms arbitrary: models) (auto intro: models_ok_or_insert)

lemma catalog_models_keep:
  "catalog_models cat p models = Ok models' \<Longrightarrow> p \<in> snd ` set ps \<Longrightarrow> models_ok ps models \<Longrightarrow> models_ok ps models'"
  using models_ok_fold [of ps models p] models_ok_or_insert [of ps _ p]
  by (auto simp: catalog_models_def Let_def simp del: image_iff split: option.splits)

lemma bt_get_mem: "bt_get ps k = Some p \<Longrightarrow> p \<in> snd ` set ps"
  by (auto simp: bt_get_def dest: map_of_SomeD intro: rev_image_eqI)

lemma models_ok_alias: "models_ok ps models \<Longrightarrow> models_ok ps (alias_model ps a models)"
  by (auto simp: alias_model_def models_ok_def bt.get_insert dest: bt_get_mem split: option.split)

lemma models_ok_rule: "models_ok ps models \<Longrightarrow> models_ok ps (rule_model_entry ps r models)"
  by (auto simp: rule_model_entry_def intro: models_ok_or_insert bt_get_mem split: option.split)

lemma models_ok_default: "models_ok ps models \<Longrightarrow> models_ok ps (default_model_entry ps d models)"
  by (auto simp: default_model_entry_def intro: models_ok_or_insert bt_get_mem split: option.split)

lemma fold_keep: "P s \<Longrightarrow> (\<And>x s. P s \<Longrightarrow> P (f x s)) \<Longrightarrow> P (fold f xs s)"
  by (induction xs arbitrary: s) auto

lemma build_public_models_sound:
  assumes "build_public_models cat ps rs = Ok ms"
  shows "\<exists>models. models_ok ps models \<and> ms = map snd models"
proof -
  from assms obtain m1 where m1: "try_fold (catalog_models cat) (map snd ps) [] = Ok m1"
    and ms: "ms = map snd (default_model_entry ps (default_target rs)
        (fold (rule_model_entry ps) (rules rs) (fold (alias_model ps) (aliases rs) m1)))"
    by (auto simp: build_public_models_def Let_def)
  have "models_ok ps m1"
    by (rule try_fold_inv [OF m1]) (auto simp: models_ok_def [of _ "[]"] intro: catalog_models_keep)
  then have "models_ok ps (fold (alias_model ps) (aliases rs) m1)"
    by (rule fold_keep) (rule models_ok_alias)
  then have "models_ok ps (fold (rule_model_entry ps) (rules rs) (fold (alias_model ps) (aliases rs) m1))"
    by (rule fold_keep) (rule models_ok_rule)
  with ms show ?thesis by (blast intro: models_ok_default)
qed

subsection \<open>A sample snapshot\<close>

definition sample_target :: route_target where
  "sample_target = \<lparr>target_provider = ProviderId ''i'', target_model = ''m''\<rparr>"

definition sample_providers :: provider_config where
  "sample_providers =
     \<lparr>instances = [\<lparr>inst_id = ProviderId ''i'', inst_catalog_id = ProviderId ''p'', inst_enabled = True,
        inst_endpoint = None, inst_allow_private_network = False\<rparr>],
      accounts = [\<lparr>acct_id = AccountId ''a'', acct_provider = ProviderId ''i'', acct_enabled = True,
        acct_auth = ApiKey ''s''\<rparr>]\<rparr>"

definition sample_routing :: routing_config where
  "sample_routing =
     \<lparr>aliases = [\<lparr>alias_name = ''x'', alias_target = sample_target\<rparr>], rules = [],
      default_target = Some sample_target\<rparr>"

lemma sample_valid:
  "is_ok (validate_provider_configuration sample_parse sample_catalog sample_providers sample_routing)"
  by (simp add: validate_provider_configuration_def sample_providers_def sample_routing_def
      sample_target_def sample_catalog_def sample_definition_def sample_parse_def config_eval str_eval
      validate_instances_def validate_instance_def validate_accounts_def validate_account_def
      catalog_provider_def bt_get_def)

definition sample_snapshot :: runtime_snapshot where
  "sample_snapshot =
     (case build_validated sample_parse sample_catalog sample_providers sample_routing of
        Inr s \<Rightarrow> s
      | Inl _ \<Rightarrow> \<lparr>rs_providers = [], rs_aliases = [], rs_rules = [], rs_default = None,
          rs_public_models = []\<rparr>)"

lemma sample_runtime:
  "build_runtime_providers sample_catalog sample_providers =
     Ok [(ProviderId ''i'', runtime_provider sample_providers sample_definition
            (hd (instances sample_providers)))]"
  by (simp add: build_runtime_providers_def build_runtime_provider_def sample_providers_def
      sample_catalog_def catalog_provider_def runtime_endpoint_def runtime_accounts_def
      sample_definition_def)

lemma sample_build:
  "build_validated sample_parse sample_catalog sample_providers sample_routing = Ok sample_snapshot"
proof -
  from sample_valid obtain v where v:
    "validate_provider_configuration sample_parse sample_catalog sample_providers sample_routing = Ok v"
    by (auto simp: is_ok_iff)
  from build_public_models_ok [OF compiled_catalog_entry [OF sample_runtime validated_instances(2) [OF v]],
      of sample_routing]
  obtain s where "build_validated sample_parse sample_catalog sample_providers sample_routing = Ok s"
    by (auto simp: build_validated_def v sample_runtime)
  then show ?thesis by (simp add: sample_snapshot_def)
qed

definition sample_request :: route_request where
  "sample_request = \<lparr>req_provider = None, req_model = ''x'', req_client_id = None\<rparr>"

lemma sample_route: "\<exists>d. route sample_snapshot sample_request = Ok d"
  using build_validated_ok(2) [OF sample_build, unfolded sample_runtime, simplified, symmetric]
  by (simp add: route_eq [OF sample_build] choose_target_def sample_request_def sample_routing_def
      decision_def sample_target_def bt_get_def)

subsection \<open>Properties\<close>

text \<open>
  C31. Building a snapshot never panics: after validation, both \<open>expect("validated catalog
  Provider")\<close> calls find their catalog entry, whatever the catalog and the configuration.
\<close>

theorem snapshot_build_no_panic: "build_validated parse cat ps rs \<noteq> Err Panic"
  by (rule build_validated_no_panic)

text \<open>
  C16. Route precedence. The compiled snapshot (ordered maps, one stably sorted rule list) answers
  like the documented order: an explicit Provider, then an alias, then the first matching rule of
  the highest specificity, then the default. It is served by the enabled instance of the target's
  Provider, and fails with \<open>ProviderUnavailable\<close> if there is none and \<open>NoRoute\<close> if nothing applies.
\<close>

theorem route_precedence:
  assumes "build_validated parse cat ps rs = Ok s"
  shows "case choose_target rs req of
      None \<Rightarrow> route s req = Err NoRoute
    | Some (t, origin) \<Rightarrow>
        (case find (\<lambda>i. inst_enabled i \<and> inst_id i = target_provider t) (instances ps) of
           None \<Rightarrow> route s req = Err ProviderUnavailable
         | Some i \<Rightarrow> (\<exists>p. compiled_from cat ps i p
             \<and> route s req = Ok \<lparr>dec_provider = p, dec_model = target_model t, dec_origin = origin\<rparr>))"
proof (cases "choose_target rs req")
  case None
  then show ?thesis by (simp add: route_eq [OF assms])
next
  case (Some to)
  obtain t origin where to: "to = (t, origin)" by (cases to)
  let ?find = "find (\<lambda>i. inst_enabled i \<and> inst_id i = target_provider t) (instances ps)"
  show ?thesis
  proof (cases ?find)
    case none: None
    then have "bt_get (rs_providers s) (target_provider t) = None"
      using snapshot_provider [OF assms, of "target_provider t"]
      by (cases "bt_get (rs_providers s) (target_provider t)") (auto simp: find_None_iff)
    with Some none to show ?thesis by (simp add: route_eq [OF assms] decision_def)
  next
    case i: (Some i)
    then have i': "i \<in> set (instances ps)" "inst_enabled i" "inst_id i = target_provider t"
      by (auto simp: find_Some_iff)
    from build_validated_ok(1) [OF assms] validated_instances(2)
    have "distinct (map inst_id (instances ps))" by blast
    from build_runtime_providers_ok [OF build_validated_ok(2) [OF assms] this] i' obtain p where
      "bt_get (rs_providers s) (target_provider t) = Some p" "compiled_from cat ps i p" by metis
    with Some i to show ?thesis by (auto simp: route_eq [OF assms] decision_def)
  qed
qed

theorem route_precedence_witness:
  "\<exists>p. route sample_snapshot sample_request =
     Ok \<lparr>dec_provider = p, dec_model = ''m'', dec_origin = OriginAlias\<rparr>"
  using route_precedence [OF sample_build, of sample_request]
  by (auto simp: choose_target_def sample_request_def sample_routing_def sample_target_def
      sample_providers_def)

text \<open>
  C25. Endpoint safety. With a validated catalog, every decision of a built snapshot sends to an
  endpoint with no open template, no user information and no fragment, over HTTP or HTTPS. The endpoint
  is one the access class of the Provider admits (public HTTPS under \<open>PublicOnly\<close>, a loopback address
  under \<open>LoopbackOnly\<close>), with one exception, which is exact: an instance that overrides the endpoint of
  a loopback Provider keeps the loopback class, and its endpoint is then never a loopback one.
\<close>

theorem route_endpoint_safe:
  assumes "catalog_validate parse file = Ok cat" and "build_validated parse cat ps rs = Ok s"
    and "route s req = Ok d"
  shows "\<exists>i \<in> set (instances ps). inst_enabled i \<and> inst_id i = rp_id (dec_provider d)
    \<and> brace_free (rp_endpoint (dec_provider d)) \<and> endpoint_safe parse (dec_provider d)
    \<and> (endpoint_obeys parse (dec_provider d)
         \<longleftrightarrow> \<not> (rp_endpoint_access (dec_provider d) = LoopbackOnly \<and> inst_endpoint i \<noteq> None))"
proof -
  from assms(3) obtain pid where "bt_get (rs_providers s) pid = Some (dec_provider d)"
    by (auto simp: route_eq [OF assms(2)] decision_def split: option.splits)
  with snapshot_provider [OF assms(2)] obtain i where i: "i \<in> set (instances ps)" "inst_enabled i"
    "compiled_from cat ps i (dec_provider d)" by blast
  from i(1) build_validated_ok(1) [OF assms(2)] validated_instances(1) have "instance_ok parse cat i"
    by blast
  with i compiled_endpoint [OF conjunct2 [OF catalog_validate_wf [OF assms(1)]]] show ?thesis
    by (intro bexI [of _ i]) (auto simp: compiled_from_def runtime_provider_def)
qed

theorem route_endpoint_safe_witness:
  "\<exists>d. route sample_snapshot sample_request = Ok d \<and> endpoint_safe sample_parse (dec_provider d)"
  using sample_route route_endpoint_safe [OF sample_catalog_valid sample_build] by blast

text \<open>
  Candidates. Draining the candidates of a decision terminates after \<open>size_hint\<close> elements.
  It yields, in configuration order, exactly the enabled accounts of the chosen instance, or one
  candidate without account when it has none, which happens only if no account is required.
\<close>

lemma route_candidates_sound:
  assumes "build_validated parse cat ps rs = Ok s" and "route s req = Ok d"
  shows "\<exists>i \<in> set (instances ps). inst_enabled i \<and> inst_id i = rp_id (dec_provider d)
    \<and> length (drain_candidates (candidates d)) = size_hint (candidates d)
    \<and> map rc_account (drain_candidates (candidates d)) =
        (if runtime_accounts ps i = [] then [None] else map Some (runtime_accounts ps i))
    \<and> (runtime_accounts ps i = [] \<longrightarrow>
         (\<exists>def. catalog_provider cat (provider_str (inst_catalog_id i)) = Some def
            \<and> \<not> account_is_required def))"
proof -
  from assms(2) obtain pid where "bt_get (rs_providers s) pid = Some (dec_provider d)"
    by (auto simp: route_eq [OF assms(1)] decision_def split: option.splits)
  with snapshot_provider [OF assms(1)] obtain i where i: "i \<in> set (instances ps)" "inst_enabled i"
    "compiled_from cat ps i (dec_provider d)" by blast
  then have "rp_accounts (dec_provider d) = runtime_accounts ps i" "rp_id (dec_provider d) = inst_id i"
    by (auto simp: compiled_from_def runtime_provider_def)
  moreover from this have "map rc_account (drain_candidates (candidates d)) =
      (if runtime_accounts ps i = [] then [None] else map Some (runtime_accounts ps i))"
    by (simp add: drain_eq candidate_of_def comp_def)
  ultimately show ?thesis
    using i by (intro bexI [of _ i]) (auto simp: drain_length compiled_from_def)
qed

text \<open>
  The public model list is sorted by identifier without duplicates, and every entry carries
  the identifier and the capabilities of an enabled Provider of the snapshot.
\<close>

lemma public_models_sound:
  assumes "build_validated parse cat ps rs = Ok s"
  shows "sorted_wrt (<) (map pm_id (rs_public_models s))
    \<and> (\<forall>v \<in> set (rs_public_models s). \<exists>p. bt_get (rs_providers s) (pm_owned_by v) = Some p
         \<and> pm_capabilities v = rp_capabilities p)"
proof -
  from build_public_models_sound [OF build_validated_ok(3) [OF assms]] obtain models where
    ok: "models_ok (rs_providers s) models" and ms: "rs_public_models s = map snd models" by blast
  have entry: "\<exists>p \<in> snd ` set (rs_providers s). v = public_model m p" if "(m, v) \<in> set models" for m v
    using ok that by (simp add: models_ok_def bt.entries_get)
  then have "map pm_id (map snd models) = map fst models" by (fastforce simp: public_model_def)
  moreover have "bt_get (rs_providers s) (rp_id p) = Some p" if "p \<in> snd ` set (rs_providers s)" for p
  proof -
    from build_validated_ok(1) [OF assms] validated_instances(2)
    have "distinct (map inst_id (instances ps))" by blast
    from build_runtime_providers_ok [OF build_validated_ok(2) [OF assms] this] that obtain pid where
      "bt_get (rs_providers s) pid = Some p" by (auto simp: bt.entries_get)
    with snapshot_provider [OF assms] show ?thesis
      by (metis compiled_from_def runtime_provider_simps(1))
  qed
  ultimately have "\<exists>p. bt_get (rs_providers s) (pm_owned_by v) = Some p \<and> pm_capabilities v = rp_capabilities p"
    if "(m, v) \<in> set models" for m v
    using entry [OF that] by (metis public_model_metadata.select_convs(2,3) public_model_def)
  with ok \<open>map pm_id (map snd models) = map fst models\<close> show ?thesis
    by (auto simp: ms models_ok_def simp del: map_map)
qed

end
