(* ===== verification/Affinity.thy ===== *)
theory Affinity
  imports Core_Config "HOL-Library.Product_Lexorder"
begin

text \<open>
  Thread affinity, \<open>crates/wokcore-engine/src/affinity.rs\<close>: a bounded, sharded table from
  hashed thread keys to accounts with a time to live. SHA-256 is third-party code and an
  argument of the operations; the only fact used about it is the length of its output.
\<close>

subsection \<open>Data\<close>

record affinity_entry =
  aff_account_id :: account_id
  expires_at_ms :: u64
  touched_sequence :: u64

record affinity_shard =
  capacity :: nat
  entries :: "(string, affinity_entry) btree"

record affinity_table =
  hash_key :: string
  ttl_ms :: u64
  maximum_entries :: nat
  aff_shards :: "affinity_shard list"
  touch_sequence :: u64

datatype affinity_error = InvalidAffinityPolicy

definition MAX_AFFINITIES :: nat where "MAX_AFFINITIES = 4096"
definition MAX_AFFINITY_TTL_MS :: u64 where "MAX_AFFINITY_TTL_MS = 24 * 60 * 60 * 1000"
definition MAX_AFFINITY_SHARDS :: nat where "MAX_AFFINITY_SHARDS = 16"

subsection \<open>Operations\<close>

definition affinity_new :: "string \<Rightarrow> nat \<Rightarrow> u64 \<Rightarrow> affinity_error + affinity_table" where
  "affinity_new key maximum ttl =
     (if maximum = 0 \<or> MAX_AFFINITIES < maximum \<or> ttl = 0 \<or> MAX_AFFINITY_TTL_MS < ttl
      then Err InvalidAffinityPolicy
      else
        let shard_count = min maximum MAX_AFFINITY_SHARDS;
            base_capacity = maximum div shard_count;
            extra = maximum mod shard_count
        in Ok \<lparr>hash_key = key, ttl_ms = ttl, maximum_entries = maximum,
               aff_shards = map (\<lambda>i. \<lparr>capacity = base_capacity + of_bool (i < extra), entries = []\<rparr>)
                 [0..<shard_count],
               touch_sequence = 0\<rparr>)"

text \<open>\<open>(len as u64).to_le_bytes()\<close>.\<close>

definition le_bytes :: "nat \<Rightarrow> string" where
  "le_bytes n = map (\<lambda>i. char_of (n div 256 ^ i mod 256)) [0..<8]"

definition digest :: "(string \<Rightarrow> string) \<Rightarrow> affinity_table \<Rightarrow> string \<Rightarrow> string" where
  "digest sha256 t thread_key =
     sha256 (''wokcore.affinity.v1'' @ [char_of (0 :: nat)] @ hash_key t
             @ le_bytes (length thread_key) @ thread_key)"

definition affinity_shard_index :: "affinity_table \<Rightarrow> string \<Rightarrow> nat" where
  "affinity_shard_index t d = byte (d ! 0) mod length (aff_shards t)"

definition aff_lock_shard :: "affinity_table \<Rightarrow> string \<Rightarrow> affinity_shard" where
  "aff_lock_shard t d = aff_shards t ! affinity_shard_index t d"

definition aff_store_shard :: "string \<Rightarrow> affinity_shard \<Rightarrow> affinity_table \<Rightarrow> affinity_table" where
  "aff_store_shard d s t = t\<lparr>aff_shards := (aff_shards t)[affinity_shard_index t d := s]\<rparr>"

definition retain_live :: "u64 \<Rightarrow> (string, affinity_entry) btree \<Rightarrow> (string, affinity_entry) btree" where
  "retain_live now es = bt_retain (\<lambda>_ e. now < expires_at_ms e) es"

text \<open>\<open>min_by_key\<close> with the key (expiry, touch, digest), which no two entries share.\<close>

definition eviction_key :: "string \<times> affinity_entry \<Rightarrow> u64 \<times> u64 \<times> string" where
  "eviction_key de = (expires_at_ms (snd de), touched_sequence (snd de), fst de)"

fun evicted :: "(string, affinity_entry) btree \<Rightarrow> string option" where
  "evicted [] = None"
| "evicted (e # es) = Some (snd (snd (fold min (map eviction_key es) (eviction_key e))))"

text \<open>\<open>bind\<close> on the locked shard.\<close>

definition bind_shard ::
  "string \<Rightarrow> affinity_entry \<Rightarrow> u64 \<Rightarrow> affinity_shard \<Rightarrow> affinity_shard" where
  "bind_shard d fresh now s =
     (let live = retain_live now (entries s) in
      case bt_get live d of
        Some _ \<Rightarrow> s\<lparr>entries := bt_modify d (\<lambda>_. fresh) live\<rparr>
      | None \<Rightarrow>
          let room = (if capacity s \<le> length live
                      then (case evicted live of None \<Rightarrow> live | Some v \<Rightarrow> bt_remove v live)
                      else live)
          in s\<lparr>entries := bt_insert d fresh room\<rparr>)"

definition bind_affinity ::
  "(string \<Rightarrow> string) \<Rightarrow> string \<Rightarrow> account_id \<Rightarrow> u64 \<Rightarrow> affinity_table \<Rightarrow> affinity_table" where
  "bind_affinity sha256 thread_key a now t =
     (let d = digest sha256 t thread_key;
          sequence = sat_add (touch_sequence t) 1;
          t1 = t\<lparr>touch_sequence := touch_sequence t + 1\<rparr>;
          fresh = \<lparr>aff_account_id = a, expires_at_ms = sat_add now (ttl_ms t),
                   touched_sequence = sequence\<rparr>
      in aff_store_shard d (bind_shard d fresh now (aff_lock_shard t1 d)) t1)"

definition lookup_affinity ::
  "(string \<Rightarrow> string) \<Rightarrow> string \<Rightarrow> u64 \<Rightarrow> affinity_table \<Rightarrow> account_id option \<times> affinity_table" where
  "lookup_affinity sha256 thread_key now t =
     (let d = digest sha256 t thread_key; s = aff_lock_shard t d in
      case bt_get (entries s) d of
        None \<Rightarrow> (None, t)
      | Some e \<Rightarrow>
          if expires_at_ms e \<le> now
          then (None, aff_store_shard d (s\<lparr>entries := bt_remove d (entries s)\<rparr>) t)
          else
            let sequence = sat_add (touch_sequence t) 1;
                s' = s\<lparr>entries := bt_modify d (\<lambda>e. e\<lparr>touched_sequence := sequence\<rparr>) (entries s)\<rparr>
            in (Some (aff_account_id e),
                (aff_store_shard d s' t)\<lparr>touch_sequence := touch_sequence t + 1\<rparr>))"

definition affinity_len :: "u64 \<Rightarrow> affinity_table \<Rightarrow> nat \<times> affinity_table" where
  "affinity_len now t =
     (let ss = map (\<lambda>s. s\<lparr>entries := retain_live now (entries s)\<rparr>) (aff_shards t)
      in (sum_list (map (\<lambda>s. length (entries s)) ss), t\<lparr>aff_shards := ss\<rparr>))"

subsection \<open>The capacity invariant\<close>

definition shard_ok :: "affinity_shard \<Rightarrow> bool" where
  "shard_ok s = (bt_wf (entries s) \<and> length (entries s) \<le> capacity s \<and> 0 < capacity s)"

definition affinity_inv :: "affinity_table \<Rightarrow> bool" where
  "affinity_inv t =
     (aff_shards t \<noteq> [] \<and> (\<forall>s \<in> set (aff_shards t). shard_ok s)
      \<and> sum_list (map capacity (aff_shards t)) = maximum_entries t)"

definition stored_entries :: "affinity_table \<Rightarrow> nat" where
  "stored_entries t = sum_list (map (\<lambda>s. length (entries s)) (aff_shards t))"

lemma fold_min_in: "fold min xs (x :: 'a::linorder) \<in> set (x # xs)"
  unfolding Min.set_eq_fold [symmetric] by (rule Min_in) simp_all

lemma fold_min_le: "y \<in> set (x # xs) \<Longrightarrow> fold min xs (x :: 'a::linorder) \<le> y"
  unfolding Min.set_eq_fold [symmetric] by (rule Min_le) simp_all

lemma evicted_in:
  assumes "evicted es = Some v"
  shows "\<exists>e. (v, e) \<in> set es"
proof -
  from assms obtain x xs where es: "es = x # xs" by (cases es) auto
  with assms have "v \<in> (snd \<circ> snd) ` set (map eviction_key es)"
    using fold_min_in [of "map eviction_key xs" "eviction_key x"] by auto
  then show ?thesis by (auto simp: eviction_key_def)
qed

lemma evicted_Some: "es \<noteq> [] \<Longrightarrow> \<exists>v. evicted es = Some v"
  by (cases es) auto

lemma evicted_first:
  assumes "evicted es = Some v" and "(v, ev) \<in> set es" and "distinct (map fst es)" and "(k, e) \<in> set es"
  shows "expires_at_ms ev \<le> expires_at_ms e"
proof -
  from assms(1) obtain x xs where es: "es = x # xs" by (cases es) auto
  let ?m = "fold min (map eviction_key xs) (eviction_key x)"
  have "?m \<in> eviction_key ` set es"
    using fold_min_in [of "map eviction_key xs" "eviction_key x"] by (auto simp: es)
  then obtain e' where "?m = eviction_key (v, e')" "(v, e') \<in> set es"
    using assms(1) by (auto simp: es eviction_key_def)
  with assms(2,3) have "?m = eviction_key (v, ev)" by (metis eq_key_imp_eq_value)
  moreover have "?m \<le> eviction_key (k, e)"
    by (rule fold_min_le) (use assms(4) in \<open>auto simp: es\<close>)
  ultimately show ?thesis by (auto simp: eviction_key_def less_eq_prod_def)
qed

lemma retain_live_wf [simp]: "bt_wf es \<Longrightarrow> bt_wf (retain_live now es)"
  unfolding retain_live_def by (rule bt.wf_retain)

lemma retain_live_length: "length (retain_live now es) \<le> length es"
  by (simp add: retain_live_def bt_retain_length)

lemma bt_get_retain_live:
  "bt_wf es \<Longrightarrow> bt_get (retain_live now es) d =
     (case bt_get es d of None \<Rightarrow> None | Some e \<Rightarrow> if now < expires_at_ms e then Some e else None)"
  by (simp add: retain_live_def bt.get_retain split: option.split)

text \<open>The shard has a free slot after the eviction.\<close>

lemma eviction_room:
  assumes "bt_wf live" and "0 < cap" and "length live \<le> cap"
  shows "length (if cap \<le> length live
      then (case evicted live of None \<Rightarrow> live | Some v \<Rightarrow> bt_remove v live) else live) < cap"
proof (cases "cap \<le> length live")
  case True
  with assms(2) obtain v where v: "evicted live = Some v" using evicted_Some [of live] by fastforce
  from evicted_in [OF v] assms(1) obtain e where "bt_get live v = Some e" by (auto simp: bt.entries_get)
  from bt_remove_length [OF assms(1) this] assms(3) True v show ?thesis by simp
qed simp

lemma bind_shard_ok:
  assumes "shard_ok s"
  shows "shard_ok (bind_shard d fresh now s) \<and> capacity (bind_shard d fresh now s) = capacity s"
proof -
  let ?live = "retain_live now (entries s)"
  have live: "bt_wf ?live" "length ?live \<le> capacity s" "0 < capacity s"
    using assms retain_live_length [of now "entries s"] by (auto simp: shard_ok_def)
  let ?room = "if capacity s \<le> length ?live
      then (case evicted ?live of None \<Rightarrow> ?live | Some v \<Rightarrow> bt_remove v ?live) else ?live"
  have "bt_wf ?room" using live(1) by (auto split: option.split)
  moreover have "length ?room < capacity s" using eviction_room [OF live(1,3,2)] .
  ultimately have "bt_wf (bt_insert d fresh ?room)" "length (bt_insert d fresh ?room) \<le> capacity s"
    by (auto simp: bt_insert_length)
  with live show ?thesis by (auto simp: bind_shard_def shard_ok_def Let_def split: option.split)
qed

lemma affinity_shard_index_less: "aff_shards t \<noteq> [] \<Longrightarrow> affinity_shard_index t d < length (aff_shards t)"
  by (simp add: affinity_shard_index_def)

lemma aff_lock_shard_in: "aff_shards t \<noteq> [] \<Longrightarrow> aff_lock_shard t d \<in> set (aff_shards t)"
  by (simp add: aff_lock_shard_def affinity_shard_index_less)

lemma store_shard_inv:
  assumes "affinity_inv t" and "shard_ok s" and "capacity s = capacity (aff_lock_shard t d)"
  shows "affinity_inv (aff_store_shard d s t)"
proof -
  let ?i = "affinity_shard_index t d"
  have i: "?i < length (aff_shards t)"
    using assms(1) by (simp add: affinity_inv_def affinity_shard_index_less)
  have "map capacity ((aff_shards t)[?i := s]) = map capacity (aff_shards t)"
    using i assms(3) by (simp add: map_update aff_lock_shard_def list_update_same_conv)
  then show ?thesis
    using assms(1,2) by (auto simp: affinity_inv_def aff_store_shard_def dest: set_update_subset_insert [THEN subsetD])
qed

lemma touch_sequence_inv [simp]: "affinity_inv (t\<lparr>touch_sequence := n\<rparr>) = affinity_inv t"
  by (simp add: affinity_inv_def)

lemma touch_sequence_shard [simp]:
  "aff_lock_shard (t\<lparr>touch_sequence := n\<rparr>) d = aff_lock_shard t d"
  "digest sha256 (t\<lparr>touch_sequence := n\<rparr>) k = digest sha256 t k"
  by (simp_all add: aff_lock_shard_def affinity_shard_index_def digest_def)

lemma lock_shard_ok: "affinity_inv t \<Longrightarrow> shard_ok (aff_lock_shard t d)"
  using aff_lock_shard_in by (auto simp: affinity_inv_def)

lemma bind_inv: "affinity_inv t \<Longrightarrow> affinity_inv (bind_affinity sha256 k a now t)"
  unfolding bind_affinity_def Let_def
  by (rule store_shard_inv) (simp_all add: lock_shard_ok bind_shard_ok)

lemma lookup_inv: "affinity_inv t \<Longrightarrow> affinity_inv (snd (lookup_affinity sha256 k now t))"
proof -
  assume inv: "affinity_inv t"
  let ?d = "digest sha256 t k"
  let ?s = "aff_lock_shard t ?d"
  note ok = lock_shard_ok [OF inv, of ?d]
  have "shard_ok (?s\<lparr>entries := bt_remove ?d (entries ?s)\<rparr>)"
    using ok bt_retain_length [of _ "entries ?s"]
    by (auto simp: shard_ok_def bt_remove_def intro: order_trans)
  moreover have "shard_ok (?s\<lparr>entries := bt_modify ?d f (entries ?s)\<rparr>)" for f
    using ok by (simp add: shard_ok_def)
  ultimately show ?thesis
    using inv by (auto simp: lookup_affinity_def Let_def intro: store_shard_inv split: option.split)
qed

lemma len_inv: "affinity_inv t \<Longrightarrow> affinity_inv (snd (affinity_len now t))"
  using retain_live_length
  by (fastforce simp: affinity_inv_def affinity_len_def Let_def shard_ok_def comp_def intro: order_trans)

lemma stored_entries_bound: "affinity_inv t \<Longrightarrow> stored_entries t \<le> maximum_entries t"
proof -
  assume inv: "affinity_inv t"
  then have "\<forall>s \<in> set (aff_shards t). length (entries s) \<le> capacity s"
    by (auto simp: affinity_inv_def shard_ok_def)
  then have "stored_entries t \<le> sum_list (map capacity (aff_shards t))"
    unfolding stored_entries_def by (induction "aff_shards t") (auto intro: sum_list_mono)
  with inv show ?thesis by (simp add: affinity_inv_def)
qed

lemma sum_list_of_bool_less: "m \<le> n \<Longrightarrow> sum_list (map (\<lambda>i. of_bool (i < m)) [0..<n]) = (m :: nat)"
proof (induction n)
  case (Suc n)
  show ?case
  proof (cases "m \<le> n")
    case False
    then have "m = Suc n" using Suc.prems by simp
    moreover have "map (\<lambda>i. of_bool (i < Suc n)) [0..<n] = replicate n (1 :: nat)"
      by (rule nth_equalityI) simp_all
    ultimately show ?thesis by (simp add: sum_list_replicate)
  qed (use Suc in simp)
qed simp

lemma affinity_new_inv:
  assumes "affinity_new key maximum ttl = Ok t"
  shows "affinity_inv t" and "maximum_entries t = maximum" and "ttl_ms t = ttl"
proof -
  define n where "n = min maximum MAX_AFFINITY_SHARDS"
  from assms have pos: "0 < maximum" and t: "t = \<lparr>hash_key = key, ttl_ms = ttl, maximum_entries = maximum,
      aff_shards = map (\<lambda>i. \<lparr>capacity = maximum div n + of_bool (i < maximum mod n), entries = []\<rparr>) [0..<n],
      touch_sequence = 0\<rparr>"
    by (auto simp: affinity_new_def Let_def n_def split: if_splits)
  have n: "0 < n" "n \<le> maximum" using pos by (auto simp: n_def MAX_AFFINITY_SHARDS_def)
  then have "0 < maximum div n" by (simp add: div_greater_zero_iff)
  moreover have "sum_list (map (\<lambda>i. maximum div n + of_bool (i < maximum mod n)) [0..<n]) = maximum"
    using n(1) sum_list_of_bool_less [of "maximum mod n" n]
    by (simp add: sum_list_addf sum_list_triv less_imp_le)
  ultimately show "affinity_inv t" "maximum_entries t = maximum" "ttl_ms t = ttl"
    using n(1) by (auto simp: t affinity_inv_def shard_ok_def comp_def)
qed

datatype affinity_op = BindOp string account_id u64 | LookupOp string u64 | LenOp u64

fun run_affinity_op :: "(string \<Rightarrow> string) \<Rightarrow> affinity_table \<Rightarrow> affinity_op \<Rightarrow> affinity_table" where
  "run_affinity_op sha256 t (BindOp k a now) = bind_affinity sha256 k a now t"
| "run_affinity_op sha256 t (LookupOp k now) = snd (lookup_affinity sha256 k now t)"
| "run_affinity_op sha256 t (LenOp now) = snd (affinity_len now t)"

lemma maximum_entries_run [simp]:
  "maximum_entries (run_affinity_op sha256 t e) = maximum_entries t"
  by (cases e) (auto simp: bind_affinity_def lookup_affinity_def affinity_len_def aff_store_shard_def
      Let_def split: option.split)

interpretation affinity_machine: invariant_machine "run_affinity_op sha256"
  "\<lambda>t. affinity_inv t \<and> maximum_entries t = n" for sha256 n
proof
  fix t e
  assume inv: "affinity_inv t \<and> maximum_entries t = n"
  then have "affinity_inv (run_affinity_op sha256 t e)"
    by (cases e) (simp_all add: bind_inv lookup_inv len_inv)
  with inv show "affinity_inv (run_affinity_op sha256 t e) \<and> maximum_entries (run_affinity_op sha256 t e) = n"
    by simp
qed

subsection \<open>What a lookup sees after a binding\<close>

lemma lock_store_same:
  "aff_shards t \<noteq> [] \<Longrightarrow> aff_lock_shard (aff_store_shard d s t) d = s"
  by (simp add: aff_lock_shard_def aff_store_shard_def affinity_shard_index_def)

lemma digest_store [simp]: "digest sha256 (aff_store_shard d s t) k = digest sha256 t k"
  by (simp add: digest_def aff_store_shard_def)

lemma bind_shard_get:
  assumes "shard_ok s"
  shows "bt_get (entries (bind_shard d fresh now s)) d = Some fresh"
proof -
  let ?live = "retain_live now (entries s)"
  have live: "bt_wf ?live" using assms by (simp add: shard_ok_def)
  define room where "room = (if capacity s \<le> length ?live
      then (case evicted ?live of None \<Rightarrow> ?live | Some v \<Rightarrow> bt_remove v ?live) else ?live)"
  with live have "bt_wf room" by (auto split: option.split)
  then have "bt_get (bt_insert d fresh room) d = Some fresh" by (simp add: bt.get_insert)
  then show ?thesis
    unfolding bind_shard_def Let_def room_def [symmetric]
    by (auto simp: bt_get_modify split: option.split)
qed

lemma bind_lookup:
  assumes "affinity_inv t"
  shows "fst (lookup_affinity sha256 k later (bind_affinity sha256 k a now t)) =
    (if later < sat_add now (ttl_ms t) then Some a else None)"
proof -
  let ?d = "digest sha256 t k"
  let ?e = "\<lparr>aff_account_id = a, expires_at_ms = sat_add now (ttl_ms t),
      touched_sequence = sat_add (touch_sequence t) 1\<rparr>"
  let ?t = "bind_affinity sha256 k a now t"
  have ne: "aff_shards t \<noteq> []" using assms by (simp add: affinity_inv_def)
  have "digest sha256 ?t k = ?d" by (simp add: bind_affinity_def Let_def)
  moreover have "aff_lock_shard ?t ?d = bind_shard ?d ?e now (aff_lock_shard t ?d)"
    using ne by (simp add: bind_affinity_def Let_def lock_store_same)
  moreover have "bt_get (entries (bind_shard ?d ?e now (aff_lock_shard t ?d))) ?d = Some ?e"
    using lock_shard_ok [OF assms] by (rule bind_shard_get)
  ultimately show ?thesis by (simp add: lookup_affinity_def Let_def not_less)
qed

lemma bind_shard_other:
  assumes "shard_ok s" and "d' \<noteq> d" and "bt_get (entries s) d' = Some e" and "now < expires_at_ms e"
    and "bt_get (entries (bind_shard d fresh now s)) d' \<noteq> Some e"
  shows "capacity s \<le> length (retain_live now (entries s))
    \<and> (\<forall>k e'. bt_get (retain_live now (entries s)) k = Some e' \<longrightarrow> expires_at_ms e \<le> expires_at_ms e')"
proof -
  let ?live = "retain_live now (entries s)"
  have live: "bt_wf ?live" "bt_get ?live d' = Some e"
    using assms by (simp_all add: shard_ok_def bt_get_retain_live)
  have none: "bt_get ?live d = None"
    using assms(2,5) live(2) by (auto simp: bind_shard_def Let_def bt_get_modify split: option.splits)
  have full: "capacity s \<le> length ?live"
  proof (rule ccontr)
    assume "\<not> capacity s \<le> length ?live"
    with assms(2,5) live none show False by (simp add: bind_shard_def Let_def bt.get_insert)
  qed
  have "\<exists>v. evicted ?live = Some v" using live(2) by (intro evicted_Some) auto
  then obtain v where v: "evicted ?live = Some v" by blast
  have "v = d'"
  proof (rule ccontr)
    assume "v \<noteq> d'"
    with assms(2,5) live none full v show False
      by (simp add: bind_shard_def Let_def bt.get_insert bt_remove_wf bt_get_remove)
  qed
  with evicted_first [OF v _ bt.distinct_entries [OF live(1)]] live full show ?thesis
    by (simp add: bt.entries_get)
qed

subsection \<open>Properties\<close>

text \<open>
  C21. The affinity table is bounded: after any sequence of bindings, lookups and counts, with any
  hash function, it stores at most the configured maximum of entries.
\<close>

theorem affinity_bounded:
  assumes "affinity_new key maximum ttl = Ok t0"
  shows "stored_entries (exec (run_affinity_op sha256) t0 ops) \<le> maximum"
  using affinity_machine.inv_exec [of t0 maximum sha256 ops] affinity_new_inv [OF assms]
    stored_entries_bound by fastforce

theorem affinity_bounded_witness:
  "\<exists>t0. affinity_new ''k'' 1 5 = Ok t0 \<and> stored_entries (exec (run_affinity_op (\<lambda>s. s))
     t0 [BindOp ''x'' (AccountId ''a'') 1, BindOp ''y'' (AccountId ''b'') 2]) \<le> 1"
proof -
  have "\<exists>t0. affinity_new ''k'' 1 5 = Ok t0"
    by (simp add: affinity_new_def MAX_AFFINITIES_def MAX_AFFINITY_TTL_MS_def Let_def)
  then show ?thesis using affinity_bounded by blast
qed

text \<open>
  A lookup right after a binding returns the bound account before the binding expires, and
  nothing from its expiry on.
\<close>

lemma affinity_bind_lookup:
  assumes "affinity_new key maximum ttl = Ok t0"
  shows "fst (lookup_affinity sha256 k later
      (bind_affinity sha256 k a now (exec (run_affinity_op sha256) t0 ops))) =
    (if later < sat_add now (ttl_ms (exec (run_affinity_op sha256) t0 ops)) then Some a else None)"
  using affinity_machine.inv_exec [of t0 maximum sha256 ops] affinity_new_inv [OF assms]
  by (simp add: bind_lookup)

text \<open>
  A binding disturbs another live entry of its shard only when the shard is full of live
  entries, and then the entry it drops is one that no other live entry expires before.
\<close>

lemma affinity_evicts_first_to_expire:
  assumes "shard_ok s" and "d' \<noteq> d" and "bt_get (entries s) d' = Some e" and "now < expires_at_ms e"
    and "bt_get (entries (bind_shard d fresh now s)) d' \<noteq> Some e"
  shows "capacity s \<le> length (retain_live now (entries s))
    \<and> (\<forall>k e'. bt_get (retain_live now (entries s)) k = Some e' \<longrightarrow> expires_at_ms e \<le> expires_at_ms e')"
  using bind_shard_other [OF assms] .

definition sample_entry :: "account_id \<Rightarrow> u64 \<Rightarrow> affinity_entry" where
  "sample_entry a expiry = \<lparr>aff_account_id = a, expires_at_ms = expiry, touched_sequence = 1\<rparr>"

end
