(* ===== verification/Execution.thy ===== *)
theory Execution
  imports Account_Health Catalog
begin

text \<open>
  One request against the upstream: \<open>retry.rs\<close>, \<open>execution.rs\<close> and \<open>auth.rs\<close> of the
  engine. The upstream, the clock, the delay and the cancellation flag are the environment: what
  each \<open>await\<close> returns is read from a record, per attempt. While the coordinator is suspended
  other requests use the same account table; their operations are part of the environment too.
\<close>

subsection \<open>Retry policy (\<open>retry.rs\<close>)\<close>

record retry_policy =
  base_delay_ms :: u64
  maximum_delay_ms :: u64
  maximum_body_bytes :: nat

datatype retry_class = RetryRateLimited | RetryTemporary | RetryNever

datatype retry_policy_error = InvalidRetryPolicy

definition MAX_TOTAL_ATTEMPTS :: nat where "MAX_TOTAL_ATTEMPTS = 2"
definition MAX_RETRY_DELAY_MS :: u64 where "MAX_RETRY_DELAY_MS = 60000"
definition MAX_RETAINED_REQUEST_BODY_BYTES :: nat where
  "MAX_RETAINED_REQUEST_BODY_BYTES = 16 * 1024 * 1024"

definition retry_policy_new :: "u64 \<Rightarrow> u64 \<Rightarrow> nat \<Rightarrow> retry_policy_error + retry_policy" where
  "retry_policy_new base maximum body =
     (if base = 0 \<or> maximum < base \<or> MAX_RETRY_DELAY_MS < maximum \<or> body = 0
         \<or> MAX_RETAINED_REQUEST_BODY_BYTES < body
      then Err InvalidRetryPolicy
      else Ok \<lparr>base_delay_ms = base, maximum_delay_ms = maximum, maximum_body_bytes = body\<rparr>)"

fun delay_ms :: "retry_policy \<Rightarrow> retry_class \<Rightarrow> u64 option \<Rightarrow> u64 option" where
  "delay_ms p RetryNever hint = None"
| "delay_ms p RetryRateLimited hint =
     Some (max (base_delay_ms p)
       (min (case hint of Some ms \<Rightarrow> ms | None \<Rightarrow> 0) (maximum_delay_ms p)))"
| "delay_ms p RetryTemporary hint = Some (base_delay_ms p)"

subsection \<open>Attempts (\<open>execution.rs\<close>)\<close>

datatype execution_request_id = ExecutionRequestId string

datatype invalid_execution_request_id = InvalidExecutionRequestId

definition execution_request_id_new ::
  "string \<Rightarrow> invalid_execution_request_id + execution_request_id" where
  "execution_request_id_new v =
     (if v = [] \<or> 128 < length v
         \<or> \<not> list_all (\<lambda>c. is_ascii_alphanumeric c \<or> c = CHR ''-'' \<or> c = CHR ''_'' \<or> c = CHR ''.'') v
      then Err InvalidExecutionRequestId else Ok (ExecutionRequestId v))"

record attempt_id =
  attempt_request_id :: execution_request_id
  attempt_ordinal :: nat

datatype attempt_boundary = BeforeVisible | Visible

datatype attempt_failure_kind =
    FailRateLimited | FailServer | FailTimeout | FailReset | FailInvalidCredentials
  | FailInvalidRequest | FailPolicy | FailOther

record attempt_failure =
  failure_kind :: attempt_failure_kind
  failure_status_code :: "u16 option"
  failure_retry_after_ms :: "u64 option"

definition attempt_failure_new ::
  "attempt_failure_kind \<Rightarrow> u16 option \<Rightarrow> u64 option \<Rightarrow> attempt_failure" where
  "attempt_failure_new kind code retry =
     \<lparr>failure_kind = kind,
      failure_status_code = (case code of
          None \<Rightarrow> None | Some s \<Rightarrow> if 100 \<le> s \<and> s \<le> 599 then Some s else None),
      failure_retry_after_ms = retry\<rparr>"

fun retry_class_of :: "attempt_failure_kind \<Rightarrow> retry_class" where
  "retry_class_of FailRateLimited = RetryRateLimited"
| "retry_class_of FailServer = RetryTemporary"
| "retry_class_of FailTimeout = RetryTemporary"
| "retry_class_of FailReset = RetryTemporary"
| "retry_class_of FailInvalidCredentials = RetryNever"
| "retry_class_of FailInvalidRequest = RetryNever"
| "retry_class_of FailPolicy = RetryNever"
| "retry_class_of FailOther = RetryNever"

datatype 'o attempt_result =
    AttemptSucceeded 'o attempt_boundary
  | AttemptFailed attempt_failure attempt_boundary

record execution_candidate =
  ec_account_id :: account_id
  ec_authentication :: account_authentication
  ec_weight :: u16

definition execution_candidate_new ::
  "account_id \<Rightarrow> account_authentication \<Rightarrow> u16 \<Rightarrow> account_state_error + execution_candidate" where
  "execution_candidate_new a auth w =
     and_then (account_candidate_new a auth w)
       (\<lambda>_. Ok \<lparr>ec_account_id = a, ec_authentication = auth, ec_weight = w\<rparr>)"

text \<open>The \<open>expect\<close> repeats the check of \<open>execution_candidate_new\<close>.\<close>

definition as_account_candidate :: "execution_candidate \<Rightarrow> account_candidate" where
  "as_account_candidate c =
     \<lparr>cand_account_id = ec_account_id c, cand_authentication = ec_authentication c,
      cand_weight = ec_weight c\<rparr>"

record execution_request =
  er_request_id :: execution_request_id
  er_provider_id :: provider_id
  er_model :: string
  er_candidates :: "execution_candidate list"
  er_authentication :: account_authentication
  er_accountless_account_id :: "account_id option"
  er_affinity_account :: "account_id option"
  er_body :: string

record attempt_context =
  ctx_request_id :: execution_request_id
  ctx_attempt_id :: attempt_id
  ctx_provider_id :: provider_id
  ctx_account_id :: account_id
  ctx_model :: string

datatype attempt_diagnostic_outcome =
    DiagnosticSucceeded attempt_boundary
  | DiagnosticFailed attempt_failure_kind "u16 option" attempt_boundary

record attempt_diagnostic =
  diag_request_id :: execution_request_id
  diag_attempt_id :: attempt_id
  diag_provider_id :: provider_id
  diag_account_id :: account_id
  diag_outcome :: attempt_diagnostic_outcome

text \<open>A fixed array of two slots and the number of filled ones.\<close>

record attempt_history =
  hist_entries :: "attempt_diagnostic option list"
  hist_length :: nat

definition history_default :: attempt_history where
  "history_default = \<lparr>hist_entries = replicate MAX_TOTAL_ATTEMPTS None, hist_length = 0\<rparr>"

definition history_push :: "attempt_diagnostic \<Rightarrow> attempt_history \<Rightarrow> attempt_history" where
  "history_push d h =
     (if hist_length h < length (hist_entries h)
      then h\<lparr>hist_entries := (hist_entries h)[hist_length h := Some d], hist_length := hist_length h + 1\<rparr>
      else h)"

text \<open>\<open>iter\<close> panics (here: \<open>None\<close>) on a slot of the prefix that was not filled.\<close>

definition history_iter :: "attempt_history \<Rightarrow> attempt_diagnostic list option" where
  "history_iter h = those (take (hist_length h) (hist_entries h))"

datatype execution_terminal =
    TerminalCancelled
  | RequestBodyTooLarge
  | TerminalNoEligibleAccount
  | Upstream attempt_failure attempt_boundary

datatype 'o execution_outcome =
    ExecutionSucceeded 'o attempt_boundary attempt_history
  | ExecutionFailed execution_terminal attempt_history

fun outcome_history :: "'o execution_outcome \<Rightarrow> attempt_history" where
  "outcome_history (ExecutionSucceeded _ _ h) = h"
| "outcome_history (ExecutionFailed _ h) = h"

subsection \<open>The environment of a request\<close>

text \<open>
  For attempt \<open>n\<close>: the cancellation flag before it, the time, what the upstream returns (\<open>None\<close>
  when cancellation wins the biased \<open>select!\<close>), whether the delay completed (\<open>None\<close> as before),
  the flag after the delay, and what other requests do meanwhile to the account table.
\<close>

record 'o exec_env =
  env_cancelled :: "nat \<Rightarrow> bool"
  env_now_ms :: "nat \<Rightarrow> u64"
  env_attempt :: "attempt_context \<Rightarrow> string \<Rightarrow> 'o attempt_result option"
  env_wait :: "nat \<Rightarrow> u64 \<Rightarrow> bool option"
  env_cancelled_after_wait :: "nat \<Rightarrow> bool"
  env_during_attempt :: "nat \<Rightarrow> account_op list"
  env_during_wait :: "nat \<Rightarrow> account_op list"

definition failure_observation :: "attempt_failure \<Rightarrow> account_observation option" where
  "failure_observation f =
     (case failure_kind f of
        FailRateLimited \<Rightarrow> Some (RateLimited (failure_retry_after_ms f))
      | FailServer \<Rightarrow> Some (TemporaryFailure (failure_retry_after_ms f))
      | FailTimeout \<Rightarrow> Some (TemporaryFailure (failure_retry_after_ms f))
      | FailReset \<Rightarrow> Some (TemporaryFailure (failure_retry_after_ms f))
      | FailInvalidCredentials \<Rightarrow> Some InvalidCredentials
      | FailInvalidRequest \<Rightarrow> None
      | FailPolicy \<Rightarrow> None
      | FailOther \<Rightarrow> None)"

definition observe_failure ::
  "account_id \<Rightarrow> attempt_failure \<Rightarrow> u64 \<Rightarrow> account_health_table \<Rightarrow> account_health_table" where
  "observe_failure a f now t =
     (case failure_observation f of None \<Rightarrow> t | Some obs \<Rightarrow> snd (observe a obs now t))"

definition pick_account ::
  "execution_request \<Rightarrow> u64 \<Rightarrow> account_health_table \<Rightarrow> account_id option \<times> account_health_table" where
  "pick_account req now t =
     (case er_accountless_account_id req of
        Some a \<Rightarrow> (Some a, t)
      | None \<Rightarrow>
          (case select_from (map as_account_candidate (er_candidates req)) (er_authentication req)
                  (er_affinity_account req) now t of
             (Inl _, t') \<Rightarrow> (None, t')
           | (Inr choice, t') \<Rightarrow> (Some (choice_account_id choice), t')))"

definition attempt_context_of :: "execution_request \<Rightarrow> nat \<Rightarrow> account_id \<Rightarrow> attempt_context" where
  "attempt_context_of req ordinal a =
     \<lparr>ctx_request_id = er_request_id req,
      ctx_attempt_id = \<lparr>attempt_request_id = er_request_id req, attempt_ordinal = ordinal\<rparr>,
      ctx_provider_id = er_provider_id req, ctx_account_id = a, ctx_model = er_model req\<rparr>"

definition diagnostic ::
  "execution_request \<Rightarrow> nat \<Rightarrow> account_id \<Rightarrow> attempt_diagnostic_outcome \<Rightarrow> attempt_diagnostic" where
  "diagnostic req ordinal a outcome =
     \<lparr>diag_request_id = er_request_id req,
      diag_attempt_id = \<lparr>attempt_request_id = er_request_id req, attempt_ordinal = ordinal\<rparr>,
      diag_provider_id = er_provider_id req, diag_account_id = a, diag_outcome = outcome\<rparr>"

definition diagnostic_failed :: "attempt_failure \<Rightarrow> attempt_boundary \<Rightarrow> attempt_diagnostic_outcome" where
  "diagnostic_failed f b = DiagnosticFailed (failure_kind f) (failure_status_code f) b"

definition retry_delay ::
  "retry_policy \<Rightarrow> nat \<Rightarrow> attempt_failure \<Rightarrow> attempt_boundary \<Rightarrow> u64 option" where
  "retry_delay policy ordinal f b =
     (if b = BeforeVisible \<and> ordinal < MAX_TOTAL_ATTEMPTS
      then delay_ms policy (retry_class_of (failure_kind f)) (failure_retry_after_ms f) else None)"

text \<open>
  The \<open>for\<close> loop, on the number of attempts left; after the last one comes the \<open>unreachable!\<close>,
  which is the outcome \<open>None\<close>.
\<close>

fun execute_loop ::
  "'o exec_env \<Rightarrow> retry_policy \<Rightarrow> execution_request \<Rightarrow> nat \<Rightarrow> attempt_history
     \<Rightarrow> account_health_table \<Rightarrow> 'o execution_outcome option \<times> account_health_table" where
  "execute_loop env policy req 0 h t = (None, t)"
| "execute_loop env policy req (Suc left) h t =
     (let ordinal = MAX_TOTAL_ATTEMPTS - left; now = env_now_ms env ordinal in
      if env_cancelled env ordinal then (Some (ExecutionFailed TerminalCancelled h), t)
      else (case pick_account req now t of
          (None, t1) \<Rightarrow> (Some (ExecutionFailed TerminalNoEligibleAccount h), t1)
        | (Some a, t1) \<Rightarrow>
            let t2 = exec run_account_op t1 (env_during_attempt env ordinal) in
            (case env_attempt env (attempt_context_of req ordinal a) (er_body req) of
               None \<Rightarrow> (Some (ExecutionFailed TerminalCancelled h), t2)
             | Some (AttemptSucceeded output b) \<Rightarrow>
                 (Some (ExecutionSucceeded output b
                    (history_push (diagnostic req ordinal a (DiagnosticSucceeded b)) h)),
                  if er_accountless_account_id req = None then snd (observe a Success now t2) else t2)
             | Some (AttemptFailed f b) \<Rightarrow>
                 let t3 = (if er_accountless_account_id req = None
                           then observe_failure a f now t2 else t2);
                     h' = history_push (diagnostic req ordinal a (diagnostic_failed f b)) h
                 in (case retry_delay policy ordinal f b of
                       None \<Rightarrow> (Some (ExecutionFailed (Upstream f b) h'), t3)
                     | Some d \<Rightarrow>
                         let t4 = exec run_account_op t3 (env_during_wait env ordinal) in
                         (case env_wait env ordinal d of
                            None \<Rightarrow> (Some (ExecutionFailed TerminalCancelled h'), t4)
                          | Some completed \<Rightarrow>
                              if \<not> completed \<or> env_cancelled_after_wait env ordinal
                              then (Some (ExecutionFailed TerminalCancelled h'), t4)
                              else execute_loop env policy req left h' t4)))))"

definition execute ::
  "'o exec_env \<Rightarrow> retry_policy \<Rightarrow> execution_request \<Rightarrow> account_health_table
     \<Rightarrow> 'o execution_outcome option \<times> account_health_table" where
  "execute env policy req t =
     (if maximum_body_bytes policy < length (er_body req)
      then (Some (ExecutionFailed RequestBodyTooLarge history_default), t)
      else execute_loop env policy req MAX_TOTAL_ATTEMPTS history_default t)"

subsection \<open>Outbound authorization (\<open>auth.rs\<close>)\<close>

datatype secret_resolution_error = SecretResolutionError

record resolved_authorization =
  header_name :: string
  header_value :: string

fun api_key_header :: "adapter_family \<Rightarrow> string \<times> bool" where
  "api_key_header Anthropic = (''x-api-key'', False)"
| "api_key_header Google = (''x-goog-api-key'', False)"
| "api_key_header AzureOpenAi = (''api-key'', False)"
| "api_key_header OpenAiResponses = (''authorization'', True)"
| "api_key_header OpenAiChat = (''authorization'', True)"
| "api_key_header Cursor = (''authorization'', True)"
| "api_key_header Kiro = (''authorization'', True)"
| "api_key_header MimoFree = (''authorization'', True)"

fun auth_source :: "account_auth_config \<Rightarrow> adapter_family \<Rightarrow> (secret_ref \<times> string \<times> bool) option" where
  "auth_source (Forward ref) adapter = Some (ref, ''authorization'', False)"
| "auth_source (Oauth ref _) adapter = Some (ref, ''authorization'', True)"
| "auth_source (ApiKey ref) adapter =
     (let (name, bearer) = api_key_header adapter in Some (ref, name, bearer))"
| "auth_source Local adapter = None"

text \<open>The secret resolver is an argument.\<close>

definition resolve_outbound_auth ::
  "account_auth_config \<Rightarrow> adapter_family \<Rightarrow> (secret_ref \<Rightarrow> secret_resolution_error + string)
     \<Rightarrow> secret_resolution_error + resolved_authorization option" where
  "resolve_outbound_auth auth adapter resolve =
     (case auth_source auth adapter of
        None \<Rightarrow> Ok None
      | Some (ref, name, bearer) \<Rightarrow>
          and_then (resolve ref) (\<lambda>secret.
            if secret = [] then Err SecretResolutionError
            else Ok (Some \<lparr>header_name = name,
                           header_value = (if bearer then ''Bearer '' @ secret else secret)\<rparr>)))"

subsection \<open>The history of attempts\<close>

text \<open>After \<open>n\<close> attempts the first \<open>n\<close> slots are filled, with their ordinals in order.\<close>

definition history_ok :: "attempt_history \<Rightarrow> attempt_diagnostic list \<Rightarrow> bool" where
  "history_ok h ds =
     (hist_length h = length ds \<and> length ds \<le> MAX_TOTAL_ATTEMPTS
      \<and> hist_entries h = map Some ds @ replicate (MAX_TOTAL_ATTEMPTS - length ds) None)"

lemma history_default_ok [simp]: "history_ok history_default []"
  by (simp add: history_ok_def history_default_def)

lemma history_push_ok:
  assumes "history_ok h ds" and "length ds < MAX_TOTAL_ATTEMPTS"
  shows "history_ok (history_push d h) (ds @ [d])"
proof -
  obtain k where k: "MAX_TOTAL_ATTEMPTS - length ds = Suc k"
    using assms(2) by (metis Suc_diff_Suc)
  then have "MAX_TOTAL_ATTEMPTS - Suc (length ds) = k" by simp
  with assms k show ?thesis
    by (simp add: history_ok_def history_push_def list_update_append)
qed

lemma those_map_Some [simp]: "those (map Some xs) = Some xs"
  by (induction xs) auto

lemma history_ok_iter: "history_ok h ds \<Longrightarrow> history_iter h = Some ds"
  by (simp add: history_ok_def history_iter_def)

lemma those_length: "those xs = Some ys \<Longrightarrow> length ys = length xs"
  by (induction xs arbitrary: ys) (auto split: option.splits)

lemma history_iter_length: "history_iter h = Some ds \<Longrightarrow> length ds \<le> hist_length h"
  by (auto simp: history_iter_def dest: those_length)

definition attempts_of :: "execution_request \<Rightarrow> attempt_diagnostic list \<Rightarrow> bool" where
  "attempts_of req ds =
     (map (\<lambda>d. attempt_ordinal (diag_attempt_id d)) ds = [1..<Suc (length ds)]
      \<and> (\<forall>d \<in> set ds. diag_request_id d = er_request_id req \<and> diag_provider_id d = er_provider_id req))"

lemma attempts_of_Nil [simp]: "attempts_of req []"
  by (simp add: attempts_of_def)

lemma attempts_of_push:
  "attempts_of req ds \<Longrightarrow> n = Suc (length ds) \<Longrightarrow> attempts_of req (ds @ [diagnostic req n a r])"
  by (simp add: attempts_of_def diagnostic_def)

definition recorded :: "execution_request \<Rightarrow> nat \<Rightarrow> attempt_history \<Rightarrow> bool" where
  "recorded req n h = (\<exists>ds. length ds = n \<and> history_ok h ds \<and> attempts_of req ds)"

lemma recorded_push:
  assumes "recorded req n h" and "n < MAX_TOTAL_ATTEMPTS"
  shows "recorded req (Suc n) (history_push (diagnostic req (Suc n) a r) h)"
proof -
  from assms obtain ds where "length ds = n" "history_ok h ds" "attempts_of req ds"
    by (auto simp: recorded_def)
  with assms(2) show ?thesis
    unfolding recorded_def
    by (intro exI [of _ "ds @ [diagnostic req (Suc n) a r]"]) (simp add: history_push_ok attempts_of_push)
qed

definition outcome_recorded ::
  "execution_request \<Rightarrow> 'o execution_outcome option \<times> account_health_table \<Rightarrow> bool" where
  "outcome_recorded req r =
     (\<exists>out t n. r = (Some out, t) \<and> n \<le> MAX_TOTAL_ATTEMPTS \<and> recorded req n (outcome_history out))"

lemma outcome_recorded_intros:
  "recorded req n h \<Longrightarrow> n \<le> MAX_TOTAL_ATTEMPTS \<Longrightarrow> outcome_recorded req (Some (ExecutionFailed e h), t)"
  "recorded req n h \<Longrightarrow> n \<le> MAX_TOTAL_ATTEMPTS \<Longrightarrow> outcome_recorded req (Some (ExecutionSucceeded v b h), t)"
  by (auto simp: outcome_recorded_def)

lemma execute_loop_recorded:
  assumes "recorded req n h" and "n + left = MAX_TOTAL_ATTEMPTS" and "0 < left"
  shows "outcome_recorded req (execute_loop env policy req left h t)"
  using assms
proof (induction left arbitrary: h n t)
  case (Suc left)
  have n: "MAX_TOTAL_ATTEMPTS - left = Suc n" and less: "n < MAX_TOTAL_ATTEMPTS"
    using Suc.prems(2) by simp_all
  note push = recorded_push [OF Suc.prems(1) less]
  have again: "outcome_recorded req
      (execute_loop env policy req left (history_push (diagnostic req (Suc n) a r) h) u)"
    if "retry_delay policy (Suc n) f b = Some d" for a r u f b d
  proof (rule Suc.IH [OF push])
    show "Suc n + left = MAX_TOTAL_ATTEMPTS" using Suc.prems(2) by simp
    then show "0 < left" using that by (auto simp: retry_delay_def split: if_splits)
  qed
  show ?case
    using Suc.prems(1) less
    by (auto simp: Let_def n again intro: outcome_recorded_intros outcome_recorded_intros [OF push]
        split: prod.split option.split attempt_result.split)
qed simp

lemma execute_recorded: "outcome_recorded req (execute env policy req t)"
proof -
  have "recorded req 0 history_default" by (simp add: recorded_def)
  then show ?thesis
    by (auto simp: execute_def intro: outcome_recorded_intros execute_loop_recorded)
      (simp add: MAX_TOTAL_ATTEMPTS_def execute_loop_recorded [unfolded MAX_TOTAL_ATTEMPTS_def])
qed

text \<open>
  What the history says of the upstream. An entry is the answer to the attempt it names;
  \<open>answers_alike\<close> is an upstream that answers the attempts of the history as before and leaves those
  without an answer that had none.
\<close>

definition diagnosed_attempt :: "execution_request \<Rightarrow> attempt_diagnostic \<Rightarrow> attempt_context" where
  "diagnosed_attempt req d =
     attempt_context_of req (attempt_ordinal (diag_attempt_id d)) (diag_account_id d)"

definition recorded_answer :: "'o exec_env \<Rightarrow> execution_request \<Rightarrow> attempt_diagnostic \<Rightarrow> bool" where
  "recorded_answer env req d =
     (case env_attempt env (diagnosed_attempt req d) (er_body req) of
        None \<Rightarrow> False
      | Some (AttemptSucceeded _ b) \<Rightarrow> diag_outcome d = DiagnosticSucceeded b
      | Some (AttemptFailed f b) \<Rightarrow> diag_outcome d = diagnostic_failed f b)"

definition answers_alike ::
  "'o exec_env \<Rightarrow> execution_request \<Rightarrow> attempt_diagnostic list
     \<Rightarrow> (attempt_context \<Rightarrow> string \<Rightarrow> 'o attempt_result option) \<Rightarrow> bool" where
  "answers_alike env req ds g =
     ((\<forall>d \<in> set ds. g (diagnosed_attempt req d) (er_body req) = env_attempt env (diagnosed_attempt req d) (er_body req))
      \<and> (\<forall>ctx body. env_attempt env ctx body = None \<longrightarrow> g ctx body = None))"

definition attempts_from :: "execution_request \<Rightarrow> nat \<Rightarrow> attempt_diagnostic list \<Rightarrow> bool" where
  "attempts_from req n ds =
     (map (\<lambda>d. attempt_ordinal (diag_attempt_id d)) ds = [Suc n..<Suc n + length ds]
      \<and> (\<forall>d \<in> set ds. diag_request_id d = er_request_id req \<and> diag_provider_id d = er_provider_id req))"

lemma attempts_from_simps [simp]:
  "attempts_from req n []"
  "attempts_from req n (diagnostic req m a r # ds) = (m = Suc n \<and> attempts_from req (Suc n) ds)"
  by (auto simp: attempts_from_def diagnostic_def upt_conv_Cons)

lemma diagnosed_attempt_simps [simp]:
  "diagnosed_attempt req (diagnostic req n a r) = attempt_context_of req n a"
  by (simp add: diagnosed_attempt_def diagnostic_def)

lemma answers_alike_simps [simp]:
  "answers_alike env req (diagnostic req n a r # ds) g \<longleftrightarrow>
     g (attempt_context_of req n a) (er_body req) = env_attempt env (attempt_context_of req n a) (er_body req)
     \<and> answers_alike env req ds g"
  by (auto simp: answers_alike_def)

lemma answers_alike_none:
  "answers_alike env req ds g \<Longrightarrow> env_attempt env ctx body = None \<Longrightarrow> g ctx body = None"
  by (simp add: answers_alike_def)

text \<open>The run of the loop from a history, with what it adds to it.\<close>

definition loop_attempts ::
  "'o exec_env \<Rightarrow> execution_request \<Rightarrow> nat \<Rightarrow> attempt_diagnostic list
     \<Rightarrow> ('o exec_env \<Rightarrow> 'o execution_outcome option \<times> account_health_table) \<Rightarrow> bool" where
  "loop_attempts env req n ds0 run =
     (\<exists>out t' ds. run env = (Some out, t') \<and> history_ok (outcome_history out) (ds0 @ ds) \<and> attempts_from req n ds
        \<and> (\<forall>d \<in> set ds. recorded_answer env req d)
        \<and> (\<forall>g. answers_alike env req ds g \<longrightarrow> run (env\<lparr>env_attempt := g\<rparr>) = (Some out, t')))"

lemma loop_attemptsI:
  assumes "run env = (Some out, t')" "history_ok (outcome_history out) (ds0 @ ds)" "attempts_from req n ds"
    and "\<forall>d \<in> set ds. recorded_answer env req d"
    and "\<And>g. answers_alike env req ds g \<Longrightarrow> run (env\<lparr>env_attempt := g\<rparr>) = (Some out, t')"
  shows "loop_attempts env req n ds0 run"
  using assms unfolding loop_attempts_def by blast

lemma execute_loop_stops:
  assumes "\<not> env_cancelled env (MAX_TOTAL_ATTEMPTS - left)"
    and "pick_account req (env_now_ms env (MAX_TOTAL_ATTEMPTS - left)) t = (Some a, t1)"
    and "\<nexists>d. retry_delay policy (MAX_TOTAL_ATTEMPTS - left) f b = Some d
           \<and> env_wait env (MAX_TOTAL_ATTEMPTS - left) d = Some True
           \<and> \<not> env_cancelled_after_wait env (MAX_TOTAL_ATTEMPTS - left)"
  shows "\<exists>out t2. outcome_history out
         = history_push (diagnostic req (MAX_TOTAL_ATTEMPTS - left) a (diagnostic_failed f b)) h
     \<and> (\<forall>g. g (attempt_context_of req (MAX_TOTAL_ATTEMPTS - left) a) (er_body req) = Some (AttemptFailed f b)
          \<longrightarrow> execute_loop (env\<lparr>env_attempt := g\<rparr>) policy req (Suc left) h t = (Some out, t2))"
proof (cases "retry_delay policy (MAX_TOTAL_ATTEMPTS - left) f b")
  case None
  with assms show ?thesis
    by (intro exI [of _ "ExecutionFailed (Upstream f b)
          (history_push (diagnostic req (MAX_TOTAL_ATTEMPTS - left) a (diagnostic_failed f b)) h)"])
       (simp add: Let_def)
next
  case (Some d)
  with assms show ?thesis
    by (intro exI [of _ "ExecutionFailed TerminalCancelled
          (history_push (diagnostic req (MAX_TOTAL_ATTEMPTS - left) a (diagnostic_failed f b)) h)"])
       (cases "env_wait env (MAX_TOTAL_ATTEMPTS - left) d"; simp add: Let_def)
qed

lemma execute_loop_attempts:
  assumes "history_ok h ds0" "length ds0 = n" "n + left = MAX_TOTAL_ATTEMPTS" "0 < left"
  shows "loop_attempts env req n ds0 (\<lambda>env. execute_loop env policy req left h t)"
  using assms
proof (induction left arbitrary: h ds0 n t)
  case (Suc left)
  have n: "MAX_TOTAL_ATTEMPTS - left = Suc n" and less: "length ds0 < MAX_TOTAL_ATTEMPTS"
    using Suc.prems(2,3) by simp_all
  let ?now = "env_now_ms env (Suc n)"
  show ?case
  proof (cases "env_cancelled env (Suc n)")
    case True
    then show ?thesis
      by (intro loop_attemptsI [where ds = "[]"]) (simp_all add: n Suc.prems(1))
  next
    case running: False
    show ?thesis
    proof (cases "pick_account req ?now t")
      case (Pair picked t1)
      show ?thesis
      proof (cases picked)
        case None
        with Pair running show ?thesis
          by (intro loop_attemptsI [where ds = "[]"]) (simp_all add: n Suc.prems(1))
      next
        case (Some a)
        let ?ctx = "attempt_context_of req (Suc n) a"
        note attempted = running Pair Some
        consider (cancelled) "env_attempt env ?ctx (er_body req) = None"
          | (succeeded) v b where "env_attempt env ?ctx (er_body req) = Some (AttemptSucceeded v b)"
          | (failed) f b where "env_attempt env ?ctx (er_body req) = Some (AttemptFailed f b)"
          by (metis attempt_result.exhaust option.exhaust)
        then show ?thesis
        proof cases
          case cancelled
          with attempted show ?thesis
            by (intro loop_attemptsI [where ds = "[]"])
               (simp_all add: n Suc.prems(1) Let_def answers_alike_none)
        next
          case succeeded
          with attempted history_push_ok [OF Suc.prems(1) less] show ?thesis
            by (intro loop_attemptsI [where ds = "[diagnostic req (Suc n) a (DiagnosticSucceeded b)]"])
               (simp_all add: n Let_def recorded_answer_def, simp_all add: diagnostic_def)
        next
          case (failed f b)
          let ?d = "diagnostic req (Suc n) a (diagnostic_failed f b)"
          have answer: "recorded_answer env req ?d"
            using failed by (simp add: recorded_answer_def) (simp add: diagnostic_def)
          note push = history_push_ok [OF Suc.prems(1) less, of ?d]
          show ?thesis
          proof (cases "\<exists>d. retry_delay policy (Suc n) f b = Some d \<and> env_wait env (Suc n) d = Some True
              \<and> \<not> env_cancelled_after_wait env (Suc n)")
            case False
            obtain out t2 where "outcome_history out = history_push ?d h"
              and stop: "\<And>g. g ?ctx (er_body req) = Some (AttemptFailed f b) \<Longrightarrow>
                execute_loop (env\<lparr>env_attempt := g\<rparr>) policy req (Suc left) h t = (Some out, t2)"
              using execute_loop_stops [of env left req t a t1 policy f b h] attempted False n by auto
            with failed push answer stop [of "env_attempt env"] show ?thesis
              by (intro loop_attemptsI [where ds = "[?d]"]) (simp_all del: execute_loop.simps)
          next
            case True
            let ?t3 = "exec run_account_op t1 (env_during_attempt env (Suc n))"
            let ?t4 = "exec run_account_op (if er_accountless_account_id req = None then observe_failure a f ?now ?t3 else ?t3)
                (env_during_wait env (Suc n))"
            have "0 < left" using True Suc.prems(3) by (auto simp: retry_delay_def split: if_splits)
            moreover have "Suc n + left = MAX_TOTAL_ATTEMPTS" "length (ds0 @ [?d]) = Suc n" using Suc.prems(2,3) by simp_all
            ultimately have "loop_attempts env req (Suc n) (ds0 @ [?d])
                (\<lambda>env. execute_loop env policy req left (history_push ?d h) ?t4)"
              using Suc.IH [OF push] by blast
            then obtain out t' ds where loop: "execute_loop env policy req left (history_push ?d h) ?t4 = (Some out, t')"
              "history_ok (outcome_history out) (ds0 @ ?d # ds)" "attempts_from req (Suc n) ds"
              "\<forall>d \<in> set ds. recorded_answer env req d"
              "\<And>g. answers_alike env req ds g \<Longrightarrow>
                 execute_loop (env\<lparr>env_attempt := g\<rparr>) policy req left (history_push ?d h) ?t4 = (Some out, t')"
              unfolding loop_attempts_def by auto
            from True attempted failed loop answer show ?thesis
              by (intro loop_attemptsI [where ds = "?d # ds"]) (auto simp: n Let_def)
          qed
        qed
      qed
    qed
  qed
qed simp

lemma execute_attempts:
  "loop_attempts env req 0 [] (\<lambda>env. execute env policy req t)"
proof (cases "maximum_body_bytes policy < length (er_body req)")
  case True
  then show ?thesis by (intro loop_attemptsI [where ds = "[]"]) (simp_all add: execute_def)
next
  case False
  with execute_loop_attempts [of history_default "[]" 0 MAX_TOTAL_ATTEMPTS env req policy t] show ?thesis
    by (simp add: execute_def MAX_TOTAL_ATTEMPTS_def)
qed

subsection \<open>The account table during a request\<close>

lemma observe_inv: "table_inv t \<Longrightarrow> table_inv (snd (observe a obs now t))"
  using account_machine.inv_run [of t "ObserveOp a obs now"] by simp

lemma pick_account_inv: "table_inv t \<Longrightarrow> table_inv (snd (pick_account req now t))"
  using account_machine.inv_run [of t "SelectOp (map as_account_candidate (er_candidates req))
      (er_authentication req) (er_affinity_account req) now"]
  by (auto simp: pick_account_def split: option.split prod.splits sum.split)

lemma execute_loop_inv: "table_inv t \<Longrightarrow> table_inv (snd (execute_loop env policy req left h t))"
proof (induction left arbitrary: h t)
  case (Suc left)
  let ?now = "env_now_ms env (MAX_TOTAL_ATTEMPTS - left)"
  have pick: "table_inv (snd (pick_account req ?now t))" using Suc.prems by (rule pick_account_inv)
  have observed: "table_inv u \<Longrightarrow> table_inv (observe_failure a f ?now u)" for a f u
    by (simp add: observe_failure_def observe_inv split: option.split)
  show ?case
    using pick Suc.prems
    by (auto simp: Let_def observed observe_inv account_machine.inv_exec Suc.IH
        split: prod.splits option.split attempt_result.split)
qed simp

subsection \<open>Retrying\<close>

lemma retry_policy_new_ok:
  "retry_policy_new b m n = Ok p \<Longrightarrow> base_delay_ms p \<le> maximum_delay_ms p
     \<and> maximum_delay_ms p \<le> MAX_RETRY_DELAY_MS \<and> 0 < base_delay_ms p
     \<and> maximum_body_bytes p \<le> MAX_RETAINED_REQUEST_BODY_BYTES"
  by (auto simp: retry_policy_new_def not_less word_neq_0_conv split: if_splits)

lemma delay_ms_bounds:
  assumes "base_delay_ms p \<le> maximum_delay_ms p" and "delay_ms p c hint = Some d"
  shows "base_delay_ms p \<le> d" and "d \<le> maximum_delay_ms p"
  using assms by (cases c; auto)+

lemma retryable_observation:
  assumes "retry_delay policy n f b = Some d"
  shows "\<exists>obs. failure_observation f = Some obs
    \<and> failure_retry obs = Some (failure_retry_after_ms f)"
  using assms by (cases "failure_kind f") (auto simp: retry_delay_def failure_observation_def split: if_splits)

lemma history_push_length:
  "hist_length (history_push d h) \<le> Suc (hist_length h)"
  by (simp add: history_push_def)

text \<open>A history that grew by two entries has a retried first attempt.\<close>

lemma execute_loop_retried:
  assumes "execute_loop env policy req (Suc left) h t = (Some out, t')"
    and "Suc (hist_length h) < hist_length (outcome_history out)"
  shows "\<exists>a t1 f b d.
    pick_account req (env_now_ms env (MAX_TOTAL_ATTEMPTS - left)) t = (Some a, t1)
    \<and> retry_delay policy (MAX_TOTAL_ATTEMPTS - left) f b = Some d
    \<and> execute_loop env policy req left
        (history_push (diagnostic req (MAX_TOTAL_ATTEMPTS - left) a (diagnostic_failed f b)) h)
        (exec run_account_op
           (let t2 = exec run_account_op t1 (env_during_attempt env (MAX_TOTAL_ATTEMPTS - left)) in
            if er_accountless_account_id req = None
            then observe_failure a f (env_now_ms env (MAX_TOTAL_ATTEMPTS - left)) t2 else t2)
           (env_during_wait env (MAX_TOTAL_ATTEMPTS - left))) = (Some out, t')"
  using assms history_push_length
  by (auto simp: Let_def leD split: prod.splits option.splits attempt_result.splits if_splits) blast+

lemma execute_loop_last:
  assumes "execute_loop env policy req (Suc 0) h t = (Some out, t')"
    and "hist_length h < hist_length (outcome_history out)"
  shows "\<exists>a t1 r. pick_account req (env_now_ms env MAX_TOTAL_ATTEMPTS) t = (Some a, t1)
    \<and> outcome_history out = history_push (diagnostic req MAX_TOTAL_ATTEMPTS a r) h"
  using assms
  by (auto simp: Let_def retry_delay_def split: prod.splits option.splits attempt_result.splits if_splits)

subsection \<open>Failover\<close>

lemma picked_healthy:
  assumes "pick_account req now t = (Some a, t1)" and "er_accountless_account_id req = None"
    and "table_wf t" and "\<forall>c \<in> set (er_candidates req). ec_weight c \<noteq> 0"
  shows "map_option status_kind (health t now a) = Some Healthy"
proof -
  let ?cs = "map as_account_candidate (er_candidates req)"
  from assms(1,2) obtain ch where ch: "choice_account_id ch = a"
    and sel: "select_from ?cs (er_authentication req) (er_affinity_account req) now t = (Ok ch, t1)"
    by (auto simp: pick_account_def split: prod.splits sum.splits)
  have "choice_ok (health t now) (er_authentication req) (er_affinity_account req) (set ?cs) ch"
    using select_loop_sound [OF sel [unfolded select_from_def] assms(3) refl] assms(4)
    by (simp add: best_ok_def as_account_candidate_def)
  with ch show ?thesis by (auto simp: choice_ok_def eligible_def)
qed

lemma snd_pick_account:
  "snd (pick_account req now t) =
     (if er_accountless_account_id req = None
      then snd (select_from (map as_account_candidate (er_candidates req)) (er_authentication req)
                  (er_affinity_account req) now t)
      else t)"
  by (auto simp: pick_account_def split: prod.split sum.split)

lemma pick_account_keeps:
  assumes "table_wf t" and "account_map t a \<noteq> None"
  shows "table_wf (snd (pick_account req now t)) \<and> account_map (snd (pick_account req now t)) a \<noteq> None
    \<and> table_policy (snd (pick_account req now t)) = table_policy t"
proof -
  let ?I = "\<lambda>u. table_wf u \<and> account_map u a \<noteq> None \<and> table_policy u = table_policy t"
  have "?I (snd (select_loop cs auth aff now None t))" for cs auth aff
    by (rule select_loop_preserves [where I = ?I])
      (use assms in \<open>auto simp: account_map_update make_choice_def mark_selected_eq Let_def
        split: option.split\<close>)
  then show ?thesis
    using assms by (simp add: snd_pick_account select_from_def)
qed

lemma observe_failure_unhealthy:
  assumes "table_wf t" and "policy_ok (table_policy t)" and "account_map t a \<noteq> None"
    and "retry_delay policy n f b = Some d" and "m < sat_add now (base_cooldown_ms (table_policy t))"
  shows "map_option status_kind (health (observe_failure a f now t) m a) \<noteq> Some Healthy"
    and "table_wf (observe_failure a f now t)"
proof -
  from assms(3) obtain s where s: "account_map t a = Some s" by auto
  from retryable_observation [OF assms(4)] obtain obs where obs: "failure_observation f = Some obs"
    "failure_retry obs = Some (failure_retry_after_ms f)" by blast
  let ?s = "observe_state (table_policy t) obs now s"
  let ?d = "cooldown_duration (table_policy t) (sat_add (consecutive_failures s) 1) (failure_retry_after_ms f)"
  have table: "observe_failure a f now t = update_account a (observe_state (table_policy t) obs now) t"
    by (simp add: observe_failure_def obs observe_eq s)
  have cool: "cooldown_until_ms ?s = Some (sat_add now ?d)" using observe_state_failed(1) [OF obs(2)] .
  have "sat_add now (base_cooldown_ms (table_policy t)) \<le> sat_add now ?d"
    using cooldown_duration_bounds(1) [OF assms(2)] by (rule sat_add_mono_right)
  with assms(5) have "m < sat_add now ?d" by (rule order_less_le_trans)
  from status_kind_cooling [OF cool this] show
    "map_option status_kind (health (observe_failure a f now t) m a) \<noteq> Some Healthy"
    using assms(1) s by (simp add: table health_def account_map_update)
  show "table_wf (observe_failure a f now t)" using assms(1) by (simp add: table)
qed

subsection \<open>A sample request\<close>

definition sample_failure :: attempt_failure where
  "sample_failure = \<lparr>failure_kind = FailServer, failure_status_code = Some 503, failure_retry_after_ms = None\<rparr>"

text \<open>The first attempt fails with the given boundary, the second succeeds.\<close>

definition sample_env :: "attempt_boundary \<Rightarrow> nat exec_env" where
  "sample_env b =
     \<lparr>env_cancelled = (\<lambda>_. False), env_now_ms = (\<lambda>n. if n = 1 then 5 else 105),
      env_attempt = (\<lambda>ctx _. if attempt_ordinal (ctx_attempt_id ctx) = 1
         then Some (AttemptFailed sample_failure b) else Some (AttemptSucceeded 0 Visible)),
      env_wait = (\<lambda>_ _. Some True), env_cancelled_after_wait = (\<lambda>_. False),
      env_during_attempt = (\<lambda>_. []), env_during_wait = (\<lambda>_. [])\<rparr>"

definition sample_exec_policy :: retry_policy where
  "sample_exec_policy = \<lparr>base_delay_ms = 100, maximum_delay_ms = 1000, maximum_body_bytes = 64\<rparr>"

definition sample_exec_request :: execution_request where
  "sample_exec_request =
     \<lparr>er_request_id = ExecutionRequestId ''r'', er_provider_id = ProviderId ''i'', er_model = ''m'',
      er_candidates = [\<lparr>ec_account_id = AccountId ''a'', ec_authentication = AuthApiKey, ec_weight = 1\<rparr>,
        \<lparr>ec_account_id = AccountId ''b'', ec_authentication = AuthApiKey, ec_weight = 1\<rparr>],
      er_authentication = AuthApiKey, er_accountless_account_id = None, er_affinity_account = None,
      er_body = ''x''\<rparr>"

lemmas execution_eval = sample_env_def sample_exec_policy_def sample_exec_request_def sample_failure_def
  as_account_candidate_def attempt_context_of_def pick_account_def retry_delay_def
  MAX_TOTAL_ATTEMPTS_def

lemma sample_pick: "\<exists>t. pick_account sample_exec_request 5 sample_table = (Some (AccountId ''a''), t)"
  by (simp add: execution_eval sample_eval)

lemma sample_cooldown: "105 < sat_add 5 (cooldown_duration sample_policy (sat_add 0 1) None)"
  by (simp add: word_less_nat_alt unat_sat_add cooldown_duration_value sample_policy_def)

lemma sample_pick_again:
  "\<exists>t. pick_account sample_exec_request 105
     (observe_failure (AccountId ''a'') sample_failure 5 (snd (pick_account sample_exec_request 5 sample_table)))
     = (Some (AccountId ''b''), t)"
  using sample_cooldown
  by (simp add: execution_eval sample_eval observe_failure_def failure_observation_def observe_eq
      observe_state_def observe_failed_def select_state_def not_le)

lemma sample_execute:
  "\<exists>out d1 d2. fst (execute (sample_env BeforeVisible) sample_exec_policy sample_exec_request sample_table)
     = Some out \<and> history_iter (outcome_history out) = Some [d1, d2]"
proof -
  obtain t1 where t1: "pick_account sample_exec_request 5 sample_table = (Some (AccountId ''a''), t1)"
    using sample_pick by blast
  obtain t2 where "pick_account sample_exec_request 105
      (observe_failure (AccountId ''a'') sample_failure 5 t1) = (Some (AccountId ''b''), t2)"
    using sample_pick_again t1 by auto
  moreover have "er_accountless_account_id sample_exec_request = None" "er_body sample_exec_request = ''x''"
    by (simp_all add: sample_exec_request_def)
  ultimately show ?thesis
    using t1
    by (simp add: execute_def sample_env_def sample_exec_policy_def sample_failure_def retry_delay_def
        MAX_TOTAL_ATTEMPTS_def numeral_2_eq_2 attempt_context_of_def Let_def history_push_def
        history_default_def history_iter_def)
qed

subsection \<open>Properties\<close>

text \<open>
  C23. The coordinator always returns, after at most two attempts, and its history is the record of
  them: the \<open>unreachable!\<close> behind the loop is never reached, whatever the upstream, the clock,
  cancellation and other requests do, and the history is readable (its \<open>expect\<close> never fails), with
  ordinals 1, 2. Every entry is an attempt that was made, with the account it was made on and the answer
  it got. No completed attempt is missing: an upstream that answers the recorded attempts as before and
  does not answer those that were cancelled may answer anything else, and the whole execution is the same.
\<close>

theorem execute_bounded_attempts:
  "\<exists>out t' ds. execute env policy req t = (Some out, t') \<and> length ds \<le> 2
     \<and> history_iter (outcome_history out) = Some ds \<and> attempts_of req ds
     \<and> (\<forall>d \<in> set ds. recorded_answer env req d)
     \<and> (\<forall>g. answers_alike env req ds g \<longrightarrow> execute (env\<lparr>env_attempt := g\<rparr>) policy req t = (Some out, t'))"
proof -
  obtain out t' ds where run: "execute env policy req t = (Some out, t')"
      "history_ok (outcome_history out) ds" "attempts_from req 0 ds" "\<forall>d \<in> set ds. recorded_answer env req d"
      "\<forall>g. answers_alike env req ds g \<longrightarrow> execute (env\<lparr>env_attempt := g\<rparr>) policy req t = (Some out, t')"
    using execute_attempts [of env req policy t] unfolding loop_attempts_def by auto
  moreover from run(2,3) have "length ds \<le> 2" "attempts_of req ds"
    by (simp_all add: history_ok_def attempts_of_def attempts_from_def MAX_TOTAL_ATTEMPTS_def del: upt_Suc)
  ultimately show ?thesis using history_ok_iter [OF run(2)] by blast
qed

text \<open>Two attempts are recorded; what a third one would have answered is irrelevant.\<close>

theorem execute_bounded_attempts_witness:
  "\<exists>out t' ds. execute (sample_env BeforeVisible) sample_exec_policy sample_exec_request sample_table = (Some out, t')
     \<and> history_iter (outcome_history out) = Some ds \<and> length ds = 2
     \<and> (\<forall>d \<in> set ds. recorded_answer (sample_env BeforeVisible) sample_exec_request d)
     \<and> execute ((sample_env BeforeVisible)\<lparr>env_attempt := (\<lambda>ctx body.
            if attempt_ordinal (ctx_attempt_id ctx) \<le> 2 then env_attempt (sample_env BeforeVisible) ctx body
            else Some (AttemptSucceeded 7 BeforeVisible))\<rparr>) sample_exec_policy sample_exec_request sample_table
         = (Some out, t')"
proof -
  let ?g = "\<lambda>ctx body. if attempt_ordinal (ctx_attempt_id ctx) \<le> 2 then env_attempt (sample_env BeforeVisible) ctx body
    else Some (AttemptSucceeded 7 BeforeVisible)"
  obtain out t' ds where run: "execute (sample_env BeforeVisible) sample_exec_policy sample_exec_request sample_table = (Some out, t')"
      "history_iter (outcome_history out) = Some ds" "attempts_of sample_exec_request ds"
      "\<forall>d \<in> set ds. recorded_answer (sample_env BeforeVisible) sample_exec_request d"
      "\<forall>g. answers_alike (sample_env BeforeVisible) sample_exec_request ds g \<longrightarrow>
         execute ((sample_env BeforeVisible)\<lparr>env_attempt := g\<rparr>) sample_exec_policy sample_exec_request sample_table = (Some out, t')"
    using execute_bounded_attempts [of "sample_env BeforeVisible" sample_exec_policy sample_exec_request sample_table]
    by blast
  moreover from run(1,2) sample_execute obtain d1 d2 where two: "ds = [d1, d2]" by auto
  moreover from two run(3) have "answers_alike (sample_env BeforeVisible) sample_exec_request ds ?g"
    by (simp add: answers_alike_def attempts_of_def diagnosed_attempt_def attempt_context_of_def upt_conv_Cons)
       (simp add: sample_env_def)
  ultimately show ?thesis by auto
qed

text \<open>
  C9. Nothing is retried once output was visible, nor after a failure that is not temporary: such a
  first attempt is the outcome, with its failure and a history of one entry.
\<close>

theorem execute_no_retry_after_visible:
  assumes "length (er_body req) \<le> maximum_body_bytes policy" and "\<not> env_cancelled env 1"
    and "pick_account req (env_now_ms env 1) t = (Some a, t1)"
    and "env_attempt env (attempt_context_of req 1 a) (er_body req) = Some (AttemptFailed f b)"
    and "b = Visible \<or> retry_class_of (failure_kind f) = RetryNever"
  shows "\<exists>h. fst (execute env policy req t) = Some (ExecutionFailed (Upstream f b) h)
    \<and> history_iter h = Some [diagnostic req 1 a (diagnostic_failed f b)]"
proof -
  have "retry_delay policy 1 f b = None" using assms(5) by (auto simp: retry_delay_def)
  then show ?thesis
    using assms(1-4)
    by (simp add: execute_def MAX_TOTAL_ATTEMPTS_def numeral_2_eq_2 Let_def not_less history_push_def
        history_default_def history_iter_def)
qed

theorem execute_no_retry_after_visible_witness:
  "\<exists>h. fst (execute (sample_env Visible) sample_exec_policy sample_exec_request sample_table)
     = Some (ExecutionFailed (Upstream sample_failure Visible) h)"
proof -
  obtain t1 where t1: "pick_account sample_exec_request 5 sample_table = (Some (AccountId ''a''), t1)"
    using sample_pick by blast
  have "\<exists>h. fst (execute (sample_env Visible) sample_exec_policy sample_exec_request sample_table)
      = Some (ExecutionFailed (Upstream sample_failure Visible) h)
      \<and> history_iter h = Some [diagnostic sample_exec_request 1 (AccountId ''a'') (diagnostic_failed sample_failure Visible)]"
  proof (rule execute_no_retry_after_visible)
    show "pick_account sample_exec_request (env_now_ms (sample_env Visible) 1) sample_table = (Some (AccountId ''a''), t1)"
      using t1 by (simp add: sample_env_def)
  qed (simp_all add: execution_eval)
  then show ?thesis by blast
qed

text \<open>
  C24. Failover: when a request is attempted twice and no other request touches the table meanwhile,
  the second attempt uses another account, unless the first one's shortest cooldown has passed.
\<close>

theorem execute_failover:
  assumes "table_wf t" and "policy_ok (table_policy t)" and "er_accountless_account_id req = None"
    and "\<forall>c \<in> set (er_candidates req). ec_weight c \<noteq> 0"
    and "env_during_attempt env 1 = []" and "env_during_wait env 1 = []"
    and "env_now_ms env 2 < sat_add (env_now_ms env 1) (base_cooldown_ms (table_policy t))"
    and "fst (execute env policy req t) = Some out"
    and "history_iter (outcome_history out) = Some [d1, d2]"
  shows "diag_account_id d2 \<noteq> diag_account_id d1"
proof -
  have "2 \<le> hist_length (outcome_history out)" using history_iter_length [OF assms(9)] by simp
  moreover from this assms(8) have "\<exists>t'. execute_loop env policy req (Suc (Suc 0)) history_default t = (Some out, t')"
    by (auto simp: execute_def history_default_def MAX_TOTAL_ATTEMPTS_def numeral_2_eq_2 prod_eq_iff split: if_splits)
  ultimately obtain a t1 f b d t' where pick: "pick_account req (env_now_ms env 1) t = (Some a, t1)"
    and retry: "retry_delay policy 1 f b = Some d"
    and loop: "execute_loop env policy req (Suc 0)
        (history_push (diagnostic req 1 a (diagnostic_failed f b)) history_default)
        (observe_failure a f (env_now_ms env 1) t1) = (Some out, t')"
    using execute_loop_retried [of env policy req "Suc 0" history_default t out] assms(3,5,6)
    by (fastforce simp: MAX_TOTAL_ATTEMPTS_def history_default_def)
  from execute_loop_last [OF loop] \<open>2 \<le> _\<close> obtain a2 t2 r where
    pick2: "pick_account req (env_now_ms env 2) (observe_failure a f (env_now_ms env 1) t1) = (Some a2, t2)"
    and hist: "outcome_history out = history_push (diagnostic req 2 a2 r)
        (history_push (diagnostic req 1 a (diagnostic_failed f b)) history_default)"
    by (auto simp: MAX_TOTAL_ATTEMPTS_def history_push_def history_default_def)
  have accounts: "diag_account_id d1 = a" "diag_account_id d2 = a2"
    using assms(9) by (auto simp: hist history_iter_def history_push_def history_default_def
        MAX_TOTAL_ATTEMPTS_def numeral_2_eq_2 diagnostic_def)
  have "account_map t a \<noteq> None"
    using picked_healthy [OF pick assms(3,1,4)] by (auto simp: health_def)
  from pick_account_keeps [OF assms(1) this, of req "env_now_ms env 1"] pick
  have t1: "table_wf t1" "account_map t1 a \<noteq> None" "table_policy t1 = table_policy t" by simp_all
  note unhealthy = observe_failure_unhealthy [OF t1(1) _ t1(2) retry, unfolded t1(3), OF assms(2,7)]
  from picked_healthy [OF pick2 assms(3) unhealthy(2) assms(4)] unhealthy(1) accounts show ?thesis by metis
qed

theorem execute_failover_witness:
  "\<exists>out d1 d2. fst (execute (sample_env BeforeVisible) sample_exec_policy sample_exec_request sample_table)
     = Some out \<and> history_iter (outcome_history out) = Some [d1, d2] \<and> diag_account_id d2 \<noteq> diag_account_id d1"
proof -
  obtain out d1 d2 where run: "fst (execute (sample_env BeforeVisible) sample_exec_policy
      sample_exec_request sample_table) = Some out" "history_iter (outcome_history out) = Some [d1, d2]"
    using sample_execute by blast
  have "diag_account_id d2 \<noteq> diag_account_id d1"
    by (rule execute_failover [OF _ _ _ _ _ _ _ run])
      (simp_all add: sample_exec_request_def sample_env_def word_less_nat_alt unat_sat_add,
       simp add: sample_policy_def)
  with run show ?thesis by blast
qed

text \<open>
  Running a request keeps the account table's invariant, on every path and whatever other
  requests do to the table while this one waits.
\<close>

lemma execute_keeps_table:
  assumes "table_inv t"
  shows "table_inv (snd (execute env policy req t))"
  by (simp add: execute_def execute_loop_inv assms)

text \<open>
  A retry is scheduled only for a rate limit, a server failure, a timeout or a reset before any
  visible output and before the last attempt, and waits between the policy's bounds, at most a minute.
\<close>

lemma retry_delay_bounds:
  assumes "retry_policy_new base maximum body = Ok policy" and "retry_delay policy ordinal f b = Some d"
  shows "base \<le> d \<and> d \<le> maximum \<and> d \<le> 60000 \<and> b = BeforeVisible \<and> ordinal < 2
    \<and> failure_kind f \<in> {FailRateLimited, FailServer, FailTimeout, FailReset}"
proof -
  have p: "base_delay_ms policy = base" "maximum_delay_ms policy = maximum" "base \<le> maximum" "maximum \<le> 60000"
    using assms(1) by (auto simp: retry_policy_new_def MAX_RETRY_DELAY_MS_def not_less split: if_splits)
  from assms(2) have delay: "delay_ms policy (retry_class_of (failure_kind f)) (failure_retry_after_ms f) = Some d"
    and "b = BeforeVisible" "ordinal < 2"
    by (auto simp: retry_delay_def MAX_TOTAL_ATTEMPTS_def split: if_splits)
  moreover have "base \<le> d" "d \<le> maximum" using delay_ms_bounds [OF _ delay] p by simp_all
  moreover have "failure_kind f \<in> {FailRateLimited, FailServer, FailTimeout, FailReset}"
    using delay by (cases "failure_kind f") simp_all
  ultimately show ?thesis using p by auto
qed

text \<open>
  Outbound authorization: the header carries the account's own, non-empty secret, under the
  header the adapter family prescribes; a local account sends none, and never a refresh token.
\<close>

lemma outbound_auth_sound:
  assumes "resolve_outbound_auth auth adapter resolve = Ok r"
  shows "case r of
      None \<Rightarrow> auth = Local
    | Some h \<Rightarrow> \<exists>ref secret. resolve ref = Ok secret \<and> secret \<noteq> []
        \<and> (case auth of
             Forward c \<Rightarrow> ref = c \<and> header_name h = ''authorization'' \<and> header_value h = secret
           | Oauth access _ \<Rightarrow> ref = access \<and> header_name h = ''authorization''
               \<and> header_value h = ''Bearer '' @ secret
           | ApiKey k \<Rightarrow> ref = k \<and> header_name h = fst (api_key_header adapter)
               \<and> header_value h = (if header_name h = ''authorization'' then ''Bearer '' @ secret else secret)
           | Local \<Rightarrow> False)"
  using assms
  by (cases auth; cases adapter) (auto simp: resolve_outbound_auth_def split: if_splits)

end
