(* ===== verification/Transport.thy ===== *)
theory Transport
  imports Catalog
begin

text \<open>
  The upstream transport, \<open>crates/wokcore-engine/src/transport.rs\<close>: construction and
  validation of requests, the network policy on URLs and on resolved addresses, and the limits on
  responses. The pooled transport holds one configured client per policy, and a request goes to the
  client of its policy. The HTTP client (\<open>reqwest\<close>) and the header types (\<open>http\<close>) are third-party code:
  what \<open>send\<close> answers and what a client connects to are arguments, the body is a list of events, and
  header syntax checks are arguments. Durations are in milliseconds.
\<close>

subsection \<open>Data\<close>

datatype network_policy = NetPublicOnly | NetPrivateAllowed | NetLoopbackOnly

datatype transport_error_kind =
    ErrInvalidRequest | ErrPolicy | ErrCancelled | ErrConnectTimeout | ErrHeaderTimeout
  | ErrIdleTimeout | ErrTotalTimeout | ErrResponseTooLarge | ErrInvalidResponse | ErrTransport

record transport_limits =
  max_request_body_bytes :: nat
  max_response_body_bytes :: nat
  max_response_headers :: nat
  max_response_header_bytes :: nat

record transport_timeouts =
  timeout_connect :: nat
  timeout_response_headers :: nat
  timeout_idle_stream :: nat
  timeout_non_stream_total :: nat

datatype transport_request_body = BodyBytes string | BodyStream nat

fun body_len :: "transport_request_body \<Rightarrow> nat" where
  "body_len (BodyBytes b) = length b"
| "body_len (BodyStream n) = n"

record transport_request =
  tr_url :: url
  tr_headers :: "(string \<times> string) list"
  tr_sensitive_header :: "(string \<times> string) option"
  tr_body :: transport_request_body
  tr_stream :: bool
  tr_network_policy :: network_policy
  tr_max_request_body_bytes :: nat
  tr_max_response_body_bytes :: nat

record transport_response_head =
  head_status :: u16
  head_headers :: "(string, string) btree"

text \<open>What the client hands over: status, header fields in order, and the announced length.\<close>

record client_response =
  resp_status :: u16
  resp_headers :: "(string \<times> string) list"
  resp_content_length :: "nat option"

definition MAX_REQUEST_HEADERS :: nat where "MAX_REQUEST_HEADERS = 16"
definition MAX_REQUEST_HEADER_BYTES :: nat where "MAX_REQUEST_HEADER_BYTES = 16 * 1024"
definition DEFAULT_REQUEST_BODY_LIMIT :: nat where "DEFAULT_REQUEST_BODY_LIMIT = 16 * 1024 * 1024"
definition DEFAULT_RESPONSE_BODY_LIMIT :: nat where "DEFAULT_RESPONSE_BODY_LIMIT = 16 * 1024 * 1024"

definition ORDINARY_REQUEST_HEADERS :: "string list" where
  "ORDINARY_REQUEST_HEADERS =
     [''accept'', ''anthropic-beta'', ''anthropic-version'', ''content-type'', ''openai-beta'',
      ''x-client-request-id'']"

definition SENSITIVE_REQUEST_HEADERS :: "string list" where
  "SENSITIVE_REQUEST_HEADERS = [''api-key'', ''authorization'', ''x-api-key'', ''x-goog-api-key'']"

definition OBSERVED_RESPONSE_HEADERS :: "string list" where
  "OBSERVED_RESPONSE_HEADERS =
     [''apim-request-id'', ''content-type'', ''request-id'', ''retry-after'', ''x-goog-request-id'',
      ''x-request-id'']"

subsection \<open>Building a request\<close>

definition transport_post :: "url \<Rightarrow> string \<Rightarrow> bool \<Rightarrow> network_policy \<Rightarrow> transport_request" where
  "transport_post u body stream policy =
     \<lparr>tr_url = u, tr_headers = [], tr_sensitive_header = None, tr_body = BodyBytes body,
      tr_stream = stream, tr_network_policy = policy,
      tr_max_request_body_bytes = DEFAULT_REQUEST_BODY_LIMIT,
      tr_max_response_body_bytes = DEFAULT_RESPONSE_BODY_LIMIT\<rparr>"

definition transport_post_stream ::
  "url \<Rightarrow> nat \<Rightarrow> bool \<Rightarrow> network_policy \<Rightarrow> transport_error_kind + transport_request" where
  "transport_post_stream u content_length stream_response policy =
     (if content_length = 0 then Err ErrInvalidRequest
      else Ok \<lparr>tr_url = u, tr_headers = [], tr_sensitive_header = None,
               tr_body = BodyStream content_length, tr_stream = stream_response,
               tr_network_policy = policy, tr_max_request_body_bytes = content_length,
               tr_max_response_body_bytes = DEFAULT_RESPONSE_BODY_LIMIT\<rparr>)"

definition with_body_limits ::
  "nat \<Rightarrow> nat \<Rightarrow> transport_request \<Rightarrow> transport_error_kind + transport_request" where
  "with_body_limits req resp r =
     (if req = 0 \<or> resp = 0 then Err ErrInvalidRequest
      else Ok (r\<lparr>tr_max_request_body_bytes := req, tr_max_response_body_bytes := resp\<rparr>))"

text \<open>Every allowed name is a valid header name, so \<open>HeaderName::from_bytes\<close> accepts it.\<close>

definition parse_allowed_name :: "string \<Rightarrow> string list \<Rightarrow> transport_error_kind + string" where
  "parse_allowed_name name allowed =
     (let name = to_ascii_lowercase name in
      if name \<notin> set allowed then Err ErrInvalidRequest else Ok name)"

definition header_bytes :: "string \<Rightarrow> string \<Rightarrow> nat" where
  "header_bytes name val = usize_sat_add (length name) (length val)"

definition with_header ::
  "(string \<Rightarrow> bool) \<Rightarrow> string \<Rightarrow> string \<Rightarrow> transport_request
     \<Rightarrow> transport_error_kind + transport_request" where
  "with_header valid_value name val r =
     and_then (parse_allowed_name name ORDINARY_REQUEST_HEADERS) (\<lambda>name.
       if MAX_REQUEST_HEADERS \<le> length (tr_headers r) \<or> name \<in> fst ` set (tr_headers r)
          \<or> MAX_REQUEST_HEADER_BYTES < header_bytes name val
       then Err ErrInvalidRequest
       else if \<not> valid_value val then Err ErrInvalidRequest
       else Ok (r\<lparr>tr_headers := tr_headers r @ [(name, val)]\<rparr>))"

definition with_sensitive_header ::
  "(string \<Rightarrow> bool) \<Rightarrow> string \<Rightarrow> string \<Rightarrow> transport_request
     \<Rightarrow> transport_error_kind + transport_request" where
  "with_sensitive_header valid_value name val r =
     and_then (parse_allowed_name name SENSITIVE_REQUEST_HEADERS) (\<lambda>name.
       if tr_sensitive_header r \<noteq> None \<or> val = []
          \<or> MAX_REQUEST_HEADER_BYTES < header_bytes name val \<or> \<not> valid_value val
       then Err ErrInvalidRequest
       else Ok (r\<lparr>tr_sensitive_header := Some (name, val)\<rparr>))"

subsection \<open>Network policy\<close>

definition ipv4_is_public :: "ipv4 \<Rightarrow> bool" where
  "ipv4_is_public a =
     (\<not> v4_is_private a \<and> \<not> v4_is_loopback a \<and> \<not> v4_is_link_local a \<and> \<not> v4_is_broadcast a
      \<and> \<not> v4_is_documentation a \<and> \<not> v4_is_unspecified a \<and> \<not> v4_is_multicast a
      \<and> octet0 a \<noteq> 0
      \<and> \<not> (octet0 a = 100 \<and> 64 \<le> octet1 a \<and> octet1 a \<le> 127)
      \<and> \<not> (octet0 a = 198 \<and> (octet1 a = 18 \<or> octet1 a = 19))
      \<and> octet0 a < 240)"

definition ipv6_is_public :: "ipv6 \<Rightarrow> bool" where
  "ipv6_is_public a =
     (if v6_is_unspecified a \<or> v6_is_loopback a \<or> v6_is_multicast a
         \<or> segment0 a AND 0xFE00 = 0xFC00 \<or> segment0 a AND 0xFFC0 = 0xFE80
         \<or> segment0 a AND 0xFFC0 = 0xFEC0 \<or> (segment0 a = 0x2001 \<and> segment1 a = 0x0DB8)
      then False
      else (case to_ipv4_mapped a of None \<Rightarrow> True | Some m \<Rightarrow> ipv4_is_public m))"

fun ip_is_public :: "ip_addr \<Rightarrow> bool" where
  "ip_is_public (V4 a) = ipv4_is_public a"
| "ip_is_public (V6 a) = ipv6_is_public a"

fun ip_is_connectable :: "ip_addr \<Rightarrow> bool" where
  "ip_is_connectable (V4 a) = (\<not> v4_is_unspecified a \<and> \<not> v4_is_multicast a)"
| "ip_is_connectable (V6 a) = (\<not> v6_is_unspecified a \<and> \<not> v6_is_multicast a)"

fun host_is_public :: "host \<Rightarrow> bool" where
  "host_is_public (Domain d) = (\<not> eq_ignore_ascii_case d ''localhost'')"
| "host_is_public (HostV4 a) = ip_is_public (V4 a)"
| "host_is_public (HostV6 a) = ip_is_public (V6 a)"

fun host_is_connectable :: "host \<Rightarrow> bool" where
  "host_is_connectable (Domain d) = (d \<noteq> [])"
| "host_is_connectable (HostV4 a) = ip_is_connectable (V4 a)"
| "host_is_connectable (HostV6 a) = ip_is_connectable (V6 a)"

fun host_is_loopback :: "host \<Rightarrow> bool" where
  "host_is_loopback (Domain d) = eq_ignore_ascii_case d ''localhost''"
| "host_is_loopback (HostV4 a) = v4_is_loopback a"
| "host_is_loopback (HostV6 a) = v6_is_loopback a"

definition validate_url_policy :: "url \<Rightarrow> network_policy \<Rightarrow> transport_error_kind + unit" where
  "validate_url_policy u policy =
     (case url_host u of
        None \<Rightarrow> Err ErrInvalidRequest
      | Some h \<Rightarrow>
          (case policy of
             NetPublicOnly \<Rightarrow>
               if url_scheme u \<noteq> ''https'' \<or> \<not> host_is_public h then Err ErrPolicy else Ok ()
           | NetPrivateAllowed \<Rightarrow>
               if \<not> http_or_https (url_scheme u) \<or> \<not> host_is_connectable h then Err ErrPolicy else Ok ()
           | NetLoopbackOnly \<Rightarrow>
               if \<not> http_or_https (url_scheme u) \<or> \<not> host_is_loopback h then Err ErrPolicy else Ok ()))"

definition validate_request ::
  "transport_request \<Rightarrow> transport_limits \<Rightarrow> transport_error_kind + unit" where
  "validate_request r limits =
     (if min (max_request_body_bytes limits) (tr_max_request_body_bytes r) < body_len (tr_body r)
         \<or> MAX_REQUEST_HEADERS < length (tr_headers r)
         \<or> ''accept-encoding'' \<in> fst ` set (tr_headers r)
         \<or> url_username (tr_url r) \<noteq> [] \<or> url_password (tr_url r) \<noteq> None
         \<or> url_fragment (tr_url r) \<noteq> None \<or> url_port (tr_url r) = Some 0
      then Err ErrInvalidRequest
      else validate_url_policy (tr_url r) (tr_network_policy r))"

fun address_allowed :: "ip_addr \<Rightarrow> network_policy \<Rightarrow> bool" where
  "address_allowed a NetPublicOnly = ip_is_public a"
| "address_allowed a NetPrivateAllowed = ip_is_connectable a"
| "address_allowed a NetLoopbackOnly = ip_is_loopback a"

text \<open>The guarded resolver, on what \<open>lookup_host\<close> returned (\<open>None\<close>: the lookup failed).\<close>

datatype resolve_error = LookupFailed | PermissionDenied

definition guarded_resolve ::
  "network_policy \<Rightarrow> ip_addr list option \<Rightarrow> resolve_error + ip_addr list" where
  "guarded_resolve policy looked_up =
     (case looked_up of
        None \<Rightarrow> Err LookupFailed
      | Some addresses \<Rightarrow>
          if addresses = [] \<or> list_ex (\<lambda>a. \<not> address_allowed a policy) addresses
          then Err PermissionDenied else Ok addresses)"

subsection \<open>Responses\<close>

definition validate_configuration :: "transport_timeouts \<Rightarrow> transport_limits \<Rightarrow> bool" where
  "validate_configuration t l =
     (\<not> (timeout_connect t = 0 \<or> timeout_response_headers t = 0 \<or> timeout_idle_stream t = 0
          \<or> timeout_non_stream_total t = 0 \<or> max_request_body_bytes l = 0
          \<or> max_response_body_bytes l = 0 \<or> max_response_headers l = 0
          \<or> max_response_header_bytes l = 0))"

definition total_header_bytes :: "(string \<times> string) list \<Rightarrow> nat" where
  "total_header_bytes hs =
     fold (\<lambda>(name, val) total. usize_sat_add (usize_sat_add total (length name)) (length val)) hs 0"

definition header_get :: "(string \<times> string) list \<Rightarrow> string \<Rightarrow> string option" where
  "header_get hs name = map_of hs name"

definition header_get_all :: "(string \<times> string) list \<Rightarrow> string \<Rightarrow> string list" where
  "header_get_all hs name = map snd (filter (\<lambda>(n, _). n = name) hs)"

text \<open>\<open>HeaderValue::to_str\<close>, which fails on opaque bytes, is the argument \<open>to_str\<close>.\<close>

definition validate_response_head ::
  "(string \<Rightarrow> string option) \<Rightarrow> client_response \<Rightarrow> transport_limits
     \<Rightarrow> transport_error_kind + transport_response_head" where
  "validate_response_head to_str resp limits =
     (let hs = resp_headers resp in
      if max_response_headers limits < length hs then Err ErrInvalidResponse
      else if max_response_header_bytes limits < total_header_bytes hs then Err ErrInvalidResponse
      else if (case header_get_all hs ''content-encoding'' of
                 [] \<Rightarrow> False
               | e # rest \<Rightarrow> rest \<noteq> [] \<or> (case to_str e of
                     None \<Rightarrow> True | Some v \<Rightarrow> \<not> eq_ignore_ascii_case v ''identity''))
      then Err ErrInvalidResponse
      else if (case resp_content_length resp of
                 None \<Rightarrow> False | Some n \<Rightarrow> max_response_body_bytes limits < n)
      then Err ErrResponseTooLarge
      else Ok \<lparr>head_status = resp_status resp,
               head_headers = fold (\<lambda>name observed.
                   case header_get hs name of
                     None \<Rightarrow> observed
                   | Some v \<Rightarrow> (case to_str v of None \<Rightarrow> observed | Some v \<Rightarrow> bt_insert name v observed))
                 OBSERVED_RESPONSE_HEADERS []\<rparr>)"

text \<open>What one poll of the body returns, or what ends the wait for it.\<close>

datatype body_event = PollCancelled | PollTimeout | PollError transport_error_kind | PollEnd | PollChunk string

text \<open>
  The loop of \<open>read_complete_body\<close> on the events of the body; \<open>None\<close> while the body has not
  ended.
\<close>

fun read_complete_body ::
  "nat \<Rightarrow> string \<Rightarrow> body_event list \<Rightarrow> (transport_error_kind + string) option" where
  "read_complete_body maximum body [] = None"
| "read_complete_body maximum body (PollCancelled # es) = Some (Err ErrCancelled)"
| "read_complete_body maximum body (PollTimeout # es) = Some (Err ErrTotalTimeout)"
| "read_complete_body maximum body (PollError k # es) = Some (Err k)"
| "read_complete_body maximum body (PollEnd # es) = Some (Ok body)"
| "read_complete_body maximum body (PollChunk c # es) =
     (if maximum < usize_sat_add (length body) (length c) then Some (Err ErrResponseTooLarge)
      else read_complete_body maximum (body @ c) es)"

record streaming_response =
  sr_open :: bool
  sr_received_bytes :: nat
  sr_maximum_body_bytes :: nat

definition next_chunk ::
  "body_event \<Rightarrow> streaming_response
     \<Rightarrow> (transport_error_kind + string option) \<times> streaming_response" where
  "next_chunk e s =
     (if \<not> sr_open s then (Err ErrInvalidResponse, s)
      else (case e of
          PollCancelled \<Rightarrow> (Err ErrCancelled, s\<lparr>sr_open := False\<rparr>)
        | PollTimeout \<Rightarrow> (Err ErrIdleTimeout, s\<lparr>sr_open := False\<rparr>)
        | PollError k \<Rightarrow> (Err k, s\<lparr>sr_open := False\<rparr>)
        | PollEnd \<Rightarrow> (Ok None, s\<lparr>sr_open := False\<rparr>)
        | PollChunk c \<Rightarrow>
            let n = usize_sat_add (sr_received_bytes s) (length c);
                s' = s\<lparr>sr_received_bytes := n\<rparr>
            in if sr_maximum_body_bytes s < n then (Err ErrResponseTooLarge, s'\<lparr>sr_open := False\<rparr>)
               else (Ok (Some c), s')))"

definition map_reqwest_error :: "bool \<Rightarrow> bool \<Rightarrow> transport_error_kind" where
  "map_reqwest_error is_timeout is_connect =
     (if is_timeout \<and> is_connect then ErrConnectTimeout
      else if is_timeout then ErrHeaderTimeout
      else ErrTransport)"

datatype send_event =
    SendCancelled | SendTimeout | SendFailed transport_error_kind | SendResponse client_response

datatype transport_response =
    CompleteResponse transport_response_head string
  | StreamingResponse transport_response_head streaming_response

subsection \<open>The pooled transport\<close>

definition DEFAULT_POOL_IDLE_CONNECTIONS_PER_HOST :: nat where "DEFAULT_POOL_IDLE_CONNECTIONS_PER_HOST = 8"
definition DEFAULT_POOL_IDLE_TIMEOUT :: nat where "DEFAULT_POOL_IDLE_TIMEOUT = 30 * 1000"

text \<open>The configuration of a client: what \<open>build_client\<close> tells the client builder.\<close>

record http_client =
  hc_redirects :: bool
  hc_proxy :: bool
  hc_decompress :: bool
  hc_connect_timeout :: nat
  hc_pool_idle_timeout :: nat
  hc_pool_max_idle_per_host :: nat
  hc_tcp_nodelay :: bool
  hc_user_agent :: string
  hc_resolver_policy :: network_policy

record pooled_transport =
  public_client :: http_client
  private_client :: http_client
  loopback_client :: http_client
  pt_timeouts :: transport_timeouts
  pt_limits :: transport_limits

datatype transport_build_error = TransportBuildError

text \<open>\<open>builds\<close> says whether the builder accepts a configuration (its TLS setup may fail).\<close>

definition build_client ::
  "(http_client \<Rightarrow> bool) \<Rightarrow> network_policy \<Rightarrow> nat \<Rightarrow> transport_build_error + http_client" where
  "build_client builds policy connect_timeout =
     (let c = \<lparr>hc_redirects = False, hc_proxy = False, hc_decompress = False,
                hc_connect_timeout = connect_timeout, hc_pool_idle_timeout = DEFAULT_POOL_IDLE_TIMEOUT,
                hc_pool_max_idle_per_host = DEFAULT_POOL_IDLE_CONNECTIONS_PER_HOST, hc_tcp_nodelay = True,
                hc_user_agent = ''wokcore/0.1.5'', hc_resolver_policy = policy\<rparr>
      in if builds c then Ok c else Err TransportBuildError)"

definition pooled_transport_new ::
  "(http_client \<Rightarrow> bool) \<Rightarrow> transport_timeouts \<Rightarrow> transport_limits \<Rightarrow> transport_build_error + pooled_transport" where
  "pooled_transport_new builds timeouts limits =
     (if \<not> validate_configuration timeouts limits then Err TransportBuildError
      else and_then (build_client builds NetPublicOnly (timeout_connect timeouts)) (\<lambda>public.
        and_then (build_client builds NetPrivateAllowed (timeout_connect timeouts)) (\<lambda>private.
        and_then (build_client builds NetLoopbackOnly (timeout_connect timeouts)) (\<lambda>loopback.
          Ok \<lparr>public_client = public, private_client = private, loopback_client = loopback,
              pt_timeouts = timeouts, pt_limits = limits\<rparr>))))"

fun client_for :: "pooled_transport \<Rightarrow> network_policy \<Rightarrow> http_client" where
  "client_for p NetPublicOnly = public_client p"
| "client_for p NetPrivateAllowed = private_client p"
| "client_for p NetLoopbackOnly = loopback_client p"

text \<open>The request handed to the client: a POST with its header fields in the order they are added.\<close>

record outbound_request =
  out_url :: url
  out_headers :: "(string \<times> string) list"
  out_body :: transport_request_body

definition outbound ::
  "(string \<Rightarrow> bool) \<Rightarrow> transport_request \<Rightarrow> transport_error_kind + outbound_request" where
  "outbound valid_value r =
     (let builder = \<lparr>out_url = tr_url r,
            out_headers = tr_headers r @ [(''accept-encoding'', ''identity''),
              (''content-length'', dec_string (body_len (tr_body r)))],
            out_body = tr_body r\<rparr>
      in case tr_sensitive_header r of
           None \<Rightarrow> Ok builder
         | Some (name, val) \<Rightarrow>
             if \<not> valid_value val then Err ErrInvalidRequest
             else Ok (builder\<lparr>out_headers := out_headers builder @ [(name, val)]\<rparr>))"

text \<open>
  \<open>PooledTransport::execute\<close>; \<open>None\<close> while a complete body has not ended. \<open>send c o\<close> is how sending the
  request \<open>o\<close> with the client \<open>c\<close> ends, cancellation and the header timeout included.
\<close>

definition transport_execute ::
  "(string \<Rightarrow> bool) \<Rightarrow> (string \<Rightarrow> string option) \<Rightarrow> pooled_transport \<Rightarrow> bool
     \<Rightarrow> (http_client \<Rightarrow> outbound_request \<Rightarrow> send_event) \<Rightarrow> body_event list
     \<Rightarrow> transport_request \<Rightarrow> (transport_error_kind + transport_response) option" where
  "transport_execute valid_value to_str p is_cancelled send body_events r =
     (case validate_request r (pt_limits p) of
        Inl k \<Rightarrow> Some (Err k)
      | Inr _ \<Rightarrow>
          if is_cancelled then Some (Err ErrCancelled)
          else (case outbound valid_value r of
              Inl k \<Rightarrow> Some (Err k)
            | Inr request \<Rightarrow>
                (case send (client_for p (tr_network_policy r)) request of
                   SendCancelled \<Rightarrow> Some (Err ErrCancelled)
                 | SendTimeout \<Rightarrow> Some (Err ErrHeaderTimeout)
                 | SendFailed k \<Rightarrow> Some (Err k)
                 | SendResponse resp \<Rightarrow>
                     (case validate_response_head to_str resp (pt_limits p) of
                        Inl k \<Rightarrow> Some (Err k)
                      | Inr head \<Rightarrow>
                          let limit = min (max_response_body_bytes (pt_limits p)) (tr_max_response_body_bytes r) in
                          if tr_stream r
                          then Some (Ok (StreamingResponse head
                             \<lparr>sr_open = True, sr_received_bytes = 0, sr_maximum_body_bytes = limit\<rparr>))
                          else map_option (\<lambda>res. and_then res (\<lambda>body. Ok (CompleteResponse head body)))
                                 (read_complete_body limit [] body_events)))))"

subsection \<open>Requests built by the constructors\<close>

inductive built_request :: "(string \<Rightarrow> bool) \<Rightarrow> transport_request \<Rightarrow> bool" for valid_value where
  built_post: "built_request valid_value (transport_post u body stream policy)"
| built_post_stream: "transport_post_stream u n stream policy = Ok r \<Longrightarrow> built_request valid_value r"
| built_limits: "built_request valid_value r \<Longrightarrow> with_body_limits m n r = Ok r' \<Longrightarrow> built_request valid_value r'"
| built_header:
    "built_request valid_value r \<Longrightarrow> with_header valid_value name val r = Ok r' \<Longrightarrow> built_request valid_value r'"
| built_sensitive:
    "built_request valid_value r \<Longrightarrow> with_sensitive_header valid_value name val r = Ok r'
       \<Longrightarrow> built_request valid_value r'"

definition headers_ok :: "(string \<Rightarrow> bool) \<Rightarrow> transport_request \<Rightarrow> bool" where
  "headers_ok valid_value r =
     (distinct (map fst (tr_headers r))
      \<and> (\<forall>n v. (n, v) \<in> set (tr_headers r) \<longrightarrow> n \<in> set ORDINARY_REQUEST_HEADERS)
      \<and> (\<forall>n v. tr_sensitive_header r = Some (n, v) \<longrightarrow>
            n \<in> set SENSITIVE_REQUEST_HEADERS \<and> v \<noteq> [] \<and> valid_value v))"

lemma built_request_headers: "built_request valid_value r \<Longrightarrow> headers_ok valid_value r"
proof (induction rule: built_request.induct)
  case (built_post u body stream policy)
  then show ?case by (simp add: headers_ok_def transport_post_def)
next
  case (built_post_stream u n stream policy r)
  then show ?case by (auto simp: headers_ok_def transport_post_stream_def split: if_splits)
next
  case (built_limits r m n r')
  then have "tr_headers r' = tr_headers r" "tr_sensitive_header r' = tr_sensitive_header r"
    by (auto simp: with_body_limits_def split: if_splits)
  with built_limits show ?case by (simp add: headers_ok_def)
next
  case (built_header r name val r')
  then obtain n where "n \<in> set ORDINARY_REQUEST_HEADERS" "n \<notin> fst ` set (tr_headers r)"
    "r' = r\<lparr>tr_headers := tr_headers r @ [(n, val)]\<rparr>"
    by (auto simp: with_header_def parse_allowed_name_def Let_def split: if_splits)
  with built_header.IH show ?case by (auto simp: headers_ok_def)
next
  case (built_sensitive r name val r')
  then obtain n where "n \<in> set SENSITIVE_REQUEST_HEADERS" "val \<noteq> []" "valid_value val"
    "r' = r\<lparr>tr_sensitive_header := Some (n, val)\<rparr>"
    by (auto simp: with_sensitive_header_def parse_allowed_name_def Let_def split: if_splits)
  with built_sensitive.IH show ?case by (auto simp: headers_ok_def)
qed

lemma headers_ok_count:
  assumes "headers_ok valid_value r"
  shows "length (tr_headers r) \<le> 6"
proof -
  have "length (tr_headers r) = card (fst ` set (tr_headers r))"
    using assms by (metis headers_ok_def distinct_card length_map set_map)
  also have "\<dots> \<le> card (set ORDINARY_REQUEST_HEADERS)"
    using assms by (intro card_mono) (auto simp: headers_ok_def)
  also have "\<dots> \<le> 6" by (rule order_trans [OF card_length]) (simp add: ORDINARY_REQUEST_HEADERS_def)
  finally show ?thesis .
qed

subsection \<open>Public addresses are not private\<close>

lemma high_byte_mask:
  "(w :: u16) AND push_bit 8 (ucast m) = push_bit 8 (ucast ((ucast (drop_bit 8 w) :: u8) AND m))"
  by (rule bit_word_eqI) (auto simp: bit_simps)

lemma low_byte_mask: "(w :: u16) AND ucast (m :: u8) = ucast ((ucast w :: u8) AND m)"
  by (rule bit_word_eqI) (auto simp: bit_simps dest: bit_imp_le_length)

lemma unique_local_segment: "is_ipv6_unique_local a \<Longrightarrow> segment0 a AND 0xFE00 = 0xFC00"
  using high_byte_mask [of "segment0 a" "0xFE"] by (simp add: is_ipv6_unique_local_def v6_octet0_def)

lemma link_local_segment: "is_ipv6_link_local a \<Longrightarrow> segment0 a AND 0xFFC0 = 0xFE80"
proof -
  let ?w = "segment0 a"
  assume "is_ipv6_link_local a"
  then have oct: "(ucast (drop_bit 8 ?w) :: u8) = 0xFE" "(ucast ?w :: u8) AND 0xC0 = 0x80"
    by (simp_all add: is_ipv6_link_local_def v6_octet0_def v6_octet1_def)
  have "?w AND 0xFF00 = 0xFE00" using high_byte_mask [of ?w "0xFF"] oct(1) by simp
  moreover have "?w AND 0xC0 = 0x80" using low_byte_mask [of ?w "0xC0"] oct(2) by simp
  moreover have "?w AND 0xFFC0 = (?w AND 0xFF00) OR (?w AND 0xC0)"
    by (simp flip: bit.conj_disj_distrib)
  ultimately show ?thesis by simp
qed

lemma ipv4_public_not_private: "ipv4_is_public a \<Longrightarrow> \<not> is_private_ipv4 a"
  by (simp add: ipv4_is_public_def is_private_ipv4_def)

lemma ip_public_not_private: "ip_is_public a \<Longrightarrow> \<not> is_private_ip a"
  by (cases a) (auto simp: ipv4_public_not_private ipv6_is_public_def is_private_ipv6_def
      dest: unique_local_segment link_local_segment split: option.splits if_splits)

subsection \<open>Addresses a client connects to\<close>

text \<open>
  \<open>connects c u\<close> are the addresses the client \<open>c\<close> opens connections to for a request to \<open>u\<close>. A client
  that follows no redirects and uses no proxy connects to the host of the URL: a literal address, or
  for a name an address that its resolver returned, whatever the lookup had found.
\<close>

definition client_contract :: "(http_client \<Rightarrow> url \<Rightarrow> ip_addr set) \<Rightarrow> bool" where
  "client_contract connects =
     (\<forall>c u. \<not> hc_redirects c \<and> \<not> hc_proxy c \<longrightarrow>
        (\<forall>a \<in> connects c u.
           case url_host u of
             None \<Rightarrow> False
           | Some (HostV4 h) \<Rightarrow> a = V4 h
           | Some (HostV6 h) \<Rightarrow> a = V6 h
           | Some (Domain d) \<Rightarrow>
               \<exists>found as. guarded_resolve (hc_resolver_policy c) found = Ok as \<and> a \<in> set as))"

definition within_policy :: "network_policy \<Rightarrow> url \<Rightarrow> ip_addr \<Rightarrow> bool" where
  "within_policy policy u a =
     (address_allowed a policy
      \<and> (policy = NetPublicOnly \<longrightarrow> url_scheme u = ''https'' \<and> \<not> is_private_ip a))"

lemma guarded_resolve_allowed:
  "guarded_resolve policy found = Ok as \<Longrightarrow> a \<in> set as \<Longrightarrow> address_allowed a policy"
  by (auto simp: guarded_resolve_def list_ex_iff split: option.splits if_splits)

lemma validate_url_policy_literal:
  assumes "validate_url_policy u policy = Ok ()"
  shows "url_host u = Some (HostV4 h) \<Longrightarrow> address_allowed (V4 h) policy"
    and "url_host u = Some (HostV6 g) \<Longrightarrow> address_allowed (V6 g) policy"
    and "policy = NetPublicOnly \<Longrightarrow> url_scheme u = ''https''"
  using assms by (cases policy; auto simp: validate_url_policy_def split: option.splits if_splits)+

lemma pooled_client:
  assumes "pooled_transport_new builds timeouts limits = Ok p"
  shows "\<not> hc_redirects (client_for p policy)" and "\<not> hc_proxy (client_for p policy)"
    and "hc_resolver_policy (client_for p policy) = policy"
  using assms
  by (cases policy; auto simp: pooled_transport_new_def build_client_def and_then_eq_Ok Let_def split: if_splits)+

lemma connects_within_policy:
  assumes "pooled_transport_new builds timeouts limits = Ok p" "client_contract connects"
    and "validate_request r l = Ok u" "a \<in> connects (client_for p (tr_network_policy r)) (tr_url r)"
  shows "within_policy (tr_network_policy r) (tr_url r) a"
proof -
  have valid: "validate_url_policy (tr_url r) (tr_network_policy r) = Ok ()"
    using assms(3) by (auto simp: validate_request_def split: if_splits)
  let ?c = "client_for p (tr_network_policy r)"
  have host: "case url_host (tr_url r) of None \<Rightarrow> False | Some (HostV4 h) \<Rightarrow> a = V4 h | Some (HostV6 h) \<Rightarrow> a = V6 h
    | Some (Domain d) \<Rightarrow> \<exists>found as. guarded_resolve (hc_resolver_policy ?c) found = Ok as \<and> a \<in> set as"
    using assms(2,4) pooled_client(1,2) [OF assms(1)] unfolding client_contract_def by blast
  have "address_allowed a (tr_network_policy r)"
  proof (cases "url_host (tr_url r)")
    case (Some h)
    then show ?thesis
      using host validate_url_policy_literal(1,2) [OF valid] pooled_client(3) [OF assms(1)]
      by (cases h) (auto intro: guarded_resolve_allowed)
  qed (use host in simp)
  with validate_url_policy_literal(3) [OF valid] show ?thesis
    by (auto simp: within_policy_def ip_public_not_private)
qed

lemma outbound_url: "outbound valid_value r = Ok request \<Longrightarrow> out_url request = tr_url r"
  by (auto simp: outbound_def Let_def split: option.splits if_splits)

subsection \<open>Body limits\<close>

lemma read_complete_body_bound:
  "read_complete_body maximum body es = Some (Ok b) \<Longrightarrow> length body \<le> maximum
     \<Longrightarrow> maximum < usize_max \<Longrightarrow> length b \<le> maximum"
  by (induction maximum body es rule: read_complete_body.induct)
    (auto simp: usize_sat_add_def min_def split: if_splits)

lemma read_complete_body_chunks:
  assumes "length body + length (concat cs) \<le> maximum" and "maximum < usize_max"
  shows "read_complete_body maximum body (map PollChunk cs @ PollEnd # es) = Some (Ok (body @ concat cs))"
  using assms
  by (induction cs arbitrary: body) (auto simp: usize_sat_add_def)

lemma read_complete_body_too_large:
  assumes "maximum < length body + length (concat cs)" and "length body \<le> maximum" and "maximum < usize_max"
  shows "read_complete_body maximum body (map PollChunk cs @ es) = Some (Err ErrResponseTooLarge)"
  using assms
proof (induction cs arbitrary: body)
  case (Cons c cs)
  then show ?case by (cases "maximum < length body + length c") (auto simp: usize_sat_add_def)
qed simp

text \<open>The chunks a caller receives from a run of \<open>next_chunk\<close> calls.\<close>

fun run_stream :: "body_event list \<Rightarrow> streaming_response \<Rightarrow> string list \<times> streaming_response" where
  "run_stream [] s = ([], s)"
| "run_stream (e # es) s =
     (case next_chunk e s of
        (Inr (Some c), s') \<Rightarrow> (let (cs, t) = run_stream es s' in (c # cs, t))
      | (_, s') \<Rightarrow> run_stream es s')"

lemma run_stream_closed: "\<not> sr_open s \<Longrightarrow> run_stream es s = ([], s)"
  by (induction es) (simp_all add: next_chunk_def)

lemma run_stream_bound:
  assumes "run_stream es s = (cs, t)" and "sr_received_bytes s \<le> sr_maximum_body_bytes s"
    and "sr_maximum_body_bytes s < usize_max"
  shows "sr_received_bytes s + length (concat cs) \<le> sr_maximum_body_bytes s"
  using assms
proof (induction es arbitrary: s cs)
  case (Cons e es)
  show ?case
  proof (cases "sr_open s \<and> (\<exists>c. e = PollChunk c)")
    case False
    then have "cs = []" using Cons.prems(1)
      by (cases "sr_open s"; cases e) (auto simp: next_chunk_def run_stream_closed)
    then show ?thesis using Cons.prems(2) by simp
  next
    case True
    then obtain c where e: "e = PollChunk c" by blast
    let ?n = "usize_sat_add (sr_received_bytes s) (length c)"
    show ?thesis
    proof (cases "sr_maximum_body_bytes s < ?n")
      case True
      then have "cs = []" using Cons.prems(1) \<open>sr_open s \<and> _\<close>
        by (auto simp: e next_chunk_def Let_def run_stream_closed)
      then show ?thesis using Cons.prems(2) by simp
    next
      case False
      with Cons.prems(3) have n: "?n = sr_received_bytes s + length c"
        by (simp add: usize_sat_add_def min_def split: if_splits)
      from Cons.prems(1) \<open>sr_open s \<and> _\<close> False obtain cs' where cs: "cs = c # cs'"
        and run: "run_stream es (s\<lparr>sr_received_bytes := ?n\<rparr>) = (cs', t)"
        by (auto simp: e next_chunk_def Let_def split: prod.splits)
      from Cons.IH [OF run] Cons.prems(3) False n show ?thesis by (simp add: cs)
    qed
  qed
qed simp

subsection \<open>Properties\<close>

text \<open>
  C17. Network policy. Whatever is listening on an address that the policy of a request does not allow,
  it has no part in that request: an execution is the same when \<open>send\<close> is changed in any way on requests
  that would be sent to such an address. Under the public policy these include every address in a range
  that the configuration calls private, and every URL that is not https. The only assumption on the
  client is what the builder calls say: with no redirects and no proxy, a client connects to the address
  in the URL, or to one the resolver it was given returned for the host name.
\<close>

theorem transport_address_policy:
  assumes "pooled_transport_new builds timeouts limits = Ok p" and "client_contract connects"
    and "\<forall>c request. (\<forall>a \<in> connects c (out_url request). within_policy (tr_network_policy r) (out_url request) a) \<longrightarrow>
      send' c request = send c request"
  shows "transport_execute valid_value to_str p is_cancelled send' body_events r
    = transport_execute valid_value to_str p is_cancelled send body_events r"
proof (cases "validate_request r (pt_limits p)")
  case (Inr u)
  then have "send' (client_for p (tr_network_policy r)) request = send (client_for p (tr_network_policy r)) request"
    if "outbound valid_value r = Ok request" for request
    using connects_within_policy [OF assms(1,2), of r] outbound_url [OF that] assms(3) by simp
  then show ?thesis by (simp add: transport_execute_def split: sum.split)
qed (simp add: transport_execute_def)

definition sample_transport_url :: "host \<Rightarrow> url" where
  "sample_transport_url h =
     \<lparr>url_scheme = ''https'', url_username = [], url_password = None,
      url_host = Some h, url_port = None, url_query = None, url_fragment = None\<rparr>"

definition sample_limits :: transport_limits where
  "sample_limits = \<lparr>max_request_body_bytes = 64, max_response_body_bytes = 64,
     max_response_headers = 8, max_response_header_bytes = 64\<rparr>"

definition sample_timeouts :: transport_timeouts where
  "sample_timeouts = \<lparr>timeout_connect = 1, timeout_response_headers = 1, timeout_idle_stream = 1,
     timeout_non_stream_total = 1\<rparr>"

text \<open>A client on a network where every name resolves to the private address 10.0.0.1.\<close>

definition sample_connects :: "http_client \<Rightarrow> url \<Rightarrow> ip_addr set" where
  "sample_connects c u =
     (case url_host u of
        None \<Rightarrow> {}
      | Some (HostV4 a) \<Rightarrow> {V4 a}
      | Some (HostV6 a) \<Rightarrow> {V6 a}
      | Some (Domain d) \<Rightarrow>
          (case guarded_resolve (hc_resolver_policy c) (Some [V4 (Ipv4Addr 10 0 0 1)]) of
             Inl _ \<Rightarrow> {} | Inr as \<Rightarrow> set as))"

lemma sample_client_contract: "client_contract sample_connects"
  by (auto simp: client_contract_def sample_connects_def split: option.split host.split sum.split)

text \<open>The service at 10.0.0.1 cannot tell that a public request was made for it.\<close>

theorem transport_address_policy_witness:
  "\<exists>p. pooled_transport_new (\<lambda>_. True) sample_timeouts sample_limits = Ok p
     \<and> transport_execute (\<lambda>_. True) Some p False (\<lambda>_ request.
           if url_host (out_url request) = Some (HostV4 (Ipv4Addr 10 0 0 1)) then SendResponse \<lparr>resp_status = 200, resp_headers = [], resp_content_length = None\<rparr> else SendTimeout) []
         (transport_post (sample_transport_url (HostV4 (Ipv4Addr 10 0 0 1))) ''x'' False NetPublicOnly)
       = transport_execute (\<lambda>_. True) Some p False (\<lambda>_ _. SendTimeout) []
         (transport_post (sample_transport_url (HostV4 (Ipv4Addr 10 0 0 1))) ''x'' False NetPublicOnly)"
proof -
  let ?send' = "\<lambda>_ :: http_client. \<lambda>request.
    if url_host (out_url request) = Some (HostV4 (Ipv4Addr 10 0 0 1))
    then SendResponse \<lparr>resp_status = 200, resp_headers = [], resp_content_length = None\<rparr> else SendTimeout"
  let ?r = "transport_post (sample_transport_url (HostV4 (Ipv4Addr 10 0 0 1))) ''x'' False NetPublicOnly"
  obtain p where p: "pooled_transport_new (\<lambda>_. True) sample_timeouts sample_limits = Ok p"
    by (simp add: pooled_transport_new_def build_client_def validate_configuration_def sample_timeouts_def
        sample_limits_def)
  have "\<not> within_policy NetPublicOnly u (V4 (Ipv4Addr 10 0 0 1))" for u
    by (simp add: within_policy_def is_private_ipv4_def)
  then have "V4 (Ipv4Addr 10 0 0 1) \<in> sample_connects c u \<and> \<not> within_policy NetPublicOnly u (V4 (Ipv4Addr 10 0 0 1))"
    if "url_host u = Some (HostV4 (Ipv4Addr 10 0 0 1))" for c u
    using that by (simp add: sample_connects_def)
  then have "transport_execute (\<lambda>_. True) Some p False ?send' [] ?r = transport_execute (\<lambda>_. True) Some p False (\<lambda>_ _. SendTimeout) [] ?r"
    by (intro transport_address_policy [OF p sample_client_contract]) (auto simp: transport_post_def)
  with p show ?thesis by blast
qed

text \<open>
  Header separation. A request assembled by the constructors, in any order, has at most six
  ordinary headers, each once and from the ordinary list, so no credential header is among them;
  its sensitive header, if any, is one credential header with a non-empty, valid value.
\<close>

lemma built_request_header_separation:
  assumes "built_request valid_value r"
  shows "distinct (map fst (tr_headers r)) \<and> length (tr_headers r) \<le> 6
    \<and> fst ` set (tr_headers r) \<inter> set SENSITIVE_REQUEST_HEADERS = {}
    \<and> ''accept-encoding'' \<notin> fst ` set (tr_headers r)
    \<and> (\<forall>n v. tr_sensitive_header r = Some (n, v) \<longrightarrow>
         n \<in> set SENSITIVE_REQUEST_HEADERS \<and> v \<noteq> [] \<and> valid_value v)"
proof -
  note ok = built_request_headers [OF assms]
  have "set ORDINARY_REQUEST_HEADERS \<inter> set SENSITIVE_REQUEST_HEADERS = {}"
    "''accept-encoding'' \<notin> set ORDINARY_REQUEST_HEADERS"
    by (simp_all add: ORDINARY_REQUEST_HEADERS_def SENSITIVE_REQUEST_HEADERS_def)
  with ok headers_ok_count [OF ok] show ?thesis unfolding headers_ok_def by fastforce
qed

text \<open>
  Complete bodies are bounded and exact: a body that ends within the limit is returned whole, in
  order; a body that exceeds it is refused, whatever follows. A returned body is never over the limit.
\<close>

lemma complete_body_bounded:
  assumes "maximum < usize_max"
  shows "read_complete_body maximum [] (map PollChunk cs @ PollEnd # es) =
      Some (if length (concat cs) \<le> maximum then Ok (concat cs) else Err ErrResponseTooLarge)
    \<and> (\<forall>events b. read_complete_body maximum [] events = Some (Ok b) \<longrightarrow> length b \<le> maximum)"
  using read_complete_body_chunks [of "[]" cs maximum es] assms
    read_complete_body_too_large [of maximum "[]" cs "PollEnd # es"] read_complete_body_bound [of maximum "[]"]
  by auto

text \<open>
  Streams are bounded: over any sequence of polls, the chunks delivered by \<open>next_chunk\<close> never
  add up to more than the limit, and after an error or the end nothing more is delivered.
\<close>

lemma stream_bounded:
  assumes "sr_received_bytes s = 0" and "sr_maximum_body_bytes s < usize_max"
  shows "length (concat (fst (run_stream es s))) \<le> sr_maximum_body_bytes s
    \<and> (\<forall>e k s'. next_chunk e s = (Err k, s') \<longrightarrow> fst (run_stream es s') = [])"
proof -
  have "\<not> sr_open s'" if "next_chunk e s = (Err k, s')" for e k s'
    using that by (cases e) (auto simp: next_chunk_def Let_def split: if_splits)
  with run_stream_bound [of es s] assms show ?thesis
    by (cases "run_stream es s") (auto simp: run_stream_closed)
qed

end
