(* ===== verification/Lifecycle.thy ===== *)
theory Lifecycle
  imports Prelude
begin

text \<open>
  The service lifecycle, \<open>crates/wokcore-server/src/lifecycle/admission.rs\<close> and
  \<open>service.rs\<close>: requests are admitted while the service runs, a drain waits for the admitted
  ones, and a stop is granted only when none is left. Admission uses two atomics and no lock, so
  the model interleaves threads: a step is one sequentially consistent access of an admission, or
  one section under the transition mutex up to its next access of the request counter. The
  notifications only wake waiters; a wait may be polled at any time. Activity revisions, which
  only the idle-memory observer reads, are left out.
\<close>

subsection \<open>Data\<close>

datatype lifecycle_phase = Starting | Running | Draining | AwaitingCancellation | Stopping

datatype drain_outcome = DrainCompleted | TimedOutAwaitingCancellation | DrainCancelled

datatype drain_wait = WaitZeroActive | WaitTimedOut | WaitCancelled

datatype lifecycle_error =
    InvalidTransition lifecycle_phase
  | ActiveRequestsRemain nat
  | DrainGenerationExhausted
  | TransitionRevisionExhausted

datatype decrement_outcome = BecameZero | Remaining | AlreadyZero

text \<open>
  The shared atomics, the state under the transition mutex (\<open>t_phase\<close>, \<open>drain_generation\<close>) and
  the value last sent on the phase watch.
\<close>

record life =
  phase :: lifecycle_phase
  active :: nat
  transition_revision :: u64
  t_phase :: lifecycle_phase
  drain_generation :: u64
  watch_phase :: lifecycle_phase
  watch_generation :: u64

definition life_new :: life where
  "life_new =
     \<lparr>phase = Starting, active = 0, transition_revision = 0, t_phase = Starting,
      drain_generation = 0, watch_phase = Starting, watch_generation = 0\<rparr>"

subsection \<open>Operations\<close>

definition publish_phase :: "lifecycle_phase \<Rightarrow> life \<Rightarrow> (lifecycle_error + unit) \<times> life" where
  "publish_phase p l =
     (case checked_add (transition_revision l) 1 of
        None \<Rightarrow> (Err TransitionRevisionExhausted, l)
      | Some r \<Rightarrow>
          (Ok (), l\<lparr>transition_revision := r, t_phase := p, phase := p, watch_phase := p,
                    watch_generation := drain_generation l\<rparr>))"

definition mark_running :: "life \<Rightarrow> (lifecycle_error + unit) \<times> life" where
  "mark_running l =
     (if t_phase l \<noteq> Starting then (Err (InvalidTransition (t_phase l)), l)
      else publish_phase Running l)"

definition next_generation :: "life \<Rightarrow> (lifecycle_error + unit) \<times> life" where
  "next_generation l =
     (case checked_add (drain_generation l) 1 of
        None \<Rightarrow> (Err DrainGenerationExhausted, l)
      | Some g \<Rightarrow> (Ok (), l\<lparr>drain_generation := g\<rparr>))"

text \<open>
  The locked part of \<open>begin_drain\<close>: an outcome at once (\<open>Inl\<close>), or the generation to wait for.
\<close>

definition begin_drain_enter :: "life \<Rightarrow> (lifecycle_error + (drain_outcome + u64)) \<times> life" where
  "begin_drain_enter l =
     (case t_phase l of
        Starting \<Rightarrow> (Err (InvalidTransition Starting), l)
      | Running \<Rightarrow>
          st_then (next_generation l) (\<lambda>_ l1. st_then (publish_phase Draining l1)
            (\<lambda>_ l2. (Ok (Inr (drain_generation l2)), l2)))
      | Draining \<Rightarrow> (Ok (Inr (drain_generation l)), l)
      | AwaitingCancellation \<Rightarrow>
          (Ok (Inl (if active l = 0 then DrainCompleted else TimedOutAwaitingCancellation)), l)
      | Stopping \<Rightarrow> (Ok (Inl DrainCompleted), l))"

text \<open>One round of \<open>wait_for_drain\<close>; \<open>None\<close> while it keeps waiting.\<close>

definition wait_for_drain_poll :: "u64 \<Rightarrow> life \<Rightarrow> drain_wait option" where
  "wait_for_drain_poll g l =
     (if watch_generation l \<noteq> g \<or> watch_phase l = Running then Some WaitCancelled
      else if watch_phase l = AwaitingCancellation then Some WaitTimedOut
      else if watch_phase l = Stopping then Some WaitZeroActive
      else if active l = 0 then Some WaitZeroActive
      else None)"

definition finish_drain_wait ::
  "u64 \<Rightarrow> drain_wait \<Rightarrow> life \<Rightarrow> (lifecycle_error + drain_outcome) \<times> life" where
  "finish_drain_wait g event l =
     (if t_phase l = Stopping then (Ok DrainCompleted, l)
      else if drain_generation l \<noteq> g \<or> t_phase l = Running \<or> event = WaitCancelled
      then (Ok DrainCancelled, l)
      else if active l = 0 \<or> event = WaitZeroActive then (Ok DrainCompleted, l)
      else (case t_phase l of
          Draining \<Rightarrow> st_then (publish_phase AwaitingCancellation l)
            (\<lambda>_ l'. (Ok TimedOutAwaitingCancellation, l'))
        | AwaitingCancellation \<Rightarrow> (Ok TimedOutAwaitingCancellation, l)
        | Starting \<Rightarrow> (Err (InvalidTransition Starting), l)
        | Running \<Rightarrow> (Ok DrainCancelled, l)
        | Stopping \<Rightarrow> (Ok DrainCompleted, l)))"

definition cancel_drain :: "life \<Rightarrow> (lifecycle_error + unit) \<times> life" where
  "cancel_drain l =
     (if t_phase l = Draining \<or> t_phase l = AwaitingCancellation then publish_phase Running l
      else (Err (InvalidTransition (t_phase l)), l))"

text \<open>
  \<open>request_stop\<close> keeps the mutex over three parts: entering the drain (\<open>Ok True\<close> when already
  stopping), reading the request counter, and publishing the stop.
\<close>

definition request_stop_enter :: "life \<Rightarrow> (lifecycle_error + bool) \<times> life" where
  "request_stop_enter l =
     (case t_phase l of
        Starting \<Rightarrow> (Err (InvalidTransition Starting), l)
      | Running \<Rightarrow>
          st_then (next_generation l) (\<lambda>_ l1. st_then (publish_phase Draining l1)
            (\<lambda>_ l2. (Ok False, l2)))
      | Draining \<Rightarrow> (Ok False, l)
      | AwaitingCancellation \<Rightarrow> (Ok False, l)
      | Stopping \<Rightarrow> (Ok True, l))"

definition request_stop_check :: "life \<Rightarrow> lifecycle_error + unit" where
  "request_stop_check l = (if active l \<noteq> 0 then Err (ActiveRequestsRemain (active l)) else Ok ())"

definition request_stop_commit :: "life \<Rightarrow> (lifecycle_error + unit) \<times> life" where
  "request_stop_commit l = publish_phase Stopping l"

text \<open>
  \<open>try_enter\<close> in its three accesses, and the decrement of a dropped guard or of a withdrawn
  entry.
\<close>

definition enter_load :: "life \<Rightarrow> bool" where
  "enter_load l = (phase l = Running)"

definition enter_add :: "life \<Rightarrow> life option" where
  "enter_add l = (if active l + 1 \<le> usize_max then Some (l\<lparr>active := active l + 1\<rparr>) else None)"

definition enter_recheck :: "life \<Rightarrow> bool" where
  "enter_recheck l = (phase l = Running)"

definition decrement_active :: "life \<Rightarrow> decrement_outcome \<times> life" where
  "decrement_active l =
     (if active l = 0 then (AlreadyZero, l)
      else (if active l = 1 then BecameZero else Remaining, l\<lparr>active := active l - 1\<rparr>))"

subsection \<open>Threads\<close>

datatype thread =
    Idle
  | EnterLoaded
  | EnterAdded
  | EnterWithdrawing
  | Admitted
  | DrainWaiting u64
  | DrainFinishing u64 drain_wait
  | StopChecking
  | StopCommitting

record system =
  life :: life
  lock_holder :: "nat option"
  threads :: "nat \<Rightarrow> thread"

definition system_init :: "system \<Rightarrow> bool" where
  "system_init s = (s = \<lparr>life = life_new, lock_holder = None, threads = (\<lambda>_. Idle)\<rparr>)"

text \<open>What a step reports: the call that returned and its result.\<close>

datatype event =
    Silent
  | EnterReturned bool
  | GuardDropped
  | MarkRunningReturned "lifecycle_error + unit"
  | DrainReturned "lifecycle_error + drain_outcome"
  | CancelReturned "lifecycle_error + unit"
  | StopReturned "lifecycle_error + unit"

abbreviation set_thread :: "nat \<Rightarrow> thread \<Rightarrow> system \<Rightarrow> system" where
  "set_thread i th s \<equiv> s\<lparr>threads := (threads s)(i := th)\<rparr>"

inductive lifecycle_step :: "system \<Rightarrow> event \<Rightarrow> system \<Rightarrow> bool" where
  enter_refused: "threads s i = Idle \<Longrightarrow> \<not> enter_load (life s)
    \<Longrightarrow> lifecycle_step s (EnterReturned False) s"
| enter_loaded: "threads s i = Idle \<Longrightarrow> enter_load (life s)
    \<Longrightarrow> lifecycle_step s Silent (set_thread i EnterLoaded s)"
| enter_full: "threads s i = EnterLoaded \<Longrightarrow> enter_add (life s) = None
    \<Longrightarrow> lifecycle_step s (EnterReturned False) (set_thread i Idle s)"
| enter_added: "threads s i = EnterLoaded \<Longrightarrow> enter_add (life s) = Some l
    \<Longrightarrow> lifecycle_step s Silent (set_thread i EnterAdded (s\<lparr>life := l\<rparr>))"
| enter_admitted: "threads s i = EnterAdded \<Longrightarrow> enter_recheck (life s)
    \<Longrightarrow> lifecycle_step s (EnterReturned True) (set_thread i Admitted s)"
| enter_withdraw: "threads s i = EnterAdded \<Longrightarrow> \<not> enter_recheck (life s)
    \<Longrightarrow> lifecycle_step s Silent (set_thread i EnterWithdrawing s)"
| enter_withdrawn: "threads s i = EnterWithdrawing
    \<Longrightarrow> lifecycle_step s (EnterReturned False)
          (set_thread i Idle (s\<lparr>life := snd (decrement_active (life s))\<rparr>))"
| guard_dropped: "threads s i = Admitted
    \<Longrightarrow> lifecycle_step s GuardDropped
          (set_thread i Idle (s\<lparr>life := snd (decrement_active (life s))\<rparr>))"
| run_marked: "threads s i = Idle \<Longrightarrow> lock_holder s = None \<Longrightarrow> mark_running (life s) = (r, l)
    \<Longrightarrow> lifecycle_step s (MarkRunningReturned r) (s\<lparr>life := l\<rparr>)"
| drain_cancelled: "threads s i = Idle \<Longrightarrow> lock_holder s = None \<Longrightarrow> cancel_drain (life s) = (r, l)
    \<Longrightarrow> lifecycle_step s (CancelReturned r) (s\<lparr>life := l\<rparr>)"
| drain_failed: "threads s i = Idle \<Longrightarrow> lock_holder s = None \<Longrightarrow> begin_drain_enter (life s) = (Err e, l)
    \<Longrightarrow> lifecycle_step s (DrainReturned (Err e)) (s\<lparr>life := l\<rparr>)"
| drain_at_once: "threads s i = Idle \<Longrightarrow> lock_holder s = None
    \<Longrightarrow> begin_drain_enter (life s) = (Ok (Inl out), l)
    \<Longrightarrow> lifecycle_step s (DrainReturned (Ok out)) (s\<lparr>life := l\<rparr>)"
| drain_waits: "threads s i = Idle \<Longrightarrow> lock_holder s = None
    \<Longrightarrow> begin_drain_enter (life s) = (Ok (Inr g), l)
    \<Longrightarrow> lifecycle_step s Silent (set_thread i (DrainWaiting g) (s\<lparr>life := l\<rparr>))"
| drain_polled: "threads s i = DrainWaiting g \<Longrightarrow> wait_for_drain_poll g (life s) = Some w
    \<Longrightarrow> lifecycle_step s Silent (set_thread i (DrainFinishing g w) s)"
| drain_observed_zero: "threads s i = DrainWaiting g \<Longrightarrow> active (life s) = 0
    \<Longrightarrow> lifecycle_step s Silent (set_thread i (DrainFinishing g WaitZeroActive) s)"
| drain_timed_out: "threads s i = DrainWaiting g
    \<Longrightarrow> lifecycle_step s Silent (set_thread i (DrainFinishing g WaitTimedOut) s)"
| drain_finished: "threads s i = DrainFinishing g w \<Longrightarrow> lock_holder s = None
    \<Longrightarrow> finish_drain_wait g w (life s) = (r, l)
    \<Longrightarrow> lifecycle_step s (DrainReturned r) (set_thread i Idle (s\<lparr>life := l\<rparr>))"
| stop_failed: "threads s i = Idle \<Longrightarrow> lock_holder s = None \<Longrightarrow> request_stop_enter (life s) = (Err e, l)
    \<Longrightarrow> lifecycle_step s (StopReturned (Err e)) (s\<lparr>life := l\<rparr>)"
| stop_already: "threads s i = Idle \<Longrightarrow> lock_holder s = None
    \<Longrightarrow> request_stop_enter (life s) = (Ok True, l)
    \<Longrightarrow> lifecycle_step s (StopReturned (Ok ())) (s\<lparr>life := l\<rparr>)"
| stop_entered: "threads s i = Idle \<Longrightarrow> lock_holder s = None
    \<Longrightarrow> request_stop_enter (life s) = (Ok False, l)
    \<Longrightarrow> lifecycle_step s Silent (set_thread i StopChecking (s\<lparr>life := l, lock_holder := Some i\<rparr>))"
| stop_refused: "threads s i = StopChecking \<Longrightarrow> request_stop_check (life s) = Err e
    \<Longrightarrow> lifecycle_step s (StopReturned (Err e)) (set_thread i Idle (s\<lparr>lock_holder := None\<rparr>))"
| stop_checked: "threads s i = StopChecking \<Longrightarrow> request_stop_check (life s) = Ok ()
    \<Longrightarrow> lifecycle_step s Silent (set_thread i StopCommitting s)"
| stop_committed: "threads s i = StopCommitting \<Longrightarrow> request_stop_commit (life s) = (r, l)
    \<Longrightarrow> lifecycle_step s (StopReturned r) (set_thread i Idle (s\<lparr>life := l, lock_holder := None\<rparr>))"

inductive_cases stop_returned_cases: "lifecycle_step s (StopReturned r) t"

subsection \<open>The invariant\<close>

text \<open>The threads the request counter counts, and those holding an admission guard.\<close>

definition counted_in :: "(nat \<Rightarrow> thread) \<Rightarrow> nat set" where
  "counted_in ths = {i. ths i \<in> {EnterAdded, EnterWithdrawing, Admitted}}"

definition admitted_in :: "(nat \<Rightarrow> thread) \<Rightarrow> nat set" where
  "admitted_in ths = {i. ths i = Admitted}"

abbreviation counted :: "system \<Rightarrow> nat set" where
  "counted s \<equiv> counted_in (threads s)"

abbreviation admitted :: "system \<Rightarrow> nat set" where
  "admitted s \<equiv> admitted_in (threads s)"

fun thread_ok :: "system \<Rightarrow> nat \<Rightarrow> thread \<Rightarrow> bool" where
  "thread_ok s i (DrainWaiting g) = (g \<le> drain_generation (life s))"
| "thread_ok s i (DrainFinishing g w) =
     (g \<le> drain_generation (life s)
      \<and> (w = WaitZeroActive \<and> g = drain_generation (life s) \<and> phase (life s) \<noteq> Running
         \<longrightarrow> admitted s = {}))"
| "thread_ok s i StopChecking =
     (lock_holder s = Some i \<and> phase (life s) \<in> {Draining, AwaitingCancellation})"
| "thread_ok s i StopCommitting =
     (lock_holder s = Some i \<and> phase (life s) \<in> {Draining, AwaitingCancellation} \<and> admitted s = {})"
| "thread_ok s i _ = (lock_holder s \<noteq> Some i)"

definition synced :: "life \<Rightarrow> bool" where
  "synced l = (t_phase l = phase l \<and> watch_phase l = phase l)"

definition lifecycle_inv :: "system \<Rightarrow> bool" where
  "lifecycle_inv s =
     (finite (counted s) \<and> active (life s) = card (counted s)
      \<and> synced (life s)
      \<and> (phase (life s) = Stopping \<longrightarrow> admitted s = {})
      \<and> (\<forall>i. thread_ok s i (threads s i)))"


text \<open>What a section under the mutex may change, the stop itself apart.\<close>

definition locked_change :: "life \<Rightarrow> life \<Rightarrow> bool" where
  "locked_change l l' =
     (active l' = active l \<and> synced l' \<and> drain_generation l \<le> drain_generation l'
      \<and> (phase l' \<noteq> Running \<longrightarrow> phase l \<noteq> Running \<or> drain_generation l < drain_generation l')
      \<and> (phase l' = Stopping \<longrightarrow> phase l = Stopping))"

lemma locked_change_refl: "synced l \<Longrightarrow> locked_change l l"
  by (auto simp: locked_change_def)

lemmas publish_defs = publish_phase_def next_generation_def st_then_def

lemma checked_inc_less: "checked_add (g :: u64) 1 = Some g' \<Longrightarrow> g < g'"
  by (auto simp: checked_add_def word_less_nat_alt unat_word_ariths split: if_splits)

lemma mark_running_change:
  "mark_running l = (r, l') \<Longrightarrow> synced l \<Longrightarrow> locked_change l l'"
  by (auto simp: mark_running_def publish_defs locked_change_def synced_def
      split: if_splits option.splits)

lemma cancel_drain_change:
  "cancel_drain l = (r, l') \<Longrightarrow> synced l \<Longrightarrow> locked_change l l'"
  by (auto simp: cancel_drain_def publish_defs locked_change_def synced_def
      split: if_splits option.splits)

lemma begin_drain_enter_change:
  "begin_drain_enter l = (r, l') \<Longrightarrow> synced l \<Longrightarrow> locked_change l l'"
  by (auto simp: begin_drain_enter_def publish_defs locked_change_def synced_def
      dest: checked_inc_less split: if_splits option.splits lifecycle_phase.splits)

lemma finish_drain_wait_change:
  "finish_drain_wait g w l = (r, l') \<Longrightarrow> synced l \<Longrightarrow> locked_change l l'"
  by (auto simp: finish_drain_wait_def publish_defs locked_change_def synced_def
      split: if_splits option.splits lifecycle_phase.splits)

lemma request_stop_enter_change:
  "request_stop_enter l = (r, l') \<Longrightarrow> synced l \<Longrightarrow> locked_change l l'"
  by (auto simp: request_stop_enter_def publish_defs locked_change_def synced_def
      dest: checked_inc_less split: if_splits option.splits lifecycle_phase.splits)


lemma counted_in_upd [simp]:
  "counted_in (ths(i := th)) =
     (if th \<in> {EnterAdded, EnterWithdrawing, Admitted} then insert i (counted_in ths)
      else counted_in ths - {i})"
  "admitted_in (ths(i := th)) =
     (if th = Admitted then insert i (admitted_in ths) else admitted_in ths - {i})"
  by (auto simp: counted_in_def admitted_in_def)

lemma admitted_counted: "admitted s \<subseteq> counted s"
  by (auto simp: admitted_in_def counted_in_def)

text \<open>
  A thread keeps its condition when the generation, the phase and the lock stay, and no thread
  is newly admitted.
\<close>

lemma thread_ok_mono:
  assumes "thread_ok s i th"
    and "drain_generation (life t) = drain_generation (life s)" "phase (life t) = phase (life s)"
    and "lock_holder t = lock_holder s" "phase (life s) \<noteq> Running \<Longrightarrow> admitted t \<subseteq> admitted s"
  shows "thread_ok t i th"
  using assms by (cases th) auto

lemma thread_ok_locked_change:
  assumes "thread_ok s i th" "lock_holder s = None" "locked_change (life s) l"
  shows "thread_ok (s\<lparr>life := l\<rparr>) i th"
  using assms by (cases th) (auto simp: locked_change_def)

lemma inv_locked_change:
  assumes "lifecycle_inv s" "lock_holder s = None" "locked_change (life s) l"
  shows "lifecycle_inv (s\<lparr>life := l\<rparr>)"
  using assms thread_ok_locked_change [OF _ assms(2,3)]
  by (auto simp: lifecycle_inv_def locked_change_def)

text \<open>A thread that is counted neither before nor after its step.\<close>

lemma inv_set_thread:
  assumes inv: "lifecycle_inv s"
    and "threads s i \<notin> {EnterAdded, EnterWithdrawing, Admitted}"
    and "th \<notin> {EnterAdded, EnterWithdrawing, Admitted}" "thread_ok s i th"
  shows "lifecycle_inv (set_thread i th s)"
proof -
  have i: "i \<notin> counted s" "i \<notin> admitted s" using assms(2) by (auto simp: counted_in_def admitted_in_def)
  have "thread_ok (set_thread i th s) j (threads (set_thread i th s) j)" for j
    by (rule thread_ok_mono [of s])
      (use assms i in \<open>auto simp: lifecycle_inv_def\<close>)
  with assms i show ?thesis by (auto simp: lifecycle_inv_def)
qed

lemma inv_enter_added:
  assumes inv: "lifecycle_inv s" and th: "threads s i = EnterLoaded"
    and l: "enter_add (life s) = Some l"
  shows "lifecycle_inv (set_thread i EnterAdded (s\<lparr>life := l\<rparr>))" (is "lifecycle_inv ?t")
proof -
  have i: "i \<notin> counted s" "i \<notin> admitted s" using th by (auto simp: counted_in_def admitted_in_def)
  have l': "l = (life s)\<lparr>active := active (life s) + 1\<rparr>"
    using l by (auto simp: enter_add_def split: if_splits)
  have ok: "thread_ok s j (threads s j)" for j using inv by (simp add: lifecycle_inv_def)
  have "thread_ok ?t j (threads ?t j)" for j
    by (rule thread_ok_mono [of s]) (use ok [of j] th i in \<open>auto simp: l'\<close>)
  with inv i show ?thesis by (auto simp: lifecycle_inv_def l' synced_def)
qed

lemma inv_enter_recheck:
  assumes inv: "lifecycle_inv s" and th: "threads s i = EnterAdded"
    and w: "w = (if phase (life s) = Running then Admitted else EnterWithdrawing)"
  shows "lifecycle_inv (set_thread i w s)" (is "lifecycle_inv ?t")
proof -
  have i: "i \<in> counted s" "i \<notin> admitted s" using th by (auto simp: counted_in_def admitted_in_def)
  have ok: "thread_ok s j (threads s j)" for j using inv by (simp add: lifecycle_inv_def)
  have "thread_ok ?t j (threads ?t j)" for j
    by (rule thread_ok_mono [of s]) (use ok [of j] th i in \<open>auto simp: w\<close>)
  with inv i show ?thesis by (auto simp: lifecycle_inv_def w insert_absorb)
qed

lemma inv_leave:
  assumes inv: "lifecycle_inv s" and th: "threads s i \<in> {EnterWithdrawing, Admitted}"
  shows "lifecycle_inv (set_thread i Idle (s\<lparr>life := snd (decrement_active (life s))\<rparr>))"
    (is "lifecycle_inv ?t")
proof -
  have i: "i \<in> counted s" using th by (auto simp: counted_in_def)
  have fin: "finite (counted s)" "active (life s) = card (counted s)"
    using inv by (auto simp: lifecycle_inv_def)
  then have pos: "active (life s) \<noteq> 0" using i by auto
  then have l: "snd (decrement_active (life s)) = (life s)\<lparr>active := active (life s) - 1\<rparr>"
    by (simp add: decrement_active_def)
  have ok: "thread_ok s j (threads s j)" for j using inv by (simp add: lifecycle_inv_def)
  have "thread_ok ?t j (threads ?t j)" for j
    by (rule thread_ok_mono [of s]) (use ok [of j] th in \<open>auto simp: l\<close>)
  with inv i fin show ?thesis by (auto simp: lifecycle_inv_def l synced_def)
qed

lemma inv_stop_entered:
  assumes inv: "lifecycle_inv s" and th: "threads s i = Idle" and free: "lock_holder s = None"
    and l: "request_stop_enter (life s) = (Ok False, l)"
  shows "lifecycle_inv (set_thread i StopChecking (s\<lparr>life := l, lock_holder := Some i\<rparr>))"
    (is "lifecycle_inv ?t")
proof -
  let ?s = "s\<lparr>life := l\<rparr>"
  have syn: "synced (life s)" using inv by (simp add: lifecycle_inv_def)
  have inv': "lifecycle_inv ?s"
    using inv_locked_change [OF inv free request_stop_enter_change [OF l syn]] .
  have ph: "phase l \<in> {Draining, AwaitingCancellation}"
    using l syn by (auto simp: request_stop_enter_def publish_defs synced_def
        split: option.splits lifecycle_phase.splits)
  have i: "i \<notin> counted s" "i \<notin> admitted s" using th by (auto simp: counted_in_def admitted_in_def)
  have "thread_ok ?t j (threads ?t j)" for j
    using inv' ph free i by (cases "threads s j") (auto simp: lifecycle_inv_def dest: spec [of _ j])
  with inv' i show ?thesis by (auto simp: lifecycle_inv_def)
qed

lemma inv_unlock:
  assumes inv: "lifecycle_inv s" and th: "threads s i \<in> {StopChecking, StopCommitting}"
  shows "lifecycle_inv (set_thread i Idle (s\<lparr>lock_holder := None\<rparr>))" (is "lifecycle_inv ?t")
proof -
  have i: "i \<notin> counted s" "i \<notin> admitted s" using th by (auto simp: counted_in_def admitted_in_def)
  have ok: "thread_ok s j (threads s j)" for j using inv by (simp add: lifecycle_inv_def)
  have "lock_holder s = Some i" using ok [of i] th by auto
  then have "thread_ok ?t j (threads ?t j)" for j
    using ok [of j] i by (cases "threads s j") auto
  with inv i show ?thesis by (auto simp: lifecycle_inv_def)
qed

lemma inv_stop_committed:
  assumes inv: "lifecycle_inv s" and th: "threads s i = StopCommitting"
    and l: "request_stop_commit (life s) = (r, l)"
  shows "lifecycle_inv (set_thread i Idle (s\<lparr>life := l, lock_holder := None\<rparr>))"
    (is "lifecycle_inv ?t")
proof -
  have i: "i \<notin> counted s" "i \<notin> admitted s" using th by (auto simp: counted_in_def admitted_in_def)
  have ok: "thread_ok s j (threads s j)" for j using inv by (simp add: lifecycle_inv_def)
  have lock: "lock_holder s = Some i" "admitted s = {}" using ok [of i] th by auto
  have l': "drain_generation l = drain_generation (life s)" "active l = active (life s)" "synced l"
    using l inv by (auto simp: request_stop_commit_def publish_defs synced_def lifecycle_inv_def
        split: option.splits)
  have "thread_ok ?t j (threads ?t j)" for j
    using ok [of j] i lock l' by (cases "threads s j") auto
  with inv i lock l' show ?thesis by (auto simp: lifecycle_inv_def)
qed


lemma lifecycle_inv_init: "system_init s \<Longrightarrow> lifecycle_inv s"
  by (simp add: system_init_def lifecycle_inv_def life_new_def synced_def counted_in_def
      admitted_in_def)

lemma lifecycle_inv_synced: "lifecycle_inv s \<Longrightarrow> synced (life s)"
  by (simp add: lifecycle_inv_def)

lemma inv_no_active: "lifecycle_inv s \<Longrightarrow> active (life s) = 0 \<Longrightarrow> admitted s = {}"
  using admitted_counted [of s] by (auto simp: lifecycle_inv_def)

lemma inv_thread_ok: "lifecycle_inv s \<Longrightarrow> thread_ok s i (threads s i)"
  by (simp add: lifecycle_inv_def)

lemma poll_zero_safe:
  assumes "lifecycle_inv s" "wait_for_drain_poll g (life s) = Some WaitZeroActive"
  shows "admitted s = {}"
  using assms inv_no_active [OF assms(1)]
  by (auto simp: wait_for_drain_poll_def lifecycle_inv_def synced_def split: if_splits)

lemma begin_drain_enter_generation:
  "begin_drain_enter l = (Ok (Inr g), l') \<Longrightarrow> g = drain_generation l'"
  by (auto simp: begin_drain_enter_def publish_defs
      split: if_splits option.splits lifecycle_phase.splits)

lemma lifecycle_inv_locked_step:
  assumes "lifecycle_inv s" "lock_holder s = None"
    and "mark_running (life s) = (r, l) \<or> cancel_drain (life s) = (r, l)
      \<or> begin_drain_enter (life s) = (q, l) \<or> request_stop_enter (life s) = (p, l)
      \<or> finish_drain_wait g w (life s) = (v, l)"
  shows "lifecycle_inv (s\<lparr>life := l\<rparr>)"
  using assms(3) lifecycle_inv_synced [OF assms(1)]
  by (intro inv_locked_change assms(1,2))
    (auto dest: mark_running_change cancel_drain_change begin_drain_enter_change
      request_stop_enter_change finish_drain_wait_change)

lemma lifecycle_inv_admission_step:
  assumes inv: "lifecycle_inv s" and step: "lifecycle_step s e t"
    and e: "e = Silent \<or> (\<exists>b. e = EnterReturned b) \<or> e = GuardDropped"
  shows "lifecycle_inv t"
  using step
proof (cases rule: lifecycle_step.cases)
  case (enter_loaded i)
  then show ?thesis using inv_thread_ok [OF inv, of i] inv_set_thread [OF inv, of i EnterLoaded] by simp
next
  case (enter_full i)
  then show ?thesis using inv_thread_ok [OF inv, of i] inv_set_thread [OF inv, of i Idle] by simp
next
  case (enter_admitted i)
  then show ?thesis using inv_enter_recheck [OF inv, of i] by (simp add: enter_recheck_def)
next
  case (enter_withdraw i)
  then show ?thesis using inv_enter_recheck [OF inv, of i] by (simp add: enter_recheck_def)
next
  case (drain_waits i g l)
  then have "lifecycle_inv (s\<lparr>life := l\<rparr>)" using lifecycle_inv_locked_step [OF inv] by blast
  then show ?thesis
    using drain_waits begin_drain_enter_generation [OF drain_waits(5)]
      inv_set_thread [of "s\<lparr>life := l\<rparr>" i "DrainWaiting g"] by simp
next
  case (drain_polled i g w)
  then show ?thesis
    using inv_thread_ok [OF inv, of i] poll_zero_safe [OF inv]
      inv_set_thread [OF inv, of i "DrainFinishing g w"] by auto
next
  case (drain_observed_zero i g)
  then show ?thesis
    using inv_thread_ok [OF inv, of i] inv_no_active [OF inv]
      inv_set_thread [OF inv, of i "DrainFinishing g WaitZeroActive"] by auto
next
  case (drain_timed_out i g)
  then show ?thesis
    using inv_thread_ok [OF inv, of i]
      inv_set_thread [OF inv, of i "DrainFinishing g WaitTimedOut"] by auto
next
  case (stop_checked i)
  then show ?thesis
    using inv_thread_ok [OF inv, of i] inv_no_active [OF inv]
      inv_set_thread [OF inv, of i StopCommitting]
    by (auto simp: request_stop_check_def split: if_splits)
next
  case (enter_added i l)
  then show ?thesis using inv_enter_added [OF inv] by simp
next
  case (enter_withdrawn i)
  then show ?thesis using inv_leave [OF inv, of i] by simp
next
  case (guard_dropped i)
  then show ?thesis using inv_leave [OF inv, of i] by simp
next
  case (stop_entered i l)
  then show ?thesis using inv_stop_entered [OF inv] by simp
qed (use inv e in auto)

lemma lifecycle_inv_step:
  assumes inv: "lifecycle_inv s" and step: "lifecycle_step s e t"
  shows "lifecycle_inv t"
  using step
proof (cases rule: lifecycle_step.cases)
  case (drain_finished i g w r l)
  then have "lifecycle_inv (s\<lparr>life := l\<rparr>)" using lifecycle_inv_locked_step [OF inv] by blast
  then show ?thesis
    using drain_finished inv_set_thread [of "s\<lparr>life := l\<rparr>" i Idle] by simp
next
  case (stop_refused i e)
  then show ?thesis using inv_unlock [OF inv, of i] by simp
next
  case (stop_committed i r l)
  then show ?thesis using inv_stop_committed [OF inv] by simp
qed (use inv step lifecycle_inv_admission_step [OF inv] lifecycle_inv_locked_step [OF inv] in blast)+

interpretation lifecycle_system: invariant_system system_init lifecycle_step lifecycle_inv
  by unfold_locales (auto intro: lifecycle_inv_init lifecycle_inv_step)


subsection \<open>Properties\<close>

text \<open>The transitions of the phase.\<close>

fun phase_edge :: "lifecycle_phase \<Rightarrow> lifecycle_phase \<Rightarrow> bool" where
  "phase_edge Starting p = (p = Running)"
| "phase_edge Running p = (p = Draining)"
| "phase_edge Draining p = (p = Running \<or> p = AwaitingCancellation \<or> p = Stopping)"
| "phase_edge AwaitingCancellation p = (p = Running \<or> p = Stopping)"
| "phase_edge Stopping p = False"

lemmas transition_defs = mark_running_def cancel_drain_def begin_drain_enter_def
  finish_drain_wait_def request_stop_enter_def request_stop_commit_def publish_defs

lemma operation_phase_edges:
  assumes "synced l"
  shows "mark_running l = (r, l') \<Longrightarrow> phase l' = phase l \<or> phase_edge (phase l) (phase l')"
    and "cancel_drain l = (r, l') \<Longrightarrow> phase l' = phase l \<or> phase_edge (phase l) (phase l')"
    and "begin_drain_enter l = (q, l') \<Longrightarrow> phase l' = phase l \<or> phase_edge (phase l) (phase l')"
    and "request_stop_enter l = (p, l') \<Longrightarrow> phase l' = phase l \<or> phase_edge (phase l) (phase l')"
    and "finish_drain_wait g w l = (v, l') \<Longrightarrow> phase l' = phase l \<or> phase_edge (phase l) (phase l')"
  using assms
  by (auto simp: transition_defs synced_def
      split: if_splits option.splits lifecycle_phase.splits)

lemma step_phase_edge:
  assumes inv: "lifecycle_inv s" and step: "lifecycle_step s e t"
  shows "phase (life t) = phase (life s) \<or> phase_edge (phase (life s)) (phase (life t))"
  using step
proof (cases rule: lifecycle_step.cases)
  case (stop_committed i r l)
  then show ?thesis
    using inv_thread_ok [OF inv, of i]
    by (auto simp: request_stop_commit_def publish_defs split: option.splits)
qed (auto simp: enter_add_def decrement_active_def split: if_splits
      dest: operation_phase_edges [OF lifecycle_inv_synced [OF inv]])

lemma stopping_stays:
  assumes "reach (\<lambda>x. x = t) lifecycle_step u" "lifecycle_inv t" "phase (life t) = Stopping"
  shows "lifecycle_inv u \<and> phase (life u) = Stopping"
  using assms
proof (induction rule: reach.induct)
  case (reach_step s e u)
  then show ?case using step_phase_edge [of s e u] lifecycle_inv_step [of s e u] by auto
qed auto

lemma stop_returned_stopping:
  assumes "lifecycle_inv s" "lifecycle_step s (StopReturned (Ok ())) t"
  shows "phase (life t) = Stopping"
  using assms(2) lifecycle_inv_synced [OF assms(1)]
  by (cases rule: stop_returned_cases)
    (auto simp: request_stop_enter_def request_stop_commit_def publish_defs synced_def
      split: option.splits lifecycle_phase.splits)

text \<open>A run used by the examples: the service starts, and then it drains or stops.\<close>

definition sample_life :: "lifecycle_phase \<Rightarrow> u64 \<Rightarrow> u64 \<Rightarrow> life" where
  "sample_life p revision g =
     \<lparr>phase = p, active = 0, transition_revision = revision, t_phase = p, drain_generation = g,
      watch_phase = p, watch_generation = g\<rparr>"

definition sample_system :: "life \<Rightarrow> nat option \<Rightarrow> thread \<Rightarrow> system" where
  "sample_system l h th = \<lparr>life = l, lock_holder = h, threads = (\<lambda>_. Idle)(0 := th)\<rparr>"

lemma sample_publish:
  "publish_phase Running life_new = (Ok (), sample_life Running 1 0)"
  "begin_drain_enter (sample_life Running 1 0) = (Ok (Inr 1), sample_life Draining 2 1)"
  "request_stop_enter (sample_life Running 1 0) = (Ok False, sample_life Draining 2 1)"
  "request_stop_commit (sample_life Draining 2 1) = (Ok (), sample_life Stopping 3 1)"
  "finish_drain_wait 1 WaitZeroActive (sample_life Draining 2 1) =
     (Ok DrainCompleted, sample_life Draining 2 1)"
  by (simp_all add: transition_defs sample_life_def life_new_def checked_add_def)

lemma reach_self: "reach (\<lambda>x. x = t) step t"
  by (rule reach_init) simp

lemma reach_sample_running:
  "reach system_init lifecycle_step (sample_system (sample_life Running 1 0) None Idle)"
proof -
  let ?s = "sample_system life_new None Idle"
  have 1: "reach system_init lifecycle_step ?s"
    by (rule reach_init) (simp add: system_init_def sample_system_def fun_upd_idem)
  have run: "mark_running life_new = (Ok (), sample_life Running 1 0)"
    using sample_publish(1) by (simp add: mark_running_def) (simp add: life_new_def)
  have 2: "lifecycle_step ?s (MarkRunningReturned (Ok ())) (?s\<lparr>life := sample_life Running 1 0\<rparr>)"
    by (rule run_marked [of _ 0]) (simp_all add: sample_system_def run)
  show ?thesis using reach_step [OF 1 2] by (simp add: sample_system_def)
qed

lemma reach_sample_drained:
  "reach system_init lifecycle_step
     (sample_system (sample_life Draining 2 1) None (DrainFinishing 1 WaitZeroActive))"
proof -
  let ?s = "sample_system (sample_life Running 1 0) None Idle"
  let ?t = "sample_system (sample_life Draining 2 1) None (DrainWaiting 1)"
  have 1: "lifecycle_step ?s Silent ?t"
    using drain_waits [of ?s 0 1 "sample_life Draining 2 1"]
    by (simp add: sample_system_def sample_publish)
  have 2: "lifecycle_step ?t Silent (set_thread 0 (DrainFinishing 1 WaitZeroActive) ?t)"
    by (rule drain_observed_zero) (simp_all add: sample_system_def sample_life_def)
  show ?thesis
    using reach_step [OF reach_step [OF reach_sample_running 1] 2] by (simp add: sample_system_def)
qed

lemma reach_sample_stopping:
  "reach system_init lifecycle_step (sample_system (sample_life Draining 2 1) (Some 0) StopCommitting)"
proof -
  let ?s = "sample_system (sample_life Running 1 0) None Idle"
  let ?t = "sample_system (sample_life Draining 2 1) (Some 0) StopChecking"
  have 1: "lifecycle_step ?s Silent ?t"
    using stop_entered [of ?s 0 "sample_life Draining 2 1"]
    by (simp add: sample_system_def sample_publish)
  have 2: "lifecycle_step ?t Silent (set_thread 0 StopCommitting ?t)"
    by (rule stop_checked) (simp_all add: sample_system_def sample_life_def request_stop_check_def)
  show ?thesis
    using reach_step [OF reach_step [OF reach_sample_running 1] 2] by (simp add: sample_system_def)
qed

lemma sample_stop_step:
  "lifecycle_step (sample_system (sample_life Draining 2 1) (Some 0) StopCommitting)
     (StopReturned (Ok ())) (sample_system (sample_life Stopping 3 1) None Idle)"
  using stop_committed [of "sample_system (sample_life Draining 2 1) (Some 0) StopCommitting" 0]
  by (simp add: sample_system_def sample_publish)

lemma sample_drain_step:
  "lifecycle_step (sample_system (sample_life Draining 2 1) None (DrainFinishing 1 WaitZeroActive))
     (DrainReturned (Ok DrainCompleted)) (sample_system (sample_life Draining 2 1) None Idle)"
  using drain_finished [of
      "sample_system (sample_life Draining 2 1) None (DrainFinishing 1 WaitZeroActive)" 0]
  by (simp add: sample_system_def sample_publish)

text \<open>
  C3. A granted stop is final and safe under every interleaving: once \<open>request_stop\<close> has
  returned success, in every later state the phase is stopping and no request holds an admission
  guard, although admissions race with it on the atomics without a lock.
\<close>

theorem stop_is_final:
  assumes "reach system_init lifecycle_step s" "lifecycle_step s (StopReturned (Ok ())) t"
    and "reach (\<lambda>x. x = t) lifecycle_step u"
  shows "phase (life u) = Stopping \<and> admitted_in (threads u) = {}"
proof -
  have s: "lifecycle_inv s" using lifecycle_system.reach_inv [OF assms(1)] .
  have "lifecycle_inv u \<and> phase (life u) = Stopping"
    using stopping_stays [OF assms(3)] lifecycle_inv_step [OF s assms(2)]
      stop_returned_stopping [OF s assms(2)] by blast
  then show ?thesis by (simp add: lifecycle_inv_def)
qed

theorem stop_is_final_witness:
  "lifecycle_step (sample_system (sample_life Draining 2 1) (Some 0) StopCommitting)
     (StopReturned (Ok ())) (sample_system (sample_life Stopping 3 1) None Idle)
   \<and> phase (life (sample_system (sample_life Stopping 3 1) None Idle)) = Stopping
   \<and> admitted_in (threads (sample_system (sample_life Stopping 3 1) None Idle)) = {}"
  using stop_is_final [OF reach_sample_stopping sample_stop_step reach_self] sample_stop_step
  by simp

text \<open>
  C19. A drain that reports completion is right: at the moment \<open>begin_drain\<close> returns
  \<open>Completed\<close> no request holds an admission guard, even when the drain was cancelled, requests
  were admitted and another drain was started while this one was waiting.
\<close>

theorem drain_completed_safe:
  assumes "reach system_init lifecycle_step s"
    and "lifecycle_step s (DrainReturned (Ok DrainCompleted)) t"
  shows "admitted_in (threads s) = {} \<and> admitted_in (threads t) = {}"
proof -
  have inv: "lifecycle_inv s" using lifecycle_system.reach_inv [OF assms(1)] .
  have stop: "phase (life s) = Stopping \<Longrightarrow> admitted s = {}" using inv by (simp add: lifecycle_inv_def)
  note syn = lifecycle_inv_synced [OF inv, unfolded synced_def]
  have "admitted s = {}"
    using assms(2)
  proof (cases rule: lifecycle_step.cases)
    case (drain_at_once i l)
    then show ?thesis
      using syn stop inv_no_active [OF inv]
      by (auto simp: begin_drain_enter_def publish_defs
          split: if_splits option.splits lifecycle_phase.splits)
  next
    case (drain_finished i g w l)
    then show ?thesis
      using syn stop inv_no_active [OF inv] inv_thread_ok [OF inv, of i]
      by (auto simp: finish_drain_wait_def publish_defs
          split: if_splits option.splits lifecycle_phase.splits)
  qed
  moreover have "admitted t \<subseteq> admitted s"
    using assms(2) by (cases rule: lifecycle_step.cases) auto
  ultimately show ?thesis by simp
qed

theorem drain_completed_safe_witness:
  "\<exists>s t. reach system_init lifecycle_step s
     \<and> lifecycle_step s (DrainReturned (Ok DrainCompleted)) t
     \<and> admitted_in (threads s) = {} \<and> admitted_in (threads t) = {}"
  using drain_completed_safe [OF reach_sample_drained sample_drain_step]
    reach_sample_drained sample_drain_step by blast

text \<open>
  The phase only moves along the documented edges: from starting to running, from running
  to draining, from a drain back to running, to awaiting cancellation or to stopping; nothing
  leaves stopping. The counter is exactly the number of requests admitted or in the middle of
  \<open>try_enter\<close>.
\<close>

lemma lifecycle_phase_order:
  assumes "reach system_init lifecycle_step s" "lifecycle_step s e t"
  shows "(phase (life t) = phase (life s) \<or> phase_edge (phase (life s)) (phase (life t)))
    \<and> finite (counted_in (threads t)) \<and> active (life t) = card (counted_in (threads t))"
proof -
  have inv: "lifecycle_inv s" using lifecycle_system.reach_inv [OF assms(1)] .
  then show ?thesis
    using step_phase_edge [OF inv assms(2)] lifecycle_inv_step [OF inv assms(2)]
    by (simp add: lifecycle_inv_def)
qed

text \<open>
  C32. A stop is granted when it can be: with no request admitted or entering, the mutex free
  and the two revision counters not exhausted, a call of \<open>request_stop\<close> from the running or a
  draining phase runs through its three parts and returns success.
\<close>

theorem stop_granted_when_idle:
  assumes "reach system_init lifecycle_step s" "threads s i = Idle" "lock_holder s = None"
    and "phase (life s) \<in> {Running, Draining, AwaitingCancellation}"
    and "counted_in (threads s) = {}"
    and "unat (transition_revision (life s)) + 2 < 2 ^ 64"
    and "unat (drain_generation (life s)) + 1 < 2 ^ 64"
  shows "\<exists>s1 s2 t. lifecycle_step s Silent s1 \<and> lifecycle_step s1 Silent s2
    \<and> lifecycle_step s2 (StopReturned (Ok ())) t \<and> phase (life t) = Stopping"
proof -
  have inv: "lifecycle_inv s" using lifecycle_system.reach_inv [OF assms(1)] .
  have zero: "active (life s) = 0" using inv assms(5) by (simp add: lifecycle_inv_def)
  obtain l where l: "request_stop_enter (life s) = (Ok False, l)" "active l = 0"
      "unat (transition_revision l) + 1 < 2 ^ 64"
    using assms(4,6,7) zero lifecycle_inv_synced [OF inv]
    by (auto simp: request_stop_enter_def publish_defs synced_def checked_add_def unat_word_ariths)
  let ?s1 = "set_thread i StopChecking (s\<lparr>life := l, lock_holder := Some i\<rparr>)"
  let ?s2 = "set_thread i StopCommitting ?s1"
  obtain l' where l': "request_stop_commit l = (Ok (), l')" "phase l' = Stopping"
    using l(3) by (auto simp: request_stop_commit_def publish_defs checked_add_def)
  have "lifecycle_step s Silent ?s1" using stop_entered [OF assms(2,3) l(1)] .
  moreover have "lifecycle_step ?s1 Silent ?s2"
    by (rule stop_checked) (simp_all add: request_stop_check_def l(2))
  moreover have "lifecycle_step ?s2 (StopReturned (Ok ()))
      (set_thread i Idle (?s2\<lparr>life := l', lock_holder := None\<rparr>))"
    by (rule stop_committed) (simp_all add: l')
  moreover have "phase (life (set_thread i Idle (?s2\<lparr>life := l', lock_holder := None\<rparr>))) = Stopping"
    by (simp add: l')
  ultimately show ?thesis by blast
qed

theorem stop_granted_when_idle_witness:
  "\<exists>s s1 s2 t. reach system_init lifecycle_step s \<and> phase (life s) = Running
     \<and> lifecycle_step s Silent s1 \<and> lifecycle_step s1 Silent s2
     \<and> lifecycle_step s2 (StopReturned (Ok ())) t \<and> phase (life t) = Stopping"
proof -
  let ?s = "sample_system (sample_life Running 1 0) None Idle"
  have "\<exists>s1 s2 t. lifecycle_step ?s Silent s1 \<and> lifecycle_step s1 Silent s2
    \<and> lifecycle_step s2 (StopReturned (Ok ())) t \<and> phase (life t) = Stopping"
    by (rule stop_granted_when_idle [OF reach_sample_running, of 0])
      (simp_all add: sample_system_def sample_life_def counted_in_def)
  moreover have "phase (life ?s) = Running" by (simp add: sample_system_def sample_life_def)
  ultimately show ?thesis using reach_sample_running by blast
qed

end
