(* ===== verification/Sse.thy ===== *)
theory Sse
  imports Rust_Str
begin

text \<open>
  Server-sent events, \<open>crates/wokcore-protocols/src/stream/sse.rs\<close>: the incremental decoder with
  its size limits, and the encoder. Every streamed upstream answer goes through them. A
  \<open>serde_json\<close> value is represented by its serialisation, which the encoder copies.
\<close>

subsection \<open>Data\<close>

datatype protocol_error =
    FrameTooLarge nat
  | TooManyFrames nat
  | InvalidUtf8
  | DecoderFailed
  | UnexpectedEof
  | InvalidChannelCapacity

record sse_frame =
  sf_event :: "string option"
  sf_data :: string

record sse_decoder =
  max_frame_bytes :: nat
  max_frames_per_push :: nat
  frame_bytes :: nat
  sd_line :: string
  sd_event :: "string option"
  sd_data :: string
  saw_data :: bool
  at_stream_start :: bool
  failed :: bool
  skip_lf :: bool
  count_skipped_lf :: bool

definition DEFAULT_MAX_SSE_FRAME_BYTES :: nat where
  "DEFAULT_MAX_SSE_FRAME_BYTES = 1024 * 1024"

definition DEFAULT_MAX_SSE_FRAMES_PER_PUSH :: nat where
  "DEFAULT_MAX_SSE_FRAMES_PER_PUSH = 4096"

definition with_limits :: "nat \<Rightarrow> nat \<Rightarrow> sse_decoder" where
  "with_limits m n =
     \<lparr>max_frame_bytes = m, max_frames_per_push = n, frame_bytes = 0, sd_line = [], sd_event = None,
      sd_data = [], saw_data = False, at_stream_start = True, failed = False, skip_lf = False,
      count_skipped_lf = False\<rparr>"

definition sse_new :: "nat \<Rightarrow> sse_decoder" where
  "sse_new m = with_limits m DEFAULT_MAX_SSE_FRAMES_PER_PUSH"

abbreviation LF :: char where
  "LF \<equiv> CHR 0x0A"

abbreviation CR :: char where
  "CR \<equiv> CHR 0x0D"

definition BOM :: string where
  "BOM = [CHR 0xEF, CHR 0xBB, CHR 0xBF]"

subsection \<open>Decoder\<close>

definition add_frame_bytes :: "nat \<Rightarrow> sse_decoder \<Rightarrow> (protocol_error + unit) \<times> sse_decoder" where
  "add_frame_bytes added d =
     (let d' = d\<lparr>frame_bytes := usize_sat_add (frame_bytes d) added\<rparr> in
      if frame_bytes d' > max_frame_bytes d' then (Err (FrameTooLarge (max_frame_bytes d')), d')
      else (Ok (), d'))"

definition split_field :: "string \<Rightarrow> string \<times> string" where
  "split_field l =
     (if CHR '':'' \<in> set l then
        (takeWhile (\<lambda>c. c \<noteq> CHR '':'') l,
         let v = tl (dropWhile (\<lambda>c. c \<noteq> CHR '':'') l) in
         case strip_prefix '' '' v of Some w \<Rightarrow> w | None \<Rightarrow> v)
      else (l, []))"

definition apply_field :: "string \<Rightarrow> string \<Rightarrow> sse_decoder \<Rightarrow> sse_decoder" where
  "apply_field field val d =
     (if field = ''event'' then d\<lparr>sd_event := Some val\<rparr>
      else if field = ''data'' then
        d\<lparr>sd_data := sd_data d @ (if saw_data d then [LF] else []) @ val, saw_data := True\<rparr>
      else d)"

definition line_text :: "sse_decoder \<Rightarrow> string" where
  "line_text d =
     (if at_stream_start d
      then (case strip_prefix BOM (sd_line d) of Some l \<Rightarrow> l | None \<Rightarrow> sd_line d)
      else sd_line d)"

definition process_line ::
  "sse_decoder \<Rightarrow> sse_frame list \<Rightarrow> (protocol_error + unit) \<times> sse_decoder \<times> sse_frame list" where
  "process_line d0 frames =
     (let l = line_text d0; d = d0\<lparr>sd_line := [], at_stream_start := False\<rparr> in
      if \<not> utf8_valid l then (Err InvalidUtf8, d, frames)
      else if l = [] then
        (if saw_data d then
           (if max_frames_per_push d \<le> length frames
            then (Err (TooManyFrames (max_frames_per_push d)), d, frames)
            else (Ok (),
                  d\<lparr>sd_event := None, sd_data := [], saw_data := False, frame_bytes := 0\<rparr>,
                  frames @ [\<lparr>sf_event = sd_event d, sf_data = sd_data d\<rparr>]))
         else (Ok (), d\<lparr>sd_event := None, sd_data := [], saw_data := False, frame_bytes := 0\<rparr>, frames))
      else if starts_with '':'' l then (Ok (), d, frames)
      else (case split_field l of (field, val) \<Rightarrow> (Ok (), apply_field field val d, frames)))"

text \<open>The body of the loop of \<open>push_inner\<close>, after the part that skips the line feed of a CRLF.\<close>

definition line_byte ::
  "char \<Rightarrow> sse_decoder \<Rightarrow> sse_frame list \<Rightarrow> (protocol_error + unit) \<times> sse_decoder \<times> sse_frame list" where
  "line_byte b d frames =
     (let counted = (if sd_line d \<noteq> [] then add_frame_bytes 1 d else (Ok (), d));
          attach = (\<lambda>(r, d). (r, d, frames)) in
      if b = CR then
        st_then (attach counted) (\<lambda>_ (d1, fs).
          st_then (process_line d1 fs) (\<lambda>_ (d2, fs).
            (Ok (), d2\<lparr>skip_lf := True, count_skipped_lf := sd_line d \<noteq> []\<rparr>, fs)))
      else if b = LF then
        st_then (attach counted) (\<lambda>_ (d1, fs). process_line d1 fs)
      else
        st_then (attach (add_frame_bytes 1 d)) (\<lambda>_ (d1, fs).
          (Ok (), d1\<lparr>sd_line := sd_line d1 @ [b]\<rparr>, fs)))"

definition push_byte ::
  "char \<Rightarrow> sse_decoder \<Rightarrow> sse_frame list \<Rightarrow> (protocol_error + unit) \<times> sse_decoder \<times> sse_frame list" where
  "push_byte b d frames =
     (if skip_lf d then
        (let d' = d\<lparr>skip_lf := False\<rparr> in
         if b = LF then
           (case (if count_skipped_lf d' then add_frame_bytes 1 d' else (Ok (), d')) of
              (Inl e, d1) \<Rightarrow> (Err e, d1, frames)
            | (Inr _, d1) \<Rightarrow> (Ok (), d1\<lparr>count_skipped_lf := False\<rparr>, frames))
         else line_byte b (d'\<lparr>count_skipped_lf := False\<rparr>) frames)
      else line_byte b d frames)"

fun push_inner ::
  "string \<Rightarrow> sse_decoder \<Rightarrow> sse_frame list \<Rightarrow> (protocol_error + unit) \<times> sse_decoder \<times> sse_frame list" where
  "push_inner [] d frames = (Ok (), d, frames)"
| "push_inner (b # bs) d frames =
     st_then (push_byte b d frames) (\<lambda>_ (d', frames'). push_inner bs d' frames')"

definition push :: "string \<Rightarrow> sse_decoder \<Rightarrow> (protocol_error + sse_frame list) \<times> sse_decoder" where
  "push chunk d =
     (if failed d then (Err DecoderFailed, d)
      else (case push_inner chunk d [] of
          (Inr _, d', frames) \<Rightarrow> (Ok frames, d')
        | (Inl e, d', frames) \<Rightarrow> (Err e, d'\<lparr>failed := True\<rparr>)))"

definition finish :: "sse_decoder \<Rightarrow> (protocol_error + sse_frame list) \<times> sse_decoder" where
  "finish d =
     (if failed d then (Err DecoderFailed, d)
      else (let d' = d\<lparr>failed := True\<rparr> in
        if sd_line d' \<noteq> [] \<or> sd_event d' \<noteq> None \<or> sd_data d' \<noteq> [] \<or> saw_data d' \<or> frame_bytes d' \<noteq> 0
        then (Err UnexpectedEof, d')
        else (Ok [], d')))"

text \<open>The way a stream is consumed: chunk by chunk, stopping at the first error.\<close>

fun push_all :: "string list \<Rightarrow> sse_decoder \<Rightarrow> (protocol_error + sse_frame list) \<times> sse_decoder" where
  "push_all [] d = (Ok [], d)"
| "push_all (c # cs) d =
     st_then (push c d) (\<lambda>fs d1. st_then (push_all cs d1) (\<lambda>gs d2. (Ok (fs @ gs), d2)))"

subsection \<open>Encoder\<close>

definition encode_sse :: "string option \<Rightarrow> string \<Rightarrow> string" where
  "encode_sse ev json =
     (case ev of
        Some name \<Rightarrow> if CR \<in> set name \<or> LF \<in> set name then [] else ''event: '' @ name @ [LF]
      | None \<Rightarrow> []) @ ''data: '' @ json @ [LF, LF]"

subsection \<open>Chunking\<close>

lemma add_frame_bytes_limits:
  "add_frame_bytes n d = (r, d') \<Longrightarrow> max_frames_per_push d' = max_frames_per_push d"
  "add_frame_bytes n d = (r, d') \<Longrightarrow> failed d' = failed d"
  by (auto simp: add_frame_bytes_def Let_def split: if_splits)

lemma apply_field_max [simp]:
  "max_frames_per_push (apply_field f v d) = max_frames_per_push d"
  "failed (apply_field f v d) = failed d"
  "max_frame_bytes (apply_field f v d) = max_frame_bytes d"
  "frame_bytes (apply_field f v d) = frame_bytes d"
  "sd_line (apply_field f v d) = sd_line d"
  by (simp_all add: apply_field_def)

text \<open>
  A run over a part of the input that appends the frames \<open>new\<close>: it does so after any other frames
  of this push, as long as the limit \<open>n\<close> of the push allows it.
\<close>

type_synonym frames_run = "sse_frame list \<Rightarrow> (protocol_error + unit) \<times> sse_decoder \<times> sse_frame list"

definition appends :: "nat \<Rightarrow> frames_run \<Rightarrow> sse_decoder \<Rightarrow> sse_frame list \<Rightarrow> bool" where
  "appends n run d' new =
     (\<forall>gs. new = [] \<or> length gs + length new \<le> n \<longrightarrow> run gs = (Ok (), d', gs @ new))"

lemma process_line_limits:
  "process_line d fs = (r, d', fs') \<Longrightarrow>
     max_frames_per_push d' = max_frames_per_push d \<and> failed d' = failed d"
  by (simp add: process_line_def Let_def split: if_splits prod.splits) auto

lemma process_line_silent:
  assumes "\<not> (line_text d = [] \<and> saw_data d)"
  obtains r d' where "\<And>gs. process_line d gs = (r, d', gs)"
proof
  show "process_line d gs = (fst (process_line d []), fst (snd (process_line d [])), gs)" for gs
    using assms by (simp add: process_line_def Let_def split: prod.splits)
qed

lemma process_line_dispatch:
  assumes "line_text d = []" "saw_data d"
  shows "process_line d gs =
    (let d0 = d\<lparr>sd_line := [], at_stream_start := False\<rparr> in
     if max_frames_per_push d \<le> length gs then (Err (TooManyFrames (max_frames_per_push d)), d0, gs)
     else (Ok (), d0\<lparr>sd_event := None, sd_data := [], saw_data := False, frame_bytes := 0\<rparr>,
           gs @ [\<lparr>sf_event = sd_event d, sf_data = sd_data d\<rparr>]))"
  using assms by (simp add: process_line_def Let_def utf8_valid_def)

lemma process_line_appends:
  assumes "process_line d fs = (Ok (), d', fs')"
  shows "\<exists>new. fs' = fs @ new \<and> (new = [] \<or> length fs + length new \<le> max_frames_per_push d)
    \<and> appends (max_frames_per_push d) (process_line d) d' new
    \<and> max_frames_per_push d' = max_frames_per_push d \<and> failed d' = failed d"
proof (cases "line_text d = [] \<and> saw_data d")
  case True
  then show ?thesis
    using assms process_line_limits [OF assms]
    by (auto simp: process_line_dispatch appends_def Let_def split: if_splits)
next
  case False
  then obtain r d1 where "\<And>gs. process_line d gs = (r, d1, gs)" using process_line_silent by blast
  then show ?thesis using assms process_line_limits [OF assms] by (simp add: appends_def)
qed

lemma line_byte_appends:
  assumes "line_byte b d fs = (Ok (), d', fs')"
  shows "\<exists>new. fs' = fs @ new \<and> (new = [] \<or> length fs + length new \<le> max_frames_per_push d)
    \<and> appends (max_frames_per_push d) (line_byte b d) d' new
    \<and> max_frames_per_push d' = max_frames_per_push d \<and> failed d' = failed d"
proof -
  let ?counted = "if sd_line d \<noteq> [] then add_frame_bytes 1 d else (Ok (), d)"
  show ?thesis
  proof (cases "b = CR \<or> b = LF")
    case True
    with assms obtain d1 d2 where d1: "?counted = (Ok (), d1)"
      and d2: "process_line d1 fs = (Ok (), d2, fs')"
      and d': "d' = (if b = CR then d2\<lparr>skip_lf := True, count_skipped_lf := sd_line d \<noteq> []\<rparr> else d2)"
      by (cases ?counted)
        (auto simp: line_byte_def Let_def st_then_eq_Ok split: prod.splits if_splits)
    have m: "max_frames_per_push d1 = max_frames_per_push d" "failed d1 = failed d"
      using d1 add_frame_bytes_limits by (auto split: if_splits)
    show ?thesis
      using process_line_appends [OF d2] True d1 d' m
      by (auto simp: appends_def line_byte_def Let_def)
  next
    case False
    with assms obtain d1 where d1: "add_frame_bytes 1 d = (Ok (), d1)"
      and d': "fs' = fs" "d' = d1\<lparr>sd_line := sd_line d1 @ [b]\<rparr>"
      by (auto simp: line_byte_def Let_def st_then_eq_Ok split: prod.splits)
    show ?thesis
      using d1 d' False add_frame_bytes_limits [OF d1]
      by (auto simp: appends_def line_byte_def Let_def)
  qed
qed

lemma push_byte_appends:
  assumes "push_byte b d fs = (Ok (), d', fs')"
  shows "\<exists>new. fs' = fs @ new \<and> (new = [] \<or> length fs + length new \<le> max_frames_per_push d)
    \<and> appends (max_frames_per_push d) (push_byte b d) d' new
    \<and> max_frames_per_push d' = max_frames_per_push d \<and> failed d' = failed d"
proof (cases "skip_lf d \<and> b = LF")
  case True
  then show ?thesis
    using assms
    by (auto simp: push_byte_def Let_def appends_def split: prod.splits sum.splits if_splits
        dest: add_frame_bytes_limits)
next
  case False
  let ?d = "if skip_lf d then d\<lparr>skip_lf := False, count_skipped_lf := False\<rparr> else d"
  have eq: "push_byte b d = line_byte b ?d" using False by (auto simp: push_byte_def Let_def)
  show ?thesis using line_byte_appends [of b ?d fs d' fs'] assms by (simp add: eq split: if_splits)
qed

lemma push_inner_appends:
  assumes "push_inner bs d fs = (Ok (), d', fs')"
  shows "\<exists>new. fs' = fs @ new \<and> (new = [] \<or> length fs + length new \<le> max_frames_per_push d)
    \<and> appends (max_frames_per_push d) (push_inner bs d) d' new
    \<and> max_frames_per_push d' = max_frames_per_push d \<and> failed d' = failed d"
  using assms
proof (induction bs arbitrary: d fs)
  case Nil
  then show ?case by (auto simp: appends_def)
next
  case (Cons b bs)
  then obtain d1 fs1 where 1: "push_byte b d fs = (Ok (), d1, fs1)"
    and 2: "push_inner bs d1 fs1 = (Ok (), d', fs')"
    by (auto simp: st_then_eq_Ok)
  obtain n1 where n1: "fs1 = fs @ n1" "n1 = [] \<or> length fs + length n1 \<le> max_frames_per_push d"
      "appends (max_frames_per_push d) (push_byte b d) d1 n1"
      "max_frames_per_push d1 = max_frames_per_push d" "failed d1 = failed d"
    using push_byte_appends [OF 1] by blast
  obtain n2 where n2: "fs' = fs1 @ n2" "n2 = [] \<or> length fs1 + length n2 \<le> max_frames_per_push d"
      "appends (max_frames_per_push d) (push_inner bs d1) d' n2"
      "max_frames_per_push d' = max_frames_per_push d" "failed d' = failed d"
    using Cons.IH [OF 2] n1(4,5) by auto
  have "appends (max_frames_per_push d) (push_inner (b # bs) d) d' (n1 @ n2)"
    using n1(3) n2(3) by (auto simp: appends_def)
  then show ?case using n1 n2 by (intro exI [of _ "n1 @ n2"]) (auto simp del: push_inner.simps)
qed

lemma push_inner_append:
  "push_inner (as @ bs) d fs =
     st_then (push_inner as d fs) (\<lambda>_ (d', fs'). push_inner bs d' fs')"
proof (induction as arbitrary: d fs)
  case (Cons a as)
  show ?case by (cases "push_byte a d fs") (auto simp: Cons st_then_def split: sum.splits prod.splits)
qed simp

lemma push_inner_then:
  "push_inner as d fs = (Ok (), d1, fs1) \<Longrightarrow> push_inner (as @ bs) d fs = push_inner bs d1 fs1"
  by (simp add: push_inner_append)

lemma push_Ok_iff:
  "push c d = (Ok fs, d') \<longleftrightarrow> \<not> failed d \<and> push_inner c d [] = (Ok (), d', fs)"
  by (auto simp: push_def split: prod.splits sum.splits)

lemma push_append_Ok:
  assumes "length fs \<le> max_frames_per_push d"
  shows "push (as @ bs) d = (Ok fs, d') \<longleftrightarrow>
    (\<exists>fa fb d1. push as d = (Ok fa, d1) \<and> push bs d1 = (Ok fb, d') \<and> fs = fa @ fb)"
proof
  assume "push (as @ bs) d = (Ok fs, d')"
  then obtain fa d1 where 1: "\<not> failed d" "push_inner as d [] = (Ok (), d1, fa)"
    and 2: "push_inner bs d1 fa = (Ok (), d', fs)"
    by (auto simp: push_Ok_iff push_inner_append st_then_eq_Ok)
  obtain new where new: "fs = fa @ new" "appends (max_frames_per_push d1) (push_inner bs d1) d' new"
      "max_frames_per_push d1 = max_frames_per_push d" "failed d1 = failed d"
    using push_inner_appends [OF 2] push_inner_appends [OF 1(2)] by blast
  have "push_inner bs d1 [] = (Ok (), d', new)"
    using new assms by (auto simp: appends_def)
  then show "\<exists>fa fb d1. push as d = (Ok fa, d1) \<and> push bs d1 = (Ok fb, d') \<and> fs = fa @ fb"
    using 1 new by (auto simp: push_Ok_iff)
next
  assume "\<exists>fa fb d1. push as d = (Ok fa, d1) \<and> push bs d1 = (Ok fb, d') \<and> fs = fa @ fb"
  then obtain fa fb d1 where 1: "\<not> failed d" "push_inner as d [] = (Ok (), d1, fa)"
    and 2: "push_inner bs d1 [] = (Ok (), d', fb)" and fs: "fs = fa @ fb"
    by (auto simp: push_Ok_iff)
  have "max_frames_per_push d1 = max_frames_per_push d" using push_inner_appends [OF 1(2)] by auto
  then have "push_inner bs d1 fa = (Ok (), d', fa @ fb)"
    using push_inner_appends [OF 2] assms fs by (auto simp: appends_def)
  then show "push (as @ bs) d = (Ok fs, d')"
    using 1 fs by (auto simp: push_Ok_iff push_inner_append)
qed


lemma push_limits:
  "push c d = (Ok fs, d') \<Longrightarrow>
     max_frames_per_push d' = max_frames_per_push d \<and> \<not> failed d \<and> \<not> failed d'"
  using push_inner_appends by (fastforce simp: push_Ok_iff)

lemma push_all_concat:
  assumes "\<not> failed d" "length fs \<le> max_frames_per_push d"
  shows "push_all cs d = (Ok fs, d') \<longleftrightarrow> push (concat cs) d = (Ok fs, d')"
  using assms
proof (induction cs arbitrary: d fs)
  case Nil
  then show ?case by (auto simp: push_def)
next
  case (Cons c cs)
  have "push_all (c # cs) d = (Ok fs, d') \<longleftrightarrow>
      (\<exists>fa fb d1. push c d = (Ok fa, d1) \<and> push_all cs d1 = (Ok fb, d') \<and> fs = fa @ fb)"
    by (auto simp: st_then_eq_Ok)
  also have "\<dots> \<longleftrightarrow>
      (\<exists>fa fb d1. push c d = (Ok fa, d1) \<and> push (concat cs) d1 = (Ok fb, d') \<and> fs = fa @ fb)"
    using Cons.IH Cons.prems push_limits [of c d]
    by (metis length_append trans_le_add2 le_add2 order_trans)
  also have "\<dots> \<longleftrightarrow> push (concat (c # cs)) d = (Ok fs, d')"
    using push_append_Ok [OF Cons.prems(2)] by simp
  finally show ?case .
qed

subsection \<open>Size limits\<close>

definition event_length :: "sse_decoder \<Rightarrow> nat" where
  "event_length d = (case sd_event d of None \<Rightarrow> 0 | Some e \<Rightarrow> length e)"

definition frame_length :: "sse_frame \<Rightarrow> nat" where
  "frame_length f = length (sf_data f) + (case sf_event f of None \<Rightarrow> 0 | Some e \<Rightarrow> length e)"

text \<open>What the decoder buffers is paid for by the bytes it has counted for the current frame.\<close>

definition paid :: "nat \<Rightarrow> sse_decoder \<Rightarrow> bool" where
  "paid m d =
     (max_frame_bytes d = m
      \<and> length (sd_line d) + length (sd_data d) + event_length d \<le> min m (frame_bytes d))"

lemma line_text_length: "length (line_text d) \<le> length (sd_line d)"
  by (auto simp: line_text_def split: option.splits)

lemma split_field_length:
  assumes "split_field l = (f, v)"
  shows "length f + length v \<le> length l"
proof -
  let ?rest = "dropWhile (\<lambda>c. c \<noteq> CHR '':'') l"
  have "length (takeWhile (\<lambda>c. c \<noteq> CHR '':'') l) + length ?rest = length l"
    by (metis length_append takeWhile_dropWhile_id)
  moreover have "length v \<le> length (tl ?rest)" if "CHR '':'' \<in> set l"
    using assms that
    by (auto simp: split_field_def Let_def split: option.splits dest!: arg_cong [of "tl ?rest" _ length])
  ultimately show ?thesis using assms
    by (cases "CHR '':'' \<in> set l") (auto simp: split_field_def Let_def split: option.splits)
qed

lemma apply_field_paid:
  assumes "length f + length v + length (sd_data d) + event_length d \<le> k" "sd_line d = []"
  shows "length (sd_data (apply_field f v d)) + event_length (apply_field f v d) \<le> k"
  using assms by (auto simp: apply_field_def event_length_def)

lemma process_line_paid:
  assumes "paid m d" "process_line d fs = (r, d', fs')"
  shows "paid m d' \<and> (\<forall>f \<in> set fs'. f \<in> set fs \<or> frame_length f \<le> m)"
proof (cases "line_text d = [] \<or> \<not> utf8_valid (line_text d) \<or> starts_with '':'' (line_text d)")
  case True
  then show ?thesis using assms
    by (auto simp: process_line_def Let_def paid_def frame_length_def event_length_def
        split: if_splits)
next
  case False
  obtain f v where fv: "split_field (line_text d) = (f, v)" by (cases "split_field (line_text d)")
  let ?d = "d\<lparr>sd_line := [], at_stream_start := False\<rparr>"
  have d': "d' = apply_field f v ?d" "fs' = fs"
    using False assms(2) fv by (auto simp: process_line_def Let_def)
  have "length f + length v + length (sd_data ?d) + event_length ?d \<le> min m (frame_bytes d)"
    using split_field_length [OF fv] line_text_length [of d] assms(1)
    by (simp add: paid_def event_length_def)
  then show ?thesis
    using apply_field_paid [of f v ?d "min m (frame_bytes d)"] assms(1)
    by (simp add: d' paid_def)
qed


lemma add_frame_bytes_paid:
  assumes "add_frame_bytes 1 d = (r, d')" "frame_bytes d \<le> max_frame_bytes d" "max_frame_bytes d < usize_max"
  shows "d' = d\<lparr>frame_bytes := frame_bytes d + 1\<rparr>"
    and "r = Ok () \<Longrightarrow> frame_bytes d' \<le> max_frame_bytes d'"
  using assms by (auto simp: add_frame_bytes_def Let_def usize_sat_add_def split: if_splits)

definition sse_inv :: "nat \<Rightarrow> sse_decoder \<Rightarrow> bool" where
  "sse_inv m d = (paid m d \<and> (\<not> failed d \<longrightarrow> frame_bytes d \<le> m))"

lemma process_line_frame_bytes:
  "process_line d fs = (r, d', fs') \<Longrightarrow> frame_bytes d' \<le> frame_bytes d"
  by (auto simp: process_line_def Let_def split: if_splits prod.splits)

text \<open>One byte keeps what is buffered within the limit, also when it is refused.\<close>

definition step_paid :: "nat \<Rightarrow> sse_frame list \<Rightarrow> (protocol_error + unit) \<times> sse_decoder \<times> sse_frame list \<Rightarrow> bool" where
  "step_paid m fs out =
     (case out of (r, d', fs') \<Rightarrow>
        paid m d' \<and> (r = Ok () \<longrightarrow> frame_bytes d' \<le> m)
        \<and> (\<forall>f \<in> set fs'. f \<in> set fs \<or> frame_length f \<le> m))"

lemma paid_frame_bytes: "paid m d \<Longrightarrow> frame_bytes d \<le> k \<Longrightarrow> paid m (d\<lparr>frame_bytes := k\<rparr>)"
  by (auto simp: paid_def event_length_def)

lemma paid_flags [simp]:
  "paid m (d\<lparr>skip_lf := a, count_skipped_lf := b\<rparr>) = paid m d"
  "paid m (d\<lparr>skip_lf := a\<rparr>) = paid m d"
  "paid m (d\<lparr>count_skipped_lf := b\<rparr>) = paid m d"
  "paid m (d\<lparr>failed := c\<rparr>) = paid m d"
  by (simp_all add: paid_def event_length_def)

lemma count_byte_paid:
  assumes "paid m d" "frame_bytes d \<le> m" "m < usize_max" "add_frame_bytes 1 d = (r, d')"
  shows "paid m d'" "r = Ok () \<Longrightarrow> frame_bytes d' \<le> m" "d' = d\<lparr>frame_bytes := frame_bytes d + 1\<rparr>"
  using assms add_frame_bytes_paid [OF assms(4)] paid_frame_bytes [OF assms(1)]
  by (auto simp: paid_def)

lemma line_byte_paid:
  assumes "paid m d" "frame_bytes d \<le> m" "m < usize_max"
  shows "step_paid m fs (line_byte b d fs)"
proof -
  let ?counted = "if sd_line d \<noteq> [] then add_frame_bytes 1 d else (Ok (), d)"
  obtain r d1 where d1: "?counted = (r, d1)" by (cases ?counted)
  have c: "paid m d1" "r = Ok () \<Longrightarrow> frame_bytes d1 \<le> m"
    using d1 count_byte_paid [OF assms] assms(1,2) by (auto split: if_splits)
  obtain r2 d2 fs2 where d2: "process_line d1 fs = (r2, d2, fs2)" by (cases "process_line d1 fs")
  obtain r3 d3 where d3: "add_frame_bytes 1 d = (r3, d3)" by (cases "add_frame_bytes 1 d")
  show ?thesis
  proof (cases "b = CR \<or> b = LF")
    case True
    then show ?thesis
      using d1 d2 c process_line_paid [OF c(1) d2] process_line_frame_bytes [OF d2]
      by (cases r; cases r2) (auto simp: line_byte_def step_paid_def)
  next
    case False
    then have "b \<noteq> CR" "b \<noteq> LF" by auto
    then show ?thesis
      using d3 count_byte_paid [OF assms d3] assms(1,2)
      by (cases r3) (auto simp: line_byte_def step_paid_def paid_def event_length_def)
  qed
qed


lemma push_byte_paid:
  assumes "paid m d" "frame_bytes d \<le> m" "m < usize_max"
  shows "step_paid m fs (push_byte b d fs)"
proof (cases "skip_lf d \<and> b = LF")
  case True
  let ?d = "d\<lparr>skip_lf := False\<rparr>"
  obtain r d1 where d1: "add_frame_bytes 1 ?d = (r, d1)" by (cases "add_frame_bytes 1 ?d")
  have c: "paid m d1" "r = Ok () \<Longrightarrow> frame_bytes d1 \<le> m"
    using count_byte_paid [of m ?d r d1] assms d1 by simp_all
  show ?thesis
    using True d1 c assms(1,2)
    by (cases r; cases "count_skipped_lf d") (simp_all add: push_byte_def step_paid_def)
next
  case False
  let ?d = "if skip_lf d then d\<lparr>skip_lf := False, count_skipped_lf := False\<rparr> else d"
  have eq: "push_byte b d = line_byte b ?d" using False by (auto simp: push_byte_def Let_def)
  show ?thesis unfolding eq by (rule line_byte_paid) (use assms in auto)
qed

lemma push_inner_paid:
  assumes "paid m d" "frame_bytes d \<le> m" "m < usize_max"
  shows "step_paid m fs (push_inner bs d fs)"
  using assms
proof (induction bs arbitrary: d fs)
  case Nil
  then show ?case by (simp add: step_paid_def)
next
  case (Cons b bs)
  obtain r d1 fs1 where b: "push_byte b d fs = (r, d1, fs1)" by (cases "push_byte b d fs")
  have s: "step_paid m fs (r, d1, fs1)" using push_byte_paid [OF Cons.prems, of fs b] b by simp
  show ?case
  proof (cases r)
    case (Inr u)
    then have "step_paid m fs1 (push_inner bs d1 fs1)"
      using Cons s by (simp add: step_paid_def)
    then show ?thesis using s b Inr by (cases "push_inner bs d1 fs1") (auto simp: step_paid_def)
  qed (use s b in \<open>simp add: step_paid_def\<close>)
qed

datatype sse_op = Push string | Finish

definition run_sse_op :: "sse_decoder \<Rightarrow> sse_op \<Rightarrow> sse_decoder" where
  "run_sse_op d op = (case op of Push c \<Rightarrow> snd (push c d) | Finish \<Rightarrow> snd (finish d))"

lemma push_bounded:
  assumes "sse_inv m d" "m < usize_max" "push c d = (r, d')"
  shows "sse_inv m d' \<and> (\<forall>fs. r = Ok fs \<longrightarrow> (\<forall>f \<in> set fs. frame_length f \<le> m))"
proof (cases "failed d")
  case False
  then have "step_paid m [] (push_inner c d [])"
    using push_inner_paid [of m d "[]" c] assms by (simp add: sse_inv_def)
  then show ?thesis
    using assms(3) False
    by (auto simp: push_def sse_inv_def step_paid_def split: prod.splits sum.splits)
qed (use assms in \<open>auto simp: push_def\<close>)

lemma finish_bounded: "sse_inv m d \<Longrightarrow> sse_inv m (snd (finish d))"
  by (simp add: finish_def sse_inv_def Let_def)

lemma run_sse_op_inv:
  assumes "m < usize_max" "sse_inv m d"
  shows "sse_inv m (run_sse_op d op)"
  using push_bounded [OF assms(2,1) surjective_pairing] finish_bounded [OF assms(2)]
  by (simp add: run_sse_op_def split: sse_op.splits)

interpretation sse_machine: invariant_machine run_sse_op "\<lambda>d. m < usize_max \<and> sse_inv m d" for m
  by unfold_locales (simp add: run_sse_op_inv)

lemma with_limits_inv: "sse_inv m (with_limits m n)"
  by (simp add: with_limits_def sse_inv_def paid_def event_length_def)

lemma push_all_bounded:
  assumes "sse_inv m d" "m < usize_max" "push_all cs d = (r, d')"
  shows "sse_inv m d' \<and> (\<forall>fs. r = Ok fs \<longrightarrow> (\<forall>f \<in> set fs. frame_length f \<le> m))"
  using assms
proof (induction cs arbitrary: d r d')
  case (Cons c cs)
  obtain r1 d1 where p: "push c d = (r1, d1)" by (cases "push c d")
  obtain r2 d2 where q: "push_all cs d1 = (r2, d2)" by (cases "push_all cs d1")
  show ?case
    using push_bounded [OF Cons.prems(1,2) p] Cons.IH [of d1 r2 d2] Cons.prems p q
    by (cases r1; cases r2) auto
qed auto

subsection \<open>Round trip\<close>

definition encodable :: "nat \<Rightarrow> string option \<times> string \<Rightarrow> bool" where
  "encodable m ej =
     (case ej of (ev, json) \<Rightarrow>
        utf8_valid json \<and> CR \<notin> set json \<and> LF \<notin> set json
        \<and> (\<forall>name. ev = Some name \<longrightarrow> utf8_valid name)
        \<and> length (encode_sse ev json) \<le> m + 1)"

definition decoded :: "string option \<times> string \<Rightarrow> sse_frame" where
  "decoded ej =
     \<lparr>sf_event = (case fst ej of
        Some name \<Rightarrow> if CR \<in> set name \<or> LF \<in> set name then None else Some name
      | None \<Rightarrow> None), sf_data = snd ej\<rparr>"

definition resting :: "sse_decoder \<Rightarrow> bool" where
  "resting d =
     (frame_bytes d = 0 \<and> sd_line d = [] \<and> sd_event d = None \<and> sd_data d = [] \<and> \<not> saw_data d
      \<and> \<not> failed d \<and> \<not> skip_lf d)"

text \<open>Ordinary bytes only extend the line.\<close>

lemma push_inner_text:
  assumes "CR \<notin> set t" "LF \<notin> set t" "\<not> skip_lf d"
    and "frame_bytes d + length t \<le> max_frame_bytes d" "max_frame_bytes d < usize_max"
  shows "push_inner t d fs =
    (Ok (), d\<lparr>frame_bytes := frame_bytes d + length t, sd_line := sd_line d @ t\<rparr>, fs)"
  using assms
proof (induction t arbitrary: d)
  case (Cons c t)
  have "c \<noteq> CR" "c \<noteq> LF" using Cons.prems by auto
  then have "push_byte c d fs =
      (Ok (), d\<lparr>frame_bytes := frame_bytes d + 1, sd_line := sd_line d @ [c]\<rparr>, fs)"
    using Cons.prems
    by (simp add: push_byte_def line_byte_def add_frame_bytes_def Let_def usize_sat_add_def)
  then show ?case using Cons by simp
qed simp

text \<open>A field line ended by a line feed.\<close>

lemma push_inner_field:
  assumes "field \<in> {''event'', ''data''}" "utf8_valid val" "CR \<notin> set val" "LF \<notin> set val"
    and "\<not> skip_lf d" "sd_line d = []" "max_frame_bytes d < usize_max"
    and "frame_bytes d + length field + length val + 3 \<le> max_frame_bytes d"
  shows "push_inner (field @ '': '' @ val @ [LF]) d fs =
    (Ok (), apply_field field val
       (d\<lparr>frame_bytes := frame_bytes d + length field + length val + 3, sd_line := [],
          at_stream_start := False\<rparr>), fs)"
proof -
  let ?t = "field @ '': '' @ val"
  let ?d = "d\<lparr>frame_bytes := frame_bytes d + length ?t, sd_line := ?t\<rparr>"
  have t: "CR \<notin> set ?t" "LF \<notin> set ?t" using assms(1,3,4) by auto
  have plain: "push_inner ?t d fs = (Ok (), ?d, fs)"
    using push_inner_text [OF t assms(5), of fs] assms by simp
  have line: "line_text (?d\<lparr>frame_bytes := k\<rparr>) = ?t" for k
    using assms(1) by (auto simp: line_text_def BOM_def)
  have "utf8_valid ?t"
    using assms(1,2) by (auto intro!: utf8_valid_append simp del: append_Cons append_assoc
        simp: append_assoc [symmetric]) (simp_all add: utf8_valid_ascii byte_def)
  moreover have "split_field ?t = (field, val)"
    using assms(1) by (auto simp: split_field_def)
  moreover have "\<not> starts_with '':'' ?t" "?t \<noteq> []" using assms(1) by (auto simp: starts_with_def)
  ultimately have "process_line (?d\<lparr>frame_bytes := frame_bytes d + length ?t + 1\<rparr>) fs =
      (Ok (), apply_field field val (d\<lparr>frame_bytes := frame_bytes d + length ?t + 1,
         sd_line := [], at_stream_start := False\<rparr>), fs)"
    by (simp only: process_line_def line Let_def) simp
  then have "push_byte LF ?d fs =
      (Ok (), apply_field field val (d\<lparr>frame_bytes := frame_bytes d + length ?t + 1,
         sd_line := [], at_stream_start := False\<rparr>), fs)"
    using assms by (simp add: push_byte_def line_byte_def add_frame_bytes_def Let_def usize_sat_add_def)
  then show ?thesis
    using plain push_inner_append [of ?t "[LF]" d fs] by (simp add: add.assoc numeral_3_eq_3)
qed


lemma push_byte_dispatch:
  assumes "sd_line d = []" "\<not> at_stream_start d" "\<not> skip_lf d" "saw_data d"
    and "length fs < max_frames_per_push d"
  shows "push_byte LF d fs =
    (Ok (), d\<lparr>frame_bytes := 0, sd_event := None, sd_data := [], saw_data := False\<rparr>,
     fs @ [\<lparr>sf_event = sd_event d, sf_data = sd_data d\<rparr>])"
proof -
  have "line_text d = []" using assms by (simp add: line_text_def)
  then show ?thesis
    using assms by (simp add: push_byte_def line_byte_def process_line_dispatch)
qed

lemma push_inner_encoded:
  assumes d: "resting d" "max_frame_bytes d < usize_max" and fs: "length fs < max_frames_per_push d"
    and e: "encodable (max_frame_bytes d) (ev, json)"
  shows "push_inner (encode_sse ev json) d fs =
    (Ok (), d\<lparr>at_stream_start := False\<rparr>, fs @ [decoded (ev, json)])"
proof -
  have data: "push_inner (''data'' @ '': '' @ json @ [LF] @ [LF]) d1 fs =
      (Ok (), d\<lparr>at_stream_start := False\<rparr>, fs @ [\<lparr>sf_event = name, sf_data = json\<rparr>])"
    if "d1 = d\<lparr>frame_bytes := k, sd_event := name, at_stream_start := b\<rparr>"
      and "k + length json + 7 \<le> max_frame_bytes d" for d1 k name b
  proof -
    have "push_inner (''data'' @ '': '' @ json @ [LF]) d1 fs =
        (Ok (), d\<lparr>frame_bytes := k + length json + 7, sd_event := name, sd_data := json,
           saw_data := True, at_stream_start := False\<rparr>, fs)"
      using push_inner_field [of "''data''" json d1 fs] that d e
      by (cases d) (auto simp: resting_def encodable_def apply_field_def)
    moreover have "push_byte LF (d\<lparr>frame_bytes := k + length json + 7, sd_event := name,
          sd_data := json, saw_data := True, at_stream_start := False\<rparr>) fs =
        (Ok (), d\<lparr>at_stream_start := False\<rparr>, fs @ [\<lparr>sf_event = name, sf_data = json\<rparr>])"
      using d fs by (subst push_byte_dispatch) (cases d; auto simp: resting_def)+
    ultimately show ?thesis
      using push_inner_append [of "''data'' @ '': '' @ json @ [LF]" "[LF]" d1 fs] by simp
  qed
  show ?thesis
  proof (cases "sf_event (decoded (ev, json)) = None")
    case True
    then have "encode_sse ev json = ''data'' @ '': '' @ json @ [LF] @ [LF]"
      and dec: "decoded (ev, json) = \<lparr>sf_event = None, sf_data = json\<rparr>"
      by (auto simp: encode_sse_def decoded_def split: option.splits if_splits)
    moreover have "length json + 7 \<le> max_frame_bytes d"
      using e calculation(1) by (simp add: encodable_def)
    moreover have "d = d\<lparr>frame_bytes := 0, sd_event := None, at_stream_start := at_stream_start d\<rparr>"
      using d by (cases d) (simp add: resting_def)
    ultimately show ?thesis using data [where k = 0 and name = None and b = "at_stream_start d"] by simp
  next
    case False
    then obtain name where ev: "ev = Some name" and nl: "CR \<notin> set name" "LF \<notin> set name"
      by (auto simp: decoded_def split: option.splits if_splits)
    let ?d1 = "d\<lparr>frame_bytes := length name + 8, sd_event := Some name, at_stream_start := False\<rparr>"
    have enc: "encode_sse ev json =
        (''event'' @ '': '' @ name @ [LF]) @ (''data'' @ '': '' @ json @ [LF] @ [LF])"
      using ev nl by (simp add: encode_sse_def)
    have len: "length name + 8 + length json + 7 \<le> max_frame_bytes d"
      using e by (simp add: encodable_def enc)
    have first: "push_inner (''event'' @ '': '' @ name @ [LF]) d fs = (Ok (), ?d1, fs)"
      using push_inner_field [of "''event''" name d fs] d e len nl ev
      by (cases d) (auto simp: resting_def encodable_def apply_field_def)
    have "decoded (ev, json) = \<lparr>sf_event = Some name, sf_data = json\<rparr>"
      using ev nl by (simp add: decoded_def)
    then show ?thesis
      using data [where k = "length name + 8" and name = "Some name" and b = False, OF refl] len
      unfolding enc push_inner_then [OF first] by (simp del: push_inner.simps)
  qed
qed


lemma push_inner_encoded_all:
  assumes "resting d" "max_frame_bytes d < usize_max"
    and "length fs + length evs \<le> max_frames_per_push d"
    and "\<forall>e \<in> set evs. encodable (max_frame_bytes d) e"
  shows "push_inner (concat (map (\<lambda>(ev, json). encode_sse ev json) evs)) d fs =
    (Ok (), d\<lparr>at_stream_start := at_stream_start d \<and> evs = []\<rparr>, fs @ map decoded evs)"
  using assms
proof (induction evs arbitrary: d fs)
  case (Cons e evs)
  obtain ev json where e: "e = (ev, json)" by (cases e)
  let ?d = "d\<lparr>at_stream_start := False\<rparr>"
  have "push_inner (encode_sse ev json) d fs = (Ok (), ?d, fs @ [decoded e])"
    using push_inner_encoded [of d fs ev json] Cons.prems by (simp add: e)
  moreover have "resting ?d" using Cons.prems(1) by (simp add: resting_def)
  ultimately show ?case
    using Cons.IH [of ?d "fs @ [decoded e]"] Cons.prems
    by (simp add: push_inner_append e)
qed simp

lemma with_limits_resting: "resting (with_limits m n)"
  by (simp add: resting_def with_limits_def)

subsection \<open>Properties\<close>

text \<open>
  C18. Chunking does not matter: whatever chunks the network delivers, the decoder produces the
  same frames and ends in the same state as on the whole stream at once, as long as the whole
  stream has no more frames than one push may return.
\<close>

theorem sse_chunking:
  assumes "\<not> failed d" "length fs \<le> max_frames_per_push d"
  shows "push_all cs d = (Ok fs, d') \<longleftrightarrow> push (concat cs) d = (Ok fs, d')"
  by (rule push_all_concat [OF assms])

theorem sse_chunking_witness:
  "push_all [''da'', ''ta: a'' @ [CR], [LF], [LF]] (with_limits 64 4) =
     push (''data: a'' @ [CR, LF, LF]) (with_limits 64 4)
   \<and> fst (push (''data: a'' @ [CR, LF, LF]) (with_limits 64 4)) =
       Ok [\<lparr>sf_event = None, sf_data = ''a''\<rparr>]"
proof -
  let ?s = "''data: a'' @ [CR, LF, LF]"
  have whole: "fst (push ?s (with_limits 64 4)) = Ok [\<lparr>sf_event = None, sf_data = ''a''\<rparr>]"
    by (simp add: push_def push_byte_def line_byte_def process_line_def add_frame_bytes_def Let_def
        with_limits_def usize_sat_add_def usize_max_def line_text_def BOM_def split_field_def
        apply_field_def starts_with_def utf8_valid_def utf8_next_def byte_def)
  then obtain d' where d': "push ?s (with_limits 64 4) = (Ok [\<lparr>sf_event = None, sf_data = ''a''\<rparr>], d')"
    by (cases "push ?s (with_limits 64 4)") simp
  have "push_all [''da'', ''ta: a'' @ [CR], [LF], [LF]] (with_limits 64 4) =
      (Ok [\<lparr>sf_event = None, sf_data = ''a''\<rparr>], d')"
    by (subst sse_chunking) (use d' in \<open>simp_all add: with_limits_def\<close>)
  then show ?thesis using d' whole by simp
qed

text \<open>
  C33. The decoder is bounded: over any sequence of pushes and finishes, what it buffers (line,
  data and event name together) never exceeds the frame limit, even while it refuses input, and no
  frame it returns does.
\<close>

theorem sse_bounded:
  assumes "m < usize_max"
  shows "(let d = exec run_sse_op (with_limits m n) ops in
      length (sd_line d) + length (sd_data d)
        + (case sd_event d of None \<Rightarrow> 0 | Some e \<Rightarrow> length e) \<le> m)
    \<and> (\<forall>cs fs d. push_all cs (with_limits m n) = (Ok fs, d) \<longrightarrow>
        (\<forall>f \<in> set fs. length (sf_data f)
           + (case sf_event f of None \<Rightarrow> 0 | Some e \<Rightarrow> length e) \<le> m))"
proof -
  have "sse_inv m (exec run_sse_op (with_limits m n) ops)"
    using sse_machine.inv_exec [of m "with_limits m n" ops] assms with_limits_inv by blast
  then have "length (sd_line (exec run_sse_op (with_limits m n) ops))
      + length (sd_data (exec run_sse_op (with_limits m n) ops))
      + event_length (exec run_sse_op (with_limits m n) ops) \<le> m"
    by (simp add: sse_inv_def paid_def)
  then show ?thesis
    using push_all_bounded [OF with_limits_inv assms]
    by (auto simp: Let_def event_length_def frame_length_def)
qed

theorem sse_bounded_witness:
  "let d = exec run_sse_op (with_limits 1024 8) [Push ''data: a'', Finish] in
     length (sd_line d) + length (sd_data d)
       + (case sd_event d of None \<Rightarrow> 0 | Some e \<Rightarrow> length e) \<le> 1024"
  using sse_bounded [of 1024 8 "[Push ''data: a'', Finish]"] by (simp add: usize_max_def Let_def)

lemma push_all_encoded:
  assumes "concat cs = concat (map (\<lambda>(ev, json). encode_sse ev json) evs)"
    and "\<forall>e \<in> set evs. encodable m e" "length evs \<le> n" "m < usize_max"
  shows "\<exists>d. push_all cs (with_limits m n) = (Ok (map decoded evs), d) \<and> fst (finish d) = Ok []"
proof -
  let ?d = "with_limits m n"
  let ?d' = "?d\<lparr>at_stream_start := at_stream_start ?d \<and> evs = []\<rparr>"
  have m: "max_frame_bytes ?d = m" "max_frames_per_push ?d = n" "\<not> failed ?d"
    by (simp_all add: with_limits_def)
  have "push (concat cs) ?d = (Ok (map decoded evs), ?d')"
    using push_inner_encoded_all [OF with_limits_resting, of m n "[]" evs] assms m
    by (simp add: push_Ok_iff)
  then have "push_all cs ?d = (Ok (map decoded evs), ?d')"
    using push_all_concat [of ?d "map decoded evs" cs] m assms(3) by simp
  moreover have "fst (finish ?d') = Ok []" by (simp add: finish_def with_limits_def)
  ultimately show ?thesis by blast
qed

text \<open>
  C22. Round trip. Events encoded by \<open>encode_sse\<close> and sent in any chunks are decoded, in order, to
  exactly their names and data, and the stream then finishes without error. The hypotheses are
  that the serialised data is UTF-8 without raw line breaks (as JSON is) and that the events fit
  the limits. A name with a line break is left out by the encoder.
\<close>

theorem sse_roundtrip:
  assumes "concat cs = concat (map (\<lambda>(ev, json). encode_sse ev json) evs)"
    and "\<forall>e \<in> set evs. encodable m e" "length evs \<le> n" "m < usize_max"
  shows "\<exists>d. push_all cs (with_limits m n) = (Ok (map decoded evs), d) \<and> fst (finish d) = Ok []"
  using assms by (rule push_all_encoded)

theorem sse_roundtrip_witness:
  "\<exists>d. push_all [''event: x'', LF # ''data: 1'', [LF], [LF]] (with_limits 64 4) =
      (Ok [\<lparr>sf_event = Some ''x'', sf_data = ''1''\<rparr>], d) \<and> fst (finish d) = Ok []"
  using sse_roundtrip [of "[''event: x'', LF # ''data: 1'', [LF], [LF]]" "[(Some ''x'', ''1'')]" 64 4]
  by (simp add: encode_sse_def encodable_def decoded_def usize_max_def utf8_valid_def utf8_next_def
      byte_def)

text \<open>
  A stream of a byte order mark and an empty line ends well with a line feed, but not with
  CRLF: the mark makes the first line non-empty, so the line feed of its CRLF is counted into the
  frame after the empty line has reset it, and \<open>finish\<close> takes the stream for unterminated.
\<close>

lemma sse_bom_crlf:
  assumes "3 < m" "m < usize_max"
  shows "fst (finish (snd (push (BOM @ [LF]) (with_limits m n)))) = Ok []
    \<and> fst (finish (snd (push (BOM @ [CR, LF]) (with_limits m n)))) = Err UnexpectedEof"
  using assms
  by (simp add: push_def push_byte_def line_byte_def process_line_def add_frame_bytes_def Let_def
      with_limits_def usize_sat_add_def line_text_def BOM_def utf8_valid_def finish_def)

end
