(* ===== verification/Secret_Store.thy ===== *)
theory Secret_Store
  imports Core_Config Ordered_Map
begin

text \<open>
  Secret references, \<open>crates/wokcore-core/src/secret.rs\<close>, and the secret stores of
  \<open>crates/wokcore-storage/src/secrets\<close>: the trait with its default methods, the in-memory store,
  the read-only store over an environment variable and the one over a file with restricted
  permissions (on Unix). The locale \<open>secret_store\<close> is the contract the server relies on. SHA-256,
  the UUID parser and printer are arguments; a fresh random reference is an argument of \<open>put\<close>.
\<close>

subsection \<open>Errors of the storage crate\<close>

text \<open>Messages and sources, which no code inspects, are left out.\<close>

datatype storage_error =
    RevisionConflict u64 u64
  | InvalidConfig
  | SerializeConfig
  | StorageIo
  | StateDatabaseCorrupt
  | StateDatabase
  | RuntimeSecretBindingConflict u64
  | InvalidStateRecord
  | StableRecordConflict
  | SessionBatchLimitExceeded
  | CandidateStateConflict
  | StalePageKey
  | StateWriterUnavailable
  | ReplaySignatureLimitExceeded
  | SecretNotFound
  | SecretAlreadyExists
  | SecretBackendUnavailable
  | SecretBackendPlatformFailure
  | SecretBackendFailure
  | ReadOnlySecretStore
  | InvalidHeadlessSecretStoreConfig
  | InsecureSecretFilePermissions
  | InvalidSecretEncoding
  | SecretTooLarge

subsection \<open>References and scopes\<close>

datatype invalid_secret_ref = InvalidSecretRef

datatype secret_purpose = PurposeApiKey | OAuthAccess | OAuthRefresh | LanToken | Auxiliary

record secret_scope =
  scope_provider_id :: provider_id
  scope_account_id :: "account_id option"
  scope_purpose :: secret_purpose

definition SECRET_REF_PREFIX :: string where
  "SECRET_REF_PREFIX = ''secret:''"

definition secret_ref_new :: "string \<Rightarrow> secret_ref" where
  "secret_ref_new uuid = SECRET_REF_PREFIX @ uuid"

definition secret_ref_parse :: "(string \<Rightarrow> bool) \<Rightarrow> string \<Rightarrow> invalid_secret_ref + secret_ref" where
  "secret_ref_parse is_uuid v =
     (case strip_prefix SECRET_REF_PREFIX v of
        None \<Rightarrow> Err InvalidSecretRef
      | Some identifier \<Rightarrow> if is_uuid identifier then Ok v else Err InvalidSecretRef)"

fun secret_purpose_code :: "secret_purpose \<Rightarrow> char" where
  "secret_purpose_code PurposeApiKey = CHR 0x01"
| "secret_purpose_code OAuthAccess = CHR 0x02"
| "secret_purpose_code OAuthRefresh = CHR 0x03"
| "secret_purpose_code LanToken = CHR 0x04"
| "secret_purpose_code Auxiliary = CHR 0x05"

definition scope_preimage :: "secret_scope \<Rightarrow> string" where
  "scope_preimage sc =
     ''wokcore.provider-secret-scope.v1'' @ [CHR 0x00] @ provider_str (scope_provider_id sc) @ [CHR 0x00]
     @ (case scope_account_id sc of
          Some a \<Rightarrow> CHR 0x01 # account_str a
        | None \<Rightarrow> [CHR 0x00])
     @ [CHR 0x00, secret_purpose_code (scope_purpose sc)]"

text \<open>The version and variant bits of a custom UUID, over the first half of the hash.\<close>

definition stamp_uuid :: "string \<Rightarrow> string" where
  "stamp_uuid bytes =
     (let b = bytes[6 := char_of (byte (bytes ! 6) mod 16 + 128)]
      in b[8 := char_of (byte (b ! 8) mod 64 + 128)])"

definition secret_ref_for_scope ::
  "(string \<Rightarrow> string) \<Rightarrow> (string \<Rightarrow> string) \<Rightarrow> secret_scope \<Rightarrow> secret_ref" where
  "secret_ref_for_scope sha256 print_uuid sc =
     SECRET_REF_PREFIX @ print_uuid (stamp_uuid (take 16 (sha256 (scope_preimage sc))))"

subsection \<open>The contract\<close>

text \<open>
  \<open>put\<close> is given the random reference it may use. What a successful \<open>put\<close> or \<open>replace\<close> stored is
  what \<open>get\<close> returns, no operation touches another reference, and a failed operation changes
  nothing.
\<close>

locale secret_store =
  fixes inv :: "'s \<Rightarrow> bool"
    and get :: "secret_ref \<Rightarrow> 's \<Rightarrow> storage_error + string"
    and put :: "secret_ref \<Rightarrow> secret_scope \<Rightarrow> string \<Rightarrow> 's \<Rightarrow> (storage_error + secret_ref) \<times> 's"
    and replace :: "secret_ref \<Rightarrow> string \<Rightarrow> 's \<Rightarrow> (storage_error + unit) \<times> 's"
    and delete :: "secret_ref \<Rightarrow> 's \<Rightarrow> (storage_error + unit) \<times> 's"
  assumes put_inv: "inv s \<Longrightarrow> inv (snd (put r sc v s))"
    and put_get: "inv s \<Longrightarrow> put r sc v s = (Ok r', s') \<Longrightarrow> r' = r \<and> get r s' = Ok v"
    and put_other: "inv s \<Longrightarrow> r' \<noteq> r \<Longrightarrow> get r' (snd (put r sc v s)) = get r' s"
    and put_err: "put r sc v s = (Err e, s') \<Longrightarrow> s' = s"
    and replace_inv: "inv s \<Longrightarrow> inv (snd (replace r v s))"
    and replace_get: "inv s \<Longrightarrow> replace r v s = (Ok (), s') \<Longrightarrow> get r s' = Ok v"
    and replace_other: "inv s \<Longrightarrow> r' \<noteq> r \<Longrightarrow> get r' (snd (replace r v s)) = get r' s"
    and replace_err: "replace r v s = (Err e, s') \<Longrightarrow> s' = s"
    and delete_inv: "inv s \<Longrightarrow> inv (snd (delete r s))"
    and delete_get: "inv s \<Longrightarrow> delete r s = (Ok (), s') \<Longrightarrow> get r s' = Err SecretNotFound"
    and delete_other: "inv s \<Longrightarrow> r' \<noteq> r \<Longrightarrow> get r' (snd (delete r s)) = get r' s"
    and delete_err: "delete r s = (Err e, s') \<Longrightarrow> s' = s"
begin

text \<open>A stored secret survives every operation on other references.\<close>

lemma stored_stays:
  assumes "inv s" "get r s = Ok v" "r' \<noteq> r"
  shows "get r (snd (put r' sc w s)) = Ok v"
    and "get r (snd (replace r' w s)) = Ok v"
    and "get r (snd (delete r' s)) = Ok v"
  using assms put_other replace_other delete_other by simp_all

lemma put_delete_gone:
  assumes "inv s" "put r sc v s = (Ok r', s1)" "delete r' s1 = (Ok (), s2)"
  shows "get r s2 = Err SecretNotFound"
  using put_get [OF assms(1,2)] put_inv [OF assms(1), of r sc v] assms(2) delete_get [OF _ assms(3)]
  by simp

end

subsection \<open>The in-memory store\<close>

type_synonym memory_secrets = "(secret_ref, string) btree"

definition memory_put ::
  "secret_ref \<Rightarrow> secret_scope \<Rightarrow> string \<Rightarrow> memory_secrets
     \<Rightarrow> (storage_error + secret_ref) \<times> memory_secrets" where
  "memory_put fresh sc v s = (Ok fresh, bt_insert fresh v s)"

definition memory_get :: "secret_ref \<Rightarrow> memory_secrets \<Rightarrow> storage_error + string" where
  "memory_get r s = ok_or (bt_get s r) SecretNotFound"

definition memory_put_scoped ::
  "(string \<Rightarrow> string) \<Rightarrow> (string \<Rightarrow> string) \<Rightarrow> secret_scope \<Rightarrow> string \<Rightarrow> memory_secrets
     \<Rightarrow> (storage_error + secret_ref) \<times> memory_secrets" where
  "memory_put_scoped sha256 print_uuid sc v s =
     (let r = secret_ref_for_scope sha256 print_uuid sc in
      case bt_get s r of
        Some existing \<Rightarrow> if existing = v then (Ok r, s) else (Err SecretAlreadyExists, s)
      | None \<Rightarrow> (Ok r, bt_insert r v s))"

definition memory_replace ::
  "secret_ref \<Rightarrow> string \<Rightarrow> memory_secrets \<Rightarrow> (storage_error + unit) \<times> memory_secrets" where
  "memory_replace r v s =
     (case bt_get s r of
        None \<Rightarrow> (Err SecretNotFound, s)
      | Some _ \<Rightarrow> (Ok (), bt_modify r (\<lambda>_. v) s))"

definition memory_delete ::
  "secret_ref \<Rightarrow> memory_secrets \<Rightarrow> (storage_error + unit) \<times> memory_secrets" where
  "memory_delete r s = (Ok (), bt_remove r s)"


interpretation memory_store: secret_store bt_wf memory_get memory_put memory_replace memory_delete
  by unfold_locales
    (auto simp: memory_get_def memory_put_def memory_replace_def memory_delete_def ok_or_def
      bt.get_insert bt_get_modify bt_get_remove split: option.splits)

subsection \<open>Read-only stores\<close>

text \<open>
  The defaults of the trait refuse to write. The environment store serves one reference from a
  variable; the process environment is the argument \<open>var\<close>.
\<close>

definition MAX_HEADLESS_SECRET_BYTES :: nat where
  "MAX_HEADLESS_SECRET_BYTES = 64 * 1024"

datatype headless_config =
    Environment (headless_ref: secret_ref) (variable_name: string)
  | PermissionedFile (headless_ref: secret_ref) (headless_path: string)

record headless_store =
  hs_secret_ref :: secret_ref
  hs_location :: string

definition default_put ::
  "secret_ref \<Rightarrow> secret_scope \<Rightarrow> string \<Rightarrow> 's \<Rightarrow> (storage_error + secret_ref) \<times> 's" where
  "default_put fresh sc v s = (Err ReadOnlySecretStore, s)"

definition default_replace :: "secret_ref \<Rightarrow> string \<Rightarrow> 's \<Rightarrow> (storage_error + unit) \<times> 's" where
  "default_replace r v s = (Err ReadOnlySecretStore, s)"

definition environment_from_config :: "headless_config \<Rightarrow> storage_error + headless_store" where
  "environment_from_config c =
     (case c of
        Environment r name \<Rightarrow>
          if name = [] \<or> CHR ''='' \<in> set name \<or> CHR 0x00 \<in> set name
          then Err InvalidHeadlessSecretStoreConfig
          else Ok \<lparr>hs_secret_ref = r, hs_location = name\<rparr>
      | PermissionedFile _ _ \<Rightarrow> Err InvalidHeadlessSecretStoreConfig)"

definition secret_from_os_string :: "string \<Rightarrow> storage_error + string" where
  "secret_from_os_string v =
     (if MAX_HEADLESS_SECRET_BYTES < length v then Err SecretTooLarge
      else if utf8_valid v then Ok v else Err InvalidSecretEncoding)"

definition environment_get ::
  "(string \<Rightarrow> string option) \<Rightarrow> secret_ref \<Rightarrow> headless_store \<Rightarrow> storage_error + string" where
  "environment_get var r s =
     (if r \<noteq> hs_secret_ref s then Err SecretNotFound
      else and_then (ok_or (var (hs_location s)) SecretNotFound) secret_from_os_string)"

definition headless_delete ::
  "secret_ref \<Rightarrow> headless_store \<Rightarrow> (storage_error + unit) \<times> headless_store" where
  "headless_delete r s =
     (if r \<noteq> hs_secret_ref s then (Err SecretNotFound, s) else (Err ReadOnlySecretStore, s))"

interpretation environment_store: secret_store "\<lambda>_. True" "environment_get var" default_put
    default_replace headless_delete for var
  by unfold_locales
    (auto simp: default_put_def default_replace_def headless_delete_def split: if_splits)

text \<open>A file as the store finds it when it opens the path.\<close>

record secret_file =
  file_regular :: bool
  file_uid :: nat
  file_mode :: "32 word"
  file_len :: nat
  file_read :: "string option"

definition permissioned_file_from_config :: "headless_config \<Rightarrow> storage_error + headless_store" where
  "permissioned_file_from_config c =
     (case c of
        PermissionedFile r path \<Rightarrow>
          if path = [] then Err InvalidHeadlessSecretStoreConfig
          else Ok \<lparr>hs_secret_ref = r, hs_location = path\<rparr>
      | Environment _ _ \<Rightarrow> Err InvalidHeadlessSecretStoreConfig)"

definition verify_regular_file_type :: "secret_file \<Rightarrow> storage_error + unit" where
  "verify_regular_file_type f =
     (if \<not> file_regular f then Err InsecureSecretFilePermissions else Ok ())"

definition verify_unix_metadata :: "nat \<Rightarrow> secret_file \<Rightarrow> storage_error + unit" where
  "verify_unix_metadata effective_uid f =
     (if file_uid f \<noteq> effective_uid \<or> and (file_mode f) 0xE7F \<noteq> 0
      then Err InsecureSecretFilePermissions else Ok ())"

definition read_bounded_secret :: "string option \<Rightarrow> storage_error + string" where
  "read_bounded_secret contents =
     (case map_option (take (MAX_HEADLESS_SECRET_BYTES + 1)) contents of
        None \<Rightarrow> Err StorageIo
      | Some bytes \<Rightarrow>
          if MAX_HEADLESS_SECRET_BYTES < length bytes then Err SecretTooLarge
          else if utf8_valid bytes then Ok bytes else Err InvalidSecretEncoding)"

definition read_regular_file_contents :: "secret_file \<Rightarrow> storage_error + string" where
  "read_regular_file_contents f =
     (if MAX_HEADLESS_SECRET_BYTES < file_len f then Err SecretTooLarge
      else read_bounded_secret (file_read f))"

definition read_secret_file ::
  "nat \<Rightarrow> (string \<Rightarrow> secret_file option) \<Rightarrow> string \<Rightarrow> storage_error + string" where
  "read_secret_file effective_uid open_file path =
     and_then (ok_or (open_file path) StorageIo) (\<lambda>f.
       and_then (verify_regular_file_type f) (\<lambda>_.
         and_then (verify_unix_metadata effective_uid f) (\<lambda>_.
           read_regular_file_contents f)))"

definition permissioned_file_get ::
  "nat \<Rightarrow> (string \<Rightarrow> secret_file option) \<Rightarrow> secret_ref \<Rightarrow> headless_store \<Rightarrow> storage_error + string" where
  "permissioned_file_get effective_uid open_file r s =
     (if r \<noteq> hs_secret_ref s then Err SecretNotFound
      else read_secret_file effective_uid open_file (hs_location s))"

interpretation file_store: secret_store "\<lambda>_. True" "permissioned_file_get uid open_file" default_put
    default_replace headless_delete for uid open_file
  by unfold_locales
    (auto simp: default_put_def default_replace_def headless_delete_def split: if_splits)

subsection \<open>Lemmas\<close>

lemma permissioned_file_get_ok:
  assumes "permissioned_file_get uid open_file r s = Ok v"
  shows "\<exists>f. r = hs_secret_ref s \<and> open_file (hs_location s) = Some f \<and> file_regular f
    \<and> file_uid f = uid \<and> and (file_mode f) 0xE7F = 0 \<and> file_read f = Some v
    \<and> length v \<le> MAX_HEADLESS_SECRET_BYTES \<and> utf8_valid v"
  using assms
  by (auto simp: permissioned_file_get_def read_secret_file_def verify_regular_file_type_def
      verify_unix_metadata_def read_regular_file_contents_def read_bounded_secret_def and_then_eq_Ok
      ok_or_eq_Ok split: if_splits option.splits)

lemma identifier_no_nul: "is_valid_identifier v \<Longrightarrow> CHR 0x00 \<notin> set v"
  by (auto simp: is_valid_identifier_def list_all_iff is_identifier_byte_def is_ascii_lowercase_def
      is_ascii_digit_def byte_def dest!: bspec)

lemma nul_split:
  assumes "CHR 0x00 \<notin> set a" "CHR 0x00 \<notin> set b" "a @ CHR 0x00 # s = b @ CHR 0x00 # t"
  shows "a = b \<and> s = t"
proof -
  have "takeWhile (\<lambda>c. c \<noteq> CHR 0x00) (xs @ CHR 0x00 # ys) = xs" if "CHR 0x00 \<notin> set xs" for xs ys
    using that by (subst takeWhile_append2) auto
  from this [of a s] this [of b t] assms have "a = b" by simp
  with assms(3) show ?thesis by simp
qed

lemma secret_purpose_code_inject: "secret_purpose_code p = secret_purpose_code q \<longleftrightarrow> p = q"
  by (cases p; cases q) simp_all

text \<open>Different scopes are hashed from different bytes.\<close>

lemma scope_preimage_inject:
  assumes "is_valid_identifier (provider_str (scope_provider_id a))"
    and "is_valid_identifier (provider_str (scope_provider_id b))"
    and "\<And>x. scope_account_id a = Some x \<Longrightarrow> is_valid_identifier (account_str x)"
    and "\<And>x. scope_account_id b = Some x \<Longrightarrow> is_valid_identifier (account_str x)"
    and eq: "scope_preimage a = scope_preimage b"
  shows "a = b"
proof -
  let ?rest = "\<lambda>sc. (case scope_account_id sc of Some x \<Rightarrow> CHR 0x01 # account_str x | None \<Rightarrow> [CHR 0x00])
      @ [CHR 0x00, secret_purpose_code (scope_purpose sc)]"
  have "provider_str (scope_provider_id a) @ CHR 0x00 # ?rest a =
      provider_str (scope_provider_id b) @ CHR 0x00 # ?rest b"
    using eq by (simp add: scope_preimage_def)
  then have p: "provider_str (scope_provider_id a) = provider_str (scope_provider_id b)"
    and r: "?rest a = ?rest b"
    using nul_split assms(1,2) identifier_no_nul by blast+
  have "scope_account_id a = scope_account_id b \<and> scope_purpose a = scope_purpose b"
  proof (cases "scope_account_id a"; cases "scope_account_id b")
    fix x y assume xy: "scope_account_id a = Some x" "scope_account_id b = Some y"
    then have "account_str x @ CHR 0x00 # [secret_purpose_code (scope_purpose a)] =
        account_str y @ CHR 0x00 # [secret_purpose_code (scope_purpose b)]"
      using r by simp
    moreover have "CHR 0x00 \<notin> set (account_str x)" "CHR 0x00 \<notin> set (account_str y)"
      using assms(3,4) xy identifier_no_nul by blast+
    ultimately have "account_str x = account_str y"
      "[secret_purpose_code (scope_purpose a)] = [secret_purpose_code (scope_purpose b)]"
      using nul_split by blast+
    then show ?thesis using xy account_id.expand [of x y] by (simp add: secret_purpose_code_inject)
  qed (use r in \<open>auto simp: secret_purpose_code_inject\<close>)
  then show ?thesis using provider_id.expand [OF p] by (cases a; cases b) simp
qed

text \<open>A repeated \<open>put_scoped\<close> is idempotent, and never overwrites another secret.\<close>

lemma put_scoped_keeps:
  assumes "bt_wf s" "memory_put_scoped sha256 print_uuid sc v s = (res, s')"
  shows "(\<forall>r w. memory_get r s = Ok w \<longrightarrow> memory_get r s' = Ok w)
    \<and> (\<forall>r. res = Ok r \<longrightarrow> memory_get r s' = Ok v)
    \<and> (res = Err SecretAlreadyExists \<longleftrightarrow>
         (\<exists>w. memory_get (secret_ref_for_scope sha256 print_uuid sc) s = Ok w \<and> w \<noteq> v))"
  using assms
  by (auto simp: memory_put_scoped_def memory_get_def ok_or_def bt.get_insert Let_def
      split: option.splits if_splits)

end
