(* ===== verification/Client_Tokens.thy ===== *)
theory Client_Tokens
  imports Secret_Store
begin

text \<open>
  Client tokens and runtime bindings in the state database,
  \<open>crates/wokcore-storage/src/state/store.rs\<close>. A table is its list of rows; the constraints of
  the schema (\<open>migrations/0002\<close>, \<open>0003\<close>, \<open>0005\<close>) are checks of the insertions. SQLite itself may
  fail at any statement: an operation takes the failure, if any, as an argument, and a failed
  transaction leaves the tables as they were, which is SQLite's documented atomicity.
\<close>

subsection \<open>Scopes\<close>

datatype client_token_scope =
    ProxyUse
  | SessionsRead
  | UsageRead
  | DiagnosticsRead
  | DiagnosticsExport
  | ServiceRead
  | ServiceControl
  | ProvidersRead
  | ProvidersWrite
  | ClientsManage

fun scope_as_str :: "client_token_scope \<Rightarrow> string" where
  "scope_as_str ProxyUse = ''proxy.use''"
| "scope_as_str SessionsRead = ''sessions.read''"
| "scope_as_str UsageRead = ''usage.read''"
| "scope_as_str DiagnosticsRead = ''diagnostics.read''"
| "scope_as_str DiagnosticsExport = ''diagnostics.export''"
| "scope_as_str ServiceRead = ''service.read''"
| "scope_as_str ServiceControl = ''service.control''"
| "scope_as_str ProvidersRead = ''providers.read''"
| "scope_as_str ProvidersWrite = ''providers.write''"
| "scope_as_str ClientsManage = ''clients.manage''"

fun scope_index :: "client_token_scope \<Rightarrow> nat" where
  "scope_index ProxyUse = 0"
| "scope_index SessionsRead = 1"
| "scope_index UsageRead = 2"
| "scope_index DiagnosticsRead = 3"
| "scope_index DiagnosticsExport = 4"
| "scope_index ServiceRead = 5"
| "scope_index ServiceControl = 6"
| "scope_index ProvidersRead = 7"
| "scope_index ProvidersWrite = 8"
| "scope_index ClientsManage = 9"

definition all_scopes :: "client_token_scope list" where
  "all_scopes =
     [ProxyUse, SessionsRead, UsageRead, DiagnosticsRead, DiagnosticsExport, ServiceRead,
      ServiceControl, ProvidersRead, ProvidersWrite, ClientsManage]"

text \<open>\<open>from_str\<close> matches the ten literals in turn.\<close>

definition scope_from_str :: "string \<Rightarrow> client_token_scope option" where
  "scope_from_str v = find (\<lambda>sc. scope_as_str sc = v) all_scopes"

instantiation client_token_scope :: linorder
begin

definition less_eq_client_token_scope :: "client_token_scope \<Rightarrow> client_token_scope \<Rightarrow> bool" where
  "less_eq_client_token_scope a b = (scope_index a \<le> scope_index b)"

definition less_client_token_scope :: "client_token_scope \<Rightarrow> client_token_scope \<Rightarrow> bool" where
  "less_client_token_scope a b = (scope_index a < scope_index b)"

lemma scope_index_inject: "scope_index a = scope_index b \<longleftrightarrow> a = b"
  by (cases a; cases b) simp_all

instance
  by standard
    (auto simp: less_eq_client_token_scope_def less_client_token_scope_def
      simp flip: scope_index_inject)

end

subsection \<open>Tables\<close>

record client_token_metadata =
  ct_token_id :: string
  ct_client_id :: client_id
  ct_digest :: string
  ct_issued_at :: string

record scoped_client_token =
  st_token :: client_token_metadata
  st_scopes :: "client_token_scope list"

record runtime_secret_binding =
  rb_name :: string
  rb_secret_ref :: secret_ref
  rb_revision :: u64
  rb_created_at :: string

record token_row =
  row_token_id :: string
  row_client_id :: string
  row_digest :: string
  row_issued_at :: string
  row_revoked_at :: "string option"

record binding_row =
  brow_name :: string
  brow_secret_ref :: string
  brow_revision :: int
  brow_created_at :: string

record auth_db =
  client_tokens :: "token_row list"
  client_token_scopes :: "(string \<times> string) list"
  runtime_secret_bindings :: "binding_row list"
  orphan_secrets :: "(string \<times> string) list"

definition empty_auth_db :: auth_db where
  "empty_auth_db =
     \<lparr>client_tokens = [], client_token_scopes = [], runtime_secret_bindings = [], orphan_secrets = []\<rparr>"

subsection \<open>Runtime secret bindings\<close>

definition u64_try_from :: "int \<Rightarrow> u64 option" where
  "u64_try_from i = (if 0 \<le> i then Some (word_of_int i) else None)"

definition query_runtime_secret_binding ::
  "(string \<Rightarrow> bool) \<Rightarrow> storage_error option \<Rightarrow> string \<Rightarrow> auth_db
     \<Rightarrow> storage_error + runtime_secret_binding option" where
  "query_runtime_secret_binding is_uuid fault name db =
     (case fault of
        Some e \<Rightarrow> Err e
      | None \<Rightarrow>
          (case find (\<lambda>b. brow_name b = name) (runtime_secret_bindings db) of
             None \<Rightarrow> Ok None
           | Some b \<Rightarrow>
               and_then (map_err (\<lambda>_. StateDatabaseCorrupt) (secret_ref_parse is_uuid (brow_secret_ref b)))
                 (\<lambda>r. and_then (ok_or (u64_try_from (brow_revision b)) StateDatabaseCorrupt)
                   (\<lambda>revision. Ok (Some \<lparr>rb_name = brow_name b, rb_secret_ref = r,
                      rb_revision = revision, rb_created_at = brow_created_at b\<rparr>)))))"

definition bind_runtime_secret_if_absent ::
  "storage_error option \<Rightarrow> string \<Rightarrow> secret_ref \<Rightarrow> string \<Rightarrow> auth_db
     \<Rightarrow> (storage_error + runtime_secret_binding) \<times> auth_db" where
  "bind_runtime_secret_if_absent fault name r created_at db =
     (case fault of
        Some e \<Rightarrow> (Err e, db)
      | None \<Rightarrow>
          (case find (\<lambda>b. brow_name b = name) (runtime_secret_bindings db) of
             Some b \<Rightarrow>
               (case u64_try_from (brow_revision b) of
                  None \<Rightarrow> (Err StateDatabaseCorrupt, db)
                | Some actual \<Rightarrow> (Err (RuntimeSecretBindingConflict actual), db))
           | None \<Rightarrow>
               (Ok \<lparr>rb_name = name, rb_secret_ref = r, rb_revision = 1, rb_created_at = created_at\<rparr>,
                db\<lparr>runtime_secret_bindings := runtime_secret_bindings db
                     @ [\<lparr>brow_name = name, brow_secret_ref = r, brow_revision = 1,
                         brow_created_at = created_at\<rparr>]\<rparr>)))"

definition record_orphan_secret ::
  "storage_error option \<Rightarrow> secret_ref \<Rightarrow> string \<Rightarrow> auth_db \<Rightarrow> (storage_error + unit) \<times> auth_db" where
  "record_orphan_secret fault r created_at db =
     (case fault of
        Some e \<Rightarrow> (Err e, db)
      | None \<Rightarrow>
          (Ok (),
           db\<lparr>orphan_secrets :=
             (if r \<in> fst ` set (orphan_secrets db)
              then map (\<lambda>(r', at). (r', if r' = r then created_at else at)) (orphan_secrets db)
              else orphan_secrets db @ [(r, created_at)])\<rparr>))"

definition orphan_secret_refs ::
  "(string \<Rightarrow> bool) \<Rightarrow> storage_error option \<Rightarrow> auth_db \<Rightarrow> storage_error + secret_ref list" where
  "orphan_secret_refs is_uuid fault db =
     (case fault of
        Some e \<Rightarrow> Err e
      | None \<Rightarrow>
          try_map (\<lambda>r. map_err (\<lambda>_. StateDatabaseCorrupt) (secret_ref_parse is_uuid r))
            (sort (map fst (orphan_secrets db))))"

subsection \<open>Client tokens\<close>

text \<open>The loop over the array \<open>seen\<close>.\<close>

fun scopes_unique :: "bool list \<Rightarrow> client_token_scope list \<Rightarrow> bool" where
  "scopes_unique seen [] = True"
| "scopes_unique seen (sc # scs) =
     (if seen ! scope_index sc then False
      else scopes_unique (seen[scope_index sc := True]) scs)"

definition issue_client_token_with_scopes ::
  "storage_error option \<Rightarrow> client_token_metadata \<Rightarrow> client_token_scope list \<Rightarrow> auth_db
     \<Rightarrow> (storage_error + unit) \<times> auth_db" where
  "issue_client_token_with_scopes fault tok scopes db =
     (if scopes = [] then (Err InvalidStateRecord, db)
      else if \<not> scopes_unique (replicate 10 False) scopes then (Err InvalidStateRecord, db)
      else (case fault of
          Some e \<Rightarrow> (Err e, db)
        | None \<Rightarrow>
            if ct_token_id tok \<in> row_token_id ` set (client_tokens db)
               \<or> ct_digest tok \<in> row_digest ` set (client_tokens db)
               \<or> length (ct_digest tok) \<noteq> 32
               \<or> (\<exists>sc \<in> set scopes. (ct_token_id tok, scope_as_str sc) \<in> set (client_token_scopes db))
            then (Err StateDatabase, db)
            else
              (Ok (),
               db\<lparr>client_tokens := client_tokens db
                    @ [\<lparr>row_token_id = ct_token_id tok, row_client_id = client_str (ct_client_id tok),
                        row_digest = ct_digest tok, row_issued_at = ct_issued_at tok,
                        row_revoked_at = None\<rparr>],
                  client_token_scopes := client_token_scopes db
                    @ map (\<lambda>sc. (ct_token_id tok, scope_as_str sc)) scopes\<rparr>)))"

definition issue_client_token ::
  "storage_error option \<Rightarrow> client_token_metadata \<Rightarrow> auth_db \<Rightarrow> (storage_error + unit) \<times> auth_db" where
  "issue_client_token fault tok db = issue_client_token_with_scopes fault tok [ProxyUse] db"

definition revocable :: "client_id \<Rightarrow> string \<Rightarrow> token_row \<Rightarrow> bool" where
  "revocable cid tid row =
     (row_token_id row = tid \<and> row_client_id row = client_str cid \<and> row_revoked_at row = None)"

definition revoke_client_token ::
  "storage_error option \<Rightarrow> client_id \<Rightarrow> string \<Rightarrow> string \<Rightarrow> auth_db \<Rightarrow> (storage_error + bool) \<times> auth_db" where
  "revoke_client_token fault cid tid revoked_at db =
     (case fault of
        Some e \<Rightarrow> (Err e, db)
      | None \<Rightarrow>
          (Ok (list_ex (revocable cid tid) (client_tokens db)),
           db\<lparr>client_tokens :=
             map (\<lambda>row. if revocable cid tid row then row\<lparr>row_revoked_at := Some revoked_at\<rparr> else row)
               (client_tokens db)\<rparr>))"

definition token_of_row :: "token_row \<Rightarrow> storage_error + client_token_metadata" where
  "token_of_row row =
     and_then (map_err (\<lambda>_. StateDatabaseCorrupt) (client_id_new (row_client_id row))) (\<lambda>cid.
       if length (row_digest row) \<noteq> 32 then Err StateDatabaseCorrupt
       else Ok \<lparr>ct_token_id = row_token_id row, ct_client_id = cid, ct_digest = row_digest row,
                ct_issued_at = row_issued_at row\<rparr>)"

definition active_rows :: "auth_db \<Rightarrow> token_row list" where
  "active_rows db =
     sort_key row_token_id (filter (\<lambda>row. row_revoked_at row = None) (client_tokens db))"

definition load_active_client_tokens ::
  "storage_error option \<Rightarrow> auth_db \<Rightarrow> storage_error + client_token_metadata list" where
  "load_active_client_tokens fault db =
     (case fault of
        Some e \<Rightarrow> Err e
      | None \<Rightarrow>
          try_map token_of_row (active_rows db))"

text \<open>
  \<open>ORDER BY CASE scope ...\<close>: an unknown scope is NULL, which SQLite sorts first.
\<close>

definition scope_order :: "string \<Rightarrow> nat" where
  "scope_order v = (case scope_from_str v of None \<Rightarrow> 0 | Some sc \<Rightarrow> Suc (scope_index sc))"

definition scopes_of_token :: "auth_db \<Rightarrow> string \<Rightarrow> storage_error + client_token_scope list" where
  "scopes_of_token db tid =
     and_then
       (try_map (\<lambda>v. ok_or (scope_from_str v) StateDatabaseCorrupt)
          (sort_key scope_order (map snd (filter (\<lambda>(t, _). t = tid) (client_token_scopes db)))))
       (\<lambda>scopes. if scopes = [] then Err StateDatabaseCorrupt else Ok scopes)"

definition load_active_scoped_client_tokens ::
  "storage_error option \<Rightarrow> auth_db \<Rightarrow> storage_error + scoped_client_token list" where
  "load_active_scoped_client_tokens fault db =
     and_then (load_active_client_tokens fault db) (\<lambda>tokens.
       try_map (\<lambda>tok. and_then (scopes_of_token db (ct_token_id tok)) (\<lambda>scopes.
         Ok \<lparr>st_token = tok, st_scopes = scopes\<rparr>)) tokens)"


subsection \<open>Lemmas on scopes\<close>

lemma scope_in_all [simp]: "sc \<in> set all_scopes"
  by (cases sc) (simp_all add: all_scopes_def)

lemma scope_as_str_inject [simp]: "scope_as_str a = scope_as_str b \<longleftrightarrow> a = b"
  by (cases a; cases b) simp_all

lemma scope_from_str_iff: "scope_from_str v = Some sc \<longleftrightarrow> v = scope_as_str sc"
proof
  assume "scope_from_str v = Some sc"
  then show "v = scope_as_str sc" by (auto simp: scope_from_str_def find_Some_iff)
next
  assume v: "v = scope_as_str sc"
  show "scope_from_str v = Some sc"
  proof (cases "scope_from_str v")
    case None
    then show ?thesis using v by (auto simp: scope_from_str_def find_None_iff)
  next
    case (Some sc')
    then show ?thesis using v by (auto simp: scope_from_str_def find_Some_iff)
  qed
qed

lemma scope_from_as_str [simp]: "scope_from_str (scope_as_str sc) = Some sc"
  by (simp add: scope_from_str_iff)

lemma scope_index_less [simp]: "scope_index sc < 10"
  by (cases sc) simp_all

lemma scopes_unique_seen:
  assumes "length seen = 10"
  shows "scopes_unique seen scs \<longleftrightarrow>
    distinct scs \<and> (\<forall>sc \<in> set scs. \<not> seen ! scope_index sc)"
  using assms by (induction scs arbitrary: seen) (auto simp: nth_list_update scope_index_inject)

lemma scopes_unique_distinct: "scopes_unique (replicate 10 False) scs \<longleftrightarrow> distinct scs"
  by (simp add: scopes_unique_seen)

subsection \<open>The database invariant\<close>

definition scope_set :: "auth_db \<Rightarrow> string \<Rightarrow> client_token_scope set" where
  "scope_set db tid = {sc. (tid, scope_as_str sc) \<in> set (client_token_scopes db)}"

definition auth_db_ok :: "auth_db \<Rightarrow> bool" where
  "auth_db_ok db =
     (distinct (map row_token_id (client_tokens db)) \<and> distinct (map row_digest (client_tokens db))
      \<and> (\<forall>row \<in> set (client_tokens db). length (row_digest row) = 32
           \<and> is_valid_identifier (row_client_id row) \<and> scope_set db (row_token_id row) \<noteq> {})
      \<and> distinct (client_token_scopes db)
      \<and> (\<forall>(t, v) \<in> set (client_token_scopes db).
           t \<in> row_token_id ` set (client_tokens db) \<and> v \<in> range scope_as_str))"

lemma empty_auth_db_ok: "auth_db_ok empty_auth_db"
  by (simp add: auth_db_ok_def empty_auth_db_def)

lemma issue_scope_set:
  assumes "issue_client_token_with_scopes fault tok scopes db = (Ok (), db')"
  shows "scope_set db' tid =
    scope_set db tid \<union> (if tid = ct_token_id tok then set scopes else {})"
  using assms
  by (auto simp: issue_client_token_with_scopes_def scope_set_def split: if_splits option.splits)

lemma issue_ok:
  assumes "auth_db_ok db" "is_valid_identifier (client_str (ct_client_id tok))"
    and "issue_client_token_with_scopes fault tok scopes db = (r, db')"
  shows "auth_db_ok db'"
proof (cases r)
  case (Inl e)
  then show ?thesis
    using assms by (auto simp: issue_client_token_with_scopes_def split: if_splits option.splits)
next
  case (Inr u)
  then have issue: "issue_client_token_with_scopes fault tok scopes db = (Ok (), db')"
    using assms(3) by simp
  have set': "scope_set db' tid = scope_set db tid \<union> (if tid = ct_token_id tok then set scopes else {})" for tid
    by (rule issue_scope_set [OF issue])
  have fresh: "ct_token_id tok \<notin> row_token_id ` set (client_tokens db)"
    "ct_digest tok \<notin> row_digest ` set (client_tokens db)" "length (ct_digest tok) = 32"
    "scopes \<noteq> []" "distinct scopes"
    and rows: "client_tokens db' = client_tokens db
      @ [\<lparr>row_token_id = ct_token_id tok, row_client_id = client_str (ct_client_id tok),
          row_digest = ct_digest tok, row_issued_at = ct_issued_at tok, row_revoked_at = None\<rparr>]"
    and scs: "client_token_scopes db' =
      client_token_scopes db @ map (\<lambda>sc. (ct_token_id tok, scope_as_str sc)) scopes"
    and new: "\<forall>sc \<in> set scopes. (ct_token_id tok, scope_as_str sc) \<notin> set (client_token_scopes db)"
    using issue
    by (auto simp: issue_client_token_with_scopes_def scopes_unique_distinct
        split: if_splits option.splits)
  have "distinct (client_token_scopes db')"
    using assms(1) new fresh(5) by (auto simp: auth_db_ok_def scs distinct_map inj_on_def)
  moreover have "\<forall>row \<in> set (client_tokens db'). length (row_digest row) = 32
      \<and> is_valid_identifier (row_client_id row) \<and> scope_set db' (row_token_id row) \<noteq> {}"
    using assms(1,2) fresh by (auto simp: auth_db_ok_def rows set')
  moreover have "\<forall>(t, v) \<in> set (client_token_scopes db').
      t \<in> row_token_id ` set (client_tokens db') \<and> v \<in> range scope_as_str"
    using assms(1) unfolding auth_db_ok_def rows scs by (auto simp del: split_paired_All)
  ultimately show ?thesis using assms(1) fresh by (simp add: auth_db_ok_def rows)
qed

lemma revoke_ok:
  assumes "auth_db_ok db" "revoke_client_token fault cid tid at db = (r, db')"
  shows "auth_db_ok db'"
proof (cases fault)
  case None
  let ?f = "\<lambda>row. if revocable cid tid row then row\<lparr>row_revoked_at := Some at\<rparr> else row"
  have db': "client_tokens db' = map ?f (client_tokens db)"
    "client_token_scopes db' = client_token_scopes db"
    using assms(2) None by (auto simp: revoke_client_token_def)
  have f: "row_token_id (?f row) = row_token_id row" "row_digest (?f row) = row_digest row"
    "row_client_id (?f row) = row_client_id row" for row by simp_all
  have ids: "map row_token_id (client_tokens db') = map row_token_id (client_tokens db)"
    "map row_digest (client_tokens db') = map row_digest (client_tokens db)"
    by (simp_all add: db')
  have "row_token_id ` set (client_tokens db') = row_token_id ` set (client_tokens db)"
    using ids(1) by (metis list.set_map)
  then show ?thesis
    using assms(1) unfolding auth_db_ok_def ids
    by (auto simp: db' scope_set_def f simp del: if_image_distrib)
qed (use assms in \<open>simp add: revoke_client_token_def\<close>)


subsection \<open>What the database grants\<close>

text \<open>The grant of a digest: token, client and scopes of its row, unless the row is revoked.\<close>

definition db_grant :: "auth_db \<Rightarrow> string \<Rightarrow> (string \<times> client_id \<times> client_token_scope set) option" where
  "db_grant db d =
     (case find (\<lambda>row. row_digest row = d) (client_tokens db) of
        None \<Rightarrow> None
      | Some row \<Rightarrow>
          if row_revoked_at row = None
          then Some (row_token_id row, ClientId (row_client_id row), scope_set db (row_token_id row))
          else None)"

lemma db_grant_iff:
  assumes "auth_db_ok db"
  shows "db_grant db d = Some g \<longleftrightarrow>
    (\<exists>row \<in> set (client_tokens db). row_digest row = d \<and> row_revoked_at row = None
      \<and> g = (row_token_id row, ClientId (row_client_id row), scope_set db (row_token_id row)))"
proof -
  have found: "find (\<lambda>row. row_digest row = d) (client_tokens db) = Some row \<longleftrightarrow>
      row \<in> set (client_tokens db) \<and> row_digest row = d" for row
    by (rule find_distinct) (use assms in \<open>simp add: auth_db_ok_def\<close>)
  have "db_grant db d = Some g \<longleftrightarrow>
      (\<exists>row. find (\<lambda>row. row_digest row = d) (client_tokens db) = Some row
        \<and> row_revoked_at row = None
        \<and> g = (row_token_id row, ClientId (row_client_id row), scope_set db (row_token_id row)))"
    by (auto simp: db_grant_def split: option.splits)
  then show ?thesis unfolding found by blast
qed

lemma token_row_unique:
  assumes "auth_db_ok db" "row \<in> set (client_tokens db)" "row' \<in> set (client_tokens db)"
    and "row_token_id row = row_token_id row'"
  shows "row = row'"
  using assms by (auto simp: auth_db_ok_def distinct_map inj_on_def)

lemma issue_rows:
  assumes "issue_client_token_with_scopes fault tok scopes db = (Ok (), db')"
  shows "client_tokens db' = client_tokens db
      @ [\<lparr>row_token_id = ct_token_id tok, row_client_id = client_str (ct_client_id tok),
          row_digest = ct_digest tok, row_issued_at = ct_issued_at tok, row_revoked_at = None\<rparr>]"
    and "ct_token_id tok \<notin> row_token_id ` set (client_tokens db)"
    and "ct_digest tok \<notin> row_digest ` set (client_tokens db)"
    and "scopes \<noteq> []" "distinct scopes"
  using assms
  by (auto simp: issue_client_token_with_scopes_def scopes_unique_distinct
      split: if_splits option.splits)

lemma scope_set_unused:
  assumes "auth_db_ok db" "tid \<notin> row_token_id ` set (client_tokens db)"
  shows "scope_set db tid = {}"
  using assms by (auto simp: auth_db_ok_def scope_set_def)

lemma issue_grant:
  assumes "auth_db_ok db" "is_valid_identifier (client_str (ct_client_id tok))"
    and "issue_client_token_with_scopes fault tok scopes db = (Ok (), db')"
  shows "db_grant db' d =
    (if d = ct_digest tok then Some (ct_token_id tok, ct_client_id tok, set scopes) else db_grant db d)"
proof -
  note rows = issue_rows [OF assms(3)]
  have scopes': "scope_set db' tid = (if tid = ct_token_id tok then set scopes else scope_set db tid)" for tid
    using issue_scope_set [OF assms(3)] scope_set_unused [OF assms(1) rows(2)] by simp
  have old: "scope_set db' (row_token_id row) = scope_set db (row_token_id row)"
    "row_digest row \<noteq> ct_digest tok" if "row \<in> set (client_tokens db)" for row
  proof -
    have "row_token_id row \<noteq> ct_token_id tok" "row_digest row \<noteq> ct_digest tok"
      using rows(2,3) that by (metis imageI)+
    then show "scope_set db' (row_token_id row) = scope_set db (row_token_id row)"
      "row_digest row \<noteq> ct_digest tok" by (simp_all add: scopes')
  qed
  have "db_grant db' d = Some g \<longleftrightarrow> (if d = ct_digest tok
      then g = (ct_token_id tok, ct_client_id tok, set scopes) else db_grant db d = Some g)" for g
    unfolding db_grant_iff [OF issue_ok [OF assms]] db_grant_iff [OF assms(1)] rows(1)
    using old scopes' [of "ct_token_id tok"] by auto
  then show ?thesis by (metis option.exhaust)
qed

lemma revoke_grant:
  assumes "auth_db_ok db" "revoke_client_token fault cid tid at db = (Ok b, db')"
  shows "db_grant db' d =
    (case db_grant db d of
       Some (t, c, scs) \<Rightarrow> if t = tid \<and> c = cid then None else Some (t, c, scs)
     | None \<Rightarrow> None)"
proof -
  let ?f = "\<lambda>row. if revocable cid tid row then row\<lparr>row_revoked_at := Some at\<rparr> else row"
  have db': "client_tokens db' = map ?f (client_tokens db)"
    "client_token_scopes db' = client_token_scopes db"
    using assms(2) by (auto simp: revoke_client_token_def split: option.splits)
  have scopes: "scope_set db' = scope_set db" by (simp add: scope_set_def db' fun_eq_iff)
  have live: "row \<in> set (client_tokens db') \<and> row_revoked_at row = None \<longleftrightarrow>
      row \<in> set (client_tokens db) \<and> row_revoked_at row = None
      \<and> \<not> (row_token_id row = tid \<and> row_client_id row = client_str cid)" for row
    unfolding db' set_map image_iff
    by (auto simp: revocable_def split: if_splits dest!: arg_cong [of _ row row_revoked_at])
  have cid: "ClientId n = cid \<longleftrightarrow> n = client_str cid" for n by (cases cid) simp
  have "db_grant db' d = Some g \<longleftrightarrow>
      db_grant db d = Some g \<and> \<not> (fst g = tid \<and> fst (snd g) = cid)" for g
    unfolding db_grant_iff [OF revoke_ok [OF assms]] db_grant_iff [OF assms(1)] scopes
    using live cid by fastforce
  from this [of "the (db_grant db d)"] this [of "the (db_grant db' d)"] show ?thesis
    by (cases "db_grant db d"; cases "db_grant db' d") (auto split: prod.splits)
qed

subsection \<open>Loading\<close>

lemma scopes_of_token_ok:
  assumes "auth_db_ok db" "tid \<in> row_token_id ` set (client_tokens db)"
  shows "\<exists>scopes. scopes_of_token db tid = Ok scopes \<and> set scopes = scope_set db tid
    \<and> scopes \<noteq> [] \<and> distinct scopes"
proof -
  let ?vs = "sort_key scope_order (map snd (filter (\<lambda>(t, _). t = tid) (client_token_scopes db)))"
  have vs: "set ?vs = {v. (tid, v) \<in> set (client_token_scopes db)}" by force
  have parse: "\<exists>sc. v = scope_as_str sc" if "v \<in> set ?vs" for v
    using assms(1) that unfolding vs by (auto simp: auth_db_ok_def)
  define g where "g v = the (scope_from_str v)" for v
  have g: "scope_from_str v = Some (g v)" "v = scope_as_str (g v)" if "v \<in> set ?vs" for v
    using parse [OF that] by (auto simp: g_def scope_from_str_iff)
  have "try_map (\<lambda>v. ok_or (scope_from_str v) StateDatabaseCorrupt) ?vs = Ok (map g ?vs)"
    by (rule try_map_total) (simp add: g(1))
  moreover have set: "set (map g ?vs) = scope_set db tid"
    using g(2) unfolding scope_set_def by (force simp: vs g_def scope_from_str_iff image_iff)
  moreover have "scope_set db tid \<noteq> {}" using assms by (auto simp: auth_db_ok_def)
  moreover have "distinct (map g ?vs)"
  proof -
    have "distinct (map snd (filter (\<lambda>(t, _). t = tid) (client_token_scopes db)))"
      using assms(1) by (auto simp: auth_db_ok_def distinct_map inj_on_def intro: distinct_filter)
    moreover have "inj_on g (set ?vs)" by (rule inj_onI) (metis g(2))
    ultimately show ?thesis by (simp add: distinct_map)
  qed
  ultimately show ?thesis unfolding scopes_of_token_def by (auto simp del: set_map)
qed

definition loaded_token :: "token_row \<Rightarrow> client_token_metadata" where
  "loaded_token row =
     \<lparr>ct_token_id = row_token_id row, ct_client_id = ClientId (row_client_id row),
      ct_digest = row_digest row, ct_issued_at = row_issued_at row\<rparr>"

lemma set_active_rows: "set (active_rows db) = {row \<in> set (client_tokens db). row_revoked_at row = None}"
  by (simp add: active_rows_def)

lemma load_active_ok:
  assumes "auth_db_ok db"
  shows "load_active_client_tokens None db = Ok (map loaded_token (active_rows db))"
proof -
  have "token_of_row row = Ok (loaded_token row)" if "row \<in> set (active_rows db)" for row
    using assms that
    by (auto simp: token_of_row_def loaded_token_def auth_db_ok_def client_id_new_def set_active_rows)
  then show ?thesis by (simp add: load_active_client_tokens_def try_map_total)
qed

lemma load_scoped_ok:
  assumes "auth_db_ok db"
  shows "\<exists>sts. load_active_scoped_client_tokens None db = Ok sts
    \<and> list_all2 (\<lambda>row st. st_token st = loaded_token row \<and> st_scopes st \<noteq> [] \<and> distinct (st_scopes st)
         \<and> set (st_scopes st) = scope_set db (row_token_id row)) (active_rows db) sts"
proof -
  let ?f = "\<lambda>tok. and_then (scopes_of_token db (ct_token_id tok))
      (\<lambda>scopes. Ok \<lparr>st_token = tok, st_scopes = scopes\<rparr>)"
  have row: "\<exists>scs. scopes_of_token db (row_token_id row) = Ok scs
      \<and> set scs = scope_set db (row_token_id row) \<and> scs \<noteq> [] \<and> distinct scs"
    if "row \<in> set (active_rows db)" for row
    using scopes_of_token_ok [OF assms] that by (simp add: set_active_rows)
  have "\<exists>st. ?f tok = Ok st" if mem: "tok \<in> set (map loaded_token (active_rows db))" for tok
  proof -
    obtain r where "r \<in> set (active_rows db)" and tok: "tok = loaded_token r" using mem by auto
    from row [OF this(1)] obtain scs where "scopes_of_token db (row_token_id r) = Ok scs" by blast
    then have "?f tok = Ok \<lparr>st_token = tok, st_scopes = scs\<rparr>" by (simp add: tok loaded_token_def)
    then show ?thesis by (rule exI)
  qed
  then obtain sts where sts: "try_map ?f (map loaded_token (active_rows db)) = Ok sts"
    using try_map_ex [of "map loaded_token (active_rows db)" ?f] by auto
  then have "list_all2 (\<lambda>row st. ?f (loaded_token row) = Ok st) (active_rows db) sts"
    by (simp add: try_map_Ok list_all2_map1)
  then have "list_all2 (\<lambda>row st. st_token st = loaded_token row \<and> st_scopes st \<noteq> []
      \<and> distinct (st_scopes st) \<and> set (st_scopes st) = scope_set db (row_token_id row))
      (active_rows db) sts"
  proof (rule list.rel_mono_strong)
    fix r st
    assume "r \<in> set (active_rows db)" and st: "?f (loaded_token r) = Ok st"
    from row [OF this(1)] obtain scs where scs: "scopes_of_token db (row_token_id r) = Ok scs"
      "set scs = scope_set db (row_token_id r)" "scs \<noteq> []" "distinct scs" by blast
    have "st = \<lparr>st_token = loaded_token r, st_scopes = scs\<rparr>"
      using st scs(1) by (simp add: loaded_token_def)
    with scs show "st_token st = loaded_token r \<and> st_scopes st \<noteq> []
      \<and> distinct (st_scopes st) \<and> set (st_scopes st) = scope_set db (row_token_id r)"
      by simp
  qed
  with sts show ?thesis
    by (simp add: load_active_scoped_client_tokens_def load_active_ok [OF assms])
qed

end
