(* ===== verification/Auth.thy ===== *)
theory Auth
  imports Client_Tokens
begin

text \<open>
  Tokens and the authentication registry, \<open>crates/wokcore-server/src/auth/token.rs\<close> and
  \<open>registry.rs\<close>. Requests are checked against an in-memory map from token digests to clients;
  issuing and revoking write the database first and then publish a new map, both under the
  mutation lock, so one operation is one step here. SHA-256 and the base64 codec are arguments.
\<close>

subsection \<open>Tokens\<close>

datatype token_error = EntropyUnavailable

definition ADMIN_PREFIX :: string where
  "ADMIN_PREFIX = ''wok_admin_v1_''"

definition PROXY_PREFIX :: string where
  "PROXY_PREFIX = ''wok_proxy_v1_''"

definition ENTROPY_BYTES :: nat where
  "ENTROPY_BYTES = 32"

definition ENCODED_ENTROPY_BYTES :: nat where
  "ENCODED_ENTROPY_BYTES = 43"

text \<open>The base64 engine and the hash function.\<close>

record crypto =
  encode_string :: "string \<Rightarrow> string"
  decode_slice :: "string \<Rightarrow> string option"
  sha256_digest :: "string \<Rightarrow> string"

definition token_digest :: "crypto \<Rightarrow> string \<Rightarrow> string" where
  "token_digest c candidate = sha256_digest c candidate"

definition constant_time_matches :: "string \<Rightarrow> string \<Rightarrow> bool" where
  "constant_time_matches a b = (a = b)"

definition token_generate :: "crypto \<Rightarrow> string \<Rightarrow> token_error + string \<Rightarrow> token_error + string" where
  "token_generate c prefix entropy =
     and_then entropy (\<lambda>bytes. Ok (prefix @ encode_string c bytes))"

definition generate_admin :: "crypto \<Rightarrow> token_error + string \<Rightarrow> token_error + string" where
  "generate_admin c entropy = token_generate c ADMIN_PREFIX entropy"

definition generate_proxy :: "crypto \<Rightarrow> token_error + string \<Rightarrow> token_error + string" where
  "generate_proxy c entropy = token_generate c PROXY_PREFIX entropy"

text \<open>Decoding into a slice of 32 bytes succeeds only if the result fits; it must fill it.\<close>

definition has_token_shape :: "crypto \<Rightarrow> string \<Rightarrow> string \<Rightarrow> bool" where
  "has_token_shape c candidate prefix =
     (case strip_prefix prefix candidate of
        None \<Rightarrow> False
      | Some encoded \<Rightarrow>
          if length encoded \<noteq> ENCODED_ENTROPY_BYTES then False
          else (case decode_slice c encoded of
              Some bytes \<Rightarrow> length bytes = ENTROPY_BYTES
            | None \<Rightarrow> False))"

definition is_admin_token :: "crypto \<Rightarrow> string \<Rightarrow> bool" where
  "is_admin_token c candidate = has_token_shape c candidate ADMIN_PREFIX"

definition is_proxy_token :: "crypto \<Rightarrow> string \<Rightarrow> bool" where
  "is_proxy_token c candidate = has_token_shape c candidate PROXY_PREFIX"

subsection \<open>Errors\<close>

datatype auth_secret_store_failure = FailUnavailable | PlatformFailure | OtherFailure

fun classify_secret_failure :: "storage_error \<Rightarrow> auth_secret_store_failure" where
  "classify_secret_failure SecretBackendUnavailable = FailUnavailable"
| "classify_secret_failure SecretBackendPlatformFailure = PlatformFailure"
| "classify_secret_failure _ = OtherFailure"

datatype auth_error =
    AuthStorage storage_error
  | SecretStoreRead auth_secret_store_failure
  | SecretStoreWrite auth_secret_store_failure
  | InvalidManagementSecret
  | BootstrapBinding
  | OrphanRecording secret_ref
  | BlockingTask
  | MutationTask
  | InvalidScopes
  | TokenFailure token_error

text \<open>How a database call on the blocking pool may fail.\<close>

datatype run_fault = NoFault | TaskFails | StoreFails storage_error

definition run_metadata ::
  "run_fault \<Rightarrow> (storage_error option \<Rightarrow> 'd \<Rightarrow> (storage_error + 'a) \<times> 'd) \<Rightarrow> 'd
     \<Rightarrow> (auth_error + 'a) \<times> 'd" where
  "run_metadata fault operation db =
     (case fault of
        TaskFails \<Rightarrow> (Err BlockingTask, db)
      | NoFault \<Rightarrow> (case operation None db of (r, db') \<Rightarrow> (map_err AuthStorage r, db'))
      | StoreFails e \<Rightarrow> (case operation (Some e) db of (r, db') \<Rightarrow> (map_err AuthStorage r, db')))"

subsection \<open>Registry\<close>

record authorized_client =
  auth_token_id :: string
  auth_client_id :: client_id

record active_client =
  ac_token_id :: string
  ac_client_id :: client_id
  ac_scopes :: "client_token_scope list"

text \<open>The map is a \<open>HashMap\<close>; nothing depends on its order.\<close>

record auth_registry =
  management_digest :: string
  clients :: "(string, active_client) btree"

fun adjacent_equal :: "'a list \<Rightarrow> bool" where
  "adjacent_equal (a # b # xs) = (a = b \<or> adjacent_equal (b # xs))"
| "adjacent_equal _ = False"

definition validate_scopes :: "client_token_scope list \<Rightarrow> auth_error + unit" where
  "validate_scopes scopes =
     (if scopes = [] then Err InvalidScopes
      else if adjacent_equal (sort scopes) then Err InvalidScopes
      else Ok ())"

definition active_client_step ::
  "scoped_client_token \<Rightarrow> (string, active_client) btree \<Rightarrow> auth_error + (string, active_client) btree" where
  "active_client_step st m =
     and_then (validate_scopes (st_scopes st)) (\<lambda>_.
       if bt_get m (ct_digest (st_token st)) \<noteq> None then Err (AuthStorage StateDatabaseCorrupt)
       else Ok (bt_insert (ct_digest (st_token st))
         \<lparr>ac_token_id = ct_token_id (st_token st), ac_client_id = ct_client_id (st_token st),
          ac_scopes = st_scopes st\<rparr> m))"

definition active_client_map ::
  "scoped_client_token list \<Rightarrow> auth_error + (string, active_client) btree" where
  "active_client_map active = try_fold active_client_step active []"

definition authorized :: "active_client \<Rightarrow> authorized_client" where
  "authorized a = \<lparr>auth_token_id = ac_token_id a, auth_client_id = ac_client_id a\<rparr>"

definition validate_management :: "crypto \<Rightarrow> auth_registry \<Rightarrow> string \<Rightarrow> bool" where
  "validate_management c r candidate =
     (if \<not> is_admin_token c candidate then False
      else constant_time_matches (management_digest r) (token_digest c candidate))"

definition validate_any_client :: "crypto \<Rightarrow> auth_registry \<Rightarrow> string \<Rightarrow> authorized_client option" where
  "validate_any_client c r candidate =
     (if \<not> is_proxy_token c candidate then None
      else map_option authorized (bt_get (clients r) (token_digest c candidate)))"

definition validate_client_scope ::
  "crypto \<Rightarrow> auth_registry \<Rightarrow> string \<Rightarrow> client_token_scope \<Rightarrow> authorized_client option" where
  "validate_client_scope c r candidate required =
     (if \<not> is_proxy_token c candidate then None
      else (case bt_get (clients r) (token_digest c candidate) of
          None \<Rightarrow> None
        | Some a \<Rightarrow> if required \<notin> set (ac_scopes a) then None else Some (authorized a)))"

definition validate_client :: "crypto \<Rightarrow> auth_registry \<Rightarrow> string \<Rightarrow> authorized_client option" where
  "validate_client c r candidate = validate_client_scope c r candidate ProxyUse"

definition client_token_active :: "auth_registry \<Rightarrow> client_id \<Rightarrow> string \<Rightarrow> bool" where
  "client_token_active r cid tid =
     list_ex (\<lambda>(_, a). ac_client_id a = cid \<and> ac_token_id a = tid) (clients r)"

definition issue_client_token_owned ::
  "crypto \<Rightarrow> run_fault \<Rightarrow> token_error + string \<Rightarrow> string \<Rightarrow> client_id \<Rightarrow> string
     \<Rightarrow> client_token_scope list \<Rightarrow> auth_registry \<times> auth_db
     \<Rightarrow> (auth_error + string) \<times> auth_registry \<times> auth_db" where
  "issue_client_token_owned c fault entropy tid cid issued_at scopes w =
     (case w of (r, db) \<Rightarrow>
        (case generate_proxy c entropy of
           Inl e \<Rightarrow> (Err (TokenFailure e), r, db)
         | Inr material \<Rightarrow>
             (let d = token_digest c material;
                  metadata = \<lparr>ct_token_id = tid, ct_client_id = cid, ct_digest = d,
                    ct_issued_at = issued_at\<rparr>
              in case run_metadata fault (\<lambda>f. issue_client_token_with_scopes f metadata scopes) db of
                   (Inl e, db') \<Rightarrow> (Err e, r, db')
                 | (Inr _, db') \<Rightarrow>
                     (Ok material,
                      r\<lparr>clients := bt_insert d \<lparr>ac_token_id = tid, ac_client_id = cid, ac_scopes = scopes\<rparr>
                          (clients r)\<rparr>,
                      db'))))"

definition registry_issue_with_scopes ::
  "crypto \<Rightarrow> run_fault \<Rightarrow> token_error + string \<Rightarrow> string \<Rightarrow> client_id \<Rightarrow> string
     \<Rightarrow> client_token_scope list \<Rightarrow> auth_registry \<times> auth_db
     \<Rightarrow> (auth_error + string) \<times> auth_registry \<times> auth_db" where
  "registry_issue_with_scopes c fault entropy tid cid issued_at scopes w =
     (case validate_scopes scopes of
        Inl e \<Rightarrow> (Err e, w)
      | Inr _ \<Rightarrow> issue_client_token_owned c fault entropy tid cid issued_at scopes w)"

definition registry_issue ::
  "crypto \<Rightarrow> run_fault \<Rightarrow> token_error + string \<Rightarrow> string \<Rightarrow> client_id \<Rightarrow> string
     \<Rightarrow> auth_registry \<times> auth_db \<Rightarrow> (auth_error + string) \<times> auth_registry \<times> auth_db" where
  "registry_issue c fault entropy tid cid issued_at w =
     registry_issue_with_scopes c fault entropy tid cid issued_at [ProxyUse] w"

definition registry_revoke ::
  "run_fault \<Rightarrow> client_id \<Rightarrow> string \<Rightarrow> string \<Rightarrow> auth_registry \<times> auth_db
     \<Rightarrow> (auth_error + bool) \<times> auth_registry \<times> auth_db" where
  "registry_revoke fault cid tid revoked_at w =
     (case w of (r, db) \<Rightarrow>
        (case run_metadata fault (\<lambda>f. revoke_client_token f cid tid revoked_at) db of
           (Inl e, db') \<Rightarrow> (Err e, r, db')
         | (Inr changed, db') \<Rightarrow>
             (Ok changed,
              r\<lparr>clients := bt_retain (\<lambda>_ a. ac_token_id a \<noteq> tid \<or> ac_client_id a \<noteq> cid) (clients r)\<rparr>,
              db')))"

subsection \<open>Bootstrap\<close>

definition MANAGEMENT_BINDING_NAME :: string where
  "MANAGEMENT_BINDING_NAME = ''management''"

text \<open>
  What the environment contributes to one bootstrap: the failures of its four database calls, the
  random bytes and the random secret reference.
\<close>

record bootstrap_env =
  be_query :: run_fault
  be_bind :: run_fault
  be_orphan :: run_fault
  be_load :: run_fault
  be_entropy :: "token_error + string"
  be_fresh :: secret_ref

definition read_management_digest ::
  "crypto \<Rightarrow> (secret_ref \<Rightarrow> 's \<Rightarrow> storage_error + string) \<Rightarrow> secret_ref \<Rightarrow> 's \<Rightarrow> auth_error + string" where
  "read_management_digest c get r s =
     and_then (map_err (\<lambda>e. SecretStoreRead (classify_secret_failure e)) (get r s)) (\<lambda>v.
       if \<not> is_admin_token c v then Err InvalidManagementSecret else Ok (token_digest c v))"

definition create_management_secret ::
  "crypto \<Rightarrow> (secret_ref \<Rightarrow> 's \<Rightarrow> storage_error + string)
     \<Rightarrow> (secret_ref \<Rightarrow> secret_scope \<Rightarrow> string \<Rightarrow> 's \<Rightarrow> (storage_error + secret_ref) \<times> 's)
     \<Rightarrow> bootstrap_env \<Rightarrow> secret_scope \<Rightarrow> string \<Rightarrow> 's \<times> auth_db \<Rightarrow> (auth_error + string) \<times> 's \<times> auth_db" where
  "create_management_secret c get put env sc created_at w =
     (case w of (s, db) \<Rightarrow>
        (case generate_admin c (be_entropy env) of
           Inl e \<Rightarrow> (Err (TokenFailure e), s, db)
         | Inr material \<Rightarrow>
             (case put (be_fresh env) sc material s of
                (Inl e, s1) \<Rightarrow> (Err (SecretStoreWrite (classify_secret_failure e)), s1, db)
              | (Inr r, s1) \<Rightarrow>
                  (case run_metadata (be_bind env)
                          (\<lambda>f. bind_runtime_secret_if_absent f MANAGEMENT_BINDING_NAME r created_at) db of
                     (Inr b, db1) \<Rightarrow> (read_management_digest c get (rb_secret_ref b) s1, s1, db1)
                   | (Inl _, db1) \<Rightarrow>
                       (case run_metadata (be_orphan env) (\<lambda>f. record_orphan_secret f r created_at) db1 of
                          (Inl _, db2) \<Rightarrow> (Err (OrphanRecording r), s1, db2)
                        | (Inr _, db2) \<Rightarrow> (Err BootstrapBinding, s1, db2))))))"

definition management_secret_digest ::
  "crypto \<Rightarrow> (string \<Rightarrow> bool) \<Rightarrow> (secret_ref \<Rightarrow> 's \<Rightarrow> storage_error + string)
     \<Rightarrow> (secret_ref \<Rightarrow> secret_scope \<Rightarrow> string \<Rightarrow> 's \<Rightarrow> (storage_error + secret_ref) \<times> 's)
     \<Rightarrow> bootstrap_env \<Rightarrow> secret_scope \<Rightarrow> string \<Rightarrow> 's \<times> auth_db
     \<Rightarrow> (auth_error + string) \<times> 's \<times> auth_db" where
  "management_secret_digest c is_uuid get put env sc created_at w =
     (case w of (s, db) \<Rightarrow>
        (case fst (run_metadata (be_query env)
                (\<lambda>f db. (query_runtime_secret_binding is_uuid f MANAGEMENT_BINDING_NAME db, db)) db) of
           Inl e \<Rightarrow> (Err e, s, db)
         | Inr (Some b) \<Rightarrow> (read_management_digest c get (rb_secret_ref b) s, s, db)
         | Inr None \<Rightarrow> create_management_secret c get put env sc created_at (s, db)))"

definition load_clients :: "run_fault \<Rightarrow> auth_db \<Rightarrow> auth_error + (string, active_client) btree" where
  "load_clients fault db =
     and_then (fst (run_metadata fault (\<lambda>f db. (load_active_scoped_client_tokens f db, db)) db))
       active_client_map"

definition bootstrap_owned ::
  "crypto \<Rightarrow> (string \<Rightarrow> bool) \<Rightarrow> (secret_ref \<Rightarrow> 's \<Rightarrow> storage_error + string)
     \<Rightarrow> (secret_ref \<Rightarrow> secret_scope \<Rightarrow> string \<Rightarrow> 's \<Rightarrow> (storage_error + secret_ref) \<times> 's)
     \<Rightarrow> bootstrap_env \<Rightarrow> secret_scope \<Rightarrow> string \<Rightarrow> 's \<times> auth_db
     \<Rightarrow> (auth_error + auth_registry) \<times> 's \<times> auth_db" where
  "bootstrap_owned c is_uuid get put env sc created_at w =
     st_then (management_secret_digest c is_uuid get put env sc created_at w) (\<lambda>d (s, db).
       (and_then (load_clients (be_load env) db) (\<lambda>cs. Ok \<lparr>management_digest = d, clients = cs\<rparr>),
        s, db))"


subsection \<open>The registry mirrors the database\<close>

definition registry_grant ::
  "auth_registry \<Rightarrow> string \<Rightarrow> (string \<times> client_id \<times> client_token_scope set) option" where
  "registry_grant r d =
     map_option (\<lambda>a. (ac_token_id a, ac_client_id a, set (ac_scopes a))) (bt_get (clients r) d)"

definition auth_inv :: "auth_registry \<times> auth_db \<Rightarrow> bool" where
  "auth_inv w =
     (auth_db_ok (snd w) \<and> bt_wf (clients (fst w)) \<and> registry_grant (fst w) = db_grant (snd w))"

text \<open>The calls of the management API, which parses the client identifier first.\<close>

datatype auth_op =
    IssueOp run_fault "token_error + string" string string string "client_token_scope list"
  | RevokeOp run_fault string string string

fun run_auth_op :: "crypto \<Rightarrow> auth_registry \<times> auth_db \<Rightarrow> auth_op \<Rightarrow> auth_registry \<times> auth_db" where
  "run_auth_op c w (IssueOp fault entropy tid client issued_at scopes) =
     (case client_id_new client of
        Inl _ \<Rightarrow> w
      | Inr cid \<Rightarrow> snd (registry_issue_with_scopes c fault entropy tid cid issued_at scopes w))"
| "run_auth_op c w (RevokeOp fault client tid revoked_at) =
     (case client_id_new client of
        Inl _ \<Rightarrow> w
      | Inr cid \<Rightarrow> snd (registry_revoke fault cid tid revoked_at w))"

lemma client_id_new_valid:
  "client_id_new v = Ok cid \<Longrightarrow> is_valid_identifier (client_str cid) \<and> client_str cid = v"
  by (auto simp: client_id_new_def split: if_splits)

lemma run_metadata_err:
  assumes "run_metadata fault operation db = (Err e, db')"
    and "\<And>f e db'. operation f db = (Err e, db') \<Longrightarrow> db' = db"
  shows "db' = db"
  using assms by (auto simp: run_metadata_def map_err_def split: run_fault.splits prod.splits sum.splits)

lemma run_metadata_ok:
  assumes "run_metadata fault operation db = (Ok x, db')"
  obtains f where "operation f db = (Ok x, db')"
  using assms by (auto simp: run_metadata_def split: run_fault.splits prod.splits)

lemma issue_err: "issue_client_token_with_scopes f tok scopes db = (Err e, db') \<Longrightarrow> db' = db"
  by (auto simp: issue_client_token_with_scopes_def split: if_splits option.splits)

lemma revoke_err: "revoke_client_token f cid tid at db = (Err e, db') \<Longrightarrow> db' = db"
  by (auto simp: revoke_client_token_def split: option.splits)

text \<open>A successful call wrote the database and published the matching map; a failed one did neither.\<close>

lemma registry_issue_cases:
  assumes "registry_issue_with_scopes c fault entropy tid cid at scopes (r, db) = (res, r', db')"
  obtains (failed) e where "res = Err e" "r' = r" "db' = db"
  | (issued) bytes f where "entropy = Ok bytes" "res = Ok (PROXY_PREFIX @ encode_string c bytes)"
      "issue_client_token_with_scopes f
         \<lparr>ct_token_id = tid, ct_client_id = cid,
          ct_digest = token_digest c (PROXY_PREFIX @ encode_string c bytes), ct_issued_at = at\<rparr>
         scopes db = (Ok (), db')"
      "r' = r\<lparr>clients := bt_insert (token_digest c (PROXY_PREFIX @ encode_string c bytes))
         \<lparr>ac_token_id = tid, ac_client_id = cid, ac_scopes = scopes\<rparr> (clients r)\<rparr>"
proof (cases "validate_scopes scopes")
  case (Inl e)
  then show ?thesis using assms failed by (auto simp: registry_issue_with_scopes_def)
next
  case valid: (Inr u)
  show ?thesis
  proof (cases entropy)
    case (Inl e)
    then show ?thesis using assms failed valid
      by (auto simp: registry_issue_with_scopes_def issue_client_token_owned_def generate_proxy_def
          token_generate_def)
  next
    case (Inr bytes)
    let ?m = "PROXY_PREFIX @ encode_string c bytes"
    let ?md = "\<lparr>ct_token_id = tid, ct_client_id = cid, ct_digest = token_digest c ?m, ct_issued_at = at\<rparr>"
    obtain q db1 where q: "run_metadata fault (\<lambda>f. issue_client_token_with_scopes f ?md scopes) db = (q, db1)"
      by (cases "run_metadata fault (\<lambda>f. issue_client_token_with_scopes f ?md scopes) db")
    show ?thesis
    proof (cases q)
      case q': (Inl e)
      have "db1 = db" using run_metadata_err [OF q [unfolded q']] issue_err by blast
      then show ?thesis using assms failed [of e] valid Inr q q'
        by (simp add: registry_issue_with_scopes_def issue_client_token_owned_def generate_proxy_def
            token_generate_def Let_def)
    next
      case q': (Inr x)
      obtain f where "issue_client_token_with_scopes f ?md scopes db = (Ok (), db1)"
        using run_metadata_ok [OF q [unfolded q']] by auto
      then show ?thesis using assms issued [of bytes f] valid Inr q q'
        by (simp add: registry_issue_with_scopes_def issue_client_token_owned_def generate_proxy_def
            token_generate_def Let_def)
    qed
  qed
qed

lemma registry_revoke_cases:
  assumes "registry_revoke fault cid tid at (r, db) = (res, r', db')"
  obtains (failed) e where "res = Err e" "r' = r" "db' = db"
  | (revoked) f b where "res = Ok b" "revoke_client_token f cid tid at db = (Ok b, db')"
      "r' = r\<lparr>clients := bt_retain (\<lambda>_ a. ac_token_id a \<noteq> tid \<or> ac_client_id a \<noteq> cid) (clients r)\<rparr>"
proof -
  obtain q db1 where q: "run_metadata fault (\<lambda>f. revoke_client_token f cid tid at) db = (q, db1)"
    by (cases "run_metadata fault (\<lambda>f. revoke_client_token f cid tid at) db")
  show ?thesis
  proof (cases q)
    case (Inl e)
    have "db1 = db" using run_metadata_err [OF q [unfolded Inl]] revoke_err by blast
    then show ?thesis using assms q Inl failed [of e] by (simp add: registry_revoke_def)
  next
    case (Inr b)
    obtain f where "revoke_client_token f cid tid at db = (Ok b, db1)"
      using run_metadata_ok [OF q [unfolded Inr]] by auto
    then show ?thesis using assms q Inr revoked [of b f] by (simp add: registry_revoke_def)
  qed
qed

lemma registry_issue_inv:
  assumes "auth_inv (r, db)" "is_valid_identifier (client_str cid)"
    and "registry_issue_with_scopes c fault entropy tid cid at scopes (r, db) = (res, r', db')"
  shows "auth_inv (r', db')"
  using assms(3)
proof (cases rule: registry_issue_cases)
  case failed
  then show ?thesis using assms(1) by simp
next
  case (issued bytes f)
  let ?md = "\<lparr>ct_token_id = tid, ct_client_id = cid,
      ct_digest = token_digest c (PROXY_PREFIX @ encode_string c bytes), ct_issued_at = at\<rparr>"
  have ok: "auth_db_ok db" "bt_wf (clients r)" "registry_grant r = db_grant db"
    using assms(1) by (simp_all add: auth_inv_def)
  have "registry_grant r' d = db_grant db' d" for d
    using issue_grant [OF ok(1) _ issued(3), of d] assms(2) ok(2) fun_cong [OF ok(3), of d]
    by (simp add: registry_grant_def issued(4) bt.get_insert)
  then show ?thesis
    using issue_ok [OF ok(1) _ issued(3)] assms(2) ok(2)
    by (auto simp: auth_inv_def issued(4) fun_eq_iff)
qed

lemma registry_revoke_inv:
  assumes "auth_inv (r, db)" "registry_revoke fault cid tid at (r, db) = (res, r', db')"
  shows "auth_inv (r', db')"
  using assms(2)
proof (cases rule: registry_revoke_cases)
  case failed
  then show ?thesis using assms(1) by simp
next
  case (revoked f b)
  have ok: "auth_db_ok db" "bt_wf (clients r)" "registry_grant r = db_grant db"
    using assms(1) by (simp_all add: auth_inv_def)
  have "registry_grant r' d = db_grant db' d" for d
    using revoke_grant [OF ok(1) revoked(2), of d] ok(2) fun_cong [OF ok(3), of d]
    by (auto simp: registry_grant_def revoked(3) bt.get_retain split: option.splits)
  then show ?thesis
    using revoke_ok [OF ok(1) revoked(2)] ok(2)
    by (auto simp: auth_inv_def revoked(3) fun_eq_iff)
qed

lemma run_auth_op_inv: "auth_inv w \<Longrightarrow> auth_inv (run_auth_op c w op)"
proof (cases op)
  case (IssueOp fault entropy tid client at scopes)
  assume inv: "auth_inv w"
  obtain r db where w: "w = (r, db)" by (cases w)
  show ?thesis
  proof (cases "client_id_new client")
    case (Inr cid)
    obtain res r' db' where
      step: "registry_issue_with_scopes c fault entropy tid cid at scopes (r, db) = (res, r', db')"
      by (cases "registry_issue_with_scopes c fault entropy tid cid at scopes (r, db)")
    have "auth_inv (r', db')"
      using registry_issue_inv [OF _ _ step] client_id_new_valid [OF Inr] inv w by blast
    then show ?thesis using step by (simp add: IssueOp Inr w)
  qed (simp add: IssueOp inv)
next
  case (RevokeOp fault client tid at)
  assume inv: "auth_inv w"
  obtain r db where w: "w = (r, db)" by (cases w)
  show ?thesis
  proof (cases "client_id_new client")
    case (Inr cid)
    obtain res r' db' where step: "registry_revoke fault cid tid at (r, db) = (res, r', db')"
      by (cases "registry_revoke fault cid tid at (r, db)")
    then show ?thesis using registry_revoke_inv [OF _ step] inv by (simp add: RevokeOp Inr w)
  qed (simp add: RevokeOp inv)
qed

interpretation auth_machine: invariant_machine "run_auth_op c" auth_inv for c
  by unfold_locales (rule run_auth_op_inv)


subsection \<open>Lookups in terms of grants\<close>

lemma validate_client_scope_grant:
  "validate_client_scope c r candidate sc =
     (if is_proxy_token c candidate
      then (case registry_grant r (token_digest c candidate) of
          Some (t, cl, scs) \<Rightarrow> if sc \<in> scs then Some \<lparr>auth_token_id = t, auth_client_id = cl\<rparr> else None
        | None \<Rightarrow> None)
      else None)"
  by (auto simp: validate_client_scope_def registry_grant_def authorized_def split: option.splits)

lemma validate_scopes_iff: "validate_scopes scopes = Ok () \<longleftrightarrow> scopes \<noteq> [] \<and> distinct scopes"
proof -
  have "adjacent_equal xs \<longleftrightarrow> \<not> distinct xs" if "sorted xs" for xs :: "client_token_scope list"
    using that by (induction xs rule: adjacent_equal.induct) (auto dest: order.antisym)
  then show ?thesis by (simp add: validate_scopes_def)
qed

lemma token_shape_generated:
  assumes "decode_slice c (encode_string c bytes) = Some bytes"
    and "length bytes = ENTROPY_BYTES" "length (encode_string c bytes) = ENCODED_ENTROPY_BYTES"
  shows "has_token_shape c (prefix @ encode_string c bytes) prefix"
proof -
  have "strip_prefix prefix (prefix @ encode_string c bytes) = Some (encode_string c bytes)"
    by simp
  then show ?thesis using assms by (simp add: has_token_shape_def)
qed

lemma proxy_not_admin:
  assumes "is_proxy_token c candidate"
  shows "\<not> is_admin_token c candidate"
  using assms
  by (auto simp: is_proxy_token_def is_admin_token_def has_token_shape_def PROXY_PREFIX_def
      ADMIN_PREFIX_def split: option.splits)

text \<open>A token identifier that was revoked, or is in use by one digest, stays so.\<close>

definition revoked_id :: "auth_db \<Rightarrow> string \<Rightarrow> bool" where
  "revoked_id db tid = (\<exists>row \<in> set (client_tokens db). row_token_id row = tid \<and> row_revoked_at row \<noteq> None)"

lemma revoked_id_no_grant:
  assumes "auth_db_ok db" "revoked_id db tid" "db_grant db d = Some (t, cl, scs)"
  shows "t \<noteq> tid"
  using assms token_row_unique [OF assms(1)]
  by (auto simp: revoked_id_def db_grant_iff [OF assms(1)]) (metis option.distinct(1))

lemma revoked_id_issue:
  assumes "revoked_id db tid" "issue_client_token_with_scopes f tok scopes db = (Ok (), db')"
  shows "revoked_id db' tid"
  using assms(1) issue_rows(1) [OF assms(2)] by (auto simp: revoked_id_def)

lemma revoke_tokens:
  "revoke_client_token f cid tid at db = (Ok b, db') \<Longrightarrow>
     b = list_ex (revocable cid tid) (client_tokens db)
     \<and> client_tokens db' = map (\<lambda>row. if revocable cid tid row then row\<lparr>row_revoked_at := Some at\<rparr> else row)
         (client_tokens db)"
  by (auto simp: revoke_client_token_def split: option.splits)

lemma revoked_id_revoke:
  assumes "revoked_id db tid" "revoke_client_token f cid tid' at db = (Ok b, db')"
  shows "revoked_id db' tid"
proof -
  obtain row where row: "row \<in> set (client_tokens db)" "row_token_id row = tid" "row_revoked_at row \<noteq> None"
    using assms(1) by (auto simp: revoked_id_def)
  then have "\<not> revocable cid tid' row" by (simp add: revocable_def)
  then have "row \<in> set (client_tokens db')"
    using row(1) revoke_tokens [OF assms(2)] by (auto simp: image_iff intro!: bexI [of _ row])
  with row show ?thesis by (auto simp: revoked_id_def)
qed

lemma revoke_true_revoked:
  assumes "revoke_client_token f cid tid at db = (Ok True, db')"
  shows "revoked_id db' tid"
proof -
  obtain row where row: "row \<in> set (client_tokens db)" "revocable cid tid row"
    using revoke_tokens [OF assms] by (auto simp: list_ex_iff)
  then have "row\<lparr>row_revoked_at := Some at\<rparr> \<in> set (client_tokens db')"
    using revoke_tokens [OF assms] by (auto simp: image_iff intro!: bexI [of _ row])
  moreover have "row_token_id row = tid" using row(2) by (simp add: revocable_def)
  ultimately show ?thesis
    unfolding revoked_id_def by (intro bexI [of _ "row\<lparr>row_revoked_at := Some at\<rparr>"]) simp_all
qed

lemma run_auth_op_revoked:
  assumes "revoked_id (snd w) tid"
  shows "revoked_id (snd (run_auth_op c w op)) tid"
proof (cases op)
  case (IssueOp fault entropy tid' client at scopes)
  obtain r db where w: "w = (r, db)" by (cases w)
  show ?thesis
  proof (cases "client_id_new client")
    case (Inr cid)
    obtain res r' db' where
      step: "registry_issue_with_scopes c fault entropy tid' cid at scopes (r, db) = (res, r', db')"
      by (cases "registry_issue_with_scopes c fault entropy tid' cid at scopes (r, db)")
    from step have "revoked_id db' tid"
      by (cases rule: registry_issue_cases) (use assms revoked_id_issue in \<open>auto simp: w\<close>)
    then show ?thesis using step by (simp add: IssueOp Inr w)
  qed (simp add: IssueOp assms)
next
  case (RevokeOp fault client tid' at)
  obtain r db where w: "w = (r, db)" by (cases w)
  show ?thesis
  proof (cases "client_id_new client")
    case (Inr cid)
    obtain res r' db' where step: "registry_revoke fault cid tid' at (r, db) = (res, r', db')"
      by (cases "registry_revoke fault cid tid' at (r, db)")
    from step have "revoked_id db' tid"
      by (cases rule: registry_revoke_cases) (use assms revoked_id_revoke in \<open>auto simp: w\<close>)
    then show ?thesis using step by (simp add: RevokeOp Inr w)
  qed (simp add: RevokeOp assms)
qed

interpretation revoked_machine: invariant_machine "run_auth_op c" "\<lambda>w. revoked_id (snd w) tid" for c tid
  by unfold_locales (rule run_auth_op_revoked)


subsection \<open>Loading the registry\<close>

definition active_of :: "scoped_client_token \<Rightarrow> active_client" where
  "active_of st =
     \<lparr>ac_token_id = ct_token_id (st_token st), ac_client_id = ct_client_id (st_token st),
      ac_scopes = st_scopes st\<rparr>"

lemma active_map_fold:
  assumes "distinct (map (\<lambda>st. ct_digest (st_token st)) sts)"
    and "\<forall>st \<in> set sts. st_scopes st \<noteq> [] \<and> distinct (st_scopes st)
           \<and> bt_get m (ct_digest (st_token st)) = None" "bt_wf m"
  shows "\<exists>m'. try_fold active_client_step sts m = Ok m' \<and> bt_wf m'
    \<and> (\<forall>d. bt_get m' d = (case find (\<lambda>st. ct_digest (st_token st) = d) sts of
         Some st \<Rightarrow> Some (active_of st) | None \<Rightarrow> bt_get m d))"
  using assms
proof (induction sts arbitrary: m)
  case (Cons st sts)
  let ?m = "bt_insert (ct_digest (st_token st)) (active_of st) m"
  have other: "ct_digest (st_token x) \<noteq> ct_digest (st_token st)" if "x \<in> set sts" for x
    using Cons.prems(1) that by (metis (mono_tags, lifting) distinct.simps(2) image_eqI
        list.set_map list.simps(9))
  have step: "active_client_step st m = Ok ?m"
    using Cons.prems by (simp add: active_client_step_def validate_scopes_iff [THEN iffD2] active_of_def)
  have "\<exists>m'. try_fold active_client_step sts ?m = Ok m' \<and> bt_wf m'
      \<and> (\<forall>d. bt_get m' d = (case find (\<lambda>st. ct_digest (st_token st) = d) sts of
           Some st \<Rightarrow> Some (active_of st) | None \<Rightarrow> bt_get ?m d))"
  proof (rule Cons.IH)
    show "\<forall>x \<in> set sts. st_scopes x \<noteq> [] \<and> distinct (st_scopes x)
        \<and> bt_get ?m (ct_digest (st_token x)) = None"
      using Cons.prems other by (simp add: bt.get_insert)
  qed (use Cons.prems in auto)
  then obtain m' where m': "try_fold active_client_step sts ?m = Ok m'" "bt_wf m'"
    "\<And>d. bt_get m' d = (case find (\<lambda>st. ct_digest (st_token st) = d) sts of
       Some st \<Rightarrow> Some (active_of st) | None \<Rightarrow> bt_get ?m d)" by blast
  have "find (\<lambda>x. ct_digest (st_token x) = ct_digest (st_token st)) sts = None"
    using other by (simp add: find_None_iff)
  then show ?case using m' step Cons.prems(3) by (auto simp: bt.get_insert split: option.splits)
qed simp

definition token_grant :: "scoped_client_token \<Rightarrow> string \<times> client_id \<times> client_token_scope set" where
  "token_grant st = (ct_token_id (st_token st), ct_client_id (st_token st), set (st_scopes st))"

lemma loaded_grants:
  assumes "auth_db_ok db"
    and "list_all2 (\<lambda>row st. st_token st = loaded_token row \<and> st_scopes st \<noteq> []
       \<and> distinct (st_scopes st) \<and> set (st_scopes st) = scope_set db (row_token_id row)) (active_rows db) sts"
  shows "(\<exists>st \<in> set sts. ct_digest (st_token st) = d \<and> g = token_grant st) \<longleftrightarrow> db_grant db d = Some g"
proof -
  have "(\<exists>st \<in> set sts. ct_digest (st_token st) = d \<and> g = token_grant st) \<longleftrightarrow>
      (\<exists>row \<in> set (active_rows db). row_digest row = d
        \<and> g = (row_token_id row, ClientId (row_client_id row), scope_set db (row_token_id row)))"
    using assms(2) by (induction rule: list_all2_induct) (auto simp: token_grant_def loaded_token_def)
  also have "\<dots> \<longleftrightarrow> db_grant db d = Some g"
    unfolding db_grant_iff [OF assms(1)] set_active_rows by blast
  finally show ?thesis .
qed

lemma load_registry:
  assumes "auth_db_ok db"
  shows "\<exists>sts m. load_active_scoped_client_tokens None db = Ok sts \<and> active_client_map sts = Ok m
    \<and> auth_inv (\<lparr>management_digest = d0, clients = m\<rparr>, db)"
proof -
  obtain sts where sts: "load_active_scoped_client_tokens None db = Ok sts"
    and rel: "list_all2 (\<lambda>row st. st_token st = loaded_token row \<and> st_scopes st \<noteq> []
       \<and> distinct (st_scopes st) \<and> set (st_scopes st) = scope_set db (row_token_id row)) (active_rows db) sts"
    using load_scoped_ok [OF assms] by blast
  have "list_all2 (\<lambda>row st. row_digest row = ct_digest (st_token st)) (active_rows db) sts"
    by (rule list_all2_mono [OF rel]) (simp add: loaded_token_def)
  then have "map row_digest (active_rows db) = map (\<lambda>st. ct_digest (st_token st)) sts"
    by (simp add: list.rel_eq [symmetric] list_all2_map1 list_all2_map2)
  moreover have "distinct (map row_digest (active_rows db))"
    using assms by (auto simp: auth_db_ok_def active_rows_def distinct_map intro: inj_on_subset)
  ultimately have dist: "distinct (map (\<lambda>st. ct_digest (st_token st)) sts)" by simp
  have "\<forall>st \<in> set sts. st_scopes st \<noteq> [] \<and> distinct (st_scopes st)"
    using rel by (auto simp: list_all2_conv_all_nth in_set_conv_nth)
  then obtain m where m: "try_fold active_client_step sts [] = Ok m" "bt_wf m"
    "\<And>d. bt_get m d = (case find (\<lambda>st. ct_digest (st_token st) = d) sts of
       Some st \<Rightarrow> Some (active_of st) | None \<Rightarrow> bt_get [] d)"
    using active_map_fold [OF dist, of "[]"] by auto
  have get: "bt_get m d = Some a \<longleftrightarrow> (\<exists>st \<in> set sts. ct_digest (st_token st) = d \<and> a = active_of st)" for d a
  proof -
    have "(\<exists>st \<in> set sts. ct_digest (st_token st) = d \<and> a = active_of st) \<longleftrightarrow>
        (\<exists>st. find (\<lambda>st. ct_digest (st_token st) = d) sts = Some st \<and> a = active_of st)"
      unfolding find_distinct [OF dist] by blast
    then show ?thesis
      by (cases "find (\<lambda>st. ct_digest (st_token st) = d) sts") (auto simp: m(3))
  qed
  have "registry_grant \<lparr>management_digest = d0, clients = m\<rparr> d = Some g \<longleftrightarrow>
      (\<exists>st \<in> set sts. ct_digest (st_token st) = d \<and> g = token_grant st)" for d g
    using get by (auto simp: registry_grant_def active_of_def token_grant_def)
  moreover have "(\<exists>st \<in> set sts. ct_digest (st_token st) = d \<and> g = token_grant st)
      \<longleftrightarrow> db_grant db d = Some g" for d g
    by (rule loaded_grants [OF assms rel])
  ultimately have "registry_grant \<lparr>management_digest = d0, clients = m\<rparr> d = db_grant db d" for d
    by (metis option.exhaust)
  then show ?thesis using sts m(1,2) assms by (auto simp: auth_inv_def fun_eq_iff active_client_map_def)
qed


subsection \<open>Bootstrap\<close>

text \<open>Neither issuing nor revoking touches the bindings, and the token tables alone decide the grants.\<close>

lemma auth_db_ok_cong:
  assumes "client_tokens db' = client_tokens db" "client_token_scopes db' = client_token_scopes db"
  shows "auth_db_ok db' = auth_db_ok db" "db_grant db' = db_grant db"
proof -
  have "scope_set db' = scope_set db" using assms by (simp add: scope_set_def fun_eq_iff)
  then show "auth_db_ok db' = auth_db_ok db" "db_grant db' = db_grant db"
    using assms by (simp_all add: auth_db_ok_def db_grant_def fun_eq_iff split: option.split)
qed

lemma query_cong:
  "runtime_secret_bindings db' = runtime_secret_bindings db \<Longrightarrow>
     query_runtime_secret_binding is_uuid f n db' = query_runtime_secret_binding is_uuid f n db"
  by (cases f) (simp_all add: query_runtime_secret_binding_def)

lemma bind_tables:
  "bind_runtime_secret_if_absent f n r at db = (q, db') \<Longrightarrow>
     client_tokens db' = client_tokens db \<and> client_token_scopes db' = client_token_scopes db"
  by (auto simp: bind_runtime_secret_if_absent_def split: option.splits)

lemma orphan_tables:
  "record_orphan_secret f r at db = (q, db') \<Longrightarrow>
     client_tokens db' = client_tokens db \<and> client_token_scopes db' = client_token_scopes db"
  by (auto simp: record_orphan_secret_def split: option.splits)

lemma management_digest_tables:
  assumes "management_secret_digest c is_uuid get put env sc at (s, db) = (Ok d, s', db')"
  shows "client_tokens db' = client_tokens db \<and> client_token_scopes db' = client_token_scopes db"
  using assms
  by (auto simp: management_secret_digest_def create_management_secret_def run_metadata_def
      dest: bind_tables split: sum.splits option.splits prod.splits run_fault.splits)

lemma bootstrap_inv:
  assumes "auth_db_ok db" "bootstrap_owned c is_uuid get put env sc at (s, db) = (Ok r, s', db')"
  shows "auth_inv (r, db')"
proof -
  obtain d cs where phase: "management_secret_digest c is_uuid get put env sc at (s, db) = (Ok d, s', db')"
    and cs: "load_clients (be_load env) db' = Ok cs" and r: "r = \<lparr>management_digest = d, clients = cs\<rparr>"
    using assms(2) by (auto simp: bootstrap_owned_def st_then_eq_Ok and_then_eq_Ok)
  have ok: "auth_db_ok db'"
    using assms(1) auth_db_ok_cong(1) management_digest_tables [OF phase] by blast
  obtain sts m where sts: "load_active_scoped_client_tokens None db' = Ok sts" "active_client_map sts = Ok m"
    and inv: "auth_inv (\<lparr>management_digest = d, clients = m\<rparr>, db')"
    using load_registry [OF ok, of d] by blast
  have "be_load env = NoFault"
    using cs by (cases "be_load env")
      (simp_all add: load_clients_def run_metadata_def load_active_scoped_client_tokens_def
        load_active_client_tokens_def)
  then have "cs = m" using cs sts by (simp add: load_clients_def run_metadata_def)
  then show ?thesis using inv r by simp
qed

text \<open>A database whose binding names a stored administration token has its digest.\<close>

definition bound_digest ::
  "crypto \<Rightarrow> (string \<Rightarrow> bool) \<Rightarrow> (secret_ref \<Rightarrow> 's \<Rightarrow> storage_error + string) \<Rightarrow> 's \<Rightarrow> auth_db
     \<Rightarrow> string \<Rightarrow> bool" where
  "bound_digest c is_uuid get s db d =
     (\<exists>b. query_runtime_secret_binding is_uuid None MANAGEMENT_BINDING_NAME db = Ok (Some b)
        \<and> read_management_digest c get (rb_secret_ref b) s = Ok d)"

lemma bound_digest_again:
  assumes "bound_digest c is_uuid get s db d" "be_query env = NoFault"
  shows "management_secret_digest c is_uuid get put env sc at (s, db) = (Ok d, s, db)"
  using assms by (auto simp: bound_digest_def management_secret_digest_def run_metadata_def)

lemma find_snoc: "find P xs = None \<Longrightarrow> find P (xs @ [x]) = (if P x then Some x else None)"
  by (induction xs) (auto split: if_splits)

lemma bind_then_query:
  assumes "query_runtime_secret_binding is_uuid None n db = Ok None"
    and "bind_runtime_secret_if_absent f n r at db = (Ok b, db')" "secret_ref_parse is_uuid r = Ok r"
  shows "rb_secret_ref b = r \<and> query_runtime_secret_binding is_uuid None n db' = Ok (Some b)"
proof -
  have none: "find (\<lambda>b. brow_name b = n) (runtime_secret_bindings db) = None"
    using assms(1) by (auto simp: query_runtime_secret_binding_def and_then_def split: option.splits sum.splits)
  then show ?thesis
    using assms(2,3)
    by (auto simp: find_snoc bind_runtime_secret_if_absent_def query_runtime_secret_binding_def u64_try_from_def
        split: option.splits)
qed

context secret_store
begin

lemma management_digest_bound:
  assumes "inv s" "secret_ref_parse is_uuid (be_fresh env) = Ok (be_fresh env)"
    and "management_secret_digest c is_uuid get put env sc at (s, db) = (Ok d, s', db')"
  shows "bound_digest c is_uuid get s' db' d"
proof -
  let ?query = "query_runtime_secret_binding is_uuid None MANAGEMENT_BINDING_NAME db"
  have fault: "be_query env = NoFault"
    using assms(3) by (cases "be_query env")
      (simp_all add: management_secret_digest_def run_metadata_def query_runtime_secret_binding_def)
  show ?thesis
  proof (cases ?query)
    case (Inl e)
    then show ?thesis using assms(3) fault by (simp add: management_secret_digest_def run_metadata_def)
  next
    case q: (Inr ob)
    show ?thesis
    proof (cases ob)
      case (Some b)
      then show ?thesis using assms(3) fault q
        by (auto simp: management_secret_digest_def run_metadata_def bound_digest_def)
    next
      case None
      have create: "create_management_secret c get put env sc at (s, db) = (Ok d, s', db')"
        using assms(3) fault q None by (simp add: management_secret_digest_def run_metadata_def)
      obtain material r b where put: "put (be_fresh env) sc material s = (Ok r, s')"
        and bind: "run_metadata (be_bind env)
            (\<lambda>f. bind_runtime_secret_if_absent f MANAGEMENT_BINDING_NAME r at) db = (Ok b, db')"
        and read: "read_management_digest c get (rb_secret_ref b) s' = Ok d"
        using create by (auto simp: create_management_secret_def split: sum.splits prod.splits)
      obtain f where "bind_runtime_secret_if_absent f MANAGEMENT_BINDING_NAME r at db = (Ok b, db')"
        using run_metadata_ok [OF bind] by blast
      moreover have "r = be_fresh env" using put_get [OF assms(1) put] by simp
      ultimately have "query_runtime_secret_binding is_uuid None MANAGEMENT_BINDING_NAME db' = Ok (Some b)"
        using bind_then_query [of is_uuid MANAGEMENT_BINDING_NAME db] q None assms(2) by blast
      then show ?thesis using read by (auto simp: bound_digest_def)
    qed
  qed
qed

end

lemma run_auth_op_bindings:
  "runtime_secret_bindings (snd (run_auth_op c w op)) = runtime_secret_bindings (snd w)"
  by (cases w; cases op)
    (auto simp: registry_issue_with_scopes_def issue_client_token_owned_def registry_revoke_def Let_def
      run_metadata_def issue_client_token_with_scopes_def revoke_client_token_def
      split: sum.splits prod.splits run_fault.splits option.splits if_splits)

interpretation bindings_machine: invariant_machine "run_auth_op c" "\<lambda>w. runtime_secret_bindings (snd w) = bs" for c bs
  by unfold_locales (simp add: run_auth_op_bindings)

lemma run_auth_op_management: "management_digest (fst (run_auth_op c w op)) = management_digest (fst w)"
  by (cases w; cases op)
    (auto simp: registry_issue_with_scopes_def issue_client_token_owned_def registry_revoke_def Let_def
      split: sum.splits prod.splits)

interpretation management_machine: invariant_machine "run_auth_op c" "\<lambda>w. management_digest (fst w) = d" for c d
  by unfold_locales (simp add: run_auth_op_management)

subsection \<open>A token that nobody revokes\<close>

fun spares :: "string \<Rightarrow> string \<Rightarrow> auth_op \<Rightarrow> bool" where
  "spares client tid (RevokeOp _ client' tid' _) = (\<not> (client' = client \<and> tid' = tid))"
| "spares client tid (IssueOp _ _ _ _ _ _) = True"

lemma issue_keeps_grant:
  assumes "auth_db_ok db" "is_valid_identifier (client_str (ct_client_id tok))"
    and "issue_client_token_with_scopes f tok scopes db = (Ok (), db')" "db_grant db d = Some g"
  shows "db_grant db' d = Some g"
proof -
  have "d \<in> row_digest ` set (client_tokens db)"
    using assms(4) unfolding db_grant_iff [OF assms(1)] by auto
  then have "d \<noteq> ct_digest tok" using issue_rows(3) [OF assms(3)] by metis
  then show ?thesis using issue_grant [OF assms(1-3), of d] assms(4) by simp
qed

lemma run_auth_op_keeps_grant:
  assumes "auth_inv w" "db_grant (snd w) d = Some (tid, ClientId client, scs)" "spares client tid op"
  shows "db_grant (snd (run_auth_op c w op)) d = Some (tid, ClientId client, scs)"
proof (cases op)
  case (IssueOp fault entropy tid' client' at scopes)
  obtain r db where w: "w = (r, db)" by (cases w)
  show ?thesis
  proof (cases "client_id_new client'")
    case (Inr cid)
    obtain res r' db' where
      step: "registry_issue_with_scopes c fault entropy tid' cid at scopes (r, db) = (res, r', db')"
      by (cases "registry_issue_with_scopes c fault entropy tid' cid at scopes (r, db)")
    from step have "db_grant db' d = Some (tid, ClientId client, scs)"
    proof (cases rule: registry_issue_cases)
      case (issued bytes f)
      show ?thesis
        by (rule issue_keeps_grant [OF _ _ issued(3)])
          (use assms client_id_new_valid [OF Inr] in \<open>auto simp: w auth_inv_def\<close>)
    qed (use assms in \<open>simp add: w\<close>)
    then show ?thesis using step by (simp add: IssueOp Inr w)
  qed (simp add: IssueOp assms)
next
  case (RevokeOp fault client' tid' at)
  obtain r db where w: "w = (r, db)" by (cases w)
  show ?thesis
  proof (cases "client_id_new client'")
    case (Inr cid)
    obtain res r' db' where step: "registry_revoke fault cid tid' at (r, db) = (res, r', db')"
      by (cases "registry_revoke fault cid tid' at (r, db)")
    have other: "\<not> (tid = tid' \<and> ClientId client = cid)"
      using assms(3) client_id_new_valid [OF Inr] by (auto simp: RevokeOp)
    from step have "db_grant db' d = Some (tid, ClientId client, scs)"
    proof (cases rule: registry_revoke_cases)
      case (revoked f b)
      show ?thesis
        using revoke_grant [OF _ revoked(2), of d] assms(1,2) other by (auto simp: w auth_inv_def)
    qed (use assms in \<open>simp add: w\<close>)
    then show ?thesis using step by (simp add: RevokeOp Inr w)
  qed (simp add: RevokeOp assms)
qed

lemma exec_keeps_grant:
  assumes "auth_inv w" "db_grant (snd w) d = Some (tid, ClientId client, scs)" "list_all (spares client tid) ops"
  shows "db_grant (snd (exec (run_auth_op c) w ops)) d = Some (tid, ClientId client, scs)"
  using assms by (induction ops arbitrary: w) (simp_all add: run_auth_op_inv run_auth_op_keeps_grant)

lemma auth_inv_validate:
  assumes "auth_inv (r, db)"
  shows "validate_client_scope c r candidate sc =
     (if is_proxy_token c candidate
      then (case db_grant db (token_digest c candidate) of
          Some (t, cl, scs) \<Rightarrow> if sc \<in> scs then Some \<lparr>auth_token_id = t, auth_client_id = cl\<rparr> else None
        | None \<Rightarrow> None)
      else None)"
  using assms by (simp add: validate_client_scope_grant auth_inv_def)

lemma issued_then_ops:
  assumes "auth_inv w" "client_id_new client = Ok cid"
    and "registry_issue_with_scopes c fault (Ok bytes) tid cid at scopes w = (Ok material, w1)"
    and "list_all (spares client tid) ops" "exec (run_auth_op c) w1 ops = (r, db)"
    and "length bytes = ENTROPY_BYTES" "decode_slice c (encode_string c bytes) = Some bytes"
    and "length (encode_string c bytes) = ENCODED_ENTROPY_BYTES"
  shows "auth_inv (r, db) \<and> is_proxy_token c material
    \<and> db_grant db (token_digest c material) = Some (tid, cid, set scopes)"
proof -
  obtain r0 db0 r1 db1 where w: "w = (r0, db0)" "w1 = (r1, db1)" by (cases w, cases w1)
  have cid: "is_valid_identifier (client_str cid)" "cid = ClientId client"
    using client_id_new_valid [OF assms(2)] by (cases cid; simp)+
  have inv1: "auth_inv w1" using registry_issue_inv assms(1,3) cid(1) unfolding w by blast
  have issue: "material = PROXY_PREFIX @ encode_string c bytes"
    "db_grant db1 (token_digest c material) = Some (tid, cid, set scopes)"
  proof -
    show "material = PROXY_PREFIX @ encode_string c bytes"
      "db_grant db1 (token_digest c material) = Some (tid, cid, set scopes)"
      using assms(3) unfolding w
      by (cases rule: registry_issue_cases; use issue_grant assms(1) cid(1) in \<open>force simp: w auth_inv_def\<close>)+
  qed
  have "db_grant (snd (exec (run_auth_op c) w1 ops)) (token_digest c material) = Some (tid, ClientId client, set scopes)"
    by (rule exec_keeps_grant [OF inv1 _ assms(4)]) (use issue(2) cid w in simp)
  moreover have "auth_inv (r, db)" using auth_machine.inv_exec [OF inv1, of c ops] assms(5) by simp
  moreover have "is_proxy_token c material"
    using token_shape_generated [OF assms(7,6,8), of PROXY_PREFIX] by (simp add: is_proxy_token_def issue(1))
  ultimately show ?thesis using assms(5) cid(2) by simp
qed

subsection \<open>Properties\<close>

text \<open>
  C35. The registry authorises exactly what the database grants: after a bootstrap on any secret
  store and any sequence of issue and revoke calls, with any failures of the database, the blocking
  pool or the random source, a candidate validates for a scope iff it has the shape of a proxy token
  and the row of its digest is not revoked and has the scope; the answer names that row's token and
  client.
\<close>

theorem registry_follows_database:
  assumes "auth_db_ok db0"
    and "bootstrap_owned c is_uuid get put env sc at (s, db0) = (Ok r0, s', db1)"
    and "exec (run_auth_op c) (r0, db1) ops = (r, db)"
  shows "validate_client_scope c r candidate scope =
     (if is_proxy_token c candidate
      then (case db_grant db (token_digest c candidate) of
          Some (t, cl, scs) \<Rightarrow> if scope \<in> scs then Some \<lparr>auth_token_id = t, auth_client_id = cl\<rparr> else None
        | None \<Rightarrow> None)
      else None)"
proof (rule auth_inv_validate)
  show "auth_inv (r, db)"
    using auth_machine.inv_exec [OF bootstrap_inv [OF assms(1,2)], of c ops] assms(3) by simp
qed

text \<open>
  C10. Once a revocation has returned success, the token identifier never authorises a request
  again: not after any further calls, nor in a registry bootstrapped later from the database.
\<close>

theorem revoked_token_stays_revoked:
  assumes "auth_inv w" "registry_revoke fault cid tid at w = (Ok True, w1)"
    and "exec (run_auth_op c) w1 ops = (r, db)"
    and "bootstrap_owned c is_uuid get put env sc at' (s, db) = (Ok r2, s2, db2)"
  shows "map_option auth_token_id (validate_client_scope c r candidate scope) \<noteq> Some tid
    \<and> map_option auth_token_id (validate_client_scope c r2 candidate scope) \<noteq> Some tid"
proof -
  obtain r0 db0 r1 db1 where w: "w = (r0, db0)" "w1 = (r1, db1)" by (cases w, cases w1)
  have inv1: "auth_inv w1" using registry_revoke_inv assms(1,2) unfolding w by blast
  have "revoked_id db1 tid"
    using assms(2) unfolding w
    by (cases rule: registry_revoke_cases) (auto dest: revoke_true_revoked)
  then have gone: "revoked_id db tid"
    using revoked_machine.inv_exec [of w1 tid c ops] assms(3) w by simp
  have inv: "auth_inv (r, db)" using auth_machine.inv_exec [OF inv1, of c ops] assms(3) by simp
  have ok: "auth_db_ok db" using inv by (simp add: auth_inv_def)
  have inv2: "auth_inv (r2, db2)" by (rule bootstrap_inv [OF ok assms(4)])
  have same: "db_grant db2 = db_grant db"
    by (rule auth_db_ok_cong(2)) (use assms(4) in \<open>auto simp: bootstrap_owned_def st_then_eq_Ok
      dest: management_digest_tables\<close>)
  have "t \<noteq> tid" if "db_grant db (token_digest c candidate) = Some (t, cl, scs)" for t cl scs
    by (rule revoked_id_no_grant [OF ok gone that])
  then show ?thesis
    unfolding auth_inv_validate [OF inv] auth_inv_validate [OF inv2] same
    by (auto split: option.splits)
qed

text \<open>
  Bootstrapping again on the same in-memory store and database, after any issue and revoke calls, succeeds
  without writing anything and gives a registry that accepts the same administration tokens and
  authorises the same client tokens. The random reference is assumed to be one that parses.
\<close>

lemma bootstrap_again:
  assumes "bt_wf s" "auth_db_ok db0" "secret_ref_parse is_uuid (be_fresh env) = Ok (be_fresh env)"
    and "bootstrap_owned c is_uuid memory_get memory_put env sc at (s, db0) = (Ok r0, s1, db1)"
    and "exec (run_auth_op c) (r0, db1) ops = (r, db)"
    and "be_query env2 = NoFault" "be_load env2 = NoFault"
  shows "\<exists>r2. bootstrap_owned c is_uuid memory_get memory_put env2 sc2 at2 (s1, db) = (Ok r2, s1, db)
    \<and> validate_management c r2 = validate_management c r
    \<and> validate_client_scope c r2 = validate_client_scope c r"
proof -
  obtain d where phase: "management_secret_digest c is_uuid memory_get memory_put env sc at (s, db0) = (Ok d, s1, db1)"
    and d: "management_digest r0 = d"
    using assms(4) by (auto simp: bootstrap_owned_def st_then_eq_Ok)
  have bound1: "bound_digest c is_uuid memory_get s1 db1 d"
    by (rule memory_store.management_digest_bound [OF assms(1,3) phase])
  have "runtime_secret_bindings db = runtime_secret_bindings db1"
    using bindings_machine.inv_exec [of "(r0, db1)" "runtime_secret_bindings db1" c ops] assms(5) by simp
  then have bound: "bound_digest c is_uuid memory_get s1 db d"
    using bound1 by (simp add: bound_digest_def query_cong [of db db1])
  have inv: "auth_inv (r, db)"
    using auth_machine.inv_exec [OF bootstrap_inv [OF assms(2,4)], of c ops] assms(5) by simp
  then obtain sts m where m: "load_active_scoped_client_tokens None db = Ok sts" "active_client_map sts = Ok m"
    and inv2: "auth_inv (\<lparr>management_digest = d, clients = m\<rparr>, db)"
    using load_registry [of db d] by (auto simp: auth_inv_def)
  let ?r2 = "\<lparr>management_digest = d, clients = m\<rparr>"
  have "bootstrap_owned c is_uuid memory_get memory_put env2 sc2 at2 (s1, db) = (Ok ?r2, s1, db)"
    using m assms(7) bound_digest_again [OF bound assms(6)]
    by (simp add: bootstrap_owned_def load_clients_def run_metadata_def)
  moreover have "validate_client_scope c ?r2 = validate_client_scope c r"
    by (simp add: fun_eq_iff auth_inv_validate [OF inv] auth_inv_validate [OF inv2])
  moreover have "management_digest r = d"
    using management_machine.inv_exec [of "(r0, db1)" d c ops] d assms(5) by simp
  ultimately show ?thesis by (auto simp: validate_management_def fun_eq_iff)
qed

subsection \<open>Witnesses\<close>

text \<open>A codec that pads and a hash that keeps the 32 bytes after the prefix.\<close>

definition pad_crypto :: crypto where
  "pad_crypto = \<lparr>encode_string = (\<lambda>b. b @ replicate 11 CHR ''A''),
     decode_slice = (\<lambda>e. Some (take 32 e)), sha256_digest = (\<lambda>t. take 32 (drop 13 t))\<rparr>"

definition demo_env :: bootstrap_env where
  "demo_env = \<lparr>be_query = NoFault, be_bind = NoFault, be_orphan = NoFault, be_load = NoFault,
     be_entropy = Ok (replicate 32 CHR ''m''), be_fresh = ''secret:1''\<rparr>"

definition demo_scope :: secret_scope where
  "demo_scope = \<lparr>scope_provider_id = ProviderId ''wokcore'', scope_account_id = None,
     scope_purpose = Auxiliary\<rparr>"

definition demo_registry :: auth_registry where
  "demo_registry = \<lparr>management_digest = replicate 32 CHR ''m'', clients = []\<rparr>"

definition demo_db :: auth_db where
  "demo_db = empty_auth_db\<lparr>runtime_secret_bindings :=
     [\<lparr>brow_name = ''management'', brow_secret_ref = ''secret:1'', brow_revision = 1, brow_created_at = ''t0''\<rparr>]\<rparr>"

definition demo_issue :: "(auth_error + string) \<times> auth_registry \<times> auth_db" where
  "demo_issue = registry_issue_with_scopes pad_crypto NoFault (Ok (replicate 32 CHR ''p'')) ''t1''
     (ClientId ''cli'') ''t0'' [ProxyUse] (demo_registry, demo_db)"

lemma list_numeral:
  "replicate 8 a = [a, a, a, a, a, a, a, a]"
  "replicate 32 a = replicate 8 a @ replicate 8 a @ replicate 8 a @ replicate 8 a"
  "replicate 11 a = a # a # a # replicate 8 a" "replicate 10 a = a # a # replicate 8 a"
  by (simp_all add: numeral_eq_Suc)

lemmas auth_eval = Let_def pad_crypto_def demo_env_def demo_scope_def demo_registry_def demo_db_def demo_issue_def
  empty_auth_db_def list_numeral bootstrap_owned_def management_secret_digest_def run_metadata_def
  query_runtime_secret_binding_def MANAGEMENT_BINDING_NAME_def create_management_secret_def
  generate_admin_def generate_proxy_def token_generate_def ADMIN_PREFIX_def PROXY_PREFIX_def
  memory_put_def memory_get_def bind_runtime_secret_if_absent_def read_management_digest_def
  is_admin_token_def is_proxy_token_def has_token_shape_def ENCODED_ENTROPY_BYTES_def ENTROPY_BYTES_def
  token_digest_def load_clients_def load_active_scoped_client_tokens_def load_active_client_tokens_def
  active_rows_def active_client_map_def secret_ref_parse_def SECRET_REF_PREFIX_def
  registry_issue_with_scopes_def validate_scopes_def issue_client_token_owned_def
  issue_client_token_with_scopes_def registry_revoke_def revoke_client_token_def revocable_def

lemma demo_bootstrap:
  "bootstrap_owned pad_crypto (\<lambda>_. True) memory_get memory_put demo_env demo_scope ''t0'' ([], empty_auth_db)
   = (Ok demo_registry, [(''secret:1'', ''wok_admin_v1_'' @ replicate 32 CHR ''m'' @ replicate 11 CHR ''A'')], demo_db)"
  by (simp add: auth_eval ok_or_def bt_get_def)

lemma demo_issued:
  "fst demo_issue = Ok (''wok_proxy_v1_'' @ replicate 32 CHR ''p'' @ replicate 11 CHR ''A'')"
  by (simp add: auth_eval)

text \<open>The registry after a bootstrap on an empty store, then with one token, then without.\<close>

definition demo_state :: "auth_registry \<times> auth_db" where
  "demo_state = snd demo_issue"

definition demo_revoked :: "auth_registry \<times> auth_db" where
  "demo_revoked = snd (registry_revoke NoFault (ClientId ''cli'') ''t1'' ''t2'' demo_state)"

definition demo_token :: string where
  "demo_token = ''wok_proxy_v1_'' @ replicate 32 CHR ''p'' @ replicate 11 CHR ''A''"

lemma demo_client: "client_id_new ''cli'' = Ok (ClientId ''cli'')" "is_valid_identifier ''cli''"
  by (simp_all add: client_id_new_def config_eval str_eval)

lemma demo_inv: "auth_inv (demo_registry, demo_db)"
  by (rule bootstrap_inv [OF empty_auth_db_ok demo_bootstrap])

lemma demo_issue_eq: "demo_issue = (Ok demo_token, demo_state)"
  using demo_issued by (simp add: demo_state_def demo_token_def prod_eq_iff)

lemma demo_state_inv: "auth_inv demo_state"
proof -
  obtain r db where state: "demo_state = (r, db)" by (cases demo_state)
  have "registry_issue_with_scopes pad_crypto NoFault (Ok (replicate 32 CHR ''p'')) ''t1''
     (ClientId ''cli'') ''t0'' [ProxyUse] (demo_registry, demo_db) = (Ok demo_token, r, db)"
    using demo_issue_eq by (simp add: demo_issue_def state)
  from registry_issue_inv [OF demo_inv _ this] show ?thesis
    by (simp add: state demo_client)
qed

lemma demo_revoke_eq:
  "registry_revoke NoFault (ClientId ''cli'') ''t1'' ''t2'' demo_state = (Ok True, demo_revoked)"
proof -
  have "fst (registry_revoke NoFault (ClientId ''cli'') ''t1'' ''t2'' demo_state) = Ok True"
    by (simp add: demo_state_def auth_eval)
  then show ?thesis by (simp add: demo_revoked_def prod_eq_iff)
qed

theorem registry_follows_database_witness:
  "validate_client_scope pad_crypto (fst demo_state) demo_token ProxyUse
     = Some \<lparr>auth_token_id = ''t1'', auth_client_id = ClientId ''cli''\<rparr>"
proof -
  have step: "exec (run_auth_op pad_crypto) (demo_registry, demo_db)
      [IssueOp NoFault (Ok (replicate 32 CHR ''p'')) ''t1'' ''cli'' ''t0'' [ProxyUse]] = (fst demo_state, snd demo_state)"
    using demo_issue_eq
    by (simp add: demo_issue_def demo_client)
  show ?thesis
    unfolding registry_follows_database [OF empty_auth_db_ok demo_bootstrap step]
    by (simp add: demo_token_def demo_state_def auth_eval db_grant_def scope_set_def)
qed

theorem revoked_token_stays_revoked_witness:
  "map_option auth_token_id (validate_client_scope pad_crypto (fst demo_revoked) demo_token ProxyUse) \<noteq> Some ''t1''"
proof -
  have again: "bootstrap_owned pad_crypto (\<lambda>_. True) memory_get memory_put demo_env demo_scope ''t3''
      ([(''secret:1'', ''wok_admin_v1_'' @ replicate 32 CHR ''m'' @ replicate 11 CHR ''A'')], snd demo_revoked)
    = (Ok demo_registry, [(''secret:1'', ''wok_admin_v1_'' @ replicate 32 CHR ''m'' @ replicate 11 CHR ''A'')],
       snd demo_revoked)"
    by (simp add: demo_revoked_def demo_state_def auth_eval ok_or_def u64_try_from_def bt_get_def)
  have run: "exec (run_auth_op pad_crypto) demo_revoked [] = (fst demo_revoked, snd demo_revoked)" by simp
  show ?thesis
    using revoked_token_stays_revoked [OF demo_state_inv demo_revoke_eq run again, of demo_token ProxyUse] by simp
qed

end
