(* ===== verification/Str_Ops.thy ===== *)
theory Str_Ops
  imports Rust_Str
begin

text \<open>
  Further operations of Rust's \<open>str\<close> on UTF-8 byte lists: trimming white space at both ends and
  splitting at an ASCII character.
\<close>

function trim_start :: "string \<Rightarrow> string" where
  "trim_start [] = []"
| "trim_start (a # s) =
     (case utf8_next a s of
        None \<Rightarrow> a # s
      | Some (c, r) \<Rightarrow> if is_white_space c then trim_start r else a # s)"
  by pat_completeness auto
termination
  by (relation "measure length") (auto dest: utf8_next_length)

text \<open>The first scalar value is kept when something after it is kept or it is not white space.\<close>

function trim_end :: "string \<Rightarrow> string" where
  "trim_end [] = []"
| "trim_end (a # s) =
     (case utf8_next a s of
        None \<Rightarrow> a # s
      | Some (c, r) \<Rightarrow>
          if trim_end r = [] \<and> is_white_space c then []
          else take (Suc (length s) - length r) (a # s) @ trim_end r)"
  by pat_completeness auto
termination
  by (relation "measure length") (auto dest: utf8_next_length)

definition str_trim :: "string \<Rightarrow> string" where
  "str_trim s = trim_end (trim_start s)"

fun split_char :: "char \<Rightarrow> string \<Rightarrow> string list" where
  "split_char d [] = [[]]"
| "split_char d (c # s) =
     (if c = d then [] # split_char d s
      else (case split_char d s of
          [] \<Rightarrow> [[c]]
        | p # ps \<Rightarrow> (c # p) # ps))"

fun split_once_char :: "char \<Rightarrow> string \<Rightarrow> (string \<times> string) option" where
  "split_once_char d [] = None"
| "split_once_char d (c # s) =
     (if c = d then Some ([], s) else map_option (\<lambda>(a, b). (c # a, b)) (split_once_char d s))"

lemma split_char_not_Nil [simp]: "split_char d s \<noteq> []"
  by (induction s) (auto split: list.splits)

text \<open>The pieces contain no separator and give the string back when joined.\<close>

fun join_char :: "char \<Rightarrow> string list \<Rightarrow> string" where
  "join_char d [] = []"
| "join_char d [p] = p"
| "join_char d (p # ps) = p @ d # join_char d ps"

lemma join_split: "join_char d (split_char d s) = s"
proof (induction s)
  case (Cons c s)
  obtain p ps where ps: "split_char d s = p # ps" by (cases "split_char d s") simp_all
  show ?case
  proof (cases "c = d")
    case False
    then show ?thesis using Cons ps by (cases ps) simp_all
  qed (use Cons ps in simp)
qed simp

lemma split_no_sep: "p \<in> set (split_char d s) \<Longrightarrow> d \<notin> set p"
proof (induction s arbitrary: p)
  case (Cons c s)
  obtain q qs where qs: "split_char d s = q # qs" by (cases "split_char d s") simp_all
  then have "\<forall>p \<in> set (q # qs). d \<notin> set p" using Cons.IH by metis
  then show ?case using Cons.prems qs by (cases "c = d") auto
qed simp

lemma split_char_piece: "d \<notin> set p \<Longrightarrow> split_char d p = [p]"
  by (induction p) auto

lemma split_char_append: "d \<notin> set p \<Longrightarrow> split_char d (p @ d # s) = p # split_char d s"
  by (induction p) auto

lemma split_join:
  "ps \<noteq> [] \<Longrightarrow> \<forall>p \<in> set ps. d \<notin> set p \<Longrightarrow> split_char d (join_char d ps) = ps"
  by (induction d ps rule: join_char.induct) (simp_all add: split_char_piece split_char_append)

lemma split_char_eq_iff:
  "split_char d s = ps \<longleftrightarrow> ps \<noteq> [] \<and> (\<forall>p \<in> set ps. d \<notin> set p) \<and> s = join_char d ps"
  using join_split split_no_sep split_join by (metis split_char_not_Nil)

lemma split_once_Some: "split_once_char d s = Some (a, b) \<longleftrightarrow> s = a @ d # b \<and> d \<notin> set a"
proof (induction s arbitrary: a)
  case (Cons c s)
  then show ?case by (cases a) auto
qed simp

end
