(* ===== verification/Api_Security.thy ===== *)
theory Api_Security
  imports Auth Lifecycle Str_Ops
begin

text \<open>
  The security middleware of the HTTP server, \<open>crates/wokcore-server/src/api/security.rs\<close>, with the
  error responses of \<open>api/error.rs\<close> and \<open>data_plane/response.rs\<close>, the protocol registry of
  \<open>data_plane/registry.rs\<close> and the route table of \<open>api/mod.rs\<close>. What the lifecycle answers while a
  request is handled (theory \<open>Lifecycle\<close>) and the authentication registry (theory \<open>Auth\<close>) are in
  the environment of a request; the HTTP library's header and body conversions are arguments.
\<close>

subsection \<open>Requests and responses\<close>

datatype http_method = GET | POST | PUT | PATCH | DELETE | HEAD | OtherMethod string

datatype client_protocol =
    OpenAiResponses
  | OpenAiChatCompletions
  | AnthropicMessages
  | AnthropicCountTokens
  | OpenAiModels
  | OpenAiImageGenerations
  | OpenAiImageEdits

datatype body_kind = NoBody | JsonBody | MultipartFormData

datatype diagnostic_component =
    CoreComponent | RouterComponent | ProviderComponent | StorageComponent | SessionsComponent
  | DiagnosticsComponent | PlatformComponent

text \<open>Header names are lower case; a request may repeat a header.\<close>

record http_request =
  rq_method :: http_method
  rq_path :: string
  rq_authority :: "string option"
  rq_headers :: "(string \<times> string) list"
  rq_body :: string
  rq_client :: "authorized_client option"
  rq_protocol :: "client_protocol option"

datatype response_body =
    ApiErrorBody (eb_code: string) (eb_message: string)
  | OpenAiErrorBody (eb_kind: string) (eb_code: string) (eb_message: string)
  | AnthropicErrorBody (eb_kind: string) (eb_code: string) (eb_message: string)
  | HandlerBody string

record http_response =
  rs_status :: nat
  rs_body :: response_body
  rs_www_authenticate :: bool
  rs_component :: "diagnostic_component option"
  rs_holds_guard :: bool

text \<open>\<open>HeaderValue::to_str\<close> and \<open>axum::body::to_bytes\<close>.\<close>

record http_lib =
  to_str :: "string \<Rightarrow> string option"
  to_bytes :: "string \<Rightarrow> nat \<Rightarrow> string option"

definition get_all :: "string \<Rightarrow> http_request \<Rightarrow> string list" where
  "get_all name rq = map snd (filter (\<lambda>(n, _). n = name) (rq_headers rq))"

subsection \<open>Protocols (\<open>data_plane/registry.rs\<close>)\<close>

fun request_body_kind :: "client_protocol \<Rightarrow> body_kind" where
  "request_body_kind OpenAiModels = NoBody"
| "request_body_kind OpenAiImageEdits = MultipartFormData"
| "request_body_kind _ = JsonBody"

fun is_anthropic :: "client_protocol \<Rightarrow> bool" where
  "is_anthropic AnthropicMessages = True"
| "is_anthropic AnthropicCountTokens = True"
| "is_anthropic _ = False"

definition resolve_protocol :: "string \<Rightarrow> client_protocol option" where
  "resolve_protocol path =
     (if path = ''/v1/responses'' then Some OpenAiResponses
      else if path = ''/v1/chat/completions'' then Some OpenAiChatCompletions
      else if path = ''/v1/messages'' then Some AnthropicMessages
      else if path = ''/v1/messages/count_tokens'' then Some AnthropicCountTokens
      else if path = ''/v1/models'' then Some OpenAiModels
      else if path = ''/v1/images/generations'' then Some OpenAiImageGenerations
      else if path = ''/v1/images/edits'' then Some OpenAiImageEdits
      else None)"

definition is_json_content_type :: "string option \<Rightarrow> bool" where
  "is_json_content_type content_type =
     (case content_type of
        None \<Rightarrow> False
      | Some v \<Rightarrow>
          (let t = to_ascii_lowercase (str_trim v)
           in t = ''application/json'' \<or> t = ''application/json; charset=utf-8''))"

subsection \<open>Errors (\<open>api/error.rs\<close>, \<open>data_plane/response.rs\<close>)\<close>

record api_error =
  ae_status :: nat
  ae_code :: string
  ae_message :: string
  ae_component :: diagnostic_component

definition api_error_new :: "nat \<Rightarrow> string \<Rightarrow> string \<Rightarrow> api_error" where
  "api_error_new status code message =
     \<lparr>ae_status = status, ae_code = code, ae_message = message, ae_component = CoreComponent\<rparr>"

definition with_component :: "diagnostic_component \<Rightarrow> api_error \<Rightarrow> api_error" where
  "with_component c e = e\<lparr>ae_component := c\<rparr>"

definition api_invalid_authority :: api_error where
  "api_invalid_authority = api_error_new 400 ''invalid_authority'' ''request authority is invalid''"

definition api_origin_not_allowed :: api_error where
  "api_origin_not_allowed = api_error_new 403 ''origin_not_allowed'' ''browser origins are not allowed''"

definition api_unauthorized :: api_error where
  "api_unauthorized = api_error_new 401 ''unauthorized'' ''bearer authentication is required''"

definition api_insufficient_scope :: api_error where
  "api_insufficient_scope =
     api_error_new 403 ''insufficient_scope'' ''client token does not grant the required scope''"

definition api_payload_too_large :: api_error where
  "api_payload_too_large = api_error_new 413 ''payload_too_large'' ''request body exceeds the allowed size''"

definition api_service_maintenance :: api_error where
  "api_service_maintenance = api_error_new 409 ''service_maintenance'' ''service is in maintenance''"

definition api_internal_failure :: api_error where
  "api_internal_failure = api_error_new 500 ''internal_error'' ''control-plane request failed''"

definition api_error_response :: "api_error \<Rightarrow> http_response" where
  "api_error_response e =
     \<lparr>rs_status = ae_status e, rs_body = ApiErrorBody (ae_code e) (ae_message e),
      rs_www_authenticate = (ae_status e = 401), rs_component = Some (ae_component e),
      rs_holds_guard = False\<rparr>"

definition public_error_response :: "nat \<Rightarrow> string \<Rightarrow> string \<Rightarrow> client_protocol \<Rightarrow> http_response" where
  "public_error_response status code message protocol =
     \<lparr>rs_status = status,
      rs_body = (if is_anthropic protocol then AnthropicErrorBody ''error'' code message
                 else OpenAiErrorBody ''gateway_error'' code message),
      rs_www_authenticate = (status = 401), rs_component = None, rs_holds_guard = False\<rparr>"

definition protocol_auth_error :: "client_protocol option \<Rightarrow> nat \<Rightarrow> string \<Rightarrow> string \<Rightarrow> http_response" where
  "protocol_auth_error protocol status code message =
     (case protocol of
        Some p \<Rightarrow> public_error_response status code message p
      | None \<Rightarrow>
          if status = 403 then api_error_response api_insufficient_scope
          else api_error_response api_unauthorized)"

subsection \<open>Paths\<close>

definition is_client_token_path :: "string \<Rightarrow> bool" where
  "is_client_token_path path =
     (case strip_prefix ''/wokcore/v1/clients/'' path of
        None \<Rightarrow> False
      | Some segments \<Rightarrow>
          (case split_char CHR ''/'' segments of
             [client_id, tokens, token_id] \<Rightarrow>
               tokens = ''tokens'' \<and> client_id \<noteq> [] \<and> token_id \<noteq> []
           | _ \<Rightarrow> False))"

definition is_provider_secret_path :: "string \<Rightarrow> bool" where
  "is_provider_secret_path path =
     (case strip_prefix ''/wokcore/v1/provider-secrets/'' path of
        None \<Rightarrow> False
      | Some r \<Rightarrow> r \<noteq> [] \<and> CHR ''/'' \<notin> set r)"

definition is_session_messages_path :: "string \<Rightarrow> bool" where
  "is_session_messages_path path =
     (case strip_prefix ''/wokcore/v1/sessions/'' path of
        None \<Rightarrow> False
      | Some segments \<Rightarrow>
          (case split_char CHR ''/'' segments of
             [session_key, messages] \<Rightarrow> messages = ''messages'' \<and> session_key \<noteq> []
           | _ \<Rightarrow> False))"

datatype route_auth_class =
    Public
  | Management
  | ManagementOrClientScope client_token_scope
  | ClientScope client_token_scope

definition classify_route :: "http_method \<Rightarrow> string \<Rightarrow> route_auth_class" where
  "classify_route m path =
     (if path \<in> {''/wokcore/v1/health'', ''/wokcore/v1/capabilities''} then Public
      else if m = GET \<and> path = ''/wokcore/v1/service/status'' then ManagementOrClientScope ServiceRead
      else if m = POST \<and> path \<in> {''/wokcore/v1/service/drain'', ''/wokcore/v1/service/drain/cancel'',
          ''/wokcore/v1/service/stop''}
        then ManagementOrClientScope ServiceControl
      else if m = GET \<and> path \<in> {''/wokcore/v1/providers/catalog'', ''/wokcore/v1/providers/runtime'',
          ''/wokcore/v1/providers/models''}
        then ManagementOrClientScope ProvidersRead
      else if m = POST \<and> path = ''/wokcore/v1/providers/config/validate''
          \<or> m = PUT \<and> path = ''/wokcore/v1/providers/config''
          \<or> m = POST \<and> path = ''/wokcore/v1/providers/reload''
          \<or> m = POST \<and> path = ''/wokcore/v1/provider-secrets''
          \<or> (m = PUT \<or> m = DELETE) \<and> is_provider_secret_path path
        then ManagementOrClientScope ProvidersWrite
      else if m = POST \<and> path = ''/wokcore/v1/clients/authorize''
          \<or> (m = GET \<or> m = DELETE) \<and> is_client_token_path path
        then ManagementOrClientScope ClientsManage
      else if m = GET \<and> (path = ''/wokcore/v1/sessions'' \<or> is_session_messages_path path)
        then ManagementOrClientScope SessionsRead
      else if m = GET \<and> path = ''/wokcore/v1/usage'' then ManagementOrClientScope UsageRead
      else if m = GET \<and> path = ''/wokcore/v1/logs'' then ManagementOrClientScope DiagnosticsRead
      else if m = GET \<and> path = ''/wokcore/v1/diagnostics/export''
        then ManagementOrClientScope DiagnosticsExport
      else if starts_with ''/wokcore/v1/'' path then Management
      else if starts_with ''/v1/'' path then ClientScope ProxyUse
      else Public)"

definition is_metadata_mutation :: "http_method \<Rightarrow> string \<Rightarrow> bool" where
  "is_metadata_mutation m path =
     (m = POST \<and> path = ''/wokcore/v1/clients/authorize''
      \<or> m = PUT \<and> path = ''/wokcore/v1/providers/config''
      \<or> m = POST \<and> path = ''/wokcore/v1/providers/reload''
      \<or> m = POST \<and> path = ''/wokcore/v1/provider-secrets''
      \<or> (m = PUT \<or> m = DELETE) \<and> starts_with ''/wokcore/v1/provider-secrets/'' path
      \<or> m = DELETE \<and> is_client_token_path path)"

definition allowed_during_maintenance :: "string \<Rightarrow> bool" where
  "allowed_during_maintenance path =
     (path \<in> {''/wokcore/v1/service/status'', ''/wokcore/v1/service/drain/cancel'',
              ''/wokcore/v1/service/stop''})"

definition requires_bounded_body :: "http_method \<Rightarrow> bool" where
  "requires_bounded_body m = (m \<in> {POST, PUT, PATCH, DELETE})"

subsection \<open>Checks\<close>

definition bearer_candidate :: "http_lib \<Rightarrow> http_request \<Rightarrow> string option" where
  "bearer_candidate lib rq =
     (case get_all ''authorization'' rq of
        [v] \<Rightarrow> Option.bind (to_str lib v) (strip_prefix ''Bearer '')
      | _ \<Rightarrow> None)"

definition single_content_type :: "http_request \<Rightarrow> string option" where
  "single_content_type rq = (case get_all ''content-type'' rq of [v] \<Rightarrow> Some v | _ \<Rightarrow> None)"

definition is_multipart_form_data :: "string \<Rightarrow> bool" where
  "is_multipart_form_data v =
     (case split_char CHR '';'' v of
        [media_type, parameter] \<Rightarrow>
          eq_ignore_ascii_case (str_trim media_type) ''multipart/form-data''
          \<and> (case split_once_char CHR ''='' (str_trim parameter) of
               None \<Rightarrow> False
             | Some (name, boundary) \<Rightarrow>
                 eq_ignore_ascii_case (str_trim name) ''boundary''
                 \<and> (let b = str_trim boundary in
                    (case Option.bind (strip_prefix [CHR 0x22] b) (strip_suffix [CHR 0x22]) of
                       Some b' \<Rightarrow> b' | None \<Rightarrow> b) \<noteq> []))
      | _ \<Rightarrow> False)"

definition validate_data_plane_request ::
  "http_lib \<Rightarrow> http_request \<Rightarrow> client_protocol \<Rightarrow> (nat \<times> string \<times> string) option" where
  "validate_data_plane_request lib rq protocol =
     (if rq_method rq \<noteq> (if protocol = OpenAiModels then GET else POST)
      then Some (405, ''method_not_allowed'', ''The request method is not allowed.'')
      else (case request_body_kind protocol of
          NoBody \<Rightarrow>
            if get_all ''content-type'' rq \<noteq> []
            then Some (415, ''unsupported_media_type'', ''This endpoint does not accept a request body.'')
            else None
        | JsonBody \<Rightarrow>
            (case Option.bind (single_content_type rq) (to_str lib) of
               Some v \<Rightarrow>
                 if is_json_content_type (Some v) then None
                 else Some (415, ''unsupported_media_type'', ''Content-Type must be application/json.'')
             | None \<Rightarrow> Some (415, ''unsupported_media_type'', ''Content-Type must be application/json.''))
        | MultipartFormData \<Rightarrow>
            (case Option.bind (single_content_type rq) (to_str lib) of
               Some v \<Rightarrow>
                 if is_multipart_form_data v then None
                 else Some (415, ''unsupported_media_type'',
                   ''Content-Type must be multipart/form-data with a boundary.'')
             | None \<Rightarrow>
                 Some (415, ''unsupported_media_type'',
                   ''Content-Type must be multipart/form-data with a boundary.''))))"

subsection \<open>The middleware\<close>

text \<open>
  What a request meets: the server's authority, the registry, whether \<open>try_enter\<close> admits it and
  the phase \<open>snapshot\<close> returns.
\<close>

record security_env =
  se_authority :: string
  se_crypto :: crypto
  se_auth :: auth_registry
  se_admits :: bool
  se_phase :: lifecycle_phase

definition valid_authority :: "security_env \<Rightarrow> http_request \<Rightarrow> bool" where
  "valid_authority env rq =
     (get_all ''host'' rq = [se_authority env]
      \<and> (case rq_authority rq of None \<Rightarrow> True | Some a \<Rightarrow> a = se_authority env))"

definition authenticate ::
  "http_lib \<Rightarrow> security_env \<Rightarrow> client_protocol option \<Rightarrow> route_auth_class \<Rightarrow> http_request
     \<Rightarrow> http_response + http_request" where
  "authenticate lib env protocol auth_class rq =
     (let candidate = bearer_candidate lib rq in
      case auth_class of
        Public \<Rightarrow> Ok rq
      | Management \<Rightarrow>
          (case candidate of
             None \<Rightarrow> Err (api_error_response api_unauthorized)
           | Some t \<Rightarrow>
               if validate_management (se_crypto env) (se_auth env) t then Ok rq
               else Err (api_error_response api_unauthorized))
      | ManagementOrClientScope scope \<Rightarrow>
          (case candidate of
             None \<Rightarrow> Err (api_error_response api_unauthorized)
           | Some t \<Rightarrow>
               if \<not> validate_management (se_crypto env) (se_auth env) t
                  \<and> validate_client_scope (se_crypto env) (se_auth env) t scope = None
               then (if validate_any_client (se_crypto env) (se_auth env) t \<noteq> None
                     then Err (api_error_response api_insufficient_scope)
                     else Err (api_error_response api_unauthorized))
               else Ok rq)
      | ClientScope scope \<Rightarrow>
          (case candidate of
             None \<Rightarrow>
               Err (protocol_auth_error protocol 401 ''unauthorized'' ''The request is not authorized.'')
           | Some t \<Rightarrow>
               (case validate_client_scope (se_crypto env) (se_auth env) t scope of
                  None \<Rightarrow>
                    if validate_any_client (se_crypto env) (se_auth env) t \<noteq> None
                    then Err (protocol_auth_error protocol 403 ''insufficient_scope''
                           ''The client token does not grant proxy.use.'')
                    else Err (protocol_auth_error protocol 401 ''unauthorized''
                           ''The request is not authorized.'')
                | Some client \<Rightarrow> Ok (rq\<lparr>rq_client := Some client\<rparr>))))"

text \<open>How a request is passed on: as it is, with the guard held until the response body ends, or in
  a task of its own that holds the guard.\<close>

datatype dispatch = Direct | HoldUntilBodyEnd | OwnedTask

definition MAX_CONTROL_BODY :: nat where
  "MAX_CONTROL_BODY = 16 * 1024"

definition bounded_request :: "http_lib \<Rightarrow> http_request \<Rightarrow> http_response + http_request" where
  "bounded_request lib rq =
     (case to_bytes lib (rq_body rq) MAX_CONTROL_BODY of
        None \<Rightarrow> Err (api_error_response api_payload_too_large)
      | Some body \<Rightarrow> Ok (rq\<lparr>rq_body := body\<rparr>))"

definition dispatch_data_plane ::
  "http_lib \<Rightarrow> security_env \<Rightarrow> client_protocol \<Rightarrow> http_request
     \<Rightarrow> http_response + (dispatch \<times> http_request)" where
  "dispatch_data_plane lib env protocol rq =
     (case validate_data_plane_request lib rq protocol of
        Some (status, code, message) \<Rightarrow> Err (public_error_response status code message protocol)
      | None \<Rightarrow>
          if se_admits env
          then Ok (HoldUntilBodyEnd,
                 rq\<lparr>rq_headers := filter (\<lambda>(n, _). n \<noteq> ''authorization'') (rq_headers rq),
                    rq_protocol := Some protocol\<rparr>)
          else Err (public_error_response 503 ''service_maintenance''
                 ''The service is temporarily unavailable.'' protocol))"

definition dispatch_control ::
  "http_lib \<Rightarrow> security_env \<Rightarrow> http_request \<Rightarrow> http_response + (dispatch \<times> http_request)" where
  "dispatch_control lib env rq =
     (if is_metadata_mutation (rq_method rq) (rq_path rq)
      then (if se_admits env
            then and_then (bounded_request lib rq) (\<lambda>rq'. Ok (OwnedTask, rq'))
            else Err (api_error_response api_service_maintenance))
      else if rq_method rq = GET \<and> se_phase env \<noteq> Running
        \<and> \<not> allowed_during_maintenance (rq_path rq)
      then Err (api_error_response api_service_maintenance)
      else if requires_bounded_body (rq_method rq)
      then and_then (bounded_request lib rq) (\<lambda>rq'. Ok (Direct, rq'))
      else Ok (Direct, rq))"

definition security_decision ::
  "http_lib \<Rightarrow> security_env \<Rightarrow> http_request \<Rightarrow> http_response + (dispatch \<times> http_request)" where
  "security_decision lib env rq =
     (let protocol = resolve_protocol (rq_path rq) in
      if \<not> valid_authority env rq
      then Err (case protocol of
          Some p \<Rightarrow> public_error_response 400 ''invalid_authority'' ''The request authority is invalid.'' p
        | None \<Rightarrow> api_error_response api_invalid_authority)
      else if get_all ''origin'' rq \<noteq> []
      then Err (case protocol of
          Some p \<Rightarrow> public_error_response 403 ''origin_not_allowed'' ''Browser origins are not allowed.'' p
        | None \<Rightarrow> api_error_response api_origin_not_allowed)
      else
        (let auth_class = classify_route (rq_method rq) (rq_path rq) in
         if auth_class = Public then Ok (Direct, rq)
         else and_then (authenticate lib env protocol auth_class rq) (\<lambda>rq'.
           case protocol of
             Some p \<Rightarrow> dispatch_data_plane lib env p rq'
           | None \<Rightarrow> dispatch_control lib env rq')))"

text \<open>The inner service may panic (\<open>None\<close>); a panic in the spawned task becomes an error response.\<close>

definition enforce_request_security ::
  "http_lib \<Rightarrow> (http_request \<Rightarrow> http_response option) \<Rightarrow> security_env \<Rightarrow> http_request
     \<Rightarrow> http_response option" where
  "enforce_request_security lib nxt env rq =
     (case security_decision lib env rq of
        Inl r \<Rightarrow> Some r
      | Inr (Direct, rq') \<Rightarrow> nxt rq'
      | Inr (HoldUntilBodyEnd, rq') \<Rightarrow> map_option (\<lambda>r. r\<lparr>rs_holds_guard := True\<rparr>) (nxt rq')
      | Inr (OwnedTask, rq') \<Rightarrow>
          (case nxt rq' of
             Some r \<Rightarrow> Some r
           | None \<Rightarrow> Some (api_error_response api_internal_failure)))"

subsection \<open>The route table (\<open>api/mod.rs\<close>)\<close>

datatype handler =
    HealthHandler | CapabilitiesHandler | ServiceStatusHandler | DrainHandler | CancelDrainHandler
  | StopHandler | AuthorizeHandler | ListSessionsHandler | SessionMessagesHandler | UsageHandler
  | LogsHandler | DiagnosticsExportHandler | CatalogHandler | RuntimeStatusHandler | ModelsHandler
  | ValidateConfigurationHandler | CommitConfigurationHandler | ReloadHandler | CreateSecretHandler
  | ReplaceSecretHandler | DeleteSecretHandler | ClientTokenStatusHandler | RevokeHandler
  | DataPlaneHandler client_protocol | NotFoundHandler | MethodNotAllowedHandler

datatype segment = Lit string | Param

fun matches_segments :: "segment list \<Rightarrow> string list \<Rightarrow> bool" where
  "matches_segments [] [] = True"
| "matches_segments (Lit l # ps) (s # ss) = (s = l \<and> matches_segments ps ss)"
| "matches_segments (Param # ps) (s # ss) = (s \<noteq> [] \<and> matches_segments ps ss)"
| "matches_segments _ _ = False"

text \<open>
  A pattern is the list of its segments after the leading slash; a parameter stands for one
  non-empty segment. \<open>get\<close> also serves HEAD; a path known under other methods only is a method
  error.
\<close>

definition only_get :: "handler \<Rightarrow> (http_method \<times> handler) list" where
  "only_get h = [(GET, h), (HEAD, MethodNotAllowedHandler)]"

definition control_routes :: "(segment list \<times> (http_method \<times> handler) list) list" where
  "control_routes =
    [([Lit ''health''], only_get HealthHandler),
     ([Lit ''capabilities''], only_get CapabilitiesHandler),
     ([Lit ''service'', Lit ''status''], only_get ServiceStatusHandler),
     ([Lit ''service'', Lit ''drain''], [(POST, DrainHandler)]),
     ([Lit ''service'', Lit ''drain'', Lit ''cancel''], [(POST, CancelDrainHandler)]),
     ([Lit ''service'', Lit ''stop''], [(POST, StopHandler)]),
     ([Lit ''clients'', Lit ''authorize''], [(POST, AuthorizeHandler)]),
     ([Lit ''sessions''], only_get ListSessionsHandler),
     ([Lit ''sessions'', Param, Lit ''messages''], only_get SessionMessagesHandler),
     ([Lit ''usage''], only_get UsageHandler),
     ([Lit ''logs''], only_get LogsHandler),
     ([Lit ''diagnostics'', Lit ''export''], only_get DiagnosticsExportHandler),
     ([Lit ''providers'', Lit ''catalog''], only_get CatalogHandler),
     ([Lit ''providers'', Lit ''runtime''], only_get RuntimeStatusHandler),
     ([Lit ''providers'', Lit ''models''], only_get ModelsHandler),
     ([Lit ''providers'', Lit ''config'', Lit ''validate''], [(POST, ValidateConfigurationHandler)]),
     ([Lit ''providers'', Lit ''config''], [(PUT, CommitConfigurationHandler)]),
     ([Lit ''providers'', Lit ''reload''], [(POST, ReloadHandler)]),
     ([Lit ''provider-secrets''], [(POST, CreateSecretHandler)]),
     ([Lit ''provider-secrets'', Param], [(PUT, ReplaceSecretHandler), (DELETE, DeleteSecretHandler)]),
     ([Lit ''clients'', Param, Lit ''tokens'', Param],
       [(GET, ClientTokenStatusHandler), (HEAD, ClientTokenStatusHandler), (DELETE, RevokeHandler)])]"

definition data_plane_routes :: "(segment list \<times> (http_method \<times> handler) list) list" where
  "data_plane_routes =
    [([Lit ''responses''], [(POST, DataPlaneHandler OpenAiResponses)]),
     ([Lit ''chat'', Lit ''completions''], [(POST, DataPlaneHandler OpenAiChatCompletions)]),
     ([Lit ''messages''], [(POST, DataPlaneHandler AnthropicMessages)]),
     ([Lit ''messages'', Lit ''count_tokens''], [(POST, DataPlaneHandler AnthropicCountTokens)]),
     ([Lit ''models''], [(GET, DataPlaneHandler OpenAiModels), (HEAD, DataPlaneHandler OpenAiModels)]),
     ([Lit ''images'', Lit ''generations''], [(POST, DataPlaneHandler OpenAiImageGenerations)]),
     ([Lit ''images'', Lit ''edits''], [(POST, DataPlaneHandler OpenAiImageEdits)])]"

definition all_routes :: "(segment list \<times> (http_method \<times> handler) list) list" where
  "all_routes =
     map (\<lambda>(p, ms). (Lit [] # Lit ''wokcore'' # Lit ''v1'' # p, ms)) control_routes
     @ map (\<lambda>(p, ms). (Lit [] # Lit ''v1'' # p, ms)) data_plane_routes"

definition router :: "http_method \<Rightarrow> string \<Rightarrow> handler" where
  "router m path =
     (case find (\<lambda>(p, _). matches_segments p (split_char CHR ''/'' path)) all_routes of
        None \<Rightarrow> NotFoundHandler
      | Some (_, ms) \<Rightarrow>
          (case map_of ms m of Some h \<Rightarrow> h | None \<Rightarrow> MethodNotAllowedHandler))"

subsection \<open>Routing lemmas\<close>

lemma matches_segments_iff:
  "matches_segments [] ss \<longleftrightarrow> ss = []"
  "matches_segments (Lit l # ps) ss \<longleftrightarrow> (\<exists>ss'. ss = l # ss' \<and> matches_segments ps ss')"
  "matches_segments (Param # ps) ss \<longleftrightarrow> (\<exists>s ss'. ss = s # ss' \<and> s \<noteq> [] \<and> matches_segments ps ss')"
  by (cases ss; simp)+

lemma router_route:
  assumes "router m path = h" "h \<noteq> NotFoundHandler" "h \<noteq> MethodNotAllowedHandler"
  obtains p ms where "(p, ms) \<in> set all_routes" "matches_segments p (split_char CHR ''/'' path)"
    "map_of ms m = Some h"
proof -
  obtain p ms where f: "find (\<lambda>(p, _). matches_segments p (split_char CHR ''/'' path)) all_routes = Some (p, ms)"
    and h: "map_of ms m = Some h"
    using assms by (auto simp: router_def split: option.splits)
  then have "(p, ms) \<in> set all_routes \<and> matches_segments p (split_char CHR ''/'' path)"
    by (auto simp: find_Some_iff in_set_conv_nth intro: exI)
  with h that show thesis by blast
qed

text \<open>What each handler needs; handlers that only report an error need nothing.\<close>

fun required_class :: "handler \<Rightarrow> route_auth_class" where
  "required_class HealthHandler = Public"
| "required_class CapabilitiesHandler = Public"
| "required_class ServiceStatusHandler = ManagementOrClientScope ServiceRead"
| "required_class DrainHandler = ManagementOrClientScope ServiceControl"
| "required_class CancelDrainHandler = ManagementOrClientScope ServiceControl"
| "required_class StopHandler = ManagementOrClientScope ServiceControl"
| "required_class AuthorizeHandler = ManagementOrClientScope ClientsManage"
| "required_class ClientTokenStatusHandler = ManagementOrClientScope ClientsManage"
| "required_class RevokeHandler = ManagementOrClientScope ClientsManage"
| "required_class ListSessionsHandler = ManagementOrClientScope SessionsRead"
| "required_class SessionMessagesHandler = ManagementOrClientScope SessionsRead"
| "required_class UsageHandler = ManagementOrClientScope UsageRead"
| "required_class LogsHandler = ManagementOrClientScope DiagnosticsRead"
| "required_class DiagnosticsExportHandler = ManagementOrClientScope DiagnosticsExport"
| "required_class CatalogHandler = ManagementOrClientScope ProvidersRead"
| "required_class RuntimeStatusHandler = ManagementOrClientScope ProvidersRead"
| "required_class ModelsHandler = ManagementOrClientScope ProvidersRead"
| "required_class ValidateConfigurationHandler = ManagementOrClientScope ProvidersWrite"
| "required_class CommitConfigurationHandler = ManagementOrClientScope ProvidersWrite"
| "required_class ReloadHandler = ManagementOrClientScope ProvidersWrite"
| "required_class CreateSecretHandler = ManagementOrClientScope ProvidersWrite"
| "required_class ReplaceSecretHandler = ManagementOrClientScope ProvidersWrite"
| "required_class DeleteSecretHandler = ManagementOrClientScope ProvidersWrite"
| "required_class (DataPlaneHandler p) = ClientScope ProxyUse"
| "required_class NotFoundHandler = Public"
| "required_class MethodNotAllowedHandler = Public"

definition mutating :: "handler \<Rightarrow> bool" where
  "mutating h = (h \<in> {AuthorizeHandler, RevokeHandler, CommitConfigurationHandler, ReloadHandler,
     CreateSecretHandler, ReplaceSecretHandler, DeleteSecretHandler})"

lemma client_token_path:
  assumes "CHR ''/'' \<notin> set c" "CHR ''/'' \<notin> set t" "c \<noteq> []" "t \<noteq> []"
  shows "is_client_token_path (''/wokcore/v1/clients/'' @ c @ ''/tokens/'' @ t)"
proof -
  have "split_char CHR ''/'' (c @ ''/tokens/'' @ t) = [c, ''tokens'', t]"
    using assms by (simp add: split_char_append split_char_piece)
  then show ?thesis using assms by (simp add: is_client_token_path_def)
qed

lemma session_messages_path:
  assumes "CHR ''/'' \<notin> set k" "k \<noteq> []"
  shows "is_session_messages_path (''/wokcore/v1/sessions/'' @ k @ ''/messages'')"
proof -
  have "split_char CHR ''/'' (k @ ''/messages'') = [k, ''messages'']"
    using assms by (simp add: split_char_append)
  then show ?thesis using assms by (simp add: is_session_messages_path_def)
qed

lemma provider_secret_path:
  "CHR ''/'' \<notin> set r \<Longrightarrow> r \<noteq> [] \<Longrightarrow> is_provider_secret_path (''/wokcore/v1/provider-secrets/'' @ r)"
  by (simp add: is_provider_secret_path_def)

text \<open>The paths with parameters.\<close>

lemma classify_token_path:
  assumes "CHR ''/'' \<notin> set c" "CHR ''/'' \<notin> set t" "c \<noteq> []" "t \<noteq> []"
  shows "classify_route m (''/wokcore/v1/clients/'' @ c @ ''/tokens/'' @ t) =
    (if m = GET \<or> m = DELETE then ManagementOrClientScope ClientsManage else Management)"
  using client_token_path [OF assms]
  by (auto simp: classify_route_def is_provider_secret_path_def is_session_messages_path_def starts_with_iff
      append_eq_Cons_conv Cons_eq_append_conv)

lemma classify_session_path:
  assumes "CHR ''/'' \<notin> set k" "k \<noteq> []"
  shows "classify_route GET (''/wokcore/v1/sessions/'' @ k @ ''/messages'') = ManagementOrClientScope SessionsRead"
  using session_messages_path [OF assms]
  by (auto simp: classify_route_def is_client_token_path_def)

lemma classify_secret_path:
  assumes "CHR ''/'' \<notin> set r" "r \<noteq> []" "m = PUT \<or> m = DELETE"
  shows "classify_route m (''/wokcore/v1/provider-secrets/'' @ r) = ManagementOrClientScope ProvidersWrite"
  using provider_secret_path [OF assms(1,2)] assms(3) by (auto simp: classify_route_def)

definition route_ok :: "http_method \<Rightarrow> string \<Rightarrow> handler \<Rightarrow> bool" where
  "route_ok m path h =
     ((classify_route m path = required_class h
        \<or> h = ClientTokenStatusHandler \<and> classify_route m path = Management)
      \<and> (mutating h \<longrightarrow> is_metadata_mutation m path)
      \<and> (case h of DataPlaneHandler q \<Rightarrow> resolve_protocol path = Some q | _ \<Rightarrow> True))"

fun literal_path :: "segment list \<Rightarrow> string list option" where
  "literal_path [] = Some []"
| "literal_path (Lit l # ps) = map_option ((#) l) (literal_path ps)"
| "literal_path (Param # ps) = None"

lemma literal_match: "literal_path ps = Some ls \<Longrightarrow> matches_segments ps ss \<longleftrightarrow> ss = ls"
  by (induction ps arbitrary: ls ss rule: literal_path.induct) (auto simp: matches_segments_iff)

definition literal_route_ok :: "segment list \<times> (http_method \<times> handler) list \<Rightarrow> bool" where
  "literal_route_ok r = (case r of (p, ms) \<Rightarrow>
     (case literal_path p of
        None \<Rightarrow> True
      | Some ls \<Rightarrow> list_all (\<lambda>(m, h). h = MethodNotAllowedHandler \<or> route_ok m (join_char CHR ''/'' ls) h) ms))"

lemma literal_routes_ok: "list_all literal_route_ok all_routes"
  by (simp add: all_routes_def control_routes_def data_plane_routes_def only_get_def literal_route_ok_def
      route_ok_def classify_route_def mutating_def is_metadata_mutation_def resolve_protocol_def
      is_client_token_path_def is_provider_secret_path_def is_session_messages_path_def starts_with_def)

lemma param_routes:
  assumes "(p, ms) \<in> set all_routes" "literal_path p = None"
  shows "(p, ms) = ([Lit [], Lit ''wokcore'', Lit ''v1'', Lit ''sessions'', Param, Lit ''messages''],
        only_get SessionMessagesHandler)
    \<or> (p, ms) = ([Lit [], Lit ''wokcore'', Lit ''v1'', Lit ''provider-secrets'', Param],
        [(PUT, ReplaceSecretHandler), (DELETE, DeleteSecretHandler)])
    \<or> (p, ms) = ([Lit [], Lit ''wokcore'', Lit ''v1'', Lit ''clients'', Param, Lit ''tokens'', Param],
        [(GET, ClientTokenStatusHandler), (HEAD, ClientTokenStatusHandler), (DELETE, RevokeHandler)])"
proof -
  have "list_all (\<lambda>(p, ms). literal_path p \<noteq> None
    \<or> (p, ms) = ([Lit [], Lit ''wokcore'', Lit ''v1'', Lit ''sessions'', Param, Lit ''messages''],
        only_get SessionMessagesHandler)
    \<or> (p, ms) = ([Lit [], Lit ''wokcore'', Lit ''v1'', Lit ''provider-secrets'', Param],
        [(PUT, ReplaceSecretHandler), (DELETE, DeleteSecretHandler)])
    \<or> (p, ms) = ([Lit [], Lit ''wokcore'', Lit ''v1'', Lit ''clients'', Param, Lit ''tokens'', Param],
        [(GET, ClientTokenStatusHandler), (HEAD, ClientTokenStatusHandler), (DELETE, RevokeHandler)])) all_routes"
    by (simp add: all_routes_def control_routes_def data_plane_routes_def)
  then show ?thesis using assms by (auto simp: list_all_iff)
qed

lemma session_pattern:
  assumes "matches_segments [Lit [], Lit ''wokcore'', Lit ''v1'', Lit ''sessions'', Param, Lit ''messages'']
      (split_char CHR ''/'' path)"
  shows "\<exists>k. CHR ''/'' \<notin> set k \<and> k \<noteq> [] \<and> path = ''/wokcore/v1/sessions/'' @ k @ ''/messages''"
proof -
  obtain k where k: "split_char CHR ''/'' path = [[], ''wokcore'', ''v1'', ''sessions'', k, ''messages'']" "k \<noteq> []"
    using assms unfolding matches_segments_iff by blast
  from k(1) have "CHR ''/'' \<notin> set k \<and> path = ''/wokcore/v1/sessions/'' @ k @ ''/messages''"
    unfolding split_char_eq_iff by simp
  with k(2) show ?thesis by blast
qed

lemma secret_pattern:
  assumes "matches_segments [Lit [], Lit ''wokcore'', Lit ''v1'', Lit ''provider-secrets'', Param]
      (split_char CHR ''/'' path)"
  shows "\<exists>k. CHR ''/'' \<notin> set k \<and> k \<noteq> [] \<and> path = ''/wokcore/v1/provider-secrets/'' @ k"
proof -
  obtain k where k: "split_char CHR ''/'' path = [[], ''wokcore'', ''v1'', ''provider-secrets'', k]" "k \<noteq> []"
    using assms unfolding matches_segments_iff by blast
  from k(1) have "CHR ''/'' \<notin> set k \<and> path = ''/wokcore/v1/provider-secrets/'' @ k"
    unfolding split_char_eq_iff by simp
  with k(2) show ?thesis by blast
qed

lemma token_pattern:
  assumes "matches_segments [Lit [], Lit ''wokcore'', Lit ''v1'', Lit ''clients'', Param, Lit ''tokens'', Param]
      (split_char CHR ''/'' path)"
  shows "\<exists>c t. CHR ''/'' \<notin> set c \<and> CHR ''/'' \<notin> set t \<and> c \<noteq> [] \<and> t \<noteq> []
    \<and> path = ''/wokcore/v1/clients/'' @ c @ ''/tokens/'' @ t"
proof -
  obtain c t where k: "split_char CHR ''/'' path = [[], ''wokcore'', ''v1'', ''clients'', c, ''tokens'', t]"
    "c \<noteq> []" "t \<noteq> []"
    using assms unfolding matches_segments_iff by blast
  from k(1) have "CHR ''/'' \<notin> set c \<and> CHR ''/'' \<notin> set t \<and> path = ''/wokcore/v1/clients/'' @ c @ ''/tokens/'' @ t"
    unfolding split_char_eq_iff by simp
  with k(2,3) show ?thesis by blast
qed

lemma route_paths:
  assumes "(p, ms) \<in> set all_routes" "matches_segments p (split_char CHR ''/'' path)" "map_of ms m = Some h"
    "h \<noteq> MethodNotAllowedHandler"
  shows "route_ok m path h"
proof (cases "literal_path p")
  case (Some ls)
  then have "split_char CHR ''/'' path = ls" using assms(2) literal_match by blast
  then have "path = join_char CHR ''/'' ls" using join_split by metis
  moreover have "literal_route_ok (p, ms)" using assms(1) literal_routes_ok by (auto simp: list_all_iff)
  ultimately show ?thesis using assms(3,4) Some
    by (auto simp: literal_route_ok_def list_all_iff dest!: map_of_SomeD)
next
  case None
  from param_routes [OF assms(1) None] show ?thesis
  proof (elim disjE)
    assume r: "(p, ms) = ([Lit [], Lit ''wokcore'', Lit ''v1'', Lit ''sessions'', Param, Lit ''messages''],
        only_get SessionMessagesHandler)"
    then obtain k where k: "CHR ''/'' \<notin> set k" "k \<noteq> []" "path = ''/wokcore/v1/sessions/'' @ k @ ''/messages''"
      using session_pattern assms(2) by blast
    have "m = GET" "h = SessionMessagesHandler"
      using assms(3,4) r by (auto simp: only_get_def split: if_splits)
    then show ?thesis using classify_session_path [OF k(1,2)] by (simp add: k(3) route_ok_def mutating_def)
  next
    assume r: "(p, ms) = ([Lit [], Lit ''wokcore'', Lit ''v1'', Lit ''provider-secrets'', Param],
        [(PUT, ReplaceSecretHandler), (DELETE, DeleteSecretHandler)])"
    then obtain k where k: "CHR ''/'' \<notin> set k" "k \<noteq> []" "path = ''/wokcore/v1/provider-secrets/'' @ k"
      using secret_pattern assms(2) by blast
    have "m = PUT \<and> h = ReplaceSecretHandler \<or> m = DELETE \<and> h = DeleteSecretHandler"
      using assms(3) r by (auto split: if_splits)
    then show ?thesis using classify_secret_path [OF k(1,2), of m]
      by (auto simp: k(3) route_ok_def is_metadata_mutation_def starts_with_iff)
  next
    assume r: "(p, ms) = ([Lit [], Lit ''wokcore'', Lit ''v1'', Lit ''clients'', Param, Lit ''tokens'', Param],
        [(GET, ClientTokenStatusHandler), (HEAD, ClientTokenStatusHandler), (DELETE, RevokeHandler)])"
    then obtain c t where k: "CHR ''/'' \<notin> set c" "CHR ''/'' \<notin> set t" "c \<noteq> []" "t \<noteq> []"
      "path = ''/wokcore/v1/clients/'' @ c @ ''/tokens/'' @ t"
      using token_pattern assms(2) by blast
    have "m = GET \<and> h = ClientTokenStatusHandler \<or> m = HEAD \<and> h = ClientTokenStatusHandler
        \<or> m = DELETE \<and> h = RevokeHandler"
      using assms(3) r by (auto split: if_splits)
    then show ?thesis using classify_token_path [OF k(1-4), of m] client_token_path [OF k(1-4)]
      by (auto simp: k(5) route_ok_def mutating_def is_metadata_mutation_def)
  qed
qed

subsection \<open>Decision lemmas\<close>

lemma get_all_keep [simp]:
  "get_all n (rq\<lparr>rq_client := c\<rparr>) = get_all n rq" "get_all n (rq\<lparr>rq_body := b\<rparr>) = get_all n rq"
  by (simp_all add: get_all_def)

definition client_authorised ::
  "http_lib \<Rightarrow> security_env \<Rightarrow> http_request \<Rightarrow> client_token_scope \<Rightarrow> authorized_client option" where
  "client_authorised lib env rq scope =
     Option.bind (bearer_candidate lib rq) (\<lambda>t. validate_client_scope (se_crypto env) (se_auth env) t scope)"

definition management_authorised :: "http_lib \<Rightarrow> security_env \<Rightarrow> http_request \<Rightarrow> bool" where
  "management_authorised lib env rq =
     (case bearer_candidate lib rq of
        None \<Rightarrow> False
      | Some t \<Rightarrow> validate_management (se_crypto env) (se_auth env) t)"

definition any_client_authorised :: "http_lib \<Rightarrow> security_env \<Rightarrow> http_request \<Rightarrow> bool" where
  "any_client_authorised lib env rq =
     (Option.bind (bearer_candidate lib rq) (validate_any_client (se_crypto env) (se_auth env)) \<noteq> None)"

fun authorised_for :: "http_lib \<Rightarrow> security_env \<Rightarrow> http_request \<Rightarrow> route_auth_class \<Rightarrow> bool" where
  "authorised_for lib env rq Public = True"
| "authorised_for lib env rq Management = management_authorised lib env rq"
| "authorised_for lib env rq (ManagementOrClientScope scope) =
     (management_authorised lib env rq \<or> client_authorised lib env rq scope \<noteq> None)"
| "authorised_for lib env rq (ClientScope scope) = (client_authorised lib env rq scope \<noteq> None)"

text \<open>The request that leaves authentication differs only in the client it carries.\<close>

definition attach_client :: "http_lib \<Rightarrow> security_env \<Rightarrow> route_auth_class \<Rightarrow> http_request \<Rightarrow> http_request" where
  "attach_client lib env cl rq =
     (case cl of
        ClientScope scope \<Rightarrow> rq\<lparr>rq_client := client_authorised lib env rq scope\<rparr>
      | _ \<Rightarrow> rq)"

lemma authenticate_iff:
  "authenticate lib env protocol cl rq = Ok rq' \<longleftrightarrow>
     authorised_for lib env rq cl \<and> rq' = attach_client lib env cl rq"
  by (cases cl)
    (auto simp: authenticate_def management_authorised_def client_authorised_def attach_client_def Let_def
      split: option.splits)

lemma attach_client_keep [simp]:
  "rq_method (attach_client lib env cl rq) = rq_method rq" "rq_path (attach_client lib env cl rq) = rq_path rq"
  "rq_body (attach_client lib env cl rq) = rq_body rq"
  by (cases cl; simp add: attach_client_def)+

lemma authenticate_refuses:
  assumes "\<not> authorised_for lib env rq cl"
  shows "\<exists>r. authenticate lib env protocol cl rq = Err r
    \<and> rs_status r = (if cl \<noteq> Management \<and> any_client_authorised lib env rq then 403 else 401)
    \<and> (rs_www_authenticate r \<longleftrightarrow> rs_status r = 401)"
  using assms
  by (cases cl)
    (auto simp: authenticate_def management_authorised_def client_authorised_def any_client_authorised_def
      Let_def protocol_auth_error_def api_error_response_def public_error_response_def
      api_unauthorized_def api_insufficient_scope_def api_error_new_def split: option.splits)

lemma classify_protocol_path:
  "list_all (\<lambda>path. classify_route m path = ClientScope ProxyUse)
     [''/v1/responses'', ''/v1/chat/completions'', ''/v1/messages'', ''/v1/messages/count_tokens'',
      ''/v1/models'', ''/v1/images/generations'', ''/v1/images/edits'']"
  by (simp add: classify_route_def is_client_token_path_def is_provider_secret_path_def
      is_session_messages_path_def starts_with_def)

lemma protocol_not_public: "resolve_protocol path = Some p \<Longrightarrow> classify_route m path = ClientScope ProxyUse"
  using classify_protocol_path [of m] by (auto simp: resolve_protocol_def split: if_splits)

lemma decision_ok:
  assumes "security_decision lib env rq = Ok (d, rq')"
  shows "valid_authority env rq \<and> get_all ''origin'' rq = []
    \<and> authorised_for lib env rq (classify_route (rq_method rq) (rq_path rq))
    \<and> rq_method rq' = rq_method rq \<and> rq_path rq' = rq_path rq"
  using assms
  by (auto simp: security_decision_def Let_def authenticate_iff dispatch_data_plane_def dispatch_control_def
      bounded_request_def split: if_splits option.splits prod.splits)

lemma decision_data_plane:
  assumes "security_decision lib env rq = Ok (d, rq')" "resolve_protocol (rq_path rq) = Some p"
  shows "se_admits env \<and> d = HoldUntilBodyEnd \<and> validate_data_plane_request lib rq p = None
    \<and> rq_client rq' = client_authorised lib env rq ProxyUse \<and> rq_protocol rq' = Some p
    \<and> get_all ''authorization'' rq' = []"
proof -
  have cl: "classify_route (rq_method rq) (rq_path rq) = ClientScope ProxyUse"
    by (rule protocol_not_public [OF assms(2)])
  let ?rq = "attach_client lib env (ClientScope ProxyUse) rq"
  have "dispatch_data_plane lib env p ?rq = Ok (d, rq')"
    using assms cl by (auto simp: security_decision_def Let_def authenticate_iff split: if_splits)
  moreover have "validate_data_plane_request lib ?rq p = validate_data_plane_request lib rq p"
    by (cases "request_body_kind p")
      (simp_all add: validate_data_plane_request_def single_content_type_def attach_client_def)
  moreover have "get_all n (rq\<lparr>rq_headers := filter (\<lambda>(m, _). m \<noteq> n) hs, rq_protocol := q\<rparr>) = []" for n hs q rq
    by (auto simp: get_all_def filter_empty_conv)
  ultimately show ?thesis
    by (auto simp: dispatch_data_plane_def attach_client_def split: option.splits prod.splits if_splits)
qed

lemma mutation_not_protocol: "is_metadata_mutation m path \<Longrightarrow> resolve_protocol path = None"
proof -
  assume "is_metadata_mutation m path"
  then have "take 2 path = ''/w''"
    unfolding is_metadata_mutation_def is_client_token_path_def starts_with_iff
    by (elim disjE conjE) (auto split: option.splits)
  moreover have "take 2 path = ''/v''" if "resolve_protocol path = Some p" for p
    using that unfolding resolve_protocol_def by (auto split: if_splits)
  ultimately show ?thesis by (cases "resolve_protocol path") auto
qed

lemma decision_mutation:
  assumes "security_decision lib env rq = Ok (d, rq')" "is_metadata_mutation (rq_method rq) (rq_path rq)"
    and "classify_route (rq_method rq) (rq_path rq) \<noteq> Public"
  shows "se_admits env \<and> d = OwnedTask \<and> to_bytes lib (rq_body rq) MAX_CONTROL_BODY = Some (rq_body rq')"
  using assms mutation_not_protocol [OF assms(2)]
  by (auto simp: security_decision_def Let_def authenticate_iff dispatch_control_def bounded_request_def
      split: if_splits option.splits)

subsection \<open>Properties\<close>

text \<open>
  C1. No handler runs unauthorised. When the middleware passes a request on and the router picks a
  handler for it, the request named the server's own authority and no browser origin, and it carried
  a bearer token good for that handler: nothing for health and capabilities, the administration token
  or a client token with the handler's scope for the management API, a client token with
  \<open>proxy.use\<close> for the data plane. A handler that changes configuration, secrets or tokens runs
  admitted by the lifecycle, in a task that holds the guard, with a body of at most 16 KiB. A data
  plane handler runs admitted, for the method and content type of its protocol, sees the authorised
  client and protocol and no authorization header.
\<close>

theorem handler_runs_authorised:
  assumes bytes: "\<And>b n b'. to_bytes lib b n = Some b' \<Longrightarrow> b' = b \<and> length b \<le> n"
    and decision: "security_decision lib env rq = Ok (d, rq')"
    and route: "router (rq_method rq') (rq_path rq') = h" "h \<noteq> NotFoundHandler" "h \<noteq> MethodNotAllowedHandler"
  shows "valid_authority env rq \<and> get_all ''origin'' rq = []
    \<and> authorised_for lib env rq (required_class h)
    \<and> (mutating h \<longrightarrow> se_admits env \<and> d = OwnedTask \<and> rq_body rq' = rq_body rq
          \<and> length (rq_body rq') \<le> 16384)
    \<and> (\<forall>p. h = DataPlaneHandler p \<longrightarrow> se_admits env \<and> d = HoldUntilBodyEnd
          \<and> validate_data_plane_request lib rq p = None
          \<and> rq_client rq' = client_authorised lib env rq ProxyUse \<and> rq_protocol rq' = Some p
          \<and> get_all ''authorization'' rq' = [])"
proof -
  have ok: "route_ok (rq_method rq) (rq_path rq) h"
    using router_route [OF route] route_paths [OF _ _ _ route(3)] decision_ok [OF decision] by metis
  let ?cl = "classify_route (rq_method rq) (rq_path rq)"
  have auth: "authorised_for lib env rq ?cl" using decision_ok [OF decision] by blast
  have req: "authorised_for lib env rq (required_class h)"
    using auth ok by (auto simp: route_ok_def)
  have mut: "se_admits env \<and> d = OwnedTask \<and> rq_body rq' = rq_body rq \<and> length (rq_body rq') \<le> 16384"
    if "mutating h"
  proof -
    have "?cl \<noteq> Public" using ok that by (auto simp: route_ok_def mutating_def)
    moreover have "is_metadata_mutation (rq_method rq) (rq_path rq)" using ok that by (simp add: route_ok_def)
    ultimately have "se_admits env" "d = OwnedTask" "to_bytes lib (rq_body rq) MAX_CONTROL_BODY = Some (rq_body rq')"
      using decision_mutation [OF decision] by blast+
    then show ?thesis using bytes [of "rq_body rq" MAX_CONTROL_BODY] by (simp add: MAX_CONTROL_BODY_def)
  qed
  have "resolve_protocol (rq_path rq) = Some p" if "h = DataPlaneHandler p" for p
    using ok that by (simp add: route_ok_def)
  then show ?thesis using decision_ok [OF decision] req mut decision_data_plane [OF decision] by blast
qed

text \<open>
  A request that is not authorised for its route is refused: with 403 when it carries the token
  of some client and the route is open to client tokens of another scope, with 401 and a challenge
  otherwise; the handler is not called.
\<close>

lemma unauthorised_refused:
  assumes "valid_authority env rq" "get_all ''origin'' rq = []"
    and "\<not> authorised_for lib env rq (classify_route (rq_method rq) (rq_path rq))"
  shows "\<exists>r. (\<forall>nxt. enforce_request_security lib nxt env rq = Some r)
    \<and> rs_status r =
        (if classify_route (rq_method rq) (rq_path rq) \<noteq> Management \<and> any_client_authorised lib env rq
         then 403 else 401)
    \<and> (rs_www_authenticate r \<longleftrightarrow> rs_status r = 401)"
proof -
  let ?cl = "classify_route (rq_method rq) (rq_path rq)"
  obtain r where r: "authenticate lib env (resolve_protocol (rq_path rq)) ?cl rq = Err r"
    "rs_status r = (if ?cl \<noteq> Management \<and> any_client_authorised lib env rq then 403 else 401)"
    "rs_www_authenticate r \<longleftrightarrow> rs_status r = 401"
    using authenticate_refuses [OF assms(3)] by blast
  have "?cl \<noteq> Public" using assms(3) by auto
  then have "security_decision lib env rq = Err r"
    using assms(1,2) r(1) by (simp add: security_decision_def Let_def)
  then have "enforce_request_security lib nxt env rq = Some r" for nxt
    by (simp add: enforce_request_security_def)
  with r(2,3) show ?thesis by blast
qed

subsection \<open>Witnesses\<close>

definition demo_lib :: http_lib where
  "demo_lib = \<lparr>to_str = Some, to_bytes = (\<lambda>b n. if length b \<le> n then Some b else None)\<rparr>"

definition demo_security :: security_env where
  "demo_security = \<lparr>se_authority = ''h'', se_crypto = pad_crypto, se_auth = fst demo_state,
     se_admits = True, se_phase = Running\<rparr>"

definition demo_request :: "string \<Rightarrow> string \<Rightarrow> http_request" where
  "demo_request path token = \<lparr>rq_method = POST, rq_path = path, rq_authority = None,
     rq_headers = [(''host'', ''h''), (''authorization'', ''Bearer '' @ token), (''content-type'', ''application/json'')],
     rq_body = ''{}'', rq_client = None, rq_protocol = None\<rparr>"

lemma demo_state_eval:
  "fst demo_state = \<lparr>management_digest = replicate 32 CHR ''m'',
     clients = [(replicate 32 CHR ''p'', \<lparr>ac_token_id = ''t1'', ac_client_id = ClientId ''cli'', ac_scopes = [ProxyUse]\<rparr>)]\<rparr>"
  by (simp add: demo_state_def auth_eval)

lemma demo_validates:
  "validate_client_scope pad_crypto (fst demo_state) demo_token ProxyUse
     = Some \<lparr>auth_token_id = ''t1'', auth_client_id = ClientId ''cli''\<rparr>"
  "validate_client_scope pad_crypto (fst demo_state) demo_token ClientsManage = None"
  "validate_any_client pad_crypto (fst demo_state) demo_token
     = Some \<lparr>auth_token_id = ''t1'', auth_client_id = ClientId ''cli''\<rparr>"
  "\<not> validate_management pad_crypto (fst demo_state) demo_token"
  by (simp_all add: demo_state_eval validate_client_scope_def validate_any_client_def authorized_def
      validate_management_def demo_token_def auth_eval bt_get_def)

lemma demo_json: "is_json_content_type (Some ''application/json'')"
  by (simp add: is_json_content_type_def str_trim_def to_ascii_lowercase_def byte_to_ascii_lowercase_def
      str_eval Let_def)

lemma demo_bearer: "bearer_candidate demo_lib (demo_request path token) = Some token"
  by (simp add: bearer_candidate_def demo_request_def get_all_def demo_lib_def)

theorem handler_runs_authorised_witness:
  "\<exists>rq'. security_decision demo_lib demo_security (demo_request ''/v1/responses'' demo_token)
        = Ok (HoldUntilBodyEnd, rq')
     \<and> rq_client rq' = Some \<lparr>auth_token_id = ''t1'', auth_client_id = ClientId ''cli''\<rparr>
     \<and> get_all ''authorization'' rq' = []"
proof -
  let ?rq = "demo_request ''/v1/responses'' demo_token"
  have cl: "classify_route POST ''/v1/responses'' = ClientScope ProxyUse"
    by (rule protocol_not_public) (simp add: resolve_protocol_def)
  have client: "client_authorised demo_lib demo_security ?rq ProxyUse
      = Some \<lparr>auth_token_id = ''t1'', auth_client_id = ClientId ''cli''\<rparr>"
    by (simp add: client_authorised_def demo_bearer demo_security_def demo_validates)
  obtain rq' where dec: "security_decision demo_lib demo_security ?rq = Ok (HoldUntilBodyEnd, rq')"
    and path: "rq_path rq' = ''/v1/responses''" "rq_method rq' = POST"
    using cl client
    by (simp add: security_decision_def valid_authority_def get_all_def demo_request_def demo_security_def
        resolve_protocol_def authenticate_iff [THEN iffD2] dispatch_data_plane_def attach_client_def
        validate_data_plane_request_def single_content_type_def demo_lib_def demo_json)
  have route: "router (rq_method rq') (rq_path rq') = DataPlaneHandler OpenAiResponses"
    by (simp add: path router_def all_routes_def control_routes_def data_plane_routes_def)
  have bytes: "b' = b \<and> length b \<le> n" if "to_bytes demo_lib b n = Some b'" for b n b'
    using that by (simp add: demo_lib_def split: if_splits)
  show ?thesis
    using handler_runs_authorised [OF bytes dec route] dec client by auto
qed

end
