(* ===== verification/Management_Api.thy ===== *)
theory Management_Api
  imports Api_Security
begin

text \<open>
  Handlers of the management API that issue, inspect and revoke client tokens,
  \<open>crates/wokcore-server/src/api/routes.rs\<close>, over the registry of theory \<open>Auth\<close> and behind the
  middleware of theory \<open>Api_Security\<close>. The JSON decoder and the source of identifiers and times are
  in the environment of a call.
\<close>

subsection \<open>Errors\<close>

definition api_invalid_request_body :: api_error where
  "api_invalid_request_body = api_error_new 400 ''invalid_request_body'' ''request body is invalid''"

definition api_invalid_client_id :: api_error where
  "api_invalid_client_id = api_error_new 400 ''invalid_client_id'' ''client identifier is invalid''"

definition api_invalid_path_parameters :: api_error where
  "api_invalid_path_parameters =
     api_error_new 400 ''invalid_path_parameters'' ''path parameters are invalid''"

definition api_storage_failure :: api_error where
  "api_storage_failure =
     with_component StorageComponent
       (api_error_new 500 ''internal_error'' ''authentication metadata operation failed'')"

definition api_lifecycle_conflict :: api_error where
  "api_lifecycle_conflict =
     api_error_new 409 ''lifecycle_conflict'' ''service lifecycle transition is unavailable''"

subsection \<open>Issuing\<close>

datatype json_rejection = BodyTooLarge | BodyInvalid

text \<open>A decoded body; decoding the client identifier checks it.\<close>

record authorize_body =
  ab_client_id :: string
  ab_token_id :: "string option"
  ab_scopes :: "string list option"

record authorize_request =
  ar_client_id :: client_id
  ar_token_id :: "string option"
  ar_scopes :: "string list option"

definition decode_authorize :: "json_rejection + authorize_body \<Rightarrow> json_rejection + authorize_request" where
  "decode_authorize body =
     and_then body (\<lambda>b. and_then (map_err (\<lambda>_. BodyInvalid) (client_id_new (ab_client_id b))) (\<lambda>cid.
       Ok \<lparr>ar_client_id = cid, ar_token_id = ab_token_id b, ar_scopes = ab_scopes b\<rparr>))"

record authorize_response =
  resp_client_id :: client_id
  resp_token_id :: string
  resp_token :: string
  resp_scopes :: "string list"

record token_env =
  te_new_token_id :: "unit + string"
  te_now :: "unit + string"
  te_fault :: run_fault
  te_entropy :: "token_error + string"

definition parse_authorize_scopes :: "string list option \<Rightarrow> client_token_scope list option" where
  "parse_authorize_scopes scopes =
     (let scs = (case scopes of Some s \<Rightarrow> s | None \<Rightarrow> [scope_as_str ProxyUse]) in
      if scs = [] then None
      else (case those (map scope_from_str scs) of
          None \<Rightarrow> None
        | Some parsed \<Rightarrow>
            (let deduped = remdups_adj (sort parsed) in
             if length deduped = length parsed then Some deduped else None)))"

definition authorize ::
  "crypto \<Rightarrow> token_env \<Rightarrow> json_rejection + authorize_body \<Rightarrow> auth_registry \<times> auth_db
     \<Rightarrow> (api_error + authorize_response) \<times> auth_registry \<times> auth_db" where
  "authorize c env body w =
     (case decode_authorize body of
        Inl BodyTooLarge \<Rightarrow> (Err api_payload_too_large, w)
      | Inl BodyInvalid \<Rightarrow> (Err api_invalid_request_body, w)
      | Inr request \<Rightarrow>
          (case parse_authorize_scopes (ar_scopes request) of
             None \<Rightarrow> (Err api_invalid_request_body, w)
           | Some scopes \<Rightarrow>
               (case (case ar_token_id request of Some t \<Rightarrow> Ok t | None \<Rightarrow> te_new_token_id env) of
                  Inl _ \<Rightarrow> (Err api_internal_failure, w)
                | Inr token_id \<Rightarrow>
                    (case te_now env of
                       Inl _ \<Rightarrow> (Err api_internal_failure, w)
                     | Inr issued_at \<Rightarrow>
                         (case registry_issue_with_scopes c (te_fault env) (te_entropy env) token_id
                                 (ar_client_id request) issued_at scopes w of
                            (Inl _, w') \<Rightarrow> (Err api_storage_failure, w')
                          | (Inr material, w') \<Rightarrow>
                              (Ok \<lparr>resp_client_id = ar_client_id request, resp_token_id = token_id,
                                   resp_token = material, resp_scopes = map scope_as_str scopes\<rparr>, w'))))))"

subsection \<open>Inspecting and revoking\<close>

definition client_token_status ::
  "(string \<times> string) option \<Rightarrow> auth_registry \<Rightarrow> api_error + bool" where
  "client_token_status path r =
     and_then (ok_or path api_invalid_path_parameters) (\<lambda>(client, tid).
       and_then (map_err (\<lambda>_. api_invalid_client_id) (client_id_new client)) (\<lambda>cid.
         Ok (client_token_active r cid tid)))"

definition revoke ::
  "token_env \<Rightarrow> (string \<times> string) option \<Rightarrow> auth_registry \<times> auth_db
     \<Rightarrow> (api_error + bool) \<times> auth_registry \<times> auth_db" where
  "revoke env path w =
     (case path of
        None \<Rightarrow> (Err api_invalid_path_parameters, w)
      | Some (client, tid) \<Rightarrow>
          (case client_id_new client of
             Inl _ \<Rightarrow> (Err api_invalid_client_id, w)
           | Inr cid \<Rightarrow>
               (case te_now env of
                  Inl _ \<Rightarrow> (Err api_internal_failure, w)
                | Inr revoked_at \<Rightarrow>
                    (case registry_revoke (te_fault env) cid tid revoked_at w of
                       (Inl _, w') \<Rightarrow> (Err api_storage_failure, w')
                     | (Inr b, w') \<Rightarrow> (Ok b, w')))))"

fun lifecycle_phase_name :: "lifecycle_phase \<Rightarrow> string" where
  "lifecycle_phase_name Starting = ''starting''"
| "lifecycle_phase_name Running = ''running''"
| "lifecycle_phase_name Draining = ''draining''"
| "lifecycle_phase_name AwaitingCancellation = ''awaiting_cancellation''"
| "lifecycle_phase_name Stopping = ''stopping''"

subsection \<open>Lemmas\<close>

lemma those_Some: "those xs = Some ys \<longleftrightarrow> xs = map Some ys"
  by (induction xs arbitrary: ys) (auto split: option.splits simp: Cons_eq_map_conv)

lemma remdups_adj_sorted_length:
  "sorted xs \<Longrightarrow> length (remdups_adj xs) = length xs \<longleftrightarrow> distinct (xs :: 'a::linorder list)"
proof (induction xs rule: remdups_adj.induct)
  case (3 x y xs)
  have "length (remdups_adj (y # xs)) \<le> Suc (length xs)" using remdups_adj_length [of "y # xs"] by simp
  then show ?case using 3 by (auto dest: order.antisym)
qed simp_all

text \<open>A list of names is accepted iff all are scopes and none is repeated; the scopes come out sorted.\<close>

lemma parse_scopes_Some:
  "parse_authorize_scopes (Some names) = Some scs \<longleftrightarrow>
     names \<noteq> [] \<and> (\<exists>ys. names = map scope_as_str ys \<and> distinct ys \<and> scs = sort ys)"
proof -
  have parsed: "map scope_from_str names = map Some ys \<longleftrightarrow> names = map scope_as_str ys" for ys
    by (induction names arbitrary: ys) (auto simp: Cons_eq_map_conv scope_from_str_iff)
  show ?thesis
  proof (cases "those (map scope_from_str names)")
    case None
    have "names \<noteq> map scope_as_str ys" for ys
    proof
      assume "names = map scope_as_str ys"
      then have "those (map scope_from_str names) = Some ys" unfolding those_Some parsed .
      with None show False by simp
    qed
    with None show ?thesis by (auto simp: parse_authorize_scopes_def Let_def)
  next
    case (Some ys)
    then have names: "names = map scope_as_str ys" unfolding those_Some parsed .
    have "inj scope_as_str" by (auto simp: inj_def)
    then have "names = map scope_as_str zs \<longleftrightarrow> zs = ys" for zs
      unfolding names by (auto dest: map_injective)
    with Some show ?thesis
      using remdups_adj_sorted_length [of "sort ys"] remdups_adj_distinct [of "sort ys"]
      by (auto simp: parse_authorize_scopes_def Let_def)
  qed
qed

lemma authorize_ok:
  assumes "authorize c env body w = (Ok resp, w1)"
  obtains client tid at scopes where
    "client_id_new client = Ok (resp_client_id resp)" "resp_token_id resp = tid"
    "resp_scopes resp = map scope_as_str scopes"
    "registry_issue_with_scopes c (te_fault env) (te_entropy env) tid (resp_client_id resp) at scopes w
       = (Ok (resp_token resp), w1)"
  using assms
  by (auto simp: authorize_def decode_authorize_def split: sum.splits json_rejection.splits option.splits prod.splits)

subsection \<open>Property\<close>

text \<open>
  C34. A token handed out by the management API opens exactly the routes of its scopes, until it is
  revoked: after \<open>authorize\<close> answered with a token, and after any further calls that do not revoke it,
  a request that carries the token as its bearer is authorised for a route iff the route is public or
  needs one of the scopes in the answer. In particular it never counts as the administration token.
  The codec is assumed to decode what it encoded, to 43 characters for 32 bytes.
\<close>

theorem issued_token_opens_its_scopes:
  assumes "auth_inv w" "authorize c tenv body w = (Ok resp, w1)"
    and "list_all (spares (client_str (resp_client_id resp)) (resp_token_id resp)) ops"
    and "exec (run_auth_op c) w1 ops = (se_auth env, db)" "se_crypto env = c"
    and "te_entropy tenv = Ok bytes" "length bytes = ENTROPY_BYTES"
    and "decode_slice c (encode_string c bytes) = Some bytes"
    and "length (encode_string c bytes) = ENCODED_ENTROPY_BYTES"
    and "bearer_candidate lib rq = Some (resp_token resp)"
  shows "authorised_for lib env rq (classify_route (rq_method rq) (rq_path rq)) \<longleftrightarrow>
    (case classify_route (rq_method rq) (rq_path rq) of
       Public \<Rightarrow> True
     | Management \<Rightarrow> False
     | ManagementOrClientScope scope \<Rightarrow> scope_as_str scope \<in> set (resp_scopes resp)
     | ClientScope scope \<Rightarrow> scope_as_str scope \<in> set (resp_scopes resp))"
proof -
  obtain client tid at scopes where issue: "client_id_new client = Ok (resp_client_id resp)"
    "resp_token_id resp = tid" "resp_scopes resp = map scope_as_str scopes"
    "registry_issue_with_scopes c (te_fault tenv) (Ok bytes) tid (resp_client_id resp) at scopes w
       = (Ok (resp_token resp), w1)"
    using authorize_ok [OF assms(2)] assms(6) by metis
  have client: "client_str (resp_client_id resp) = client" using client_id_new_valid [OF issue(1)] by simp
  have kept: "auth_inv (se_auth env, db)" "is_proxy_token c (resp_token resp)"
    "db_grant db (token_digest c (resp_token resp)) = Some (tid, resp_client_id resp, set scopes)"
    using issued_then_ops [OF assms(1) issue(1,4) _ assms(4,7-9)] assms(3) client issue(2) by simp_all
  have "\<not> management_authorised lib env rq"
    using proxy_not_admin [OF kept(2)] by (simp add: management_authorised_def assms(5,10) validate_management_def)
  moreover have "client_authorised lib env rq scope =
      (if scope \<in> set scopes then Some \<lparr>auth_token_id = tid, auth_client_id = resp_client_id resp\<rparr> else None)"
    for scope
    using kept by (simp add: client_authorised_def assms(5,10) auth_inv_validate [OF kept(1)])
  moreover have "scope_as_str scope \<in> set (resp_scopes resp) \<longleftrightarrow> scope \<in> set scopes" for scope
    by (auto simp: issue(3))
  ultimately show ?thesis by (cases "classify_route (rq_method rq) (rq_path rq)") simp_all
qed

definition demo_tenv :: token_env where
  "demo_tenv = \<lparr>te_new_token_id = Ok ''t1'', te_now = Ok ''t0'', te_fault = NoFault,
     te_entropy = Ok (replicate 32 CHR ''p'')\<rparr>"

definition demo_response :: authorize_response where
  "demo_response = \<lparr>resp_client_id = ClientId ''cli'', resp_token_id = ''t1'', resp_token = demo_token,
     resp_scopes = [''proxy.use'']\<rparr>"

theorem issued_token_opens_its_scopes_witness:
  "authorised_for demo_lib demo_security (demo_request ''/v1/responses'' demo_token) (ClientScope ProxyUse)
   \<and> \<not> authorised_for demo_lib demo_security (demo_request ''/wokcore/v1/clients/authorize'' demo_token)
         (ManagementOrClientScope ClientsManage)"
proof -
  let ?body = "Ok \<lparr>ab_client_id = ''cli'', ab_token_id = None, ab_scopes = None\<rparr> :: json_rejection + authorize_body"
  have auth: "authorize pad_crypto demo_tenv ?body (demo_registry, demo_db) = (Ok demo_response, demo_state)"
    using demo_issue_eq
    by (simp add: authorize_def decode_authorize_def demo_client parse_authorize_scopes_def Let_def
        scope_from_as_str [of ProxyUse, simplified] demo_tenv_def demo_issue_def demo_response_def)
  have run: "exec (run_auth_op pad_crypto) demo_state [] = (se_auth demo_security, snd demo_state)"
    by (simp add: demo_security_def)
  have env: "se_crypto demo_security = pad_crypto" "te_entropy demo_tenv = Ok (replicate 32 CHR ''p'')"
    by (simp_all add: demo_security_def demo_tenv_def)
  have codec: "length (replicate 32 CHR ''p'') = ENTROPY_BYTES"
    "decode_slice pad_crypto (encode_string pad_crypto (replicate 32 CHR ''p'')) = Some (replicate 32 CHR ''p'')"
    "length (encode_string pad_crypto (replicate 32 CHR ''p'')) = ENCODED_ENTROPY_BYTES"
    by (simp_all add: pad_crypto_def ENTROPY_BYTES_def ENCODED_ENTROPY_BYTES_def)
  have bearer: "bearer_candidate demo_lib (demo_request path demo_token) = Some (resp_token demo_response)" for path
    by (simp add: demo_bearer demo_response_def)
  have cl: "classify_route POST ''/v1/responses'' = ClientScope ProxyUse"
    "classify_route POST ''/wokcore/v1/clients/authorize'' = ManagementOrClientScope ClientsManage"
    by (rule protocol_not_public [of _ OpenAiResponses], simp add: resolve_protocol_def) (simp add: classify_route_def)
  have at: "rq_method (demo_request path t) = POST" "rq_path (demo_request path t) = path" for path t
    by (simp_all add: demo_request_def)
  note main = issued_token_opens_its_scopes [OF demo_inv auth _ run env codec bearer, unfolded at]
  show ?thesis using main [of "''/v1/responses''"] main [of "''/wokcore/v1/clients/authorize''"]
    by (simp add: cl demo_response_def del: authorised_for.simps)
qed

end
