(* ===== verification/Diag_Ring.thy ===== *)
theory Diag_Ring
  imports Ordered_Map Rust_Str
begin

text \<open>
  The in-memory ring of diagnostic events, \<open>crates/wokcore-diagnostics/src/ring.rs\<close>: a queue
  bounded by the bytes of its events that drops the oldest first, and pages through it in both
  directions. An event is its sequence number, its identifier (the bytes of a UUID) and its
  encoding.
\<close>

subsection \<open>Definitions\<close>

datatype diagnostic_build_error = InvalidValue | CollectionLimit | EventTooLarge | Serialization

definition MAX_PREPARED_EVENT_BYTES :: nat where
  "MAX_PREPARED_EVENT_BYTES = 16384"

definition DEFAULT_RING_BYTES :: nat where
  "DEFAULT_RING_BYTES = 16777216"

definition MAX_RING_BYTES :: nat where
  "MAX_RING_BYTES = 16777216"

definition DEFAULT_PAGE_EVENTS :: nat where
  "DEFAULT_PAGE_EVENTS = 100"

definition MAX_PAGE_EVENTS :: nat where
  "MAX_PAGE_EVENTS = 1000"

definition MAX_PAGE_BYTES :: nat where
  "MAX_PAGE_BYTES = 1048576"

record prepared_event =
  pe_sequence :: u64
  pe_event_id :: string
  pe_encoded :: string

definition encoded_len :: "prepared_event \<Rightarrow> nat" where
  "encoded_len e = length (pe_encoded e)"

datatype ring_insert_outcome = Inserted | Oversized | OutOfOrder

datatype page_direction = Ascending | Descending

type_synonym page_cursor = "u64 \<times> string"

record page_request =
  pr_direction :: page_direction
  pr_cursor :: "page_cursor option"
  pr_max_events :: nat
  pr_max_bytes :: nat

definition page_default_for :: "page_direction \<Rightarrow> page_request" where
  "page_default_for d =
     \<lparr>pr_direction = d, pr_cursor = None, pr_max_events = DEFAULT_PAGE_EVENTS, pr_max_bytes = MAX_PAGE_BYTES\<rparr>"

definition page_with_limits ::
  "page_direction \<Rightarrow> page_cursor option \<Rightarrow> nat \<Rightarrow> nat \<Rightarrow> diagnostic_build_error + page_request" where
  "page_with_limits d cursor max_events max_bytes =
     (if max_events = 0 \<or> MAX_PAGE_EVENTS < max_events
         \<or> \<not> (MAX_PREPARED_EVENT_BYTES \<le> max_bytes \<and> max_bytes \<le> MAX_PAGE_BYTES)
      then Err InvalidValue
      else Ok \<lparr>pr_direction = d, pr_cursor = cursor, pr_max_events = max_events, pr_max_bytes = max_bytes\<rparr>)"

record page_result =
  pg_events :: "prepared_event list"
  pg_encoded_bytes :: nat
  pg_ring_retained_bytes :: nat
  pg_next_cursor :: "page_cursor option"

record ring =
  byte_budget :: nat
  retained_bytes :: nat
  last_sequence :: "u64 option"
  ring_events :: "prepared_event list"

definition ring_new :: ring where
  "ring_new = \<lparr>byte_budget = DEFAULT_RING_BYTES, retained_bytes = 0, last_sequence = None, ring_events = []\<rparr>"

definition ring_with_byte_budget :: "nat \<Rightarrow> diagnostic_build_error + ring" where
  "ring_with_byte_budget budget =
     (if \<not> (MAX_PREPARED_EVENT_BYTES \<le> budget \<and> budget \<le> MAX_RING_BYTES) then Err InvalidValue
      else Ok \<lparr>byte_budget = budget, retained_bytes = 0, last_sequence = None, ring_events = []\<rparr>)"

text \<open>The loop that makes room; its flag says whether it succeeded.\<close>

fun evict :: "nat \<Rightarrow> nat \<Rightarrow> nat \<Rightarrow> prepared_event list \<Rightarrow> bool \<times> nat \<times> prepared_event list" where
  "evict budget n retained [] =
     (retained + n \<le> usize_max \<and> retained + n \<le> budget, retained, [])"
| "evict budget n retained (e # es) =
     (if retained + n \<le> usize_max \<and> retained + n \<le> budget then (True, retained, e # es)
      else evict budget n (retained - encoded_len e) es)"

definition ring_insert :: "prepared_event \<Rightarrow> ring \<Rightarrow> ring_insert_outcome \<times> ring" where
  "ring_insert e r =
     (if (case last_sequence r of None \<Rightarrow> False | Some s \<Rightarrow> pe_sequence e \<le> s) then (OutOfOrder, r)
      else if byte_budget r < encoded_len e then (Oversized, r)
      else (case evict (byte_budget r) (encoded_len e) (retained_bytes r) (ring_events r) of
          (False, n, es) \<Rightarrow> (Oversized, r\<lparr>retained_bytes := n, ring_events := es\<rparr>)
        | (True, n, es) \<Rightarrow>
            (Inserted,
             r\<lparr>retained_bytes := usize_sat_add n (encoded_len e), last_sequence := Some (pe_sequence e),
               ring_events := es @ [e]\<rparr>)))"

definition key_less :: "page_cursor \<Rightarrow> page_cursor \<Rightarrow> bool" where
  "key_less a b = (fst a < fst b \<or> fst a = fst b \<and> snd a < snd b)"

definition event_key :: "prepared_event \<Rightarrow> page_cursor" where
  "event_key e = (pe_sequence e, pe_event_id e)"

definition after_cursor :: "page_request \<Rightarrow> prepared_event \<Rightarrow> bool" where
  "after_cursor req e =
     (case pr_cursor req of
        None \<Rightarrow> True
      | Some c \<Rightarrow>
          (case pr_direction req of
             Ascending \<Rightarrow> key_less c (event_key e)
           | Descending \<Rightarrow> key_less (event_key e) c))"

text \<open>The closure \<open>select\<close> in the loop: the events taken so far and their bytes.\<close>

fun page_loop :: "page_request \<Rightarrow> prepared_event list \<Rightarrow> prepared_event list \<Rightarrow> nat
    \<Rightarrow> prepared_event list \<times> nat" where
  "page_loop req [] selected bytes = (selected, bytes)"
| "page_loop req (e # es) selected bytes =
     (if \<not> after_cursor req e \<or> pr_max_events req \<le> length selected
      then (if length selected < pr_max_events req then page_loop req es selected bytes
            else (selected, bytes))
      else if usize_max < bytes + encoded_len e then (selected, bytes)
      else if pr_max_bytes req < bytes + encoded_len e then (selected, bytes)
      else page_loop req es (selected @ [e]) (bytes + encoded_len e))"

definition ring_page :: "page_request \<Rightarrow> ring \<Rightarrow> page_result" where
  "ring_page req r =
     (let order = (case pr_direction req of Ascending \<Rightarrow> ring_events r | Descending \<Rightarrow> rev (ring_events r));
          (selected, bytes) = page_loop req order [] 0
      in \<lparr>pg_events = selected, pg_encoded_bytes = bytes, pg_ring_retained_bytes = retained_bytes r,
          pg_next_cursor = (if selected = [] then None else Some (event_key (last selected)))\<rparr>)"

subsection \<open>The ring\<close>

definition total_bytes :: "prepared_event list \<Rightarrow> nat" where
  "total_bytes es = sum_list (map encoded_len es)"

lemma total_bytes_simps [simp]:
  "total_bytes [] = 0" "total_bytes (e # es) = encoded_len e + total_bytes es"
  "total_bytes (es @ fs) = total_bytes es + total_bytes fs"
  by (simp_all add: total_bytes_def)

definition ring_inv :: "ring \<Rightarrow> bool" where
  "ring_inv r =
     (MAX_PREPARED_EVENT_BYTES \<le> byte_budget r \<and> byte_budget r \<le> MAX_RING_BYTES
      \<and> retained_bytes r = total_bytes (ring_events r) \<and> retained_bytes r \<le> byte_budget r
      \<and> sorted_wrt (\<lambda>a b. pe_sequence a < pe_sequence b) (ring_events r)
      \<and> (ring_events r \<noteq> [] \<longrightarrow> last_sequence r = Some (pe_sequence (last (ring_events r)))))"

text \<open>The longest suffix that fits.\<close>

fun newest :: "nat \<Rightarrow> prepared_event list \<Rightarrow> prepared_event list" where
  "newest budget [] = []"
| "newest budget (e # es) = (if total_bytes (e # es) \<le> budget then e # es else newest budget es)"

lemma newest_fits: "total_bytes (newest b es) \<le> b"
  by (induction es) auto

lemma newest_id: "total_bytes es \<le> b \<Longrightarrow> newest b es = es"
  by (cases es) auto

lemma newest_suffix: "\<exists>old. es = old @ newest b es"
proof (induction es)
  case (Cons e es)
  then obtain old where "es = old @ newest b es" by blast
  then have "e # es = (e # old) @ newest b es" by simp
  then show ?case by (metis append_Nil newest.simps(2))
qed simp

lemma newest_snoc: "newest b (es @ [e]) = newest b (newest b es @ [e])"
proof (induction es)
  case (Cons x es)
  show ?case
  proof (cases "total_bytes (x # es) \<le> b")
    case False
    then show ?thesis using Cons by simp
  qed (simp add: newest_id)
qed simp

lemma newest_maximal:
  assumes "es = old @ new" "total_bytes new \<le> b"
  shows "length new \<le> length (newest b es)"
  using assms
proof (induction es arbitrary: old)
  case (Cons x es)
  then show ?case by (cases old) (auto simp: newest_id)
qed simp

text \<open>Making room for an event that fits keeps the newest events that fit beside it.\<close>

lemma evict_newest:
  assumes "retained = total_bytes es" "n \<le> b" "b \<le> usize_max"
  shows "evict b n retained es = (True, total_bytes (newest (b - n) es), newest (b - n) es)"
  using assms
proof (induction es arbitrary: retained)
  case (Cons e es)
  have "retained + n \<le> b \<longleftrightarrow> total_bytes (e # es) \<le> b - n" using Cons.prems by simp linarith
  moreover have "retained - encoded_len e = total_bytes es" using Cons.prems by simp
  ultimately show ?case using Cons by auto
qed simp

lemma newest_snoc_fits: "encoded_len e \<le> b \<Longrightarrow> newest b (es @ [e]) = newest (b - encoded_len e) es @ [e]"
  by (induction es) auto

text \<open>Inserting in order and below the budget is appending and keeping the newest events that fit.\<close>

lemma ring_inv_budget: "ring_inv r \<Longrightarrow> byte_budget r \<le> usize_max"
  by (simp add: ring_inv_def MAX_RING_BYTES_def usize_max_def)

lemma ring_insert_accepts:
  assumes "ring_inv r" "fst (ring_insert e r) = Inserted"
  shows "snd (ring_insert e r) = r\<lparr>retained_bytes := total_bytes (newest (byte_budget r) (ring_events r @ [e])),
      last_sequence := Some (pe_sequence e), ring_events := newest (byte_budget r) (ring_events r @ [e])\<rparr>
    \<and> encoded_len e \<le> byte_budget r
    \<and> (\<forall>s. last_sequence r = Some s \<longrightarrow> s < pe_sequence e)"
proof -
  have fits: "encoded_len e \<le> byte_budget r" and seq: "\<forall>s. last_sequence r = Some s \<longrightarrow> s < pe_sequence e"
    using assms(2) by (auto simp: ring_insert_def not_le split: if_splits option.splits)
  have room: "evict (byte_budget r) (encoded_len e) (retained_bytes r) (ring_events r)
      = (True, total_bytes (newest (byte_budget r - encoded_len e) (ring_events r)),
         newest (byte_budget r - encoded_len e) (ring_events r))"
    by (rule evict_newest) (use assms(1) fits ring_inv_budget in \<open>auto simp: ring_inv_def\<close>)
  have "total_bytes (newest (byte_budget r - encoded_len e) (ring_events r)) + encoded_len e \<le> byte_budget r"
    using newest_fits [of "byte_budget r - encoded_len e" "ring_events r"] fits by linarith
  then have "usize_sat_add (total_bytes (newest (byte_budget r - encoded_len e) (ring_events r))) (encoded_len e)
      = total_bytes (newest (byte_budget r) (ring_events r @ [e]))"
    using ring_inv_budget [OF assms(1)] fits by (simp add: usize_sat_add_exact newest_snoc_fits)
  then show ?thesis
    using fits seq room by (auto simp: ring_insert_def newest_snoc_fits split: option.splits)
qed

lemma ring_insert_refuses:
  assumes "ring_inv r" "fst (ring_insert e r) \<noteq> Inserted"
  shows "snd (ring_insert e r) = r"
proof (cases "byte_budget r < encoded_len e")
  case False
  then have "fst (evict (byte_budget r) (encoded_len e) (retained_bytes r) (ring_events r))"
    using evict_newest [of "retained_bytes r" "ring_events r" "encoded_len e" "byte_budget r"]
      assms(1) ring_inv_budget by (auto simp: ring_inv_def)
  then show ?thesis using assms(2) by (auto simp: ring_insert_def split: prod.splits bool.splits)
qed (simp add: ring_insert_def)

lemma sorted_wrt_last: "sorted_wrt R xs \<Longrightarrow> a \<in> set xs \<Longrightarrow> a = last xs \<or> R a (last xs)"
  by (cases xs rule: rev_cases) (auto simp: sorted_wrt_append)

lemma ring_insert_inv:
  assumes "ring_inv r"
  shows "ring_inv (snd (ring_insert e r))"
proof (cases "fst (ring_insert e r) = Inserted")
  case True
  note acc = ring_insert_accepts [OF assms True]
  let ?es = "newest (byte_budget r) (ring_events r @ [e])"
  have last: "?es = newest (byte_budget r - encoded_len e) (ring_events r) @ [e]"
    using acc by (simp add: newest_snoc_fits)
  have "sorted_wrt (\<lambda>a b. pe_sequence a < pe_sequence b) (ring_events r @ [e])"
  proof -
    have "pe_sequence a < pe_sequence e" if "a \<in> set (ring_events r)" for a
    proof -
      have ne: "ring_events r \<noteq> []" using that by auto
      then have "pe_sequence (last (ring_events r)) < pe_sequence e" using assms acc by (auto simp: ring_inv_def)
      moreover have "a = last (ring_events r) \<or> pe_sequence a < pe_sequence (last (ring_events r))"
        using sorted_wrt_last [of "\<lambda>a b. pe_sequence a < pe_sequence b" "ring_events r" a] assms that
        by (simp add: ring_inv_def)
      ultimately show ?thesis by auto
    qed
    then show ?thesis using assms by (auto simp: ring_inv_def sorted_wrt_append)
  qed
  then have "sorted_wrt (\<lambda>a b. pe_sequence a < pe_sequence b) ?es"
    using newest_suffix [of "ring_events r @ [e]" "byte_budget r"] by (metis sorted_wrt_append)
  then show ?thesis
    using assms acc newest_fits [of "byte_budget r" "ring_events r @ [e]"] last by (simp add: ring_inv_def)
qed (use assms ring_insert_refuses in simp)

lemma ring_with_budget_inv: "ring_with_byte_budget b = Ok r \<Longrightarrow> ring_inv r \<and> byte_budget r = b \<and> ring_events r = []"
  by (auto simp: ring_with_byte_budget_def ring_inv_def split: if_splits)

lemma ring_new_inv: "ring_inv ring_new"
  by (simp add: ring_new_def ring_inv_def MAX_PREPARED_EVENT_BYTES_def MAX_RING_BYTES_def DEFAULT_RING_BYTES_def)

interpretation ring_machine: invariant_machine "\<lambda>r e. snd (ring_insert e r)" ring_inv
  by unfold_locales (rule ring_insert_inv)

subsection \<open>Pages\<close>

text \<open>The longest prefix within a number of events and of bytes.\<close>

fun take_fit :: "nat \<Rightarrow> nat \<Rightarrow> prepared_event list \<Rightarrow> prepared_event list" where
  "take_fit 0 b es = []"
| "take_fit (Suc n) b [] = []"
| "take_fit (Suc n) b (e # es) =
     (if encoded_len e \<le> b then e # take_fit n (b - encoded_len e) es else [])"

lemma take_fit_Nil [simp]: "take_fit n b [] = []"
  by (cases n) simp_all

lemma page_loop_eq:
  assumes "length selected \<le> pr_max_events req" "bytes \<le> pr_max_bytes req" "pr_max_bytes req \<le> usize_max"
  shows "fst (page_loop req es selected bytes) = selected
      @ take_fit (pr_max_events req - length selected) (pr_max_bytes req - bytes) (filter (after_cursor req) es)"
  using assms
proof (induction req es selected bytes rule: page_loop.induct)
  case (2 req e es selected bytes)
  show ?case
  proof (cases "pr_max_events req - length selected")
    case (Suc n)
    then show ?thesis using 2 by (auto simp: le_diff_conv2 Suc_diff_Suc diff_Suc split: nat.split)
  qed (use 2 in auto)
qed simp

lemma page_loop_bytes: "snd (page_loop req es selected (total_bytes selected)) = total_bytes (fst (page_loop req es selected (total_bytes selected)))"
proof (induction es arbitrary: selected)
  case (Cons e es)
  from Cons [of "selected @ [e]"] Cons [of selected] show ?case by auto
qed simp

lemma take_fit_prefix: "\<exists>k. take_fit n b es = take k es \<and> k \<le> n \<and> k \<le> length es"
proof (induction n b es rule: take_fit.induct)
  case (3 n b e es)
  show ?case
  proof (cases "encoded_len e \<le> b")
    case True
    with 3 obtain k where "take_fit n (b - encoded_len e) es = take k es" "k \<le> n" "k \<le> length es" by blast
    with True show ?thesis by (intro exI [of _ "Suc k"]) simp
  qed (auto intro: exI [of _ 0])
qed auto

lemma take_fit_bytes: "total_bytes (take_fit n b es) \<le> b"
  by (induction n b es rule: take_fit.induct) (auto simp: le_diff_conv2)

lemma take_fit_progress: "0 < n \<Longrightarrow> es \<noteq> [] \<Longrightarrow> encoded_len (hd es) \<le> b \<Longrightarrow> take_fit n b es \<noteq> []"
  by (cases n; cases es) auto

definition dir_less :: "page_direction \<Rightarrow> page_cursor \<Rightarrow> page_cursor \<Rightarrow> bool" where
  "dir_less d a b = (case d of Ascending \<Rightarrow> key_less a b | Descending \<Rightarrow> key_less b a)"

definition in_order :: "page_direction \<Rightarrow> ring \<Rightarrow> prepared_event list" where
  "in_order d r = (case d of Ascending \<Rightarrow> ring_events r | Descending \<Rightarrow> rev (ring_events r))"

lemma dir_less_irrefl: "\<not> dir_less d a a" and dir_less_trans: "dir_less d a b \<Longrightarrow> dir_less d b c \<Longrightarrow> dir_less d a c"
  by (cases d; auto simp: dir_less_def key_less_def)+

lemma after_cursor_dir: "pr_cursor req = Some c \<Longrightarrow> after_cursor req e = dir_less (pr_direction req) c (event_key e)"
  by (cases "pr_direction req") (simp_all add: after_cursor_def dir_less_def)

lemma in_order_sorted: "ring_inv r \<Longrightarrow> sorted_wrt (\<lambda>a b. dir_less d (event_key a) (event_key b)) (in_order d r)"
  by (cases d)
    (auto simp: ring_inv_def in_order_def dir_less_def key_less_def event_key_def sorted_wrt_rev
      elim!: sorted_wrt_mono_rel [rotated])

text \<open>In an ordered list, what comes after the element at an index is what follows it.\<close>

lemma filter_after:
  assumes "sorted_wrt (\<lambda>a b. R (f a) (f b)) (xs @ y # ys)" "\<And>a. \<not> R a a" "\<And>a b c. R a b \<Longrightarrow> R b c \<Longrightarrow> R a c"
  shows "filter (\<lambda>e. R (f y) (f e)) (xs @ y # ys) = ys"
proof -
  have "\<not> R (f y) (f x)" if "x \<in> set xs" for x
  proof
    assume "R (f y) (f x)"
    moreover have "R (f x) (f y)" using assms(1) that by (simp add: sorted_wrt_append)
    ultimately show False using assms(2,3) by blast
  qed
  then have "filter (\<lambda>e. R (f y) (f e)) xs = []" by (simp add: filter_empty_conv)
  moreover have "filter (\<lambda>e. R (f y) (f e)) ys = ys"
    using assms(1) by (simp add: filter_id_conv sorted_wrt_append)
  ultimately show ?thesis using assms(2) by simp
qed

lemma ring_page_events:
  assumes "pr_max_bytes req \<le> usize_max"
  shows "pg_events (ring_page req r)
    = take_fit (pr_max_events req) (pr_max_bytes req) (filter (after_cursor req) (in_order (pr_direction req) r))"
  using page_loop_eq [of "[]" req 0 "in_order (pr_direction req) r"] assms
  by (simp add: ring_page_def in_order_def Let_def case_prod_beta)

lemma ring_page_rest:
  "pg_encoded_bytes (ring_page req r) = total_bytes (pg_events (ring_page req r))"
  "pg_next_cursor (ring_page req r) =
     (if pg_events (ring_page req r) = [] then None else Some (event_key (last (pg_events (ring_page req r)))))"
  using page_loop_bytes [of req "in_order (pr_direction req) r" "[]"]
  by (simp_all add: ring_page_def in_order_def Let_def case_prod_beta)

text \<open>The events after the cursor of a page are those after the cursor it came from, less the page.\<close>

lemma after_page:
  assumes "ring_inv r" "pr_max_bytes req \<le> usize_max" "pg_events (ring_page req r) \<noteq> []"
  defines "rest \<equiv> filter (after_cursor req) (in_order (pr_direction req) r)"
  shows "rest = pg_events (ring_page req r)
    @ filter (after_cursor (req\<lparr>pr_cursor := pg_next_cursor (ring_page req r)\<rparr>)) (in_order (pr_direction req) r)"
proof -
  let ?p = "pg_events (ring_page req r)" and ?zs = "in_order (pr_direction req) r"
  let ?d = "pr_direction req"
  obtain k where k: "?p = take k rest"
    using take_fit_prefix ring_page_events [OF assms(2)] unfolding rest_def by metis
  define front y where "front = butlast ?p" and "y = last ?p"
  have p: "?p = front @ [y]" using assms(3) by (simp add: front_def y_def)
  have rest: "rest = front @ y # drop k rest"
    using append_take_drop_id [of k rest] unfolding k [symmetric] p by simp
  have y_in: "y \<in> set rest" by (subst rest) simp
  have sorted: "sorted_wrt (\<lambda>a b. dir_less ?d (event_key a) (event_key b)) rest"
    unfolding rest_def by (rule sorted_wrt_filter [OF in_order_sorted [OF assms(1)]])
  have after: "after_cursor (req\<lparr>pr_cursor := pg_next_cursor (ring_page req r)\<rparr>) e
      = dir_less ?d (event_key y) (event_key e)" for e
    using assms(3) by (simp add: after_cursor_dir ring_page_rest y_def)
  have keep: "after_cursor req e" if "dir_less ?d (event_key y) (event_key e)" for e
  proof (cases "pr_cursor req")
    case (Some c)
    have "dir_less ?d c (event_key y)" using y_in after_cursor_dir [OF Some] by (simp add: rest_def)
    then show ?thesis using that dir_less_trans after_cursor_dir [OF Some] by blast
  qed (simp add: after_cursor_def)
  have "filter (\<lambda>e. dir_less ?d (event_key y) (event_key e)) ?zs
      = filter (\<lambda>e. dir_less ?d (event_key y) (event_key e)) rest"
    unfolding rest_def filter_filter by (rule filter_cong) (use keep in auto)
  also have "\<dots> = drop k rest"
    using filter_after [of "dir_less ?d" event_key front y "drop k rest"] sorted rest dir_less_irrefl dir_less_trans
    by metis
  finally show ?thesis unfolding after using rest p by simp
qed

text \<open>Following the cursors.\<close>

fun walk :: "nat \<Rightarrow> page_request \<Rightarrow> ring \<Rightarrow> page_result list" where
  "walk 0 req r = []"
| "walk (Suc fuel) req r =
     (let p = ring_page req r in
      if pg_events p = [] then [] else p # walk fuel (req\<lparr>pr_cursor := pg_next_cursor p\<rparr>) r)"

lemma walk_page_bounds:
  assumes "p \<in> set (walk n req r)" "pr_max_bytes req \<le> usize_max"
  shows "length (pg_events p) \<le> pr_max_events req \<and> pg_encoded_bytes p = total_bytes (pg_events p)
    \<and> pg_encoded_bytes p \<le> pr_max_bytes req"
  using assms
proof (induction n arbitrary: req)
  case (Suc n)
  let ?rest = "filter (after_cursor req) (in_order (pr_direction req) r)"
  have page: "length (pg_events (ring_page req r)) \<le> pr_max_events req"
    "total_bytes (pg_events (ring_page req r)) \<le> pr_max_bytes req"
    using take_fit_prefix [of "pr_max_events req" "pr_max_bytes req" ?rest]
      take_fit_bytes [of "pr_max_events req" "pr_max_bytes req" ?rest]
    unfolding ring_page_events [OF Suc.prems(2)] by auto
  then show ?case
    using Suc.IH [of "req\<lparr>pr_cursor := pg_next_cursor (ring_page req r)\<rparr>"] Suc.prems ring_page_rest(1)
    by (auto simp: Let_def split: if_splits)
qed simp

lemma walk_complete:
  assumes "ring_inv r" "0 < pr_max_events req" "pr_max_bytes req \<le> usize_max"
    and "\<forall>e \<in> set (ring_events r). encoded_len e \<le> pr_max_bytes req"
    and "length (filter (after_cursor req) (in_order (pr_direction req) r)) \<le> fuel"
  shows "concat (map pg_events (walk fuel req r)) = filter (after_cursor req) (in_order (pr_direction req) r)"
  using assms(2-)
proof (induction fuel arbitrary: req)
  case (Suc fuel)
  let ?rest = "filter (after_cursor req) (in_order (pr_direction req) r)" and ?p = "pg_events (ring_page req r)"
  show ?case
  proof (cases "?p = []")
    case True
    have "?rest = []"
    proof (rule ccontr)
      assume ne: "?rest \<noteq> []"
      then have "hd ?rest \<in> set (ring_events r)"
        using list.set_sel(1) [OF ne] by (auto simp: in_order_def split: page_direction.splits)
      then show False
        using take_fit_progress [OF Suc.prems(1) ne] Suc.prems(3) True ring_page_events [OF Suc.prems(2)] by auto
    qed
    with True show ?thesis by (simp add: Let_def)
  next
    case False
    let ?req = "req\<lparr>pr_cursor := pg_next_cursor (ring_page req r)\<rparr>"
    note split = after_page [OF assms(1) Suc.prems(2) False]
    have "length ?rest = length ?p + length (filter (after_cursor ?req) (in_order (pr_direction ?req) r))"
      using arg_cong [OF split, of length] by simp
    moreover have "1 \<le> length ?p" using False by (cases ?p) simp_all
    ultimately have "length (filter (after_cursor ?req) (in_order (pr_direction ?req) r)) \<le> fuel"
      using Suc.prems(4) by linarith
    then have "concat (map pg_events (walk fuel ?req r)) = filter (after_cursor ?req) (in_order (pr_direction ?req) r)"
      using Suc.IH [of ?req] Suc.prems by simp
    then show ?thesis using False split by (simp add: Let_def)
  qed
qed simp

subsection \<open>Properties\<close>

fun accepted :: "ring \<Rightarrow> prepared_event list \<Rightarrow> prepared_event list" where
  "accepted r [] = []"
| "accepted r (e # es) =
     (if fst (ring_insert e r) = Inserted then e # accepted (snd (ring_insert e r)) es
      else accepted (snd (ring_insert e r)) es)"

lemma exec_keeps_newest:
  assumes "ring_inv r" "ring_events r = newest (byte_budget r) old"
  shows "ring_events (exec (\<lambda>r e. snd (ring_insert e r)) r es) = newest (byte_budget r) (old @ accepted r es)
    \<and> byte_budget (exec (\<lambda>r e. snd (ring_insert e r)) r es) = byte_budget r"
  using assms
proof (induction es arbitrary: r old)
  case (Cons e es)
  let ?r = "snd (ring_insert e r)"
  show ?case
  proof (cases "fst (ring_insert e r) = Inserted")
    case True
    note acc = ring_insert_accepts [OF Cons.prems(1) True]
    have "ring_events ?r = newest (byte_budget ?r) (old @ [e])" "byte_budget ?r = byte_budget r"
      using acc Cons.prems(2) newest_snoc [of "byte_budget r" old e] by simp_all
    then show ?thesis using Cons.IH [OF ring_insert_inv [OF Cons.prems(1)], of e "old @ [e]"] True by simp
  next
    case False
    then show ?thesis using Cons ring_insert_refuses [OF Cons.prems(1) False] by simp
  qed
qed simp

text \<open>
  C36. The ring refines a list of everything it accepted: after any insertions into a ring of some
  byte budget, it holds exactly the longest suffix of the accepted events that fits the budget, in
  strictly increasing sequence order, and its byte counter is the size of what it holds.
\<close>

theorem ring_holds_newest:
  assumes "ring_with_byte_budget budget = Ok r0"
    and r_def: "r = exec (\<lambda>r e. snd (ring_insert e r)) r0 es"
  shows "ring_events r = newest budget (accepted r0 es)
    \<and> sorted_wrt (\<lambda>a b. pe_sequence a < pe_sequence b) (ring_events r)
    \<and> retained_bytes r = total_bytes (ring_events r) \<and> retained_bytes r \<le> budget"
proof -
  have r0: "ring_inv r0" "byte_budget r0 = budget" "ring_events r0 = []"
    using ring_with_budget_inv [OF assms(1)] by simp_all
  have "ring_inv r" unfolding r_def by (rule ring_machine.inv_exec [OF r0(1)])
  moreover have "ring_events r = newest budget (accepted r0 es) \<and> byte_budget r = budget"
    using exec_keeps_newest [of r0 "[]" es] r0 by (simp add: r_def)
  ultimately show ?thesis by (simp add: ring_inv_def)
qed

text \<open>
  C37. Reading page by page is complete: starting without a cursor and following the cursor of each
  page, with any limits a request may have, visits every retained event exactly once, from oldest
  to newest or the other way round, and then ends; no page exceeds its limits. Every event in the
  ring is assumed to have passed the size limit of prepared events.
\<close>

theorem ring_pages_complete:
  assumes "ring_with_byte_budget budget = Ok r0" "page_with_limits d None max_events max_bytes = Ok req"
    and "\<forall>e \<in> set es. encoded_len e \<le> MAX_PREPARED_EVENT_BYTES"
    and r_def: "r = exec (\<lambda>r e. snd (ring_insert e r)) r0 es"
  shows "concat (map pg_events (walk (Suc (length es)) req r))
      = (case d of Ascending \<Rightarrow> ring_events r | Descending \<Rightarrow> rev (ring_events r))
    \<and> (\<forall>p \<in> set (walk (Suc (length es)) req r). length (pg_events p) \<le> max_events
          \<and> pg_encoded_bytes p = total_bytes (pg_events p) \<and> pg_encoded_bytes p \<le> max_bytes)"
proof -
  have r0: "ring_inv r0" "byte_budget r0 = budget" "ring_events r0 = []"
    using ring_with_budget_inv [OF assms(1)] by simp_all
  have inv: "ring_inv r" unfolding r_def by (rule ring_machine.inv_exec [OF r0(1)])
  have req: "pr_direction req = d" "pr_cursor req = None" "pr_max_events req = max_events" "0 < max_events"
    "pr_max_bytes req = max_bytes" "max_bytes \<le> usize_max" "MAX_PREPARED_EVENT_BYTES \<le> max_bytes"
    using assms(2) by (auto simp: page_with_limits_def MAX_PAGE_BYTES_def usize_max_def split: if_splits)
  have events: "ring_events r = newest budget (accepted r0 es)"
    using exec_keeps_newest [of r0 "[]" es] r0 by (simp add: r_def)
  have acc: "set (accepted r0 es) \<subseteq> set es \<and> length (accepted r0 es) \<le> length es" for r0
    by (induction es arbitrary: r0) (auto simp: le_SucI)
  obtain old where old: "accepted r0 es = old @ ring_events r"
    using newest_suffix [of "accepted r0 es" budget] unfolding events by blast
  have sub: "set (ring_events r) \<subseteq> set es" and len: "length (ring_events r) \<le> length es"
    using acc [of r0] unfolding old by auto
  have all: "filter (after_cursor req) (in_order d r) = in_order d r"
    by (simp add: after_cursor_def req)
  have "length (in_order d r) = length (ring_events r)"
    by (cases d) (simp_all add: in_order_def)
  then have "concat (map pg_events (walk (Suc (length es)) req r)) = in_order d r"
    using walk_complete [OF inv, of req "Suc (length es)"] req all sub len assms(3) by force
  moreover have "length (pg_events p) \<le> max_events \<and> pg_encoded_bytes p = total_bytes (pg_events p)
      \<and> pg_encoded_bytes p \<le> max_bytes" if "p \<in> set (walk (Suc (length es)) req r)" for p
    using walk_page_bounds [OF that] req by simp
  ultimately show ?thesis unfolding in_order_def by blast
qed

definition demo_event :: "u64 \<Rightarrow> prepared_event" where
  "demo_event n = \<lparr>pe_sequence = n, pe_event_id = ''id'', pe_encoded = ''{}''\<rparr>"

definition demo_ring :: ring where
  "demo_ring = \<lparr>byte_budget = 16384, retained_bytes = 0, last_sequence = None, ring_events = []\<rparr>"

lemma demo_ring_new: "ring_with_byte_budget 16384 = Ok demo_ring"
  by (simp add: ring_with_byte_budget_def demo_ring_def MAX_PREPARED_EVENT_BYTES_def MAX_RING_BYTES_def)

lemma demo_inserts:
  "exec (\<lambda>r e. snd (ring_insert e r)) demo_ring [demo_event 1, demo_event 1, demo_event 2]
     = demo_ring\<lparr>retained_bytes := 4, last_sequence := Some 2, ring_events := [demo_event 1, demo_event 2]\<rparr>"
  "accepted demo_ring [demo_event 1, demo_event 1, demo_event 2] = [demo_event 1, demo_event 2]"
  by (simp_all add: ring_insert_def demo_ring_def demo_event_def encoded_len_def usize_max_def usize_sat_add_def
      word_le_nat_alt)

theorem ring_holds_newest_witness:
  "newest 16384 [demo_event 1, demo_event 2] = [demo_event 1, demo_event 2]"
  using ring_holds_newest [OF demo_ring_new demo_inserts(1) [symmetric]] by (simp add: demo_inserts(2))

theorem ring_pages_complete_witness:
  "\<exists>req. page_with_limits Descending None 1 16384 = Ok req
     \<and> concat (map pg_events (walk 4 req
          (demo_ring\<lparr>retained_bytes := 4, last_sequence := Some 2, ring_events := [demo_event 1, demo_event 2]\<rparr>)))
       = [demo_event 2, demo_event 1]"
proof -
  have req: "page_with_limits Descending None 1 16384
      = Ok \<lparr>pr_direction = Descending, pr_cursor = None, pr_max_events = 1, pr_max_bytes = 16384\<rparr>"
    by (simp add: page_with_limits_def MAX_PAGE_EVENTS_def MAX_PREPARED_EVENT_BYTES_def MAX_PAGE_BYTES_def)
  have "\<forall>e \<in> set [demo_event 1, demo_event 1, demo_event 2]. encoded_len e \<le> MAX_PREPARED_EVENT_BYTES"
    by (simp add: demo_event_def encoded_len_def MAX_PREPARED_EVENT_BYTES_def)
  note main = conjunct1 [OF ring_pages_complete [OF demo_ring_new req this demo_inserts(1) [symmetric]]]
  have "Suc (length [demo_event 1, demo_event 1, demo_event 2]) = 4" by simp
  note main [unfolded this]
  then show ?thesis using req by (simp del: walk.simps)
qed

end
