(* ===== verification/Canonical.thy ===== *)
theory Canonical
  imports Ordered_Map Rust_Str
begin

text \<open>
  The canonical vocabulary of the protocol layer, \<open>crates/wokcore-protocols/src/canonical\<close>:
  gateway errors, token usage and response events, over JSON values as \<open>serde_json\<close> has them.
  An object keeps its keys in increasing order, as the \<open>BTreeMap\<close> behind \<open>serde_json::Map\<close>
  does. Serialising a value to text is third-party code: where it matters, the definitions take
  it as a parameter.
\<close>

subsection \<open>JSON values\<close>

text \<open>A float is represented by its 64 bits, a negative integer by its two's complement.\<close>

datatype json_number = PosInt u64 | NegInt u64 | Float u64

datatype json =
    JNull
  | JBool bool
  | JNumber json_number
  | JString string
  | JArray "json list"
  | JObject "(string \<times> json) list"

text \<open>
  \<open>json!({..})\<close>, \<open>Map::from_iter\<close> and \<open>to_value\<close> of a struct: the fields in order, where a later
  field with the same key replaces an earlier one.
\<close>

definition json_object :: "(string \<times> json) list \<Rightarrow> json" where
  "json_object kvs = JObject (bt_collect kvs)"

definition json_option :: "json option \<Rightarrow> json" where
  "json_option v = (case v of None \<Rightarrow> JNull | Some j \<Rightarrow> j)"

definition json_u64 :: "u64 \<Rightarrow> json" where
  "json_u64 n = JNumber (PosInt n)"

definition json_usize :: "nat \<Rightarrow> json" where
  "json_usize n = JNumber (PosInt (of_nat n))"

fun json_as_object :: "json \<Rightarrow> (string \<times> json) list option" where
  "json_as_object (JObject m) = Some m"
| "json_as_object _ = None"

fun json_get :: "string \<Rightarrow> json \<Rightarrow> json option" where
  "json_get k (JObject m) = bt_get m k"
| "json_get k _ = None"

lemma json_get_object [simp]: "json_get k (json_object kvs) = map_of (rev kvs) k"
  using bt.get_collect [of "[]" kvs k] bt.wf_empty
  by (simp add: json_object_def bt_collect_def bt.get_empty split: option.split)

lemma json_option_Some [simp]: "json_option (Some v) = v"
  by (simp add: json_option_def)

lemma length_bt_insert_new: "bt_get m k = None \<Longrightarrow> length (bt_insert k v m) = Suc (length m)"
  by (induction k v m rule: bt_insert.induct) (auto simp: bt_get_def split: if_splits)

subsection \<open>Gateway errors\<close>

datatype error_kind =
    EkInvalidRequest
  | EkModelNotFound
  | EkUnsupportedCapability
  | EkNoExecutor
  | EkUpstreamAuth
  | EkRateLimited "u64 option"
  | EkUpstreamError u16
  | EkUpstreamUnavailable
  | EkInternalError

record gateway_error =
  ge_kind :: error_kind
  ge_diagnostic :: "string option"

definition gateway_error_new :: "error_kind \<Rightarrow> gateway_error" where
  "gateway_error_new k = \<lparr>ge_kind = k, ge_diagnostic = None\<rparr>"

definition with_diagnostic :: "error_kind \<Rightarrow> string \<Rightarrow> gateway_error" where
  "with_diagnostic k d = \<lparr>ge_kind = k, ge_diagnostic = Some d\<rparr>"

definition invalid_request :: gateway_error where
  "invalid_request = gateway_error_new EkInvalidRequest"

definition unknown_model :: gateway_error where
  "unknown_model = gateway_error_new EkModelNotFound"

definition no_executor :: gateway_error where
  "no_executor = gateway_error_new EkNoExecutor"

definition internal_error :: "string \<Rightarrow> gateway_error" where
  "internal_error d = with_diagnostic EkInternalError d"

definition unsupported_capability :: gateway_error where
  "unsupported_capability = gateway_error_new EkUnsupportedCapability"

definition upstream_auth :: "string \<Rightarrow> gateway_error" where
  "upstream_auth d = with_diagnostic EkUpstreamAuth d"

definition rate_limited :: "u64 option \<Rightarrow> gateway_error" where
  "rate_limited s = gateway_error_new (EkRateLimited s)"

definition upstream_5xx :: "u16 \<Rightarrow> gateway_error" where
  "upstream_5xx status = gateway_error_new (EkUpstreamError status)"

definition upstream_response :: "u16 \<Rightarrow> string \<Rightarrow> gateway_error" where
  "upstream_response status d = with_diagnostic (EkUpstreamError status) d"

definition transport_error :: "string \<Rightarrow> gateway_error" where
  "transport_error d = with_diagnostic EkUpstreamUnavailable d"

definition ge_code :: "gateway_error \<Rightarrow> string" where
  "ge_code e =
     (case ge_kind e of
        EkInvalidRequest \<Rightarrow> ''invalid_request''
      | EkModelNotFound \<Rightarrow> ''model_not_found''
      | EkUnsupportedCapability \<Rightarrow> ''unsupported_capability''
      | EkNoExecutor \<Rightarrow> ''no_executor''
      | EkUpstreamAuth \<Rightarrow> ''upstream_auth''
      | EkRateLimited _ \<Rightarrow> ''rate_limited''
      | EkUpstreamError _ \<Rightarrow> ''upstream_error''
      | EkUpstreamUnavailable \<Rightarrow> ''upstream_unavailable''
      | EkInternalError \<Rightarrow> ''internal_error'')"

definition public_message :: "gateway_error \<Rightarrow> string" where
  "public_message e =
     (case ge_kind e of
        EkInvalidRequest \<Rightarrow> ''The request is invalid.''
      | EkModelNotFound \<Rightarrow> ''The requested model is not available.''
      | EkUnsupportedCapability \<Rightarrow> ''The requested capability is not supported.''
      | EkNoExecutor \<Rightarrow> ''No executor is configured for the requested operation.''
      | EkUpstreamAuth \<Rightarrow> ''The upstream account needs to be authenticated again.''
      | EkRateLimited _ \<Rightarrow> ''The request was rate limited.''
      | EkUpstreamError _ \<Rightarrow> ''The upstream service failed.''
      | EkUpstreamUnavailable \<Rightarrow> ''The upstream service is unavailable.''
      | EkInternalError \<Rightarrow> ''An internal gateway error occurred.'')"

text \<open>What a client is told depends on the kind alone, never on the diagnostic text.\<close>

lemma ge_code_kind: "ge_kind e = ge_kind e' \<Longrightarrow> ge_code e = ge_code e'"
  by (simp add: ge_code_def)

lemma public_message_kind: "ge_kind e = ge_kind e' \<Longrightarrow> public_message e = public_message e'"
  by (simp add: public_message_def)

text \<open>Results of the codecs: a gateway error, or the panic of an index out of range.\<close>

type_synonym 'a codec_result = "gateway_error failure + 'a"

abbreviation bad_request :: "'a codec_result" where
  "bad_request \<equiv> Err (Fail invalid_request)"

lemma and_then_eq_Err: "and_then r f = Err e \<longleftrightarrow> r = Err e \<or> (\<exists>a. r = Ok a \<and> f a = Err e)"
  by (cases r) auto

lemma try_for_each_no_panic:
  "(\<And>x. x \<in> set xs \<Longrightarrow> f x \<noteq> Err Panic) \<Longrightarrow> try_for_each f xs \<noteq> Err Panic"
  unfolding try_for_each_def by (induction xs) (auto simp: and_then_eq_Err)

subsection \<open>Usage and events\<close>

record usage =
  us_input_tokens :: u64
  us_output_tokens :: u64
  us_cached_input_tokens :: "u64 option"
  us_reasoning_tokens :: "u64 option"
  us_extensions :: "(string, json) btree"

datatype canonical_event =
    Created (ev_response_id: string)
  | OutputTextDelta (ev_item_id: string) (ev_delta: string)
  | ReasoningDelta (ev_item_id: string) (ev_delta: string)
  | ToolCallDelta (ev_item_id: string) (ev_call_id: string) (ev_name: string) (ev_delta: string)
  | UsageEvent (ev_usage: usage)
  | Completed
  | Failed (ev_error: gateway_error)

end
