(* ===== verification/Upstream.thy ===== *)
theory Upstream
  imports Canonical Str_Ops
begin

text \<open>
  What an upstream executor hands to the data plane, from
  \<open>crates/wokcore-server/src/data_plane/execute.rs\<close>: failures, complete responses and streams with
  their metadata, and the bounds that the constructors enforce. The bounds are on serialised JSON,
  counted by \<open>BoundedByteCounter\<close>; \<open>to_vec\<close> is the serialiser. The length of serialised JSON does not
  depend on the order of the fields, so a serialised \<open>struct\<close> is the object of its fields.
\<close>

subsection \<open>Bounds on serialised values\<close>

definition MAX_UPSTREAM_REQUEST_ID_BYTES :: nat where
  "MAX_UPSTREAM_REQUEST_ID_BYTES = 256"

definition MAX_UPSTREAM_EVENTS :: nat where
  "MAX_UPSTREAM_EVENTS = 4096"

definition MAX_UPSTREAM_METADATA_BYTES :: nat where
  "MAX_UPSTREAM_METADATA_BYTES = 1024 * 1024"

definition MAX_UPSTREAM_IDENTIFIER_BYTES :: nat where
  "MAX_UPSTREAM_IDENTIFIER_BYTES = 512"

record bounded_byte_counter =
  bc_length :: nat
  bc_limit :: nat

definition counter_new :: "nat \<Rightarrow> bounded_byte_counter" where
  "counter_new limit = \<lparr>bc_length = 0, bc_limit = limit\<rparr>"

definition counter_write :: "string \<Rightarrow> bounded_byte_counter \<Rightarrow> unit + bounded_byte_counter" where
  "counter_write bytes c =
     (let n = bc_length c + length bytes
      in if usize_max < n then Err () else if bc_limit c < n then Err () else Ok (c\<lparr>bc_length := n\<rparr>))"

definition json_fits :: "(json \<Rightarrow> string) \<Rightarrow> json \<Rightarrow> nat \<Rightarrow> bool" where
  "json_fits to_vec v limit = is_ok (counter_write (to_vec v) (counter_new limit))"

text \<open>The answer does not depend on how the serialiser splits its output into writes.\<close>

lemma counter_writes:
  "bc_length c \<le> bc_limit c \<Longrightarrow> bc_limit c \<le> usize_max \<Longrightarrow>
   try_fold counter_write chunks c
     = (if bc_length c + length (concat chunks) \<le> bc_limit c
        then Ok (c\<lparr>bc_length := bc_length c + length (concat chunks)\<rparr>) else Err ())"
proof (induction chunks arbitrary: c)
  case (Cons ch chunks)
  show ?case
  proof (cases "bc_length c + length ch \<le> bc_limit c")
    case True
    then have "counter_write ch c = Ok (c\<lparr>bc_length := bc_length c + length ch\<rparr>)"
      using Cons.prems by (simp add: counter_write_def Let_def)
    with True Cons.IH [of "c\<lparr>bc_length := bc_length c + length ch\<rparr>"] Cons.prems show ?thesis
      by (simp add: add.assoc)
  qed (simp add: counter_write_def Let_def)
qed simp

lemma json_fits_iff: "limit \<le> usize_max \<Longrightarrow> json_fits to_vec v limit \<longleftrightarrow> length (to_vec v) \<le> limit"
  by (auto simp: json_fits_def counter_write_def counter_new_def Let_def)

lemma json_fits_writes:
  assumes "limit \<le> usize_max" "concat chunks = to_vec v"
  shows "json_fits to_vec v limit \<longleftrightarrow> is_ok (try_fold counter_write chunks (counter_new limit))"
  using counter_writes [of "counter_new limit" chunks] assms json_fits_iff [OF assms(1), of to_vec v]
  by (simp add: counter_new_def)

subsection \<open>Serialised errors and events\<close>

definition error_kind_fields :: "error_kind \<Rightarrow> (string \<times> json) list" where
  "error_kind_fields k =
     (case k of
        EkInvalidRequest \<Rightarrow> [(''type'', JString ''invalid_request'')]
      | EkModelNotFound \<Rightarrow> [(''type'', JString ''model_not_found'')]
      | EkUnsupportedCapability \<Rightarrow> [(''type'', JString ''unsupported_capability'')]
      | EkNoExecutor \<Rightarrow> [(''type'', JString ''no_executor'')]
      | EkUpstreamAuth \<Rightarrow> [(''type'', JString ''upstream_auth'')]
      | EkRateLimited s \<Rightarrow>
          [(''type'', JString ''rate_limited''), (''retry_after_seconds'', json_option (map_option json_u64 s))]
      | EkUpstreamError status \<Rightarrow>
          [(''type'', JString ''upstream_error''), (''status'', JNumber (PosInt (ucast status)))]
      | EkUpstreamUnavailable \<Rightarrow> [(''type'', JString ''upstream_unavailable'')]
      | EkInternalError \<Rightarrow> [(''type'', JString ''internal_error'')])"

text \<open>A diagnostic is always written as \<open>[redacted]\<close>.\<close>

definition gateway_error_json :: "gateway_error \<Rightarrow> json" where
  "gateway_error_json e =
     json_object (error_kind_fields (ge_kind e)
       @ (case ge_diagnostic e of None \<Rightarrow> [] | Some _ \<Rightarrow> [(''diagnostic'', JString ''[redacted]'')]))"

definition usage_json :: "usage \<Rightarrow> json" where
  "usage_json u =
     json_object
       [(''input_tokens'', json_u64 (us_input_tokens u)), (''output_tokens'', json_u64 (us_output_tokens u)),
        (''cached_input_tokens'', json_option (map_option json_u64 (us_cached_input_tokens u))),
        (''reasoning_tokens'', json_option (map_option json_u64 (us_reasoning_tokens u))),
        (''extensions'', JObject (us_extensions u))]"

definition tagged :: "string \<Rightarrow> json \<Rightarrow> json" where
  "tagged kind payload = json_object [(''type'', JString kind), (''data'', payload)]"

definition event_json :: "canonical_event \<Rightarrow> json" where
  "event_json ev =
     (case ev of
        Created response_id \<Rightarrow> tagged ''created'' (json_object [(''response_id'', JString response_id)])
      | OutputTextDelta i d \<Rightarrow>
          tagged ''output_text_delta'' (json_object [(''item_id'', JString i), (''delta'', JString d)])
      | ReasoningDelta i d \<Rightarrow>
          tagged ''reasoning_delta'' (json_object [(''item_id'', JString i), (''delta'', JString d)])
      | ToolCallDelta i k n d \<Rightarrow>
          tagged ''tool_call_delta'' (json_object
            [(''item_id'', JString i), (''call_id'', JString k), (''name'', JString n), (''delta'', JString d)])
      | UsageEvent u \<Rightarrow> tagged ''usage'' (usage_json u)
      | Completed \<Rightarrow> json_object [(''type'', JString ''completed'')]
      | Failed e \<Rightarrow> tagged ''failed'' (gateway_error_json e))"

text \<open>Two errors that differ only in their diagnostic text are serialised alike.\<close>

lemma gateway_error_json_redacted:
  assumes "ge_kind e = ge_kind e'" "ge_diagnostic e = None \<longleftrightarrow> ge_diagnostic e' = None"
  shows "gateway_error_json e = gateway_error_json e'"
  using assms by (auto simp: gateway_error_json_def split: option.split)

subsection \<open>Failures\<close>

datatype upstream_failure_kind =
    UfTimeout | UfCancelled | UfMalformedResponse | UfRateLimited | UfServer | UfReset
  | UfInvalidCredentials | UfInvalidRequest | UfPolicy | UfTransport

record upstream_execution_failure =
  uf_kind :: upstream_failure_kind
  uf_status :: "u16 option"
  uf_retry_after_ms :: "u64 option"
  uf_upstream_request_id :: "string option"

definition failure_new :: "upstream_failure_kind \<Rightarrow> upstream_execution_failure" where
  "failure_new kind = \<lparr>uf_kind = kind, uf_status = None, uf_retry_after_ms = None, uf_upstream_request_id = None\<rparr>"

definition failure_with_status :: "u16 \<Rightarrow> upstream_execution_failure \<Rightarrow> upstream_execution_failure" where
  "failure_with_status status f = f\<lparr>uf_status := (if 100 \<le> status \<and> status \<le> 599 then Some status else None)\<rparr>"

datatype upstream_stream_item = ItemEvent canonical_event | ItemFailure upstream_execution_failure


subsection \<open>Identifiers of upstream requests\<close>

definition safe_upstream_request_id_new :: "string \<Rightarrow> unit + string" where
  "safe_upstream_request_id_new value =
     (if value = [] \<or> MAX_UPSTREAM_REQUEST_ID_BYTES < length value
         \<or> \<not> list_all (\<lambda>b. is_ascii_alphanumeric b \<or> b \<in> {CHR ''-'', CHR ''_'', CHR ''.''}) value
      then Err () else Ok value)"

subsection \<open>Complete responses\<close>

datatype upstream_finish_reason =
    UpStop | UpLength | UpToolCalls | UpContentFilter | UpFunctionCall | UpPauseTurn | UpRefusal
  | UpModelContextWindowExceeded

datatype upstream_execution_output = OutputEvents "canonical_event list" | OutputTokenCount u64

record upstream_execution_response =
  ur_output :: upstream_execution_output
  ur_created_at :: u64
  ur_finish_reason :: upstream_finish_reason
  ur_stop_sequence :: "string option"
  ur_thinking_signatures :: "(string, string) btree"
  ur_upstream_request_id :: "string option"

definition response_new :: "upstream_execution_output \<Rightarrow> u64 \<Rightarrow> upstream_execution_response" where
  "response_new out created_at =
     \<lparr>ur_output = out, ur_created_at = created_at, ur_finish_reason = UpStop, ur_stop_sequence = None,
      ur_thinking_signatures = [], ur_upstream_request_id = None\<rparr>"

fun is_created :: "canonical_event \<Rightarrow> bool" where
  "is_created (Created _) = True"
| "is_created _ = False"

fun is_usage :: "canonical_event \<Rightarrow> bool" where
  "is_usage (UsageEvent _) = True"
| "is_usage _ = False"

fun is_failed :: "canonical_event \<Rightarrow> bool" where
  "is_failed (Failed _) = True"
| "is_failed _ = False"

definition response_events ::
  "(json \<Rightarrow> string) \<Rightarrow> nat \<Rightarrow> canonical_event list \<Rightarrow> u64 \<Rightarrow> unit + upstream_execution_response" where
  "response_events to_vec json_body_limit events created_at =
     (if MAX_UPSTREAM_EVENTS < length events
         \<or> \<not> (case events of ev # _ \<Rightarrow> is_created ev | [] \<Rightarrow> False)
         \<or> \<not> (events \<noteq> [] \<and> last events = Completed)
         \<or> length (filter is_created events) \<noteq> 1
         \<or> length (filter is_usage events) \<noteq> 1
         \<or> length (filter (\<lambda>ev. ev = Completed) events) \<noteq> 1
         \<or> list_ex is_failed events
         \<or> \<not> json_fits to_vec (JArray (map event_json events)) json_body_limit
      then Err () else Ok (response_new (OutputEvents events) created_at))"

definition response_token_count :: "u64 \<Rightarrow> upstream_execution_response" where
  "response_token_count input_tokens = response_new (OutputTokenCount input_tokens) 0"

definition response_with_stop_sequence ::
  "(json \<Rightarrow> string) \<Rightarrow> string \<Rightarrow> upstream_execution_response \<Rightarrow> unit + upstream_execution_response" where
  "response_with_stop_sequence to_vec stop_sequence r =
     (if \<not> json_fits to_vec (JString stop_sequence) MAX_UPSTREAM_METADATA_BYTES then Err ()
      else Ok (r\<lparr>ur_stop_sequence := Some stop_sequence\<rparr>))"

definition string_map_json :: "(string, string) btree \<Rightarrow> json" where
  "string_map_json m = JObject (map (\<lambda>(k, v). (k, JString v)) m)"

definition response_with_thinking_signatures ::
  "(json \<Rightarrow> string) \<Rightarrow> (string, string) btree \<Rightarrow> upstream_execution_response \<Rightarrow> unit + upstream_execution_response" where
  "response_with_thinking_signatures to_vec sigs r =
     (if MAX_UPSTREAM_EVENTS < length sigs \<or> \<not> json_fits to_vec (string_map_json sigs) MAX_UPSTREAM_METADATA_BYTES
      then Err () else Ok (r\<lparr>ur_thinking_signatures := sigs\<rparr>))"

subsection \<open>Streams\<close>

text \<open>
  The metadata of an \<open>UpstreamExecutionStream\<close>; its receiver is the queue of the streamed response.
\<close>

record upstream_execution_stream =
  ux_created_at :: u64
  ux_finish_reason :: upstream_finish_reason
  ux_stop_sequence :: "string option"
  ux_thinking_signatures :: "(string, string) btree"
  ux_initial_usage :: usage
  ux_upstream_request_id :: "string option"

definition usage_zero :: usage where
  "usage_zero =
     \<lparr>us_input_tokens = 0, us_output_tokens = 0, us_cached_input_tokens = None, us_reasoning_tokens = None,
      us_extensions = []\<rparr>"

definition stream_channel :: "u64 \<Rightarrow> upstream_execution_stream" where
  "stream_channel created_at =
     \<lparr>ux_created_at = created_at, ux_finish_reason = UpStop, ux_stop_sequence = None,
      ux_thinking_signatures = [], ux_initial_usage = usage_zero, ux_upstream_request_id = None\<rparr>"

definition valid_stream_identifier :: "string \<Rightarrow> bool" where
  "valid_stream_identifier v = (v \<noteq> [] \<and> length v \<le> MAX_UPSTREAM_IDENTIFIER_BYTES)"

definition stream_with_stop_sequence :: "string \<Rightarrow> upstream_execution_stream \<Rightarrow> unit + upstream_execution_stream" where
  "stream_with_stop_sequence stop_sequence st =
     (if \<not> valid_stream_identifier stop_sequence then Err () else Ok (st\<lparr>ux_stop_sequence := Some stop_sequence\<rparr>))"

definition stream_with_thinking_signatures ::
  "(json \<Rightarrow> string) \<Rightarrow> (string, string) btree \<Rightarrow> upstream_execution_stream \<Rightarrow> unit + upstream_execution_stream" where
  "stream_with_thinking_signatures to_vec sigs st =
     (if MAX_UPSTREAM_EVENTS < length sigs
         \<or> list_ex (\<lambda>(item_id, signature). \<not> valid_stream_identifier item_id \<or> signature = []
              \<or> MAX_UPSTREAM_METADATA_BYTES < length signature) sigs
         \<or> \<not> json_fits to_vec (string_map_json sigs) MAX_UPSTREAM_METADATA_BYTES
      then Err () else Ok (st\<lparr>ux_thinking_signatures := sigs\<rparr>))"

definition stream_with_initial_usage ::
  "(json \<Rightarrow> string) \<Rightarrow> usage \<Rightarrow> upstream_execution_stream \<Rightarrow> unit + upstream_execution_stream" where
  "stream_with_initial_usage to_vec u st =
     (if \<not> json_fits to_vec (usage_json u) MAX_UPSTREAM_METADATA_BYTES then Err ()
      else Ok (st\<lparr>ux_initial_usage := u\<rparr>))"

text \<open>The ways an executor can build the metadata of a stream.\<close>

datatype stream_build =
    WithFinishReason upstream_finish_reason
  | WithStopSequence string
  | WithThinkingSignatures "(string, string) btree"
  | WithInitialUsage usage
  | WithUpstreamRequestId string

fun stream_build_step ::
  "(json \<Rightarrow> string) \<Rightarrow> stream_build \<Rightarrow> upstream_execution_stream \<Rightarrow> unit + upstream_execution_stream" where
  "stream_build_step to_vec (WithFinishReason reason) st = Ok (st\<lparr>ux_finish_reason := reason\<rparr>)"
| "stream_build_step to_vec (WithStopSequence s) st = stream_with_stop_sequence s st"
| "stream_build_step to_vec (WithThinkingSignatures sigs) st = stream_with_thinking_signatures to_vec sigs st"
| "stream_build_step to_vec (WithInitialUsage u) st = stream_with_initial_usage to_vec u st"
| "stream_build_step to_vec (WithUpstreamRequestId i) st = Ok (st\<lparr>ux_upstream_request_id := Some i\<rparr>)"

definition build_stream ::
  "(json \<Rightarrow> string) \<Rightarrow> u64 \<Rightarrow> stream_build list \<Rightarrow> unit + upstream_execution_stream" where
  "build_stream to_vec created_at bs = try_fold (stream_build_step to_vec) bs (stream_channel created_at)"

definition stream_event_fits :: "(json \<Rightarrow> string) \<Rightarrow> canonical_event \<Rightarrow> bool" where
  "stream_event_fits to_vec ev =
     ((case ev of
         Created response_id \<Rightarrow> valid_stream_identifier response_id
       | OutputTextDelta i _ \<Rightarrow> valid_stream_identifier i
       | ReasoningDelta i _ \<Rightarrow> valid_stream_identifier i
       | ToolCallDelta i k n _ \<Rightarrow> valid_stream_identifier i \<and> valid_stream_identifier k \<and> valid_stream_identifier n
       | UsageEvent _ \<Rightarrow> True
       | Completed \<Rightarrow> True
       | Failed _ \<Rightarrow> False)
      \<and> json_fits to_vec (event_json ev) MAX_UPSTREAM_METADATA_BYTES)"

text \<open>What every stream that was built satisfies.\<close>

definition valid_signature :: "string \<times> string \<Rightarrow> bool" where
  "valid_signature p =
     (valid_stream_identifier (fst p) \<and> snd p \<noteq> [] \<and> length (snd p) \<le> MAX_UPSTREAM_METADATA_BYTES)"

lemma valid_signatures:
  "list_ex (\<lambda>(item_id, signature). valid_stream_identifier item_id \<longrightarrow> signature = []
      \<or> MAX_UPSTREAM_METADATA_BYTES < length signature) sigs
   \<longleftrightarrow> \<not> list_all valid_signature sigs"
  by (induction sigs) (auto simp: valid_signature_def)

definition stream_meta_ok :: "(json \<Rightarrow> string) \<Rightarrow> upstream_execution_stream \<Rightarrow> bool" where
  "stream_meta_ok to_vec st =
     ((\<forall>s. ux_stop_sequence st = Some s \<longrightarrow> valid_stream_identifier s)
      \<and> length (ux_thinking_signatures st) \<le> MAX_UPSTREAM_EVENTS
      \<and> list_all valid_signature (ux_thinking_signatures st)
      \<and> (ux_initial_usage st = usage_zero \<or> json_fits to_vec (usage_json (ux_initial_usage st)) MAX_UPSTREAM_METADATA_BYTES))"

lemma build_stream_ok:
  assumes "build_stream to_vec created_at bs = Ok st"
  shows "stream_meta_ok to_vec st"
proof (rule try_fold_inv [where P = "stream_meta_ok to_vec"])
  show "try_fold (stream_build_step to_vec) bs (stream_channel created_at) = Ok st"
    using assms by (simp add: build_stream_def)
  show "stream_meta_ok to_vec (stream_channel created_at)" by (simp add: stream_meta_ok_def stream_channel_def)
  show "stream_meta_ok to_vec t'" if "stream_meta_ok to_vec t" "stream_build_step to_vec b t = Ok t'" for b t t'
    using that
    by (cases b)
       (auto simp: stream_meta_ok_def stream_with_stop_sequence_def stream_with_thinking_signatures_def
         stream_with_initial_usage_def valid_signatures split: if_splits)
qed

end
