(* ===== verification/Client_Stream.thy ===== *)
theory Client_Stream
  imports Upstream
begin

text \<open>
  The streamed response of the data plane, \<open>CanonicalSseStream\<close> of
  \<open>crates/wokcore-server/src/data_plane/stream.rs\<close>: it polls the upstream channel, hands every event
  to the codec of the client's protocol and turns failures into one last frame. The codec is an
  argument \<open>encode\<close> of the definitions; the locale \<open>client_codec\<close> says what the stream relies on,
  and every client protocol gives an interpretation of it.

  The receiver of the channel is its queue and whether every sender is gone. \<open>PollDiverges\<close> is a
  loop that would poll the closed channel for ever, \<open>PollPanic\<close> a panic of the codec.
\<close>

subsection \<open>Definitions\<close>

datatype stream_runtime_outcome = OutCompleted | OutProtocolError | OutUpstreamError | OutCancelled

text \<open>\<open>so_recorded\<close> is the counter that \<open>finish\<close> has increased.\<close>

record stream_observation =
  so_frames :: u64
  so_bytes :: u64
  so_finished :: bool
  so_recorded :: "stream_runtime_outcome option"

definition observe_frame :: "nat \<Rightarrow> stream_observation \<Rightarrow> stream_observation" where
  "observe_frame n ob =
     ob\<lparr>so_frames := sat_add (so_frames ob) 1,
        so_bytes := sat_add (so_bytes ob) (if n < 2 ^ 64 then of_nat n else - 1)\<rparr>"

definition observation_finish :: "stream_runtime_outcome \<Rightarrow> stream_observation \<Rightarrow> stream_observation" where
  "observation_finish outcome ob =
     (if so_finished ob then ob else ob\<lparr>so_finished := True, so_recorded := Some outcome\<rparr>)"

definition map_stream_failure :: "upstream_execution_failure \<Rightarrow> gateway_error" where
  "map_stream_failure f =
     (case uf_kind f of
        UfTimeout \<Rightarrow> transport_error ''upstream stream transport''
      | UfCancelled \<Rightarrow> transport_error ''upstream stream transport''
      | UfReset \<Rightarrow> transport_error ''upstream stream transport''
      | UfTransport \<Rightarrow> transport_error ''upstream stream transport''
      | UfMalformedResponse \<Rightarrow>
          upstream_response (case uf_status f of None \<Rightarrow> 502 | Some n \<Rightarrow> n) ''malformed stream''
      | UfRateLimited \<Rightarrow> rate_limited (map_option (\<lambda>delay. delay div 1000) (uf_retry_after_ms f))
      | UfServer \<Rightarrow>
          upstream_5xx (case uf_status f of None \<Rightarrow> 500 | Some n \<Rightarrow> if 500 \<le> n \<and> n \<le> 599 then n else 500)
      | UfInvalidCredentials \<Rightarrow> upstream_auth ''upstream authentication''
      | UfInvalidRequest \<Rightarrow> invalid_request
      | UfPolicy \<Rightarrow> unsupported_capability)"

record 'c canonical_sse_stream =
  cs_first_event :: "canonical_event option"
  cs_queue :: "upstream_stream_item list"
  cs_closed :: bool
  cs_codec :: 'c
  cs_cancelled :: bool
  cs_observation :: stream_observation
  cs_finished :: bool
  cs_protocol_error_sent :: bool

type_synonym 'c client_encoder = "canonical_event \<Rightarrow> 'c \<Rightarrow> string codec_result \<times> 'c"

datatype emitted = Panicked | Emitted "string option"

definition stream_finish :: "stream_runtime_outcome \<Rightarrow> 'c canonical_sse_stream \<Rightarrow> 'c canonical_sse_stream" where
  "stream_finish outcome s =
     (if cs_finished s then s
      else s\<lparr>cs_finished := True, cs_cancelled := True,
             cs_observation := observation_finish outcome (cs_observation s)\<rparr>)"

definition observe_bytes :: "string \<Rightarrow> 'c canonical_sse_stream \<Rightarrow> 'c canonical_sse_stream" where
  "observe_bytes bytes s =
     (if bytes \<noteq> [] then s\<lparr>cs_observation := observe_frame (length bytes) (cs_observation s)\<rparr> else s)"

definition emit_error ::
  "'c client_encoder \<Rightarrow> gateway_error \<Rightarrow> stream_runtime_outcome \<Rightarrow> 'c canonical_sse_stream
    \<Rightarrow> emitted \<times> 'c canonical_sse_stream" where
  "emit_error encode error outcome s =
     (if cs_finished s \<or> cs_protocol_error_sent s then (Emitted None, s)
      else case encode (Failed error) (cs_codec s) of
          (Inl Panic, c) \<Rightarrow> (Panicked, s\<lparr>cs_protocol_error_sent := True, cs_codec := c\<rparr>)
        | (Inl (Fail _), c) \<Rightarrow>
            (Emitted None, stream_finish outcome (s\<lparr>cs_protocol_error_sent := True, cs_codec := c\<rparr>))
        | (Inr bytes, c) \<Rightarrow>
            (Emitted (if bytes \<noteq> [] then Some bytes else None),
             stream_finish outcome (observe_bytes bytes (s\<lparr>cs_protocol_error_sent := True, cs_codec := c\<rparr>))))"

definition emit_protocol_error ::
  "'c client_encoder \<Rightarrow> 'c canonical_sse_stream \<Rightarrow> emitted \<times> 'c canonical_sse_stream" where
  "emit_protocol_error encode s =
     emit_error encode (upstream_response 502 ''malformed upstream stream'') OutProtocolError s"

definition emit_upstream_failure ::
  "'c client_encoder \<Rightarrow> upstream_execution_failure \<Rightarrow> 'c canonical_sse_stream
    \<Rightarrow> emitted \<times> 'c canonical_sse_stream" where
  "emit_upstream_failure encode f s =
     emit_error encode (map_stream_failure f)
       (if uf_kind f = UfMalformedResponse then OutProtocolError
        else if uf_kind f = UfCancelled then OutCancelled
        else OutUpstreamError) s"

definition event_outcome :: "canonical_event \<Rightarrow> stream_runtime_outcome option" where
  "event_outcome ev =
     (case ev of Completed \<Rightarrow> Some OutCompleted | Failed _ \<Rightarrow> Some OutUpstreamError | _ \<Rightarrow> None)"

definition stream_encode_event ::
  "'c client_encoder \<Rightarrow> canonical_event \<Rightarrow> 'c canonical_sse_stream \<Rightarrow> emitted \<times> 'c canonical_sse_stream" where
  "stream_encode_event encode ev s =
     (case encode ev (cs_codec s) of
        (Inl Panic, c) \<Rightarrow> (Panicked, s\<lparr>cs_codec := c\<rparr>)
      | (Inl (Fail _), c) \<Rightarrow> emit_protocol_error encode (s\<lparr>cs_codec := c\<rparr>)
      | (Inr bytes, c) \<Rightarrow>
          let s1 = observe_bytes bytes (s\<lparr>cs_codec := c\<rparr>)
          in (Emitted (if bytes \<noteq> [] then Some bytes else None),
              case event_outcome ev of None \<Rightarrow> s1 | Some outcome \<Rightarrow> stream_finish outcome s1))"

definition handle_item ::
  "'c client_encoder \<Rightarrow> upstream_stream_item \<Rightarrow> 'c canonical_sse_stream \<Rightarrow> emitted \<times> 'c canonical_sse_stream" where
  "handle_item encode item s =
     (case item of
        ItemEvent ev \<Rightarrow> stream_encode_event encode ev s
      | ItemFailure f \<Rightarrow> emit_upstream_failure encode f s)"

datatype poll = PollPending | PollReady "string option" | PollPanic | PollDiverges

text \<open>The loop of \<open>poll_next\<close> over the queue, once the first event has been taken.\<close>

fun poll_items ::
  "'c client_encoder \<Rightarrow> upstream_stream_item list \<Rightarrow> 'c canonical_sse_stream \<Rightarrow> poll \<times> 'c canonical_sse_stream" where
  "poll_items encode [] s =
     (if \<not> cs_closed s then (PollPending, s\<lparr>cs_queue := []\<rparr>)
      else case emit_protocol_error encode (s\<lparr>cs_queue := []\<rparr>) of
          (Panicked, s') \<Rightarrow> (PollPanic, s')
        | (Emitted encoded, s') \<Rightarrow>
            (if cs_finished s' \<or> encoded \<noteq> None then PollReady encoded else PollDiverges, s'))"
| "poll_items encode (item # q) s =
     (case handle_item encode item (s\<lparr>cs_queue := q\<rparr>) of
        (Panicked, s') \<Rightarrow> (PollPanic, s')
      | (Emitted encoded, s') \<Rightarrow>
          if cs_finished s' \<or> encoded \<noteq> None then (PollReady encoded, s') else poll_items encode q s')"

definition poll_next ::
  "'c client_encoder \<Rightarrow> 'c canonical_sse_stream \<Rightarrow> poll \<times> 'c canonical_sse_stream" where
  "poll_next encode s =
     (if cs_finished s then (PollReady None, s)
      else if cs_cancelled s then (PollReady None, stream_finish OutCancelled s)
      else case cs_first_event s of
          None \<Rightarrow> poll_items encode (cs_queue s) s
        | Some ev \<Rightarrow>
            (case handle_item encode (ItemEvent ev) (s\<lparr>cs_first_event := None\<rparr>) of
               (Panicked, s') \<Rightarrow> (PollPanic, s')
             | (Emitted encoded, s') \<Rightarrow>
                 if cs_finished s' \<or> encoded \<noteq> None then (PollReady encoded, s')
                 else poll_items encode (cs_queue s') s'))"

text \<open>The body that \<open>encode\<close> builds around the first event.\<close>

definition stream_start :: "'c \<Rightarrow> canonical_event \<Rightarrow> 'c canonical_sse_stream" where
  "stream_start c first =
     \<lparr>cs_first_event = Some first, cs_queue = [], cs_closed = False, cs_codec = c, cs_cancelled = False,
      cs_observation = \<lparr>so_frames = 0, so_bytes = 0, so_finished = False, so_recorded = None\<rparr>,
      cs_finished = False, cs_protocol_error_sent = False\<rparr>"

subsection \<open>Runs of a stream\<close>

text \<open>
  What can happen to a stream: the upstream delivers an item or drops its sender, the request is
  cancelled from outside, or the connection polls for bytes.
\<close>

datatype stream_input = Arrive upstream_stream_item | CloseSender | CancelRequest | PollOnce

fun run_client ::
  "'c client_encoder \<Rightarrow> stream_input list \<Rightarrow> 'c canonical_sse_stream \<Rightarrow> poll list \<times> 'c canonical_sse_stream" where
  "run_client encode [] s = ([], s)"
| "run_client encode (Arrive item # ins) s =
     run_client encode ins (if cs_closed s then s else s\<lparr>cs_queue := cs_queue s @ [item]\<rparr>)"
| "run_client encode (CloseSender # ins) s = run_client encode ins (s\<lparr>cs_closed := True\<rparr>)"
| "run_client encode (CancelRequest # ins) s = run_client encode ins (s\<lparr>cs_cancelled := True\<rparr>)"
| "run_client encode (PollOnce # ins) s =
     (case poll_next encode s of (p, s1) \<Rightarrow>
        (case run_client encode ins s1 of (ps, s2) \<Rightarrow> (p # ps, s2)))"

definition emitted_bytes :: "string option \<Rightarrow> string" where
  "emitted_bytes e = (case e of None \<Rightarrow> [] | Some b \<Rightarrow> b)"

definition poll_bytes :: "poll \<Rightarrow> string" where
  "poll_bytes p = (case p of PollReady e \<Rightarrow> emitted_bytes e | _ \<Rightarrow> [])"

definition sent :: "poll list \<Rightarrow> string" where
  "sent ps = concat (map poll_bytes ps)"

lemma poll_bytes_simps [simp]:
  "poll_bytes PollPending = []" "poll_bytes (PollReady None) = []" "poll_bytes (PollReady (Some b)) = b"
  by (simp_all add: poll_bytes_def emitted_bytes_def)

lemma sent_simps [simp]: "sent [] = []" "sent (p # ps) = poll_bytes p @ sent ps"
  by (simp_all add: sent_def)

lemma run_finished_silent:
  "cs_finished s \<Longrightarrow> sent (fst (run_client encode ins s)) = []"
  by (induction encode ins s rule: run_client.induct)
     (auto simp: poll_next_def split: prod.splits)

fun arrived :: "stream_input \<Rightarrow> canonical_event list" where
  "arrived (Arrive (ItemEvent ev)) = [ev]"
| "arrived _ = []"

text \<open>Encoding a list of events that are all accepted.\<close>

fun feed :: "'c client_encoder \<Rightarrow> canonical_event list \<Rightarrow> 'c \<Rightarrow> string codec_result \<times> 'c" where
  "feed encode [] c = (Ok [], c)"
| "feed encode (ev # evs) c =
     st_then (encode ev c) (\<lambda>b c1. st_then (feed encode evs c1) (\<lambda>bs c2. (Ok (b @ bs), c2)))"

text \<open>The last event ends the response.\<close>

definition ends :: "canonical_event list \<Rightarrow> bool" where
  "ends evs = (evs \<noteq> [] \<and> event_outcome (last evs) \<noteq> None)"

lemma ends_Cons: "ends (ev # evs) \<Longrightarrow> event_outcome ev = None \<Longrightarrow> ends evs"
  by (auto simp: ends_def split: if_splits)

text \<open>
  What the stream relies on in a codec. \<open>good out c\<close> says that \<open>out\<close> is what codec \<open>c\<close> has produced
  so far and that it can go on; after an event it has refused, a codec is \<open>stuck\<close> and can only
  report the failure. \<open>closed\<close> output is a complete response.
\<close>

locale client_codec =
  fixes encode :: "'c client_encoder"
    and good :: "string \<Rightarrow> 'c \<Rightarrow> bool"
    and stuck :: "string \<Rightarrow> 'c \<Rightarrow> bool"
    and closed :: "string \<Rightarrow> bool"
  assumes good_no_panic: "good out c \<Longrightarrow> fst (encode ev c) \<noteq> Err Panic"
    and good_refused: "good out c \<Longrightarrow> encode ev c = (Err e, c') \<Longrightarrow> stuck out c'"
    and good_open: "good out c \<Longrightarrow> encode ev c = (Ok b, c') \<Longrightarrow> event_outcome ev = None \<Longrightarrow> good (out @ b) c'"
    and good_close: "good out c \<Longrightarrow> encode ev c = (Ok b, c') \<Longrightarrow> event_outcome ev \<noteq> None \<Longrightarrow> b \<noteq> [] \<and> closed (out @ b)"
    and good_over: "good out c \<Longrightarrow> encode ev c = (Ok b, c') \<Longrightarrow> event_outcome ev \<noteq> None \<Longrightarrow> \<not> is_ok (fst (encode ev' c'))"
    and good_stuck: "good out c \<Longrightarrow> stuck out c"
    and stuck_failed: "stuck out c \<Longrightarrow> \<exists>b c'. encode (Failed error) c = (Ok b, c') \<and> b \<noteq> [] \<and> closed (out @ b)"
begin

definition open_stream :: "string \<Rightarrow> 'c canonical_sse_stream \<Rightarrow> bool" where
  "open_stream out s = (\<not> cs_finished s \<and> good out (cs_codec s) \<and> \<not> cs_protocol_error_sent s)"

lemma open_stream_irrelevant [simp]:
  "open_stream out (s\<lparr>cs_queue := q\<rparr>) = open_stream out s"
  "open_stream out (s\<lparr>cs_closed := b\<rparr>) = open_stream out s"
  "open_stream out (s\<lparr>cs_first_event := f\<rparr>) = open_stream out s"
  "open_stream out (s\<lparr>cs_cancelled := b\<rparr>) = open_stream out s"
  by (simp_all add: open_stream_def)

text \<open>One step that emits: it completes the response, or the stream stays open.\<close>

definition good_step :: "string \<Rightarrow> 'c canonical_sse_stream \<Rightarrow> emitted \<times> 'c canonical_sse_stream \<Rightarrow> bool" where
  "good_step out s p =
     (\<exists>e s'. p = (Emitted e, s') \<and> cs_queue s' = cs_queue s \<and> cs_closed s' = cs_closed s
        \<and> cs_first_event s' = cs_first_event s
        \<and> (if cs_finished s' then e \<noteq> None \<and> closed (out @ emitted_bytes e)
           else open_stream (out @ emitted_bytes e) s' \<and> cs_cancelled s' = cs_cancelled s))"

lemma good_step_irrelevant [simp]: "good_step out (s\<lparr>cs_codec := c\<rparr>) p = good_step out s p"
  by (simp add: good_step_def)

lemma emit_error_good:
  assumes "\<not> cs_finished s" "stuck out (cs_codec s)" "\<not> cs_protocol_error_sent s"
  shows "good_step out s (emit_error encode error outcome s)"
    and "cs_finished (snd (emit_error encode error outcome s))"
proof -
  obtain b c where "encode (Failed error) (cs_codec s) = (Ok b, c)" "b \<noteq> []" "closed (out @ b)"
    using stuck_failed [OF assms(2)] by blast
  then show "good_step out s (emit_error encode error outcome s)"
    "cs_finished (snd (emit_error encode error outcome s))"
    using assms
    by (simp_all add: emit_error_def good_step_def stream_finish_def observe_bytes_def emitted_bytes_def)
qed

lemma handle_item_good:
  assumes "open_stream out s"
  shows "good_step out s (handle_item encode item s)"
proof -
  from assms have open_s: "\<not> cs_finished s" "good out (cs_codec s)" "\<not> cs_protocol_error_sent s"
    by (simp_all add: open_stream_def)
  show ?thesis
  proof (cases item)
    case (ItemFailure f)
    then show ?thesis
      using emit_error_good(1) [OF open_s(1) good_stuck [OF open_s(2)] open_s(3)]
      by (simp add: handle_item_def emit_upstream_failure_def)
  next
    case (ItemEvent ev)
    obtain r c where r: "encode ev (cs_codec s) = (r, c)" by (cases "encode ev (cs_codec s)")
    show ?thesis
    proof (cases r)
      case (Inl e)
      then obtain x where e: "e = Fail x" using good_no_panic [OF open_s(2), of ev] r by (cases e) auto
      have "stuck out c" using good_refused [OF open_s(2)] r Inl by simp
      then have "good_step out (s\<lparr>cs_codec := c\<rparr>) (emit_protocol_error encode (s\<lparr>cs_codec := c\<rparr>))"
        unfolding emit_protocol_error_def using open_s by (intro emit_error_good) simp_all
      then show ?thesis
        using r Inl e by (simp add: ItemEvent handle_item_def stream_encode_event_def)
    next
      case (Inr b)
      show ?thesis
      proof (cases "event_outcome ev")
        case None
        then have "good (out @ b) c" using good_open [OF open_s(2)] r Inr by auto
        with None show ?thesis
          using open_s r Inr
          by (auto simp: ItemEvent handle_item_def stream_encode_event_def good_step_def observe_bytes_def
              open_stream_def emitted_bytes_def Let_def)
      next
        case (Some outcome)
        then have "b \<noteq> []" "closed (out @ b)" using good_close [OF open_s(2)] r Inr by auto
        with Some show ?thesis
          using open_s r Inr
          by (simp add: ItemEvent handle_item_def stream_encode_event_def good_step_def observe_bytes_def
              stream_finish_def emitted_bytes_def Let_def)
      qed
    qed
  qed
qed

text \<open>One poll of an open stream; \<open>n\<close> bounds the items it leaves in the queue.\<close>

definition good_poll :: "nat \<Rightarrow> string \<Rightarrow> 'c canonical_sse_stream \<Rightarrow> poll \<times> 'c canonical_sse_stream \<Rightarrow> bool" where
  "good_poll n out s r =
     (fst r \<noteq> PollPanic \<and> fst r \<noteq> PollDiverges \<and> cs_closed (snd r) = cs_closed s
      \<and> cs_first_event (snd r) = None \<and> length (cs_queue (snd r)) \<le> n
      \<and> (if cs_finished (snd r) then closed (out @ poll_bytes (fst r))
         else open_stream (out @ poll_bytes (fst r)) (snd r) \<and> cs_cancelled (snd r) = cs_cancelled s))"

lemma poll_items_good:
  assumes "open_stream out s" "cs_first_event s = None"
  shows "good_poll (length q) out s (poll_items encode q s)
    \<and> (cs_closed s \<longrightarrow> cs_finished (snd (poll_items encode q s))
      \<or> length (cs_queue (snd (poll_items encode q s))) < length q)"
  using assms
proof (induction q arbitrary: s)
  case Nil
  then have open_s: "\<not> cs_finished s" "good out (cs_codec s)" "\<not> cs_protocol_error_sent s"
    by (simp_all add: open_stream_def)
  then have "stuck out (cs_codec (s\<lparr>cs_queue := []\<rparr>))" by (simp add: good_stuck)
  from emit_error_good [OF _ this, of "upstream_response 502 ''malformed upstream stream''" OutProtocolError]
  obtain e s' where
    "emit_protocol_error encode (s\<lparr>cs_queue := []\<rparr>) = (Emitted e, s')" "cs_finished s'"
    "cs_queue s' = []" "cs_closed s' = cs_closed s" "cs_first_event s' = cs_first_event s"
    "closed (out @ emitted_bytes e)"
    using open_s by (auto simp: emit_protocol_error_def good_step_def)
  then show ?case
    using Nil.prems by (auto simp: good_poll_def poll_bytes_def open_stream_def)
next
  case (Cons item q)
  have "open_stream out (s\<lparr>cs_queue := q\<rparr>)" using Cons.prems by simp
  from handle_item_good [OF this, of item] obtain e s' where
    h: "handle_item encode item (s\<lparr>cs_queue := q\<rparr>) = (Emitted e, s')"
      "cs_queue s' = q" "cs_closed s' = cs_closed s" "cs_first_event s' = None"
    and st: "if cs_finished s' then e \<noteq> None \<and> closed (out @ emitted_bytes e)
        else open_stream (out @ emitted_bytes e) s' \<and> cs_cancelled s' = cs_cancelled s"
    using Cons.prems(2) by (auto simp: good_step_def)
  show ?case
  proof (cases "cs_finished s' \<or> e \<noteq> None")
    case True
    with h st show ?thesis by (auto simp: good_poll_def poll_bytes_def)
  next
    case False
    with h st Cons.IH [of s'] show ?thesis by (auto simp: good_poll_def emitted_bytes_def)
  qed
qed

definition pending :: "'c canonical_sse_stream \<Rightarrow> nat" where
  "pending s = length (cs_queue s) + (if cs_first_event s = None then 0 else 1)"

lemma poll_next_good:
  assumes "open_stream out s" "\<not> cs_cancelled s"
  shows "good_poll (length (cs_queue s)) out s (poll_next encode s)
    \<and> (cs_closed s \<longrightarrow> cs_finished (snd (poll_next encode s)) \<or> pending (snd (poll_next encode s)) < pending s)"
proof -
  have live: "\<not> cs_finished s" using assms(1) by (simp add: open_stream_def)
  show ?thesis
  proof (cases "cs_first_event s")
    case None
    with live assms poll_items_good [OF assms(1) None, of "cs_queue s"]
    show ?thesis
      by (auto simp: poll_next_def pending_def good_poll_def)
  next
    case (Some ev)
    have "open_stream out (s\<lparr>cs_first_event := None\<rparr>)" using assms by simp
    from handle_item_good [OF this, of "ItemEvent ev"] obtain e s' where
      h: "handle_item encode (ItemEvent ev) (s\<lparr>cs_first_event := None\<rparr>) = (Emitted e, s')"
        "cs_queue s' = cs_queue s" "cs_closed s' = cs_closed s" "cs_first_event s' = None"
      and st: "if cs_finished s' then e \<noteq> None \<and> closed (out @ emitted_bytes e)
        else open_stream (out @ emitted_bytes e) s' \<and> cs_cancelled s' = cs_cancelled s"
      by (auto simp: good_step_def)
    show ?thesis
    proof (cases "cs_finished s' \<or> e \<noteq> None")
      case True
      with live assms h st Some show ?thesis
        by (auto simp: poll_next_def good_poll_def poll_bytes_def pending_def)
    next
      case False
      then have "open_stream out s'" using st by (simp add: emitted_bytes_def)
      from poll_items_good [OF this h(4), of "cs_queue s'"] False live assms h st Some show ?thesis
        by (auto simp: poll_next_def good_poll_def pending_def)
    qed
  qed
qed

lemma poll_next_finished: "cs_finished s \<Longrightarrow> poll_next encode s = (PollReady None, s)"
  by (simp add: poll_next_def)

lemma poll_next_cancelled:
  "\<not> cs_finished s \<Longrightarrow> cs_cancelled s \<Longrightarrow> poll_next encode s = (PollReady None, stream_finish OutCancelled s)"
  by (simp add: poll_next_def)

text \<open>
  The state after some inputs with the bytes sent so far; \<open>cancel\<close> says whether the request has
  been cancelled from outside.
\<close>

definition run_inv :: "bool \<Rightarrow> string \<Rightarrow> 'c canonical_sse_stream \<Rightarrow> bool" where
  "run_inv cancel out s =
     (if cs_finished s then closed out \<or> cancel \<and> (\<exists>c. good out c)
      else open_stream out s \<and> (cs_cancelled s \<longrightarrow> cancel))"

lemma run_inv_poll:
  assumes "run_inv cancel out s" "poll_next encode s = (p, s')"
  shows "run_inv cancel (out @ poll_bytes p) s'" "p \<noteq> PollPanic" "p \<noteq> PollDiverges"
proof -
  consider (fin) "cs_finished s" | (can) "\<not> cs_finished s" "cs_cancelled s"
    | (live) "\<not> cs_finished s" "\<not> cs_cancelled s" by blast
  then have "run_inv cancel (out @ poll_bytes p) s' \<and> p \<noteq> PollPanic \<and> p \<noteq> PollDiverges"
  proof cases
    case fin
    with assms show ?thesis by (auto simp: poll_next_finished)
  next
    case can
    with assms show ?thesis by (auto simp: poll_next_cancelled run_inv_def stream_finish_def open_stream_def)
  next
    case live
    with assms(1) have "open_stream out s" by (simp add: run_inv_def)
    with poll_next_good [OF this live(2)] assms(2) live show ?thesis
      by (auto simp: good_poll_def run_inv_def split: if_splits)
  qed
  then show "run_inv cancel (out @ poll_bytes p) s'" "p \<noteq> PollPanic" "p \<noteq> PollDiverges" by auto
qed

lemma run_client_inv:
  assumes "run_inv cancel out s" "run_client encode ins s = (ps, s')"
  shows "run_inv (cancel \<or> CancelRequest \<in> set ins) (out @ sent ps) s' \<and> PollPanic \<notin> set ps \<and> PollDiverges \<notin> set ps"
  using assms
proof (induction ins arbitrary: cancel out s ps)
  case (Cons i ins)
  show ?case
  proof (cases i)
    case PollOnce
    obtain p s1 where p: "poll_next encode s = (p, s1)" by (cases "poll_next encode s")
    obtain qs where q: "run_client encode ins s1 = (qs, s')" "ps = p # qs"
      using Cons.prems(2) p PollOnce by (auto split: prod.splits)
    show ?thesis
      using Cons.IH [OF run_inv_poll(1) [OF Cons.prems(1) p] q(1)] run_inv_poll(2,3) [OF Cons.prems(1) p] q(2) PollOnce
      by simp
  next
    case (Arrive item)
    have "run_inv cancel out (if cs_closed s then s else s\<lparr>cs_queue := cs_queue s @ [item]\<rparr>)"
      using Cons.prems(1) by (simp add: run_inv_def)
    from Cons.IH [OF this] Cons.prems(2) Arrive show ?thesis by simp
  next
    case CloseSender
    have "run_inv cancel out (s\<lparr>cs_closed := True\<rparr>)"
      using Cons.prems(1) by (simp add: run_inv_def)
    from Cons.IH [OF this] Cons.prems(2) CloseSender show ?thesis by simp
  next
    case CancelRequest
    have "run_inv True out (s\<lparr>cs_cancelled := True\<rparr>)"
      using Cons.prems(1) by (auto simp: run_inv_def split: if_splits)
    from Cons.IH [OF this] Cons.prems(2) CancelRequest show ?thesis by simp
  qed
qed simp

lemma run_inv_start: "good [] c \<Longrightarrow> run_inv False [] (stream_start c first)"
  by (simp add: run_inv_def stream_start_def open_stream_def)

text \<open>Once the senders are gone, every poll ends the response or uses up an item.\<close>

lemma polls_finish:
  assumes "run_inv cancel out s" "cs_closed s" "pending s < n"
  shows "cs_finished (snd (run_client encode (replicate n PollOnce) s))"
  using assms
proof (induction n arbitrary: out s)
  case (Suc n)
  obtain p s1 where p: "poll_next encode s = (p, s1)" by (cases "poll_next encode s")
  have inv: "run_inv cancel (out @ poll_bytes p) s1" using run_inv_poll(1) [OF Suc.prems(1) p] .
  have stays: "cs_finished s1 \<Longrightarrow> cs_finished (snd (run_client encode (replicate n PollOnce) s1))" for n
    by (induction n) (auto simp: poll_next_finished split: prod.splits)
  show ?case
  proof (cases "cs_finished s1")
    case True
    then show ?thesis using stays p by (simp add: case_prod_beta)
  next
    case False
    with p have "\<not> (cs_finished s \<or> cs_cancelled s)"
      by (cases "cs_finished s") (auto simp: poll_next_finished poll_next_cancelled stream_finish_def)
    then have live: "\<not> cs_finished s" "\<not> cs_cancelled s" by auto
    with Suc.prems(1) have "open_stream out s" by (simp add: run_inv_def)
    with poll_next_good [OF this live(2)] p False Suc.prems(2) have "cs_closed s1" "pending s1 < pending s"
      by (auto simp: good_poll_def)
    with Suc.IH [OF inv] Suc.prems(3) p show ?thesis by (simp add: case_prod_beta)
  qed
qed simp

text \<open>
  An upstream that only delivers events its codec accepts: nothing is lost, added or reordered
  between the events and the bytes. \<open>pre\<close> has been sent and \<open>out\<close> is to come; \<open>evs\<close> are the events
  still waiting, \<open>fut\<close> those that will arrive.
\<close>

definition waiting :: "canonical_event list \<Rightarrow> 'c canonical_sse_stream \<Rightarrow> bool" where
  "waiting evs s =
     (map ItemEvent evs = (case cs_first_event s of None \<Rightarrow> [] | Some ev \<Rightarrow> [ItemEvent ev]) @ cs_queue s)"

definition fed :: "string \<Rightarrow> canonical_event list \<Rightarrow> string \<Rightarrow> 'c canonical_sse_stream \<Rightarrow> bool" where
  "fed pre fut out s =
     (open_stream pre s \<and> \<not> cs_closed s \<and> \<not> cs_cancelled s
      \<and> (\<exists>evs c. waiting evs s \<and> feed encode (evs @ fut) (cs_codec s) = (Ok out, c) \<and> ends (evs @ fut)))"

definition fed_poll :: "string \<Rightarrow> canonical_event list \<Rightarrow> string \<Rightarrow> poll \<times> 'c canonical_sse_stream \<Rightarrow> bool" where
  "fed_poll pre fut out r =
     (if cs_finished (snd r) then poll_bytes (fst r) = out
      else (\<exists>out'. out = poll_bytes (fst r) @ out' \<and> fed (pre @ poll_bytes (fst r)) fut out' (snd r)))"

lemma handle_accepted:
  assumes "open_stream pre s" "feed encode (ev # evs) (cs_codec s) = (Ok out, c)" "ends (ev # evs)"
  obtains b s' out' where "handle_item encode (ItemEvent ev) s = (Emitted (if b \<noteq> [] then Some b else None), s')"
    "out = b @ out'" "cs_queue s' = cs_queue s" "cs_first_event s' = cs_first_event s" "cs_closed s' = cs_closed s"
    "if cs_finished s' then evs = [] \<and> out' = []
     else open_stream (pre @ b) s' \<and> cs_cancelled s' = cs_cancelled s \<and> feed encode evs (cs_codec s') = (Ok out', c)
       \<and> ends evs"
proof -
  have live: "\<not> cs_finished s" "good pre (cs_codec s)" "\<not> cs_protocol_error_sent s"
    using assms(1) by (simp_all add: open_stream_def)
  from assms(2) obtain b c1 out' where b: "encode ev (cs_codec s) = (Ok b, c1)"
    "feed encode evs c1 = (Ok out', c)" "out = b @ out'"
    by (auto simp: st_then_eq_Ok)
  show thesis
  proof (cases "event_outcome ev")
    case None
    then have "good (pre @ b) c1" using good_open [OF live(2) b(1)] by simp
    with live b None ends_Cons [OF assms(3) None] show thesis
      by (intro that [of b "observe_bytes b (s\<lparr>cs_codec := c1\<rparr>)" out'])
         (cases "b = []"; simp add: handle_item_def stream_encode_event_def observe_bytes_def open_stream_def Let_def)+
  next
    case (Some outcome)
    then have refused: "\<not> is_ok (fst (encode ev' c1))" for ev'
      using good_over [OF live(2) b(1)] by simp
    have "evs = []"
    proof (cases evs)
      case (Cons ev' evs')
      with b(2) obtain b' c2 where "encode ev' c1 = (Ok b', c2)" by (auto simp: st_then_eq_Ok)
      with refused [of ev'] show ?thesis by simp
    qed
    with that live b Some show thesis
      by (simp add: handle_item_def stream_encode_event_def observe_bytes_def stream_finish_def Let_def)
  qed
qed

lemma poll_items_fed:
  assumes "open_stream pre s" "\<not> cs_closed s" "\<not> cs_cancelled s" "cs_first_event s = None"
    and "feed encode (evs @ fut) (cs_codec s) = (Ok out, c)" "ends (evs @ fut)"
  shows "fed_poll pre fut out (poll_items encode (map ItemEvent evs) s)"
  using assms
proof (induction evs arbitrary: s out)
  case Nil
  then have "\<not> cs_finished s" by (simp add: open_stream_def)
  moreover have "fed pre fut out (s\<lparr>cs_queue := []\<rparr>)"
    using Nil by (auto simp: fed_def waiting_def)
  ultimately show ?case using Nil by (simp add: fed_poll_def)
next
  case (Cons ev evs)
  let ?s = "s\<lparr>cs_queue := map ItemEvent evs\<rparr>"
  have "open_stream pre ?s" "feed encode (ev # evs @ fut) (cs_codec ?s) = (Ok out, c)" "ends (ev # evs @ fut)"
    using Cons.prems by simp_all
  then obtain b s' out' where h: "handle_item encode (ItemEvent ev) ?s = (Emitted (if b \<noteq> [] then Some b else None), s')"
      "out = b @ out'" "cs_queue s' = map ItemEvent evs" "cs_first_event s' = None" "\<not> cs_closed s'"
    and st: "if cs_finished s' then evs @ fut = [] \<and> out' = []
       else open_stream (pre @ b) s' \<and> \<not> cs_cancelled s' \<and> feed encode (evs @ fut) (cs_codec s') = (Ok out', c)
         \<and> ends (evs @ fut)"
    by (rule handle_accepted) (use Cons.prems in auto)
  show ?case
  proof (cases "cs_finished s' \<or> b \<noteq> []")
    case True
    have "\<not> cs_finished s' \<Longrightarrow> fed (pre @ b) fut out' s'"
      using st h by (auto simp: fed_def waiting_def)
    with True h st show ?thesis by (cases "b = []") (auto simp: fed_poll_def)
  next
    case False
    with Cons.IH [of s' out'] h st show ?thesis by simp
  qed
qed

lemma poll_next_fed:
  assumes "fed pre fut out s"
  shows "fed_poll pre fut out (poll_next encode s)"
proof -
  from assms obtain evs c where s: "open_stream pre s" "\<not> cs_closed s" "\<not> cs_cancelled s" "waiting evs s"
    and f: "feed encode (evs @ fut) (cs_codec s) = (Ok out, c)" "ends (evs @ fut)" by (auto simp: fed_def)
  have live: "\<not> cs_finished s" using s(1) by (simp add: open_stream_def)
  show ?thesis
  proof (cases "cs_first_event s")
    case None
    with s poll_items_fed [OF s(1-3) None f] live show ?thesis by (simp add: poll_next_def waiting_def)
  next
    case (Some ev)
    with s(4) obtain evs' where evs: "evs = ev # evs'" "cs_queue s = map ItemEvent evs'"
      by (auto simp: waiting_def)
    let ?s = "s\<lparr>cs_first_event := None\<rparr>"
    have "open_stream pre ?s" "feed encode (ev # evs' @ fut) (cs_codec ?s) = (Ok out, c)" "ends (ev # evs' @ fut)"
      using s f evs by simp_all
    then obtain b s' out' where h: "handle_item encode (ItemEvent ev) ?s = (Emitted (if b \<noteq> [] then Some b else None), s')"
        "out = b @ out'" "cs_queue s' = map ItemEvent evs'" "cs_first_event s' = None" "\<not> cs_closed s'"
      and st: "if cs_finished s' then evs' @ fut = [] \<and> out' = []
         else open_stream (pre @ b) s' \<and> \<not> cs_cancelled s' \<and> feed encode (evs' @ fut) (cs_codec s') = (Ok out', c)
           \<and> ends (evs' @ fut)"
      by (rule handle_accepted) (use s evs in auto)
    show ?thesis
    proof (cases "cs_finished s' \<or> b \<noteq> []")
      case True
      have "\<not> cs_finished s' \<Longrightarrow> fed (pre @ b) fut out' s'"
        using st h by (auto simp: fed_def waiting_def)
      with True h st live s Some show ?thesis by (cases "b = []") (auto simp: fed_poll_def poll_next_def)
    next
      case False
      with poll_items_fed [of pre s' evs' fut out' c] h st live s Some show ?thesis
        by (simp add: poll_next_def)
    qed
  qed
qed

lemma fed_arrive:
  assumes "fed pre (ev # fut) out s"
  shows "fed pre fut out (s\<lparr>cs_queue := cs_queue s @ [ItemEvent ev]\<rparr>)"
proof -
  obtain evs c where "waiting evs s" "feed encode (evs @ ev # fut) (cs_codec s) = (Ok out, c)" "ends (evs @ ev # fut)"
    using assms by (auto simp: fed_def)
  then have "waiting (evs @ [ev]) (s\<lparr>cs_queue := cs_queue s @ [ItemEvent ev]\<rparr>)"
      "feed encode ((evs @ [ev]) @ fut) (cs_codec s) = (Ok out, c)" "ends ((evs @ [ev]) @ fut)"
    by (simp_all add: waiting_def)
  then show ?thesis using assms unfolding fed_def by auto
qed

lemma run_client_fed:
  assumes "fed pre (concat (map arrived ins)) out s" "\<forall>i \<in> set ins. i = PollOnce \<or> (\<exists>ev. i = Arrive (ItemEvent ev))"
    and "run_client encode ins s = (ps, s')" "cs_finished s'"
  shows "sent ps = out"
  using assms
proof (induction ins arbitrary: pre out s ps)
  case Nil
  then show ?case by (simp add: fed_def open_stream_def)
next
  case (Cons i ins)
  show ?case
  proof (cases "i = PollOnce")
    case True
    obtain p s1 where p: "poll_next encode s = (p, s1)" by (cases "poll_next encode s")
    obtain qs where q: "run_client encode ins s1 = (qs, s')" "ps = p # qs"
      using Cons.prems(3) p True by (auto split: prod.splits)
    have "fed_poll pre (concat (map arrived ins)) out (p, s1)"
      using poll_next_fed [of pre "concat (map arrived ins)" out s] Cons.prems(1) p True by simp
    then show ?thesis
      using Cons.IH [OF _ _ q(1) Cons.prems(4)] Cons.prems(2) q run_finished_silent [of s1 encode ins]
      by (auto simp: fed_poll_def split: if_splits)
  next
    case False
    then obtain ev where ev: "i = Arrive (ItemEvent ev)" using Cons.prems(2) by auto
    have "fed pre (concat (map arrived ins)) out (s\<lparr>cs_queue := cs_queue s @ [ItemEvent ev]\<rparr>)"
      using fed_arrive Cons.prems(1) ev by simp
    moreover have "\<not> cs_closed s" using Cons.prems(1) by (simp add: fed_def)
    ultimately show ?thesis using Cons.IH Cons.prems ev by simp
  qed
qed

text \<open>A poll takes at least one waiting item, so enough polls after the last arrival finish the stream.\<close>

lemma poll_items_uses:
  assumes "open_stream out s" "cs_first_event s = None" "q \<noteq> []"
  shows "length (cs_queue (snd (poll_items encode q s))) < length q"
proof (cases q)
  case (Cons item q')
  have "open_stream out (s\<lparr>cs_queue := q'\<rparr>)" using assms by simp
  from handle_item_good [OF this, of item] obtain e s' where
    h: "handle_item encode item (s\<lparr>cs_queue := q'\<rparr>) = (Emitted e, s')" "cs_queue s' = q'" "cs_first_event s' = None"
    and st: "if cs_finished s' then e \<noteq> None \<and> closed (out @ emitted_bytes e)
        else open_stream (out @ emitted_bytes e) s' \<and> cs_cancelled s' = cs_cancelled s"
    using assms(2) by (auto simp: good_step_def)
  show ?thesis
  proof (cases "cs_finished s' \<or> e \<noteq> None")
    case False
    with st have "open_stream (out @ emitted_bytes e) s'" by simp
    from poll_items_good [OF this h(3), of q'] False h Cons show ?thesis by (simp add: good_poll_def)
  qed (use h Cons in auto)
qed (use assms in simp)

lemma poll_next_uses:
  assumes "open_stream out s" "\<not> cs_cancelled s" "0 < pending s"
  shows "pending (snd (poll_next encode s)) < pending s"
proof -
  have good: "cs_first_event (snd (poll_next encode s)) = None" "length (cs_queue (snd (poll_next encode s))) \<le> length (cs_queue s)"
    using poll_next_good [OF assms(1,2)] by (auto simp: good_poll_def)
  show ?thesis
  proof (cases "cs_first_event s")
    case None
    with assms have "cs_queue s \<noteq> []" "\<not> cs_finished s" by (auto simp: pending_def open_stream_def)
    with None assms poll_items_uses [OF assms(1) None, of "cs_queue s"] good show ?thesis
      by (simp add: pending_def poll_next_def)
  qed (use good in \<open>simp add: pending_def\<close>)
qed

lemma poll_next_fed_pending:
  assumes "fed pre fut out s" "poll_next encode s = (p, s1)" "\<not> cs_finished s1"
  shows "\<exists>out'. fed (pre @ poll_bytes p) fut out' s1" "pending s1 \<le> pending s"
    "0 < pending s \<Longrightarrow> pending s1 < pending s"
proof -
  have op: "open_stream pre s" "\<not> cs_cancelled s" using assms(1) by (auto simp: fed_def)
  show "\<exists>out'. fed (pre @ poll_bytes p) fut out' s1"
    using poll_next_fed [OF assms(1)] assms(2,3) by (auto simp: fed_poll_def)
  show "pending s1 \<le> pending s" using poll_next_good [OF op] assms(2) by (simp add: good_poll_def pending_def)
  show "0 < pending s \<Longrightarrow> pending s1 < pending s" using poll_next_uses [OF op] assms(2) by simp
qed

lemma stays_finished: "cs_finished s \<Longrightarrow> cs_finished (snd (run_client encode ins s))"
  by (induction encode ins s rule: run_client.induct) (auto simp: poll_next_def split: prod.splits)

lemma fed_polls_finish:
  assumes "fed pre [] out s" "pending s \<le> n"
  shows "cs_finished (snd (run_client encode (replicate n PollOnce) s))"
  using assms
proof (induction n arbitrary: pre out s)
  case 0
  then show ?case by (auto simp: fed_def waiting_def ends_def pending_def split: option.splits)
next
  case (Suc n)
  obtain p s1 where p: "poll_next encode s = (p, s1)" by (cases "poll_next encode s")
  show ?case
  proof (cases "cs_finished s1")
    case True
    with p stays_finished show ?thesis by (simp add: case_prod_beta)
  next
    case False
    have "0 < pending s" using Suc.prems(1)
      by (auto simp: fed_def waiting_def ends_def pending_def split: option.splits)
    then have "pending s1 \<le> n" using poll_next_fed_pending(3) [OF Suc.prems(1) p False] Suc.prems(2) by simp
    moreover obtain out' where "fed (pre @ poll_bytes p) [] out' s1"
      using poll_next_fed_pending(1) [OF Suc.prems(1) p False] by blast
    ultimately show ?thesis using Suc.IH p by (simp add: case_prod_beta)
  qed
qed

lemma run_client_fed_finishes:
  assumes "fed pre (concat (map arrived ins)) out s" "\<forall>i \<in> set ins. i = PollOnce \<or> (\<exists>ev. i = Arrive (ItemEvent ev))"
    and "pending s + length (concat (map arrived ins)) \<le> n"
  shows "cs_finished (snd (run_client encode (ins @ replicate n PollOnce) s))"
  using assms
proof (induction ins arbitrary: pre out s)
  case Nil
  then show ?case using fed_polls_finish by simp
next
  case (Cons i ins)
  show ?case
  proof (cases "i = PollOnce")
    case True
    obtain p s1 where p: "poll_next encode s = (p, s1)" by (cases "poll_next encode s")
    show ?thesis
    proof (cases "cs_finished s1")
      case True
      with p \<open>i = PollOnce\<close> stays_finished show ?thesis by (simp add: case_prod_beta)
    next
      case False
      have f: "fed pre (concat (map arrived ins)) out s" using Cons.prems(1) \<open>i = PollOnce\<close> by simp
      obtain out' where f1: "fed (pre @ poll_bytes p) (concat (map arrived ins)) out' s1"
        using poll_next_fed_pending(1) [OF f p False] by blast
      have "pending s1 + length (concat (map arrived ins)) \<le> n"
        using poll_next_fed_pending(2) [OF f p False] Cons.prems(3) \<open>i = PollOnce\<close> by simp
      from Cons.IH [OF f1 _ this] Cons.prems(2) \<open>i = PollOnce\<close> p show ?thesis by (simp add: case_prod_beta)
    qed
  next
    case False
    then obtain ev where ev: "i = Arrive (ItemEvent ev)" using Cons.prems(2) by auto
    have "fed pre (concat (map arrived ins)) out (s\<lparr>cs_queue := cs_queue s @ [ItemEvent ev]\<rparr>)"
      using fed_arrive Cons.prems(1) ev by simp
    from Cons.IH [OF this] Cons.prems(1,2,3) ev show ?thesis by (simp add: fed_def pending_def)
  qed
qed

text \<open>A fresh stream whose upstream delivers an accepted response.\<close>

lemma fed_start:
  assumes "good [] c" "feed encode (first # concat (map arrived ins)) c = (Ok out, c')"
    and "ends (first # concat (map arrived ins))"
  shows "fed [] (concat (map arrived ins)) out (stream_start c first)"
  unfolding fed_def
proof (intro conjI exI)
  show "waiting [first] (stream_start c first)" by (simp add: waiting_def stream_start_def)
  show "feed encode ([first] @ concat (map arrived ins)) (cs_codec (stream_start c first)) = (Ok out, c')"
    using assms(2) by (simp add: stream_start_def)
  show "ends ([first] @ concat (map arrived ins))" using assms(3) by simp
qed (use assms(1) in \<open>simp_all add: open_stream_def stream_start_def\<close>)

text \<open>
  The whole of it: once all events have arrived, one poll more than there are events after the first
  finishes the stream, and the bytes sent are those of the events.
\<close>

lemma run_client_complete:
  assumes "good [] c" "feed encode (first # events) c = (Ok out, c')" "ends (first # events)"
    and ins: "\<forall>i \<in> set ins. i = PollOnce \<or> (\<exists>ev. i = Arrive (ItemEvent ev))" "concat (map arrived ins) = events"
    and n: "length events < n"
    and run: "run_client encode (ins @ replicate n PollOnce) (stream_start c first) = (ps, s)"
  shows "cs_finished s \<and> sent ps = out"
proof -
  have arr: "concat (map arrived (ins @ replicate n PollOnce)) = events" using ins(2) by (simp add: concat_eq_Nil_conv)
  have f: "fed [] (concat (map arrived ins)) out (stream_start c first)"
    using assms(1-3) ins(2) by (intro fed_start) simp_all
  have "cs_finished s"
    using run_client_fed_finishes [OF f ins(1), of n] run n ins(2) by (simp add: pending_def stream_start_def)
  moreover have "fed [] (concat (map arrived (ins @ replicate n PollOnce))) out (stream_start c first)"
    using f arr ins(2) by simp
  then have "sent ps = out"
    by (rule run_client_fed [OF _ _ run \<open>cs_finished s\<close>]) (use ins(1) in \<open>auto simp: set_replicate_conv_if\<close>)
  ultimately show ?thesis by blast
qed

end

subsection \<open>The sender\<close>

lemma stream_closed_simps [simp]:
  "cs_closed (stream_finish outcome s) = cs_closed s"
  "cs_closed (observe_bytes bytes s) = cs_closed s"
  by (simp_all add: stream_finish_def observe_bytes_def)

lemma emit_error_closed [simp]: "cs_closed (snd (emit_error encode error outcome s)) = cs_closed s"
proof (cases "encode (Failed error) (cs_codec s)")
  case (Pair r c)
  then show ?thesis
  proof (cases r)
    case (Inl e)
    with Pair show ?thesis by (cases e) (simp_all add: emit_error_def)
  qed (simp add: emit_error_def)
qed

lemma handle_item_closed: "cs_closed (snd (handle_item encode item s)) = cs_closed s"
proof (cases item)
  case (ItemFailure f)
  then show ?thesis by (simp add: handle_item_def emit_upstream_failure_def)
next
  case (ItemEvent ev)
  obtain r c where r: "encode ev (cs_codec s) = (r, c)" by (cases "encode ev (cs_codec s)")
  show ?thesis
  proof (cases r)
    case (Inl e)
    with r ItemEvent show ?thesis
      by (cases e) (simp_all add: handle_item_def stream_encode_event_def emit_protocol_error_def)
  next
    case (Inr b)
    with r ItemEvent show ?thesis
      by (cases "event_outcome ev") (simp_all add: handle_item_def stream_encode_event_def Let_def)
  qed
qed

lemma poll_items_closed: "cs_closed (snd (poll_items encode q s)) = cs_closed s"
proof (induction q arbitrary: s)
  case Nil
  obtain e s' where e: "emit_protocol_error encode (s\<lparr>cs_queue := []\<rparr>) = (e, s')"
    by (cases "emit_protocol_error encode (s\<lparr>cs_queue := []\<rparr>)")
  then have "s' = snd (emit_protocol_error encode (s\<lparr>cs_queue := []\<rparr>))" by simp
  then have "cs_closed s' = cs_closed s" by (simp add: emit_protocol_error_def)
  with e show ?case by (cases e) simp_all
next
  case (Cons item q)
  obtain e s' where e: "handle_item encode item (s\<lparr>cs_queue := q\<rparr>) = (e, s')"
    by (cases "handle_item encode item (s\<lparr>cs_queue := q\<rparr>)")
  then have "s' = snd (handle_item encode item (s\<lparr>cs_queue := q\<rparr>))" by simp
  then have "cs_closed s' = cs_closed s" by (simp add: handle_item_closed)
  with e Cons.IH show ?case by (cases e) simp_all
qed

lemma poll_next_closed: "cs_closed (snd (poll_next encode s)) = cs_closed s"
proof (cases "cs_first_event s")
  case None
  then show ?thesis by (simp add: poll_items_closed poll_next_def stream_finish_def)
next
  case (Some ev)
  obtain e s' where e: "handle_item encode (ItemEvent ev) (s\<lparr>cs_first_event := None\<rparr>) = (e, s')"
    by (cases "handle_item encode (ItemEvent ev) (s\<lparr>cs_first_event := None\<rparr>)")
  then have "s' = snd (handle_item encode (ItemEvent ev) (s\<lparr>cs_first_event := None\<rparr>))" by simp
  then have "cs_closed s' = cs_closed s" by (simp add: handle_item_closed)
  with e Some show ?thesis by (cases e) (simp_all add: poll_next_def poll_items_closed)
qed

lemma run_client_closed:
  "run_client encode ins s = (ps, s') \<Longrightarrow> cs_closed s \<or> CloseSender \<in> set ins \<Longrightarrow> cs_closed s'"
proof (induction encode ins s arbitrary: ps rule: run_client.induct)
  case (5 encode ins s)
  then show ?case using poll_next_closed [of encode s] by (auto split: prod.splits)
qed (auto split: if_splits)

end
