(* ===== verification/Canonical_Request.thy ===== *)
theory Canonical_Request
  imports Canonical
begin

text \<open>
  The canonical request of the protocol layer, \<open>request.rs\<close> and \<open>content.rs\<close> of
  \<open>crates/wokcore-protocols/src/canonical\<close>, and the conversions from JSON values that the data plane
  applies to its extensions. A URL is kept as its text, an \<open>f64\<close> as its 64 bits.
\<close>

subsection \<open>Requests\<close>

datatype image_detail = DetailAuto | DetailLow | DetailHigh

datatype input_item =
    InputText string
  | InputImageUrl string "image_detail option"
  | InputToolResult string json

record tool_definition =
  td_name :: string
  td_description :: "string option"
  td_input_schema :: json
  td_extensions :: "(string, json) btree"

record reasoning_options =
  rso_effort :: "string option"
  rso_extensions :: "(string, json) btree"

record canonical_request =
  cq_request_id :: string
  cq_model :: string
  cq_thread_key :: "string option"
  cq_input :: "input_item list"
  cq_tools :: "tool_definition list"
  cq_stream :: bool
  cq_reasoning :: "reasoning_options option"
  cq_extensions :: "(string, json) btree"

definition with_extension :: "string \<Rightarrow> json \<Rightarrow> canonical_request \<Rightarrow> canonical_request" where
  "with_extension key v req = req\<lparr>cq_extensions := bt_insert key v (cq_extensions req)\<rparr>"

subsection \<open>Integers as floating point numbers\<close>

fun bit_length :: "nat \<Rightarrow> nat" where
  "bit_length n = (if n = 0 then 0 else Suc (bit_length (n div 2)))"

declare bit_length.simps [simp del]

text \<open>
  \<open>n as f64\<close>: the nearest double, ties to the even significand. A significand that rounds up to
  \<open>2 ^ 53\<close> carries into the exponent.
\<close>

definition f64_of_nat :: "nat \<Rightarrow> u64" where
  "f64_of_nat n =
     (if n = 0 then 0
      else let e = bit_length n - 1;
               m = (if e \<le> 52 then n * 2 ^ (52 - e)
                    else let k = e - 52; q = n div 2 ^ k; rest = n mod 2 ^ k
                         in if rest > 2 ^ (k - 1) \<or> rest = 2 ^ (k - 1) \<and> odd q then q + 1 else q)
           in of_nat ((e + 1022) * 2 ^ 52 + m))"

subsection \<open>Reading JSON values\<close>

definition value_as_u64 :: "json \<Rightarrow> u64 option" where
  "value_as_u64 v = (case v of JNumber (PosInt n) \<Rightarrow> Some n | _ \<Rightarrow> None)"

definition value_as_f64 :: "json \<Rightarrow> u64 option" where
  "value_as_f64 v =
     (case v of
        JNumber (PosInt n) \<Rightarrow> Some (f64_of_nat (unat n))
      | JNumber (NegInt n) \<Rightarrow> Some (2 ^ 63 + f64_of_nat (unat (- n)))
      | JNumber (Float bits) \<Rightarrow> Some bits
      | _ \<Rightarrow> None)"

definition value_as_bool :: "json \<Rightarrow> bool option" where
  "value_as_bool v = (case v of JBool b \<Rightarrow> Some b | _ \<Rightarrow> None)"

definition value_as_str :: "json \<Rightarrow> string option" where
  "value_as_str v = (case v of JString s \<Rightarrow> Some s | _ \<Rightarrow> None)"

text \<open>
  \<open>(0.0..=hi).contains(&x)\<close> for a bound \<open>hi\<close> above zero, given by its bits: the bits of doubles
  without a sign are ordered as the doubles are, and the negative zero is not below zero.
\<close>

definition f64_between_zero_and :: "u64 \<Rightarrow> u64 \<Rightarrow> bool" where
  "f64_between_zero_and hi bits = (bits \<le> hi \<or> bits = 2 ^ 63)"

definition f64_one :: u64 where "f64_one = 0x3FF0000000000000"

definition f64_two :: u64 where "f64_two = 0x4000000000000000"

lemma f64_of_small: "f64_of_nat 0 = 0" "f64_of_nat 1 = f64_one" "f64_of_nat 2 = f64_two"
  by (simp_all add: f64_of_nat_def bit_length.simps f64_one_def f64_two_def)

end
