(* ===== verification/Data_Plane.thy ===== *)
theory Data_Plane
  imports Execution Routing_Facts Client_Stream Canonical_Request
begin

text \<open>
  How the data plane executes a canonical request, \<open>crates/wokcore-server/src/data_plane/execute.rs\<close>:
  it routes the request, maps its model and reasoning effort to those of the provider, tries the
  accounts of the provider one authentication after the other with the coordinator of \<open>Execution\<close>,
  and turns the outcome into a response, a started stream or a gateway error.

  The upstream executor is a trait object, so what it returns is read from the environment, as the
  clock, the delays and other requests are for the coordinator. \<open>Err Panic\<close> is the outcome of a
  failed \<open>expect\<close> or \<open>unreachable!\<close>.
\<close>

subsection \<open>Data\<close>

datatype upstream_operation = OpText | OpCountTokens

record upstream_execution_request =
  uq_request_id :: string
  uq_attempt_ordinal :: nat
  uq_operation :: upstream_operation
  uq_provider_id :: provider_id
  uq_account_id :: account_id
  uq_adapter :: adapter_family
  uq_endpoint :: string
  uq_endpoint_access :: endpoint_access
  uq_model :: string
  uq_auth :: account_auth_config
  uq_canonical :: canonical_request

datatype upstream_execution_result =
    UpstreamSucceeded upstream_execution_response
  | UpstreamStreaming upstream_execution_stream
  | UpstreamFailed upstream_execution_failure

record started_upstream_stream =
  ss_first_event :: "canonical_event option"
  ss_upstream :: upstream_execution_stream

datatype attempt_execution_output =
    AttemptComplete upstream_execution_response
  | AttemptStream started_upstream_stream

record request_observation_context =
  ob_attempt_id :: "string option"
  ob_provider_id :: string
  ob_model :: string
  ob_input_tokens :: "u64 option"
  ob_output_tokens :: "u64 option"

record executed_response =
  xr_response :: upstream_execution_response
  xr_public_model :: string
  xr_request :: canonical_request
  xr_public_reasoning_effort :: "string option"
  xr_observation :: request_observation_context

record executed_stream =
  xs_stream :: started_upstream_stream
  xs_public_model :: string
  xs_request :: canonical_request
  xs_public_reasoning_effort :: "string option"
  xs_observation :: request_observation_context

datatype executed = ExecutedResponse executed_response | ExecutedStream executed_stream

record data_plane_execution_error =
  dpe_error :: gateway_error
  dpe_upstream_request_id :: "string option"
  dpe_observation :: "request_observation_context option"

definition ACCOUNTLESS_ACCOUNT_ID :: string where "ACCOUNTLESS_ACCOUNT_ID = ''accountless''"

definition JSON_BODY_LIMIT :: nat where "JSON_BODY_LIMIT = 16 * 1024 * 1024"

text \<open>
  What waiting for the first item of a stream returns: an item, nothing (with the cancellation flag
  read afterwards), or no answer because the coordinator has dropped the attempt.
\<close>

datatype receive_outcome = Received upstream_stream_item | ReceivedNothing bool | ReceiveDropped

text \<open>
  The environment of one request. \<open>de_execute\<close> is the executor (\<open>None\<close>: the attempt is dropped
  first); \<open>de_exec n\<close> is the coordinator's environment for the \<open>n\<close>-th authentication, its
  \<open>env_attempt\<close> apart; \<open>de_between n\<close> is what other requests do to the account table before it;
  \<open>de_dropped_id\<close> is what a dropped attempt had stored as the upstream's request id.
\<close>

record data_plane_env =
  de_execute :: "upstream_execution_request \<Rightarrow> upstream_execution_result option"
  de_receive :: "upstream_execution_request \<Rightarrow> receive_outcome"
  de_exec :: "nat \<Rightarrow> attempt_execution_output exec_env"
  de_between :: "nat \<Rightarrow> account_op list"
  de_dropped_id :: "string option option"

subsection \<open>Mapping failures\<close>

definition map_failure_kind :: "upstream_failure_kind \<Rightarrow> attempt_failure_kind" where
  "map_failure_kind k =
     (case k of
        UfTimeout \<Rightarrow> FailTimeout
      | UfCancelled \<Rightarrow> FailReset
      | UfTransport \<Rightarrow> FailReset
      | UfMalformedResponse \<Rightarrow> FailOther
      | UfRateLimited \<Rightarrow> FailRateLimited
      | UfServer \<Rightarrow> FailServer
      | UfReset \<Rightarrow> FailReset
      | UfInvalidCredentials \<Rightarrow> FailInvalidCredentials
      | UfInvalidRequest \<Rightarrow> FailInvalidRequest
      | UfPolicy \<Rightarrow> FailPolicy)"

definition failed_attempt :: "upstream_execution_failure \<Rightarrow> attempt_execution_output attempt_result" where
  "failed_attempt f =
     AttemptFailed (attempt_failure_new (map_failure_kind (uf_kind f)) (uf_status f) (uf_retry_after_ms f)) BeforeVisible"

definition map_route_error :: "route_error \<Rightarrow> gateway_error" where
  "map_route_error e =
     (case e of
        NoRoute \<Rightarrow> unknown_model
      | ProviderUnavailable \<Rightarrow> unknown_model
      | UnsupportedReasoningEffort \<Rightarrow> unsupported_capability)"

definition map_terminal :: "execution_terminal \<Rightarrow> gateway_error" where
  "map_terminal terminal =
     (case terminal of
        TerminalCancelled \<Rightarrow> transport_error ''cancelled''
      | RequestBodyTooLarge \<Rightarrow> invalid_request
      | TerminalNoEligibleAccount \<Rightarrow> transport_error ''no eligible account''
      | Upstream f _ \<Rightarrow>
          (case failure_kind f of
             FailRateLimited \<Rightarrow> rate_limited (map_option (\<lambda>delay. delay div 1000) (failure_retry_after_ms f))
           | FailServer \<Rightarrow>
               upstream_5xx (case failure_status_code f of
                   None \<Rightarrow> 500 | Some n \<Rightarrow> if 500 \<le> n \<and> n \<le> 599 then n else 500)
           | FailTimeout \<Rightarrow> transport_error ''upstream transport''
           | FailReset \<Rightarrow> transport_error ''upstream transport''
           | FailInvalidCredentials \<Rightarrow> upstream_auth ''upstream authentication''
           | FailInvalidRequest \<Rightarrow> invalid_request
           | FailPolicy \<Rightarrow> unsupported_capability
           | FailOther \<Rightarrow>
               upstream_response (case failure_status_code f of None \<Rightarrow> 502 | Some n \<Rightarrow> n) ''malformed upstream response''))"

definition execution_error :: "gateway_error \<Rightarrow> string option \<Rightarrow> data_plane_execution_error" where
  "execution_error e request_id = \<lparr>dpe_error = e, dpe_upstream_request_id = request_id, dpe_observation = None\<rparr>"

definition execution_error_with_observation ::
  "gateway_error \<Rightarrow> string option \<Rightarrow> request_observation_context \<Rightarrow> data_plane_execution_error" where
  "execution_error_with_observation e request_id observation =
     \<lparr>dpe_error = e, dpe_upstream_request_id = request_id, dpe_observation = Some observation\<rparr>"

subsection \<open>One attempt\<close>

definition attempt_auth :: "route_decision \<Rightarrow> account_id \<Rightarrow> account_auth_config option" where
  "attempt_auth d a =
     (case find (\<lambda>account. ra_id account = a) (rp_accounts (dec_provider d)) of
        Some account \<Rightarrow> Some (ra_auth account)
      | None \<Rightarrow>
          if rp_accounts (dec_provider d) = [] \<and> account_str a = ACCOUNTLESS_ACCOUNT_ID then Some Local else None)"

definition attempt_request ::
  "upstream_operation \<Rightarrow> route_decision \<Rightarrow> canonical_request \<Rightarrow> attempt_context \<Rightarrow> account_auth_config
     \<Rightarrow> upstream_execution_request" where
  "attempt_request op d canonical ctx auth =
     \<lparr>uq_request_id = (case ctx_request_id ctx of ExecutionRequestId v \<Rightarrow> v),
      uq_attempt_ordinal = attempt_ordinal (ctx_attempt_id ctx), uq_operation = op,
      uq_provider_id = ctx_provider_id ctx, uq_account_id = ctx_account_id ctx,
      uq_adapter = rp_adapter (dec_provider d), uq_endpoint = rp_endpoint (dec_provider d),
      uq_endpoint_access = rp_endpoint_access (dec_provider d), uq_model = ctx_model ctx, uq_auth = auth,
      uq_canonical = canonical\<rparr>"

text \<open>
  \<open>RequestAttempt::execute\<close>: its result, \<open>None\<close> when it is dropped, and what it stores as the
  upstream's request id, if it stores anything.
\<close>

definition request_attempt ::
  "data_plane_env \<Rightarrow> upstream_operation \<Rightarrow> route_decision \<Rightarrow> canonical_request \<Rightarrow> attempt_context
     \<Rightarrow> attempt_execution_output attempt_result option \<times> string option option" where
  "request_attempt env op d canonical ctx =
     (case attempt_auth d (ctx_account_id ctx) of
        None \<Rightarrow> (Some (AttemptFailed (attempt_failure_new FailOther None None) BeforeVisible), None)
      | Some auth \<Rightarrow>
          let request = attempt_request op d canonical ctx auth;
              malformed = failed_attempt (failure_new UfMalformedResponse)
          in (case de_execute env request of
                None \<Rightarrow> (None, None)
              | Some (UpstreamSucceeded r) \<Rightarrow>
                  (Some (if cq_stream canonical then malformed else AttemptSucceeded (AttemptComplete r) BeforeVisible),
                   Some (ur_upstream_request_id r))
              | Some (UpstreamStreaming st) \<Rightarrow>
                  if op \<noteq> OpText \<or> \<not> cq_stream canonical then (Some malformed, Some (ux_upstream_request_id st))
                  else (case de_receive env request of
                      Received (ItemEvent ev) \<Rightarrow>
                        (Some (if is_created ev
                           then AttemptSucceeded (AttemptStream \<lparr>ss_first_event = Some ev, ss_upstream = st\<rparr>) Visible
                           else malformed),
                         Some (ux_upstream_request_id st))
                    | Received (ItemFailure f) \<Rightarrow> (Some (failed_attempt f), Some (uf_upstream_request_id f))
                    | ReceivedNothing cancelled \<Rightarrow>
                        (Some (if cancelled then failed_attempt (failure_new UfCancelled) else malformed),
                         Some (ux_upstream_request_id st))
                    | ReceiveDropped \<Rightarrow> (None, Some (ux_upstream_request_id st)))
              | Some (UpstreamFailed f) \<Rightarrow> (Some (failed_attempt f), Some (uf_upstream_request_id f))))"

subsection \<open>Observations\<close>

definition final_attempt_id :: "attempt_history \<Rightarrow> 'e failure + string option" where
  "final_attempt_id h =
     and_then (expect (history_iter h)) (\<lambda>attempts.
       Ok (if attempts = [] then None
           else let attempt = last attempts
                in Some ((case diag_request_id attempt of ExecutionRequestId v \<Rightarrow> v) @ ''-a''
                     @ dec_string (attempt_ordinal (diag_attempt_id attempt)))))"

definition output_usage :: "attempt_execution_output \<Rightarrow> usage option" where
  "output_usage out =
     (case out of
        AttemptComplete r \<Rightarrow>
          (case ur_output r of
             OutputEvents events \<Rightarrow>
               (case [u. UsageEvent u \<leftarrow> rev events] of [] \<Rightarrow> None | u # _ \<Rightarrow> Some u)
           | OutputTokenCount _ \<Rightarrow> None)
      | AttemptStream s \<Rightarrow> Some (ux_initial_usage (ss_upstream s)))"

definition observation_of :: "route_decision \<Rightarrow> string option \<Rightarrow> usage option \<Rightarrow> request_observation_context" where
  "observation_of d attempt u =
     \<lparr>ob_attempt_id = attempt, ob_provider_id = provider_str (rp_id (dec_provider d)), ob_model = dec_model d,
      ob_input_tokens = map_option us_input_tokens u, ob_output_tokens = map_option us_output_tokens u\<rparr>"

definition request_observation ::
  "route_decision \<Rightarrow> attempt_history \<Rightarrow> attempt_execution_output \<Rightarrow> 'e failure + request_observation_context" where
  "request_observation d h out =
     and_then (final_attempt_id h) (\<lambda>attempt. Ok (observation_of d attempt (output_usage out)))"

definition request_observation_without_usage ::
  "route_decision \<Rightarrow> attempt_history \<Rightarrow> 'e failure + request_observation_context" where
  "request_observation_without_usage d h =
     and_then (final_attempt_id h) (\<lambda>attempt. Ok (observation_of d attempt None))"

subsection \<open>Outcomes\<close>

type_synonym executed_result = "data_plane_execution_error failure + executed"

definition executed_from_attempt ::
  "attempt_execution_output \<Rightarrow> string \<Rightarrow> canonical_request \<Rightarrow> string option \<Rightarrow> request_observation_context
     \<Rightarrow> executed_result" where
  "executed_from_attempt out asked_model request effort observation =
     (case (cq_stream request, out) of
        (False, AttemptComplete r) \<Rightarrow>
          Ok (ExecutedResponse \<lparr>xr_response = r, xr_public_model = asked_model, xr_request = request,
            xr_public_reasoning_effort = effort, xr_observation = observation\<rparr>)
      | (True, AttemptStream s) \<Rightarrow>
          Ok (ExecutedStream \<lparr>xs_stream = s, xs_public_model = asked_model, xs_request = request,
            xs_public_reasoning_effort = effort, xs_observation = observation\<rparr>)
      | _ \<Rightarrow> Err (Fail (execution_error (upstream_response 502 ''upstream execution mode mismatch'') None)))"

text \<open>The context of an attempt that is in the history.\<close>

definition diagnosed_context :: "execution_request \<Rightarrow> attempt_diagnostic \<Rightarrow> attempt_context" where
  "diagnosed_context req g =
     \<lparr>ctx_request_id = diag_request_id g, ctx_attempt_id = diag_attempt_id g, ctx_provider_id = diag_provider_id g,
      ctx_account_id = diag_account_id g, ctx_model = er_model req\<rparr>"

text \<open>The shared \<open>last_upstream_request_id\<close> after an execution.\<close>

definition last_upstream_request_id ::
  "data_plane_env \<Rightarrow> upstream_operation \<Rightarrow> route_decision \<Rightarrow> canonical_request \<Rightarrow> execution_request
     \<Rightarrow> execution_terminal \<Rightarrow> attempt_diagnostic list \<Rightarrow> string option" where
  "last_upstream_request_id env op d canonical req terminal attempts =
     (let completed = fold (\<lambda>g cell. case snd (request_attempt env op d canonical (diagnosed_context req g)) of
            None \<Rightarrow> cell | Some i \<Rightarrow> i) attempts None
      in if terminal = TerminalCancelled then (case de_dropped_id env of None \<Rightarrow> completed | Some i \<Rightarrow> i) else completed)"

definition run_coordinator ::
  "data_plane_env \<Rightarrow> upstream_operation \<Rightarrow> route_decision \<Rightarrow> canonical_request \<Rightarrow> retry_policy \<Rightarrow> nat
     \<Rightarrow> execution_request \<Rightarrow> account_health_table
     \<Rightarrow> attempt_execution_output execution_outcome option \<times> account_health_table" where
  "run_coordinator env op d canonical policy n req t =
     execute ((de_exec env n)\<lparr>env_attempt := (\<lambda>ctx _. fst (request_attempt env op d canonical ctx))\<rparr>) policy req t"

definition failed_execution ::
  "data_plane_env \<Rightarrow> upstream_operation \<Rightarrow> route_decision \<Rightarrow> canonical_request \<Rightarrow> execution_request
     \<Rightarrow> execution_terminal \<Rightarrow> attempt_history \<Rightarrow> executed_result" where
  "failed_execution env op d canonical req terminal h =
     and_then (expect (history_iter h)) (\<lambda>attempts.
     and_then (request_observation_without_usage d h) (\<lambda>observation.
       Err (Fail (execution_error_with_observation (map_terminal terminal)
         (last_upstream_request_id env op d canonical req terminal attempts) observation))))"

definition succeeded_execution ::
  "route_decision \<Rightarrow> canonical_request \<Rightarrow> string \<Rightarrow> string option \<Rightarrow> attempt_execution_output \<Rightarrow> attempt_history
     \<Rightarrow> executed_result" where
  "succeeded_execution d canonical asked_model effort out h =
     and_then (request_observation d h out) (executed_from_attempt out asked_model canonical effort)"

subsection \<open>Token estimates\<close>

definition image_detail_json :: "image_detail \<Rightarrow> json" where
  "image_detail_json d =
     JString (case d of DetailAuto \<Rightarrow> ''auto'' | DetailLow \<Rightarrow> ''low'' | DetailHigh \<Rightarrow> ''high'')"

definition input_item_json :: "input_item \<Rightarrow> json" where
  "input_item_json i =
     (case i of
        InputText text \<Rightarrow> json_object [(''type'', JString ''text''), (''text'', JString text)]
      | InputImageUrl url detail \<Rightarrow>
          json_object [(''type'', JString ''image_url''), (''url'', JString url),
            (''detail'', json_option (map_option image_detail_json detail))]
      | InputToolResult call_id out \<Rightarrow>
          json_object [(''type'', JString ''tool_result''), (''call_id'', JString call_id), (''output'', out)])"

definition tool_definition_json :: "tool_definition \<Rightarrow> json" where
  "tool_definition_json tool =
     json_object [(''name'', JString (td_name tool)),
       (''description'', json_option (map_option JString (td_description tool))),
       (''input_schema'', td_input_schema tool), (''extensions'', JObject (td_extensions tool))]"

definition reasoning_options_json :: "reasoning_options \<Rightarrow> json" where
  "reasoning_options_json r =
     json_object [(''effort'', json_option (map_option JString (rso_effort r))),
       (''extensions'', JObject (rso_extensions r))]"

definition canonical_request_json :: "canonical_request \<Rightarrow> json" where
  "canonical_request_json req =
     json_object [(''request_id'', JString (cq_request_id req)), (''model'', JString (cq_model req)),
       (''thread_key'', json_option (map_option JString (cq_thread_key req))),
       (''input'', JArray (map input_item_json (cq_input req))),
       (''tools'', JArray (map tool_definition_json (cq_tools req))), (''stream'', JBool (cq_stream req)),
       (''reasoning'', json_option (map_option reasoning_options_json (cq_reasoning req))),
       (''extensions'', JObject (cq_extensions req))]"

definition estimate_local_tokens :: "(json \<Rightarrow> string) \<Rightarrow> canonical_request \<Rightarrow> gateway_error + u64" where
  "estimate_local_tokens to_vec req =
     and_then (map_err (\<lambda>_. invalid_request)
        (counter_write (to_vec (canonical_request_json req)) (counter_new JSON_BODY_LIMIT))) (\<lambda>counter.
       let estimated = max ((bc_length counter + 3) div 4) 1
       in if estimated < 2 ^ 64 then Ok (of_nat estimated) else Err invalid_request)"

subsection \<open>Executing a request\<close>

text \<open>The authentications of the accounts, in the order of their first account.\<close>

definition push_new :: "'a \<Rightarrow> 'a list \<Rightarrow> 'a list" where
  "push_new x xs = (if x \<in> set xs then xs else xs @ [x])"

definition authentications_of :: "route_decision \<Rightarrow> account_authentication list" where
  "authentications_of d = fold (\<lambda>account. push_new (authentication (ra_auth account))) (rp_accounts (dec_provider d)) []"

definition group_candidates ::
  "route_decision \<Rightarrow> account_authentication \<Rightarrow> account_state_error + execution_candidate list" where
  "group_candidates d auth =
     try_map (\<lambda>account. execution_candidate_new (ra_id account) (authentication (ra_auth account)) 1)
       (filter (\<lambda>account. authentication (ra_auth account) = auth) (rp_accounts (dec_provider d)))"

definition execution_request_new ::
  "execution_request_id \<Rightarrow> route_decision \<Rightarrow> execution_candidate list \<Rightarrow> account_authentication \<Rightarrow> execution_request" where
  "execution_request_new rid d cands auth =
     \<lparr>er_request_id = rid, er_provider_id = rp_id (dec_provider d), er_model = dec_model d, er_candidates = cands,
      er_authentication = auth, er_accountless_account_id = None, er_affinity_account = None, er_body = []\<rparr>"

definition execution_request_accountless ::
  "execution_request_id \<Rightarrow> route_decision \<Rightarrow> account_id \<Rightarrow> execution_request" where
  "execution_request_accountless rid d a =
     \<lparr>er_request_id = rid, er_provider_id = rp_id (dec_provider d), er_model = dec_model d, er_candidates = [],
      er_authentication = AuthLocal, er_accountless_account_id = Some a, er_affinity_account = None, er_body = []\<rparr>"

text \<open>The loop over the authentications; \<open>n\<close> counts them for the environment.\<close>

fun execute_groups ::
  "data_plane_env \<Rightarrow> upstream_operation \<Rightarrow> route_decision \<Rightarrow> canonical_request \<Rightarrow> string \<Rightarrow> string option
     \<Rightarrow> execution_request_id \<Rightarrow> retry_policy \<Rightarrow> nat \<Rightarrow> account_authentication list \<Rightarrow> account_health_table
     \<Rightarrow> executed_result \<times> account_health_table" where
  "execute_groups env op d canonical asked_model effort rid policy n [] t =
     (Err (Fail (execution_error (transport_error ''no eligible account'') None)), t)"
| "execute_groups env op d canonical asked_model effort rid policy n (auth # auths) t =
     (case group_candidates d auth of
        Inl _ \<Rightarrow> (Err (Fail (execution_error (internal_error ''candidate'') None)), t)
      | Inr cands \<Rightarrow>
          let req = execution_request_new rid d cands auth
          in (case run_coordinator env op d canonical policy n req (exec run_account_op t (de_between env n)) of
                (None, t') \<Rightarrow> (Err Panic, t')
              | (Some (ExecutionSucceeded out _ h), t') \<Rightarrow> (succeeded_execution d canonical asked_model effort out h, t')
              | (Some (ExecutionFailed terminal h), t') \<Rightarrow>
                  if terminal = TerminalNoEligibleAccount \<and> hist_length h = 0
                  then execute_groups env op d canonical asked_model effort rid policy (Suc n) auths t'
                  else (failed_execution env op d canonical req terminal h, t')))"

definition execute_accountless ::
  "data_plane_env \<Rightarrow> upstream_operation \<Rightarrow> route_decision \<Rightarrow> canonical_request \<Rightarrow> string \<Rightarrow> string option
     \<Rightarrow> execution_request_id \<Rightarrow> retry_policy \<Rightarrow> account_health_table \<Rightarrow> executed_result \<times> account_health_table" where
  "execute_accountless env op d canonical asked_model effort rid policy t =
     (case account_id_new ACCOUNTLESS_ACCOUNT_ID of
        Inl _ \<Rightarrow> (Err Panic, t)
      | Inr a \<Rightarrow>
          let req = execution_request_accountless rid d a
          in (case run_coordinator env op d canonical policy 0 req t of
                (None, t') \<Rightarrow> (Err Panic, t')
              | (Some (ExecutionSucceeded out _ h), t') \<Rightarrow> (succeeded_execution d canonical asked_model effort out h, t')
              | (Some (ExecutionFailed terminal h), t') \<Rightarrow> (failed_execution env op d canonical req terminal h, t')))"

definition public_effort :: "canonical_request \<Rightarrow> string option" where
  "public_effort canonical = Option.bind (cq_reasoning canonical) rso_effort"

text \<open>The request as it is sent upstream: with the provider's model and reasoning effort.\<close>

definition upstream_canonical :: "route_decision \<Rightarrow> canonical_request \<Rightarrow> route_error + canonical_request" where
  "upstream_canonical d canonical =
     (let canonical1 = canonical\<lparr>cq_model := dec_model d\<rparr>
      in case public_effort canonical of
           None \<Rightarrow> Ok canonical1
         | Some effort \<Rightarrow>
             and_then (map_reasoning_effort d effort) (\<lambda>mapped.
               Ok (canonical1\<lparr>cq_reasoning := map_option (\<lambda>r. r\<lparr>rso_effort := Some mapped\<rparr>) (cq_reasoning canonical)\<rparr>)))"

definition execute_routed ::
  "data_plane_env \<Rightarrow> upstream_operation \<Rightarrow> route_decision \<Rightarrow> canonical_request \<Rightarrow> string \<Rightarrow> string option
     \<Rightarrow> execution_request_id \<Rightarrow> account_health_table \<Rightarrow> executed_result \<times> account_health_table" where
  "execute_routed env op d canonical asked_model effort rid t =
     (case retry_policy_new 1 60000 JSON_BODY_LIMIT of
        Inl _ \<Rightarrow> (Err Panic, t)
      | Inr policy \<Rightarrow>
          if authentications_of d = [] then execute_accountless env op d canonical asked_model effort rid policy t
          else execute_groups env op d canonical asked_model effort rid policy 0 (authentications_of d) t)"

text \<open>The response that needs no upstream: a token count estimated from the size of the request.\<close>

definition local_token_count ::
  "(json \<Rightarrow> string) \<Rightarrow> route_decision \<Rightarrow> canonical_request \<Rightarrow> executed_result" where
  "local_token_count to_vec d canonical =
     and_then (map_err (\<lambda>e. Fail (execution_error e None)) (estimate_local_tokens to_vec canonical)) (\<lambda>input_tokens.
       Ok (ExecutedResponse \<lparr>xr_response = response_token_count input_tokens, xr_public_model = cq_model canonical,
         xr_request = canonical, xr_public_reasoning_effort = public_effort canonical,
         xr_observation = \<lparr>ob_attempt_id = None, ob_provider_id = provider_str (rp_id (dec_provider d)),
           ob_model = dec_model d, ob_input_tokens = Some input_tokens, ob_output_tokens = Some 0\<rparr>\<rparr>))"

text \<open>
  The part of \<open>execute_canonical\<close> that follows the routing; \<open>has_executor\<close> says whether an upstream
  executor is installed.
\<close>

definition execute_decided ::
  "(json \<Rightarrow> string) \<Rightarrow> data_plane_env \<Rightarrow> bool \<Rightarrow> canonical_request \<Rightarrow> upstream_operation \<Rightarrow> execution_request_id
     \<Rightarrow> route_decision \<Rightarrow> account_health_table \<Rightarrow> executed_result \<times> account_health_table" where
  "execute_decided to_vec env has_executor canonical op rid d t =
     (if \<not> cap_text (rp_capabilities (dec_provider d))
      then (Err (Fail (execution_error unsupported_capability None)), t)
      else if op = OpCountTokens \<and> \<not> cap_count_tokens (rp_capabilities (dec_provider d))
      then (local_token_count to_vec d canonical, t)
      else if \<not> has_executor then (Err (Fail (execution_error no_executor None)), t)
      else (case upstream_canonical d canonical of
          Inl e \<Rightarrow> (Err (Fail (execution_error (map_route_error e) None)), t)
        | Inr sent_request \<Rightarrow>
            execute_routed env op d sent_request (cq_model canonical) (public_effort canonical) rid t))"

text \<open>
  \<open>providers\<close> is the execution snapshot, when providers are managed at all; the table is that of the
  snapshot.
\<close>

definition execute_canonical ::
  "(json \<Rightarrow> string) \<Rightarrow> data_plane_env \<Rightarrow> runtime_snapshot option \<Rightarrow> bool \<Rightarrow> client_id \<Rightarrow> canonical_request
     \<Rightarrow> upstream_operation \<Rightarrow> account_health_table \<Rightarrow> executed_result \<times> account_health_table" where
  "execute_canonical to_vec env providers has_executor client canonical op t =
     (case providers of
        None \<Rightarrow> (Err (Fail (execution_error no_executor None)), t)
      | Some snapshot \<Rightarrow>
          (case execution_request_id_new (cq_request_id canonical) of
             Inl _ \<Rightarrow> (Err (Fail (execution_error invalid_request None)), t)
           | Inr rid \<Rightarrow>
               (case route snapshot \<lparr>req_provider = None, req_model = cq_model canonical, req_client_id = Some client\<rparr> of
                  Inl e \<Rightarrow> (Err (Fail (execution_error (map_route_error e) None)), t)
                | Inr d \<Rightarrow> execute_decided to_vec env has_executor canonical op rid d t)))"

end
