(* ===== verification/Data_Plane_Facts.thy ===== *)
theory Data_Plane_Facts
  imports Data_Plane
begin

text \<open>
  What the data plane guarantees of the execution of a request: the executor is only asked on behalf
  of the routed provider and its accounts, the answer has the mode that was asked for, a healthy
  account is tried, and no \<open>expect\<close> fails.
\<close>

subsection \<open>The coordinator and the attempts it makes\<close>

lemma execute_loop_succeeded:
  assumes "execute_loop env policy req left h t = (Some (ExecutionSucceeded out b h'), t')"
  shows "\<exists>n a. env_attempt env (attempt_context_of req n a) (er_body req) = Some (AttemptSucceeded out b)"
  using assms
proof (induction left arbitrary: h t)
  case (Suc left)
  then show ?case
    by (auto simp: Let_def split: if_splits prod.splits option.splits attempt_result.splits)
qed simp

lemma run_coordinator_succeeded:
  assumes "run_coordinator env op d canonical policy n req t = (Some (ExecutionSucceeded out b h), t')"
  shows "\<exists>ctx. fst (request_attempt env op d canonical ctx) = Some (AttemptSucceeded out b)"
  using assms execute_loop_succeeded
  by (fastforce simp: run_coordinator_def execute_def split: if_splits)

lemma run_coordinator_recorded:
  obtains out t' ds where "run_coordinator env op d canonical policy n req t = (Some out, t')"
    "history_iter (outcome_history out) = Some ds" "attempts_of req ds" "hist_length (outcome_history out) = length ds"
    "length ds \<le> MAX_TOTAL_ATTEMPTS"
proof -
  have "outcome_recorded req (run_coordinator env op d canonical policy n req t)"
    unfolding run_coordinator_def by (rule execute_recorded)
  then obtain out t' ds where out: "run_coordinator env op d canonical policy n req t = (Some out, t')"
    "history_ok (outcome_history out) ds" "attempts_of req ds" "length ds \<le> MAX_TOTAL_ATTEMPTS"
    by (auto simp: outcome_recorded_def recorded_def)
  show thesis
    using that [OF out(1) history_ok_iter [OF out(2)] out(3)] out(2,4) by (simp add: history_ok_def)
qed

text \<open>The coordinator only looks at the attempts of its own request.\<close>

lemma execute_loop_cong:
  assumes "\<And>n a. 1 \<le> n \<Longrightarrow> n \<le> MAX_TOTAL_ATTEMPTS \<Longrightarrow>
      f (attempt_context_of req n a) (er_body req) = g (attempt_context_of req n a) (er_body req)"
    and "left \<le> MAX_TOTAL_ATTEMPTS"
  shows "execute_loop (e\<lparr>env_attempt := f\<rparr>) policy req left h t = execute_loop (e\<lparr>env_attempt := g\<rparr>) policy req left h t"
  using assms(2)
proof (induction left arbitrary: h t)
  case (Suc left)
  have "f (attempt_context_of req (MAX_TOTAL_ATTEMPTS - left) a) (er_body req)
      = g (attempt_context_of req (MAX_TOTAL_ATTEMPTS - left) a) (er_body req)" for a
    by (rule assms(1)) (use Suc.prems in \<open>simp_all add: MAX_TOTAL_ATTEMPTS_def\<close>)
  moreover have "execute_loop (e\<lparr>env_attempt := f\<rparr>) policy req left h t = execute_loop (e\<lparr>env_attempt := g\<rparr>) policy req left h t"
    for h t using Suc by simp
  ultimately show ?case by (simp add: Let_def split: prod.split option.split attempt_result.split)
qed simp

subsection \<open>The output of an attempt\<close>

definition output_ok :: "upstream_operation \<Rightarrow> canonical_request \<Rightarrow> attempt_execution_output \<Rightarrow> bool" where
  "output_ok op canonical out =
     (case out of
        AttemptComplete _ \<Rightarrow> \<not> cq_stream canonical
      | AttemptStream s \<Rightarrow> cq_stream canonical \<and> op = OpText \<and> (\<exists>i. ss_first_event s = Some (Created i)))"

lemma is_created_iff: "is_created ev \<longleftrightarrow> (\<exists>i. ev = Created i)"
  by (cases ev) simp_all

lemma request_attempt_output:
  assumes "fst (request_attempt env op d canonical ctx) = Some (AttemptSucceeded out b)"
  shows "output_ok op canonical out"
  using assms
  by (auto simp: request_attempt_def output_ok_def failed_attempt_def is_created_iff Let_def
      split: option.splits upstream_execution_result.splits receive_outcome.splits upstream_stream_item.splits if_splits)

lemma final_attempt_id_ok: "history_iter h = Some ds \<Longrightarrow> \<exists>i. final_attempt_id h = Ok i"
  by (simp add: final_attempt_id_def)

definition executed_ok :: "upstream_operation \<Rightarrow> canonical_request \<Rightarrow> string \<Rightarrow> string option \<Rightarrow> executed \<Rightarrow> bool" where
  "executed_ok op canonical asked_model effort x =
     (case x of
        ExecutedResponse r \<Rightarrow>
          \<not> cq_stream canonical \<and> xr_request r = canonical \<and> xr_public_model r = asked_model
          \<and> xr_public_reasoning_effort r = effort
      | ExecutedStream s \<Rightarrow>
          cq_stream canonical \<and> op = OpText \<and> (\<exists>i. ss_first_event (xs_stream s) = Some (Created i))
          \<and> xs_request s = canonical \<and> xs_public_model s = asked_model \<and> xs_public_reasoning_effort s = effort)"

definition result_ok :: "upstream_operation \<Rightarrow> canonical_request \<Rightarrow> string \<Rightarrow> string option \<Rightarrow> executed_result \<Rightarrow> bool" where
  "result_ok op canonical asked_model effort r =
     (case r of
        Inl Panic \<Rightarrow> False
      | Inl (Fail e) \<Rightarrow> dpe_error e \<noteq> upstream_response 502 ''upstream execution mode mismatch''
      | Inr x \<Rightarrow> executed_ok op canonical asked_model effort x)"

lemma succeeded_execution_ok:
  assumes "output_ok op canonical out" "history_iter h = Some ds"
  shows "result_ok op canonical asked_model effort (succeeded_execution d canonical asked_model effort out h)"
proof -
  obtain i where "final_attempt_id h = (Ok i :: data_plane_execution_error failure + _)"
    using final_attempt_id_ok [OF assms(2)] by blast
  with assms(1) show ?thesis
    by (cases out) (auto simp: succeeded_execution_def request_observation_def executed_from_attempt_def
        result_ok_def executed_ok_def output_ok_def)
qed

lemma map_terminal_mode: "map_terminal terminal \<noteq> upstream_response 502 ''upstream execution mode mismatch''"
  by (auto simp: map_terminal_def transport_error_def invalid_request_def rate_limited_def upstream_5xx_def upstream_auth_def
      unsupported_capability_def upstream_response_def gateway_error_new_def with_diagnostic_def
      split: execution_terminal.split attempt_failure_kind.split)

lemma failed_execution_ok:
  assumes "history_iter h = Some ds"
  shows "result_ok op canonical asked_model effort (failed_execution env op d canonical req terminal h)"
proof -
  obtain i where "final_attempt_id h = (Ok i :: data_plane_execution_error failure + _)"
    using final_attempt_id_ok [OF assms] by blast
  with assms show ?thesis
    by (simp add: failed_execution_def request_observation_without_usage_def result_ok_def
        execution_error_with_observation_def map_terminal_mode)
qed

lemma execute_groups_ok:
  "result_ok op canonical asked_model effort
     (fst (execute_groups env op d canonical asked_model effort rid policy n auths t))"
proof (induction auths arbitrary: n t)
  case Nil
  show ?case by (simp add: result_ok_def execution_error_def transport_error_def upstream_response_def with_diagnostic_def)
next
  case (Cons auth auths)
  show ?case
  proof (cases "group_candidates d auth")
    case (Inl e)
    then show ?thesis
      by (simp add: result_ok_def execution_error_def internal_error_def upstream_response_def with_diagnostic_def)
  next
    case (Inr cands)
    let ?req = "execution_request_new rid d cands auth"
    obtain out t' ds where out: "run_coordinator env op d canonical policy n ?req (exec run_account_op t (de_between env n)) = (Some out, t')"
      "history_iter (outcome_history out) = Some ds" by (rule run_coordinator_recorded)
    show ?thesis
    proof (cases out)
      case (ExecutionSucceeded v b h)
      from run_coordinator_succeeded [OF out(1) [unfolded ExecutionSucceeded]] have "output_ok op canonical v"
        using request_attempt_output by blast
      with out ExecutionSucceeded Inr show ?thesis by (simp add: succeeded_execution_ok)
    next
      case (ExecutionFailed terminal h)
      with out Inr Cons.IH show ?thesis by (simp add: failed_execution_ok Let_def)
    qed
  qed
qed

lemma execute_accountless_ok:
  "result_ok op canonical asked_model effort
     (fst (execute_accountless env op d canonical asked_model effort rid policy t))"
proof -
  have a: "account_id_new ACCOUNTLESS_ACCOUNT_ID = Ok (AccountId ACCOUNTLESS_ACCOUNT_ID)"
    by code_simp
  let ?req = "execution_request_accountless rid d (AccountId ACCOUNTLESS_ACCOUNT_ID)"
  obtain out t' ds where out: "run_coordinator env op d canonical policy 0 ?req t = (Some out, t')"
    "history_iter (outcome_history out) = Some ds" by (rule run_coordinator_recorded)
  show ?thesis
  proof (cases out)
    case (ExecutionSucceeded v b h)
    from run_coordinator_succeeded [OF out(1) [unfolded ExecutionSucceeded]] have "output_ok op canonical v"
      using request_attempt_output by blast
    with out ExecutionSucceeded a show ?thesis by (simp add: execute_accountless_def succeeded_execution_ok)
  next
    case (ExecutionFailed terminal h)
    with out a show ?thesis by (simp add: execute_accountless_def failed_execution_ok)
  qed
qed

lemma data_plane_policy: "\<exists>p. retry_policy_new 1 60000 JSON_BODY_LIMIT = Ok p"
  by (simp add: retry_policy_new_def MAX_RETRY_DELAY_MS_def MAX_RETAINED_REQUEST_BODY_BYTES_def JSON_BODY_LIMIT_def)

lemma execute_routed_ok:
  "result_ok op canonical asked_model effort (fst (execute_routed env op d canonical asked_model effort rid t))"
  using data_plane_policy
  by (auto simp: execute_routed_def execute_groups_ok execute_accountless_ok split: sum.split)

subsection \<open>What the executor is asked\<close>

text \<open>
  A request for the executor that belongs to the routed provider: its endpoint and adapter, the routed
  model, and an account of the provider with the authentication of that very account.
\<close>

definition asked_for :: "route_decision \<Rightarrow> upstream_operation \<Rightarrow> canonical_request \<Rightarrow> upstream_execution_request \<Rightarrow> bool" where
  "asked_for d op canonical q =
     (uq_provider_id q = rp_id (dec_provider d) \<and> uq_adapter q = rp_adapter (dec_provider d)
      \<and> uq_endpoint q = rp_endpoint (dec_provider d) \<and> uq_endpoint_access q = rp_endpoint_access (dec_provider d)
      \<and> uq_model q = dec_model d \<and> uq_operation q = op \<and> uq_canonical q = canonical \<and> uq_attempt_ordinal q \<in> {1, 2}
      \<and> ((\<exists>a \<in> set (rp_accounts (dec_provider d)). ra_id a = uq_account_id q \<and> ra_auth a = uq_auth q)
         \<or> rp_accounts (dec_provider d) = [] \<and> uq_auth q = Local))"

definition same_answers ::
  "route_decision \<Rightarrow> upstream_operation \<Rightarrow> canonical_request \<Rightarrow> data_plane_env \<Rightarrow> data_plane_env \<Rightarrow> bool" where
  "same_answers d op canonical env env' =
     (\<forall>q. asked_for d op canonical q \<longrightarrow> de_execute env' q = de_execute env q \<and> de_receive env' q = de_receive env q)"

definition routed_context :: "route_decision \<Rightarrow> attempt_context \<Rightarrow> bool" where
  "routed_context d ctx =
     (ctx_provider_id ctx = rp_id (dec_provider d) \<and> ctx_model ctx = dec_model d
      \<and> attempt_ordinal (ctx_attempt_id ctx) \<in> {1, 2})"

lemma attempt_request_asked:
  assumes "routed_context d ctx" "attempt_auth d (ctx_account_id ctx) = Some auth"
  shows "asked_for d op canonical (attempt_request op d canonical ctx auth)"
  using assms
  by (auto simp: asked_for_def attempt_request_def routed_context_def attempt_auth_def find_Some_iff
      split: option.splits if_splits intro: bexI [OF _ nth_mem])

lemma request_attempt_cong:
  assumes "same_answers d op canonical env env'" "routed_context d ctx"
  shows "request_attempt env' op d canonical ctx = request_attempt env op d canonical ctx"
proof (cases "attempt_auth d (ctx_account_id ctx)")
  case (Some auth)
  from attempt_request_asked [OF assms(2) Some] assms(1) have
    "de_execute env' (attempt_request op d canonical ctx auth) = de_execute env (attempt_request op d canonical ctx auth)"
    "de_receive env' (attempt_request op d canonical ctx auth) = de_receive env (attempt_request op d canonical ctx auth)"
    by (simp_all add: same_answers_def)
  note same = this
  show ?thesis unfolding request_attempt_def Some Let_def option.case same ..
qed (simp add: request_attempt_def)

definition routed_request :: "route_decision \<Rightarrow> execution_request \<Rightarrow> bool" where
  "routed_request d req = (er_provider_id req = rp_id (dec_provider d) \<and> er_model req = dec_model d)"

lemma run_coordinator_cong:
  assumes "same_answers d op canonical env env'" "de_exec env' = de_exec env" "routed_request d req"
  shows "run_coordinator env' op d canonical policy n req t = run_coordinator env op d canonical policy n req t"
proof -
  have "fst (request_attempt env' op d canonical (attempt_context_of req k a))
      = fst (request_attempt env op d canonical (attempt_context_of req k a))" if "1 \<le> k" "k \<le> MAX_TOTAL_ATTEMPTS" for k a
  proof -
    have "k = 1 \<or> k = 2" using that by (auto simp: MAX_TOTAL_ATTEMPTS_def)
    then have "routed_context d (attempt_context_of req k a)"
      using assms(3) by (auto simp: routed_context_def routed_request_def attempt_context_of_def)
    from request_attempt_cong [OF assms(1) this] show ?thesis by simp
  qed
  then show ?thesis
    unfolding run_coordinator_def execute_def assms(2) by (auto intro!: execute_loop_cong)
qed

lemma failed_execution_cong:
  assumes "same_answers d op canonical env env'" "de_dropped_id env' = de_dropped_id env" "routed_request d req"
    and "history_iter h = Some ds" "attempts_of req ds" "length ds \<le> MAX_TOTAL_ATTEMPTS"
  shows "failed_execution env' op d canonical req terminal h = failed_execution env op d canonical req terminal h"
proof -
  have "request_attempt env' op d canonical (diagnosed_context req g) = request_attempt env op d canonical (diagnosed_context req g)"
    if "g \<in> set ds" for g
  proof (rule request_attempt_cong [OF assms(1)])
    have "attempt_ordinal (diag_attempt_id g) \<in> set (map (\<lambda>d. attempt_ordinal (diag_attempt_id d)) ds)" using that by auto
    then have "attempt_ordinal (diag_attempt_id g) \<in> set [1..<Suc (length ds)]" using assms(5) unfolding attempts_of_def by metis
    then have "attempt_ordinal (diag_attempt_id g) \<in> {1, 2}" using assms(6) by (auto simp: MAX_TOTAL_ATTEMPTS_def)
    with assms(3,5) that show "routed_context d (diagnosed_context req g)"
      by (simp add: routed_context_def routed_request_def diagnosed_context_def attempts_of_def)
  qed
  then have "fold (\<lambda>g cell. case snd (request_attempt env' op d canonical (diagnosed_context req g)) of None \<Rightarrow> cell | Some i \<Rightarrow> i) ds None
      = fold (\<lambda>g cell. case snd (request_attempt env op d canonical (diagnosed_context req g)) of None \<Rightarrow> cell | Some i \<Rightarrow> i) ds None"
    by (intro fold_cong) simp_all
  then have "last_upstream_request_id env' op d canonical req terminal ds = last_upstream_request_id env op d canonical req terminal ds"
    using assms(2) by (simp add: last_upstream_request_id_def Let_def)
  then show ?thesis using assms(4) by (simp add: failed_execution_def)
qed

lemma execute_groups_cong:
  assumes "same_answers d op canonical env env'" "de_exec env' = de_exec env" "de_between env' = de_between env"
    "de_dropped_id env' = de_dropped_id env"
  shows "execute_groups env' op d canonical asked_model effort rid policy n auths t
    = execute_groups env op d canonical asked_model effort rid policy n auths t"
proof (induction auths arbitrary: n t)
  case (Cons auth auths)
  show ?case
  proof (cases "group_candidates d auth")
    case (Inr cands)
    let ?req = "execution_request_new rid d cands auth"
    have routed: "routed_request d ?req" by (simp add: routed_request_def execution_request_new_def)
    obtain out t' ds where out: "run_coordinator env op d canonical policy n ?req (exec run_account_op t (de_between env n)) = (Some out, t')"
      "history_iter (outcome_history out) = Some ds" "attempts_of ?req ds" "length ds \<le> MAX_TOTAL_ATTEMPTS"
      by (rule run_coordinator_recorded)
    note same = run_coordinator_cong [OF assms(1,2) routed] failed_execution_cong [OF assms(1,4) routed _ out(3,4)]
    show ?thesis using out(1,2) Inr assms(3) by (cases out) (simp_all add: same Cons.IH)
  qed simp
qed simp

lemma execute_accountless_cong:
  assumes "same_answers d op canonical env env'" "de_exec env' = de_exec env" "de_dropped_id env' = de_dropped_id env"
  shows "execute_accountless env' op d canonical asked_model effort rid policy t
    = execute_accountless env op d canonical asked_model effort rid policy t"
proof (cases "account_id_new ACCOUNTLESS_ACCOUNT_ID")
  case (Inr a)
  let ?req = "execution_request_accountless rid d a"
  have routed: "routed_request d ?req" by (simp add: routed_request_def execution_request_accountless_def)
  obtain out t' ds where out: "run_coordinator env op d canonical policy 0 ?req t = (Some out, t')"
    "history_iter (outcome_history out) = Some ds" "attempts_of ?req ds" "length ds \<le> MAX_TOTAL_ATTEMPTS"
    by (rule run_coordinator_recorded)
  note same = run_coordinator_cong [OF assms(1,2) routed] failed_execution_cong [OF assms(1,3) routed _ out(3,4)]
  show ?thesis using out(1,2) Inr by (cases out) (simp_all add: execute_accountless_def same)
qed (simp add: execute_accountless_def)

lemma execute_routed_cong:
  assumes "same_answers d op canonical env env'" "de_exec env' = de_exec env" "de_between env' = de_between env"
    "de_dropped_id env' = de_dropped_id env"
  shows "execute_routed env' op d canonical asked_model effort rid t = execute_routed env op d canonical asked_model effort rid t"
  by (simp add: execute_routed_def execute_groups_cong [OF assms] execute_accountless_cong [OF assms(1,2,4)] split: sum.split)

subsection \<open>A healthy account is tried\<close>

lemma group_candidates_eq:
  "group_candidates d auth =
     Ok (map (\<lambda>account. \<lparr>ec_account_id = ra_id account, ec_authentication = authentication (ra_auth account), ec_weight = 1\<rparr>)
       (filter (\<lambda>account. authentication (ra_auth account) = auth) (rp_accounts (dec_provider d))))"
proof -
  have "execution_candidate_new a auth 1 = Ok \<lparr>ec_account_id = a, ec_authentication = auth, ec_weight = 1\<rparr>" for a auth
    by (simp add: execution_candidate_new_def account_candidate_new_def MAX_WEIGHT_def)
  then have "try_map (\<lambda>account. execution_candidate_new (ra_id account) (authentication (ra_auth account)) 1) xs
      = Ok (map (\<lambda>account. \<lparr>ec_account_id = ra_id account, ec_authentication = authentication (ra_auth account), ec_weight = 1\<rparr>) xs)"
    for xs by (induction xs) simp_all
  then show ?thesis by (simp add: group_candidates_def)
qed

text \<open>Nothing but the bookkeeping of selections has happened since \<open>now\<close>.\<close>

definition same_health :: "u64 \<Rightarrow> account_health_table \<Rightarrow> account_health_table \<Rightarrow> bool" where
  "same_health now t u =
     (table_wf u \<and> (\<forall>a. (account_map u a = None) = (account_map t a = None))
      \<and> (\<forall>later a. now \<le> later \<longrightarrow> map_option status_kind (health u later a) = map_option status_kind (health t later a)))"

lemma same_health_refl: "table_wf t \<Longrightarrow> same_health now t t"
  by (simp add: same_health_def)

lemma same_health_trans: "same_health m t u \<Longrightarrow> same_health n u v \<Longrightarrow> m \<le> n \<Longrightarrow> same_health n t v"
  by (auto simp: same_health_def)

lemma status_kind_select: "status_kind (state_status (normalize_state later (select_state q now s)))
    = status_kind (state_status (normalize_state later s))"
  by (simp add: state_status_def normalize_state_def select_state_def Let_def)

lemma pick_account_same_health:
  assumes "table_wf t"
  shows "same_health now t (snd (pick_account req now t))"
proof -
  have "same_health now t (snd (select_loop cs auth aff now None t))" for cs auth aff
  proof (rule select_loop_preserves [where I = "same_health now t"])
    show "same_health now t t" using assms by (rule same_health_refl)
    show "same_health now t (update_account a (normalize_state now) u)" if "same_health now t u" for a u
      using that by (auto simp: same_health_def account_map_update health_def normalize_state_idem option.map_comp comp_def)
    show "same_health now t (snd (make_choice a origin now u))" if "same_health now t u" for a origin u
      using that
      by (auto simp: same_health_def make_choice_def mark_selected_eq Let_def account_map_update health_def status_kind_select
          option.map_comp comp_def split: option.split)
  qed
  then show ?thesis
    using assms by (simp add: snd_pick_account select_from_def same_health_refl)
qed

lemma healthy_later:
  assumes "map_option status_kind (health t now a) = Some Healthy" "now \<le> later"
  shows "map_option status_kind (health t later a) = Some Healthy"
proof -
  obtain s where s: "account_map t a = Some s" "status_kind (state_status (normalize_state now s)) = Healthy"
    using assms(1) by (auto simp: health_def)
  have "status_kind (state_status (normalize_state later s)) = Healthy"
    using s(2) assms(2)
    by (auto simp: state_status_def normalize_state_def elapsed_def Let_def split: if_splits option.splits)
  with s(1) show ?thesis by (simp add: health_def)
qed

lemma execute_loop_history:
  assumes "execute_loop env policy req left h t = (Some out, t')"
  shows "hist_length h \<le> hist_length (outcome_history out)"
  using assms
proof (induction left arbitrary: h t)
  case (Suc left)
  have push: "hist_length h \<le> hist_length (history_push g h)" for g by (simp add: history_push_def)
  show ?case
    using Suc.prems push Suc.IH
    by (auto simp: Let_def split: if_splits prod.splits option.splits attempt_result.splits intro: order_trans)
qed simp

lemma no_attempt_none_picked:
  assumes "execute env policy req t = (Some (ExecutionFailed TerminalNoEligibleAccount h), t')" "hist_length h = 0"
  shows "pick_account req (env_now_ms env 1) t = (None, t')"
proof -
  have two: "MAX_TOTAL_ATTEMPTS = Suc (Suc 0)" by (simp add: MAX_TOTAL_ATTEMPTS_def)
  have "hist_length (history_push g history_default) = Suc 0" for g
    by (simp add: history_push_def history_default_def MAX_TOTAL_ATTEMPTS_def)
  then have again: "execute_loop env policy req (Suc 0) (history_push g history_default) u \<noteq>
      (Some (ExecutionFailed TerminalNoEligibleAccount h), t')" for g u
    using execute_loop_history assms(2) by (metis not_one_le_zero One_nat_def outcome_history.simps(2))
  show ?thesis
    using assms(1) again
    by (auto simp: execute_def two Let_def split: if_splits prod.splits option.splits attempt_result.splits)
qed

lemma healthy_picked:
  assumes "table_wf t" "\<forall>x \<in> set (rp_accounts (dec_provider d)). account_map t (ra_id x) \<noteq> None"
    and "a \<in> set (rp_accounts (dec_provider d))" "map_option status_kind (health t now (ra_id a)) = Some Healthy"
    and "group_candidates d (authentication (ra_auth a)) = Ok cands"
  shows "fst (pick_account (execution_request_new rid d cands (authentication (ra_auth a))) now t) \<noteq> None"
proof -
  let ?auth = "authentication (ra_auth a)" and ?cs = "map as_account_candidate cands"
  have cs: "set ?cs = (\<lambda>x. \<lparr>cand_account_id = ra_id x, cand_authentication = authentication (ra_auth x), cand_weight = 1\<rparr>) `
      {x \<in> set (rp_accounts (dec_provider d)). authentication (ra_auth x) = ?auth}"
    using assms(5) by (auto simp: group_candidates_eq as_account_candidate_def image_image)
  have "\<exists>c \<in> set ?cs. eligible (health t now) ?auth c" using assms(3,4) unfolding cs by (auto simp: eligible_def)
  moreover have "\<forall>c \<in> set ?cs. cand_weight c \<noteq> 0" "\<forall>c \<in> set ?cs. cand_authentication c = ?auth \<longrightarrow> health t now (cand_account_id c) \<noteq> None"
    using assms(2) unfolding cs by (auto simp: health_def)
  ultimately have "\<exists>ch t'. select_loop ?cs ?auth None now None t = (Ok ch, t')"
    using select_loop_total [OF assms(1) refl, where auth = ?auth and affinity = None and best = None and cs = ?cs and now = now] by (auto simp: best_ok_def)
  then show ?thesis by (auto simp: pick_account_def execution_request_new_def select_from_def)
qed

lemmas gateway_errors = unknown_model_def no_executor_def internal_error_def invalid_request_def unsupported_capability_def
  upstream_auth_def rate_limited_def upstream_5xx_def upstream_response_def transport_error_def gateway_error_new_def
  with_diagnostic_def

text \<open>A refusal for want of an account only reports on an attempt that was made.\<close>

definition tried :: "executed_result \<Rightarrow> bool" where
  "tried r =
     (\<forall>e. r = Err (Fail e) \<and> dpe_error e = transport_error ''no eligible account'' \<longrightarrow>
        (\<exists>ob. dpe_observation e = Some ob \<and> ob_attempt_id ob \<noteq> None))"

lemma executed_from_attempt_tried: "tried (executed_from_attempt out asked_model canonical effort observation)"
  by (cases out; cases "cq_stream canonical")
     (auto simp: tried_def executed_from_attempt_def execution_error_def gateway_errors)

lemma succeeded_execution_tried: "tried (succeeded_execution d canonical asked_model effort out h)"
proof (cases "request_observation d h out :: data_plane_execution_error failure + _")
  case (Inl e)
  then have "e = Panic"
    by (cases "history_iter h") (auto simp: request_observation_def final_attempt_id_def)
  with Inl show ?thesis by (simp add: succeeded_execution_def tried_def)
qed (simp add: succeeded_execution_def executed_from_attempt_tried)

lemma map_terminal_no_eligible:
  "map_terminal terminal = transport_error ''no eligible account'' \<Longrightarrow> terminal = TerminalNoEligibleAccount"
  by (auto simp: map_terminal_def gateway_errors split: execution_terminal.splits attempt_failure_kind.splits)

lemma failed_execution_tried:
  assumes "history_iter h = Some ds" "hist_length h = length ds" "terminal = TerminalNoEligibleAccount \<Longrightarrow> hist_length h \<noteq> 0"
  shows "tried (failed_execution env op d canonical req terminal h)"
proof -
  have "ds \<noteq> []" if "map_terminal terminal = transport_error ''no eligible account''"
    using assms(2,3) map_terminal_no_eligible [OF that] by auto
  with assms(1) show ?thesis
    by (auto simp: tried_def failed_execution_def request_observation_without_usage_def final_attempt_id_def
        observation_of_def execution_error_with_observation_def Let_def)
qed

lemma execute_groups_tried:
  assumes "\<And>m. de_between env m = []" "\<And>m. env_now_ms (de_exec env m) 1 \<le> env_now_ms (de_exec env (Suc m)) 1"
    and "a \<in> set (rp_accounts (dec_provider d))" "authentication (ra_auth a) \<in> set auths"
    and "table_wf t" "\<forall>x \<in> set (rp_accounts (dec_provider d)). account_map t (ra_id x) \<noteq> None"
    and "map_option status_kind (health t (env_now_ms (de_exec env n) 1) (ra_id a)) = Some Healthy"
  shows "tried (fst (execute_groups env op d canonical asked_model effort rid policy n auths t))"
  using assms(4-7)
proof (induction auths arbitrary: n t)
  case (Cons auth auths)
  let ?now = "env_now_ms (de_exec env n) 1"
  obtain cands where cands: "group_candidates d auth = Ok cands" by (simp add: group_candidates_eq)
  let ?req = "execution_request_new rid d cands auth"
  obtain out t' ds where out: "run_coordinator env op d canonical policy n ?req t = (Some out, t')"
    "history_iter (outcome_history out) = Some ds" "hist_length (outcome_history out) = length ds"
    by (rule run_coordinator_recorded)
  show ?case
  proof (cases "\<exists>h. out = ExecutionFailed TerminalNoEligibleAccount h \<and> hist_length h = 0")
    case False
    with out cands show ?thesis
      by (cases out) (auto simp: assms(1) succeeded_execution_tried intro: failed_execution_tried)
  next
    case True
    then obtain h where h: "out = ExecutionFailed TerminalNoEligibleAccount h" "hist_length h = 0" by blast
    have pick: "pick_account ?req ?now t = (None, t')"
      using no_attempt_none_picked [OF out(1) [unfolded h(1) run_coordinator_def] h(2)] by simp
    have same: "same_health ?now t t'" using pick_account_same_health [OF Cons.prems(2), of ?now ?req] pick by simp
    have "auth \<noteq> authentication (ra_auth a)"
      using healthy_picked [OF Cons.prems(2,3) assms(3) Cons.prems(4), of cands rid] cands pick by auto
    then have "authentication (ra_auth a) \<in> set auths" using Cons.prems(1) by simp
    moreover have "table_wf t'" "\<forall>x \<in> set (rp_accounts (dec_provider d)). account_map t' (ra_id x) \<noteq> None"
      using same Cons.prems(3) by (auto simp: same_health_def)
    moreover have "map_option status_kind (health t' (env_now_ms (de_exec env (Suc n)) 1) (ra_id a)) = Some Healthy"
      using same healthy_later [OF Cons.prems(4) assms(2)] assms(2) by (simp add: same_health_def)
    ultimately show ?thesis
      using Cons.IH [of t' "Suc n"] out h cands by (simp add: assms(1))
  qed
qed simp

lemma push_new_set [simp]: "set (push_new x xs) = insert x (set xs)"
  by (auto simp: push_new_def)

lemma set_authentications_of:
  "set (authentications_of d) = (\<lambda>x. authentication (ra_auth x)) ` set (rp_accounts (dec_provider d))"
proof -
  have "set (fold (\<lambda>x. push_new (authentication (ra_auth x))) xs acc) = (\<lambda>x. authentication (ra_auth x)) ` set xs \<union> set acc"
    for xs :: "route_account list" and acc by (induction xs arbitrary: acc) auto
  then show ?thesis by (simp add: authentications_of_def)
qed

lemma upstream_canonical_keeps:
  assumes "upstream_canonical d canonical = Ok sent_request"
  shows "cq_stream sent_request = cq_stream canonical" "cq_extensions sent_request = cq_extensions canonical"
    "cq_model sent_request = dec_model d" "cq_request_id sent_request = cq_request_id canonical"
  using assms by (auto simp: upstream_canonical_def Let_def split: option.splits)

lemma plain_errors: "ge_diagnostic (map_route_error x) = None" "ge_diagnostic no_executor = None"
  "ge_diagnostic invalid_request = None" "ge_diagnostic unsupported_capability = None"
  by (cases x; simp add: map_route_error_def gateway_errors)+

text \<open>A request is answered without an upstream, by an estimate or an error, or it is routed.\<close>

definition unrouted :: "(json \<Rightarrow> string) \<Rightarrow> canonical_request \<Rightarrow> upstream_operation \<Rightarrow> executed_result \<Rightarrow> bool" where
  "unrouted to_vec canonical op r =
     ((\<exists>d. op = OpCountTokens \<and> r = local_token_count to_vec d canonical)
      \<or> (\<exists>e. ge_diagnostic e = None \<and> r = Err (Fail (execution_error e None))))"

lemma unrouted_intros:
  "ge_diagnostic e = None \<Longrightarrow> unrouted to_vec canonical op (Err (Fail (execution_error e None)))"
  "unrouted to_vec canonical OpCountTokens (local_token_count to_vec d canonical)"
  by (auto simp: unrouted_def)

lemma execute_decided_cases:
  "unrouted to_vec canonical op (fst (execute_decided to_vec env has_executor canonical op rid d t))
   \<or> (\<exists>sent_request. upstream_canonical d canonical = Ok sent_request
       \<and> execute_decided to_vec env has_executor canonical op rid d t
         = execute_routed env op d sent_request (cq_model canonical) (public_effort canonical) rid t)"
  by (auto simp: execute_decided_def unrouted_intros plain_errors split: sum.split)

lemma execute_canonical_cases:
  obtains "unrouted to_vec canonical op (fst (execute_canonical to_vec env providers has_executor client canonical op t))"
  | snapshot rid d sent_request where "providers = Some snapshot"
      "route snapshot \<lparr>req_provider = None, req_model = cq_model canonical, req_client_id = Some client\<rparr> = Ok d"
      "upstream_canonical d canonical = Ok sent_request"
      "execute_canonical to_vec env providers has_executor client canonical op t
        = execute_routed env op d sent_request (cq_model canonical) (public_effort canonical) rid t"
proof (cases "\<exists>snapshot rid d. providers = Some snapshot \<and> execution_request_id_new (cq_request_id canonical) = Ok rid
    \<and> route snapshot \<lparr>req_provider = None, req_model = cq_model canonical, req_client_id = Some client\<rparr> = Ok d")
  case True
  then obtain snapshot rid d where r: "providers = Some snapshot" "execution_request_id_new (cq_request_id canonical) = Ok rid"
    "route snapshot \<lparr>req_provider = None, req_model = cq_model canonical, req_client_id = Some client\<rparr> = Ok d" by blast
  then have "execute_canonical to_vec env providers has_executor client canonical op t
      = execute_decided to_vec env has_executor canonical op rid d t" by (simp add: execute_canonical_def)
  with execute_decided_cases [of to_vec canonical op env has_executor rid d t] that r show thesis by auto
next
  case False
  then have "unrouted to_vec canonical op (fst (execute_canonical to_vec env providers has_executor client canonical op t))"
    by (auto simp: execute_canonical_def unrouted_intros plain_errors split: option.split sum.split)
  then show thesis by (rule that)
qed

subsection \<open>Properties\<close>

text \<open>
  C5. The executor is only asked on behalf of the routed provider: with its endpoint, adapter and model,
  on the first or second attempt, and for an account of this provider with the authentication of that
  very account (or none, where the provider has no accounts). Two executors that agree on such requests
  give the same result and leave the same account table, whatever they would answer to others.
\<close>

theorem executor_asked_only_for_routed_account:
  assumes "de_exec env' = de_exec env" "de_between env' = de_between env" "de_dropped_id env' = de_dropped_id env"
    and "\<forall>d sent_request q.
      route snapshot \<lparr>req_provider = None, req_model = cq_model canonical, req_client_id = Some client\<rparr> = Ok d
      \<and> upstream_canonical d canonical = Ok sent_request \<and> asked_for d op sent_request q
      \<longrightarrow> de_execute env' q = de_execute env q \<and> de_receive env' q = de_receive env q"
  shows "execute_canonical to_vec env' (Some snapshot) has_executor client canonical op t
    = execute_canonical to_vec env (Some snapshot) has_executor client canonical op t"
proof (cases "route snapshot \<lparr>req_provider = None, req_model = cq_model canonical, req_client_id = Some client\<rparr>")
  case (Inr d)
  show ?thesis
  proof (cases "upstream_canonical d canonical")
    case (Inr sent_request)
    with assms(4) \<open>route _ _ = Inr d\<close> have "same_answers d op sent_request env env'" by (simp add: same_answers_def)
    from execute_routed_cong [OF this assms(1-3)] Inr \<open>route _ _ = Inr d\<close> show ?thesis
      by (auto simp: execute_canonical_def execute_decided_def split: sum.split)
  qed (auto simp: execute_canonical_def execute_decided_def Inr split: sum.split)
qed (simp add: execute_canonical_def split: sum.split)

definition dp_demo_provider :: route_provider where
  "dp_demo_provider =
     \<lparr>rp_id = ProviderId ''p'', rp_catalog_id = ProviderId ''p'', rp_endpoint = ''https://p.example'',
      rp_endpoint_access = PublicOnly, rp_adapter = OpenAiChat, rp_auth_kind = KindLocal,
      rp_capabilities = \<lparr>cap_text = True, cap_streaming = True, cap_tools = True, cap_vision = False, cap_images = False,
        cap_reasoning = True, cap_count_tokens = False\<rparr>,
      rp_accounts = [\<lparr>ra_id = AccountId ''a'', ra_auth = Local\<rparr>], rp_reasoning_efforts = [],
      rp_reasoning_effort_map = [(''high'', ''max'')]\<rparr>"

definition dp_demo_snapshot :: runtime_snapshot where
  "dp_demo_snapshot =
     \<lparr>rs_providers = [(ProviderId ''p'', dp_demo_provider)], rs_aliases = [], rs_rules = [],
      rs_default = Some \<lparr>target_provider = ProviderId ''p'', target_model = ''private''\<rparr>, rs_public_models = []\<rparr>"

definition dp_demo_request :: canonical_request where
  "dp_demo_request =
     \<lparr>cq_request_id = ''r'', cq_model = ''m'', cq_thread_key = None, cq_input = [InputText ''hello''], cq_tools = [],
      cq_stream = True, cq_reasoning = Some \<lparr>rso_effort = Some ''high'', rso_extensions = []\<rparr>, cq_extensions = []\<rparr>"

definition dp_demo_env :: data_plane_env where
  "dp_demo_env =
     \<lparr>de_execute = (\<lambda>_. Some (UpstreamStreaming (stream_channel 7))), de_receive = (\<lambda>_. Received (ItemEvent (Created ''x''))),
      de_exec = (\<lambda>_. \<lparr>env_cancelled = (\<lambda>_. False), env_now_ms = (\<lambda>_. 5), env_attempt = (\<lambda>_ _. None),
        env_wait = (\<lambda>_ _. Some True), env_cancelled_after_wait = (\<lambda>_. False), env_during_attempt = (\<lambda>_. []),
        env_during_wait = (\<lambda>_. [])\<rparr>),
      de_between = (\<lambda>_. []), de_dropped_id = None\<rparr>"

lemma dp_demo_route:
  "route dp_demo_snapshot \<lparr>req_provider = None, req_model = cq_model dp_demo_request, req_client_id = Some (ClientId ''c'')\<rparr>
     = Ok \<lparr>dec_provider = dp_demo_provider, dec_model = ''private'', dec_origin = OriginDefault\<rparr>"
  by (simp add: route_def decision_def dp_demo_snapshot_def bt_get_def)

theorem executor_asked_only_for_routed_account_witness:
  "execute_canonical (\<lambda>_. []) (dp_demo_env\<lparr>de_execute := (\<lambda>q. if uq_endpoint q = ''https://p.example'' \<and> uq_auth q = Local
       then de_execute dp_demo_env q else None)\<rparr>) (Some dp_demo_snapshot) True (ClientId ''c'') dp_demo_request OpText sample_table
   = execute_canonical (\<lambda>_. []) dp_demo_env (Some dp_demo_snapshot) True (ClientId ''c'') dp_demo_request OpText sample_table"
  by (rule executor_asked_only_for_routed_account) (auto simp: dp_demo_route asked_for_def dp_demo_provider_def)

text \<open>
  A request is answered in the mode it asked for and under the names it used, and executing it never
  panics. A stream is only returned for a text request that asked for one, with the created event as its
  first event; a complete response only for a request that did not, or for a token count. The model and the
  reasoning effort reported to the client are those of the client's request, although the request
  that went upstream carries the provider's; its extensions are untouched. The error for an upstream
  that answered in the other mode than the attempt had checked never occurs.
\<close>

lemma execute_canonical_answers:
  assumes "fst (execute_canonical to_vec env providers has_executor client canonical op t) = r"
  shows "r \<noteq> Err Panic
    \<and> (\<forall>e. r = Err (Fail e) \<longrightarrow> dpe_error e \<noteq> upstream_response 502 ''upstream execution mode mismatch'')
    \<and> (\<forall>x. r = Ok (ExecutedResponse x) \<longrightarrow> xr_public_model x = cq_model canonical
         \<and> xr_public_reasoning_effort x = public_effort canonical \<and> cq_extensions (xr_request x) = cq_extensions canonical
         \<and> (op = OpText \<longrightarrow> \<not> cq_stream canonical))
    \<and> (\<forall>s. r = Ok (ExecutedStream s) \<longrightarrow> xs_public_model s = cq_model canonical
         \<and> xs_public_reasoning_effort s = public_effort canonical \<and> cq_extensions (xs_request s) = cq_extensions canonical
         \<and> op = OpText \<and> cq_stream canonical \<and> (\<exists>i. ss_first_event (xs_stream s) = Some (Created i)))"
proof (cases rule: execute_canonical_cases [of to_vec canonical op env providers has_executor client t])
  case 1
  then show ?thesis
    unfolding assms unrouted_def
    by (auto simp: local_token_count_def estimate_local_tokens_def map_err_def execution_error_def gateway_errors and_then_eq_Err
        Let_def split: sum.splits if_splits)
next
  case (2 snapshot rid d sent_request)
  with assms execute_routed_ok [of op sent_request "cq_model canonical" "public_effort canonical" env d rid t]
  have "result_ok op sent_request (cq_model canonical) (public_effort canonical) r" by simp
  with upstream_canonical_keeps [OF 2(3)] show ?thesis
    by (auto simp: result_ok_def executed_ok_def split: sum.splits failure.splits executed.splits)
qed

lemma upstream_canonical_reasoning:
  "upstream_canonical d canonical = Ok sent_request \<Longrightarrow> cq_reasoning sent_request = None \<longleftrightarrow> cq_reasoning canonical = None"
  by (auto simp: upstream_canonical_def Let_def split: option.splits)

lemma execute_canonical_reasoning:
  assumes "fst (execute_canonical to_vec env providers has_executor client canonical op t) = Ok (ExecutedStream s)"
  shows "cq_reasoning (xs_request s) = None \<longleftrightarrow> cq_reasoning canonical = None"
proof (cases rule: execute_canonical_cases [of to_vec canonical op env providers has_executor client t])
  case 1
  with assms show ?thesis
    by (auto simp: unrouted_def local_token_count_def estimate_local_tokens_def map_err_def and_then_eq_Ok Let_def
        split: sum.splits if_splits)
next
  case (2 snapshot rid d sent_request)
  with assms execute_routed_ok [of op sent_request "cq_model canonical" "public_effort canonical" env d rid t]
  have "xs_request s = sent_request" by (simp add: result_ok_def executed_ok_def)
  with upstream_canonical_reasoning [OF 2(3)] show ?thesis by simp
qed

definition dp_demo_decision :: route_decision where
  "dp_demo_decision = \<lparr>dec_provider = dp_demo_provider, dec_model = ''private'', dec_origin = OriginDefault\<rparr>"

definition dp_demo_candidate :: execution_candidate where
  "dp_demo_candidate = \<lparr>ec_account_id = AccountId ''a'', ec_authentication = AuthLocal, ec_weight = 1\<rparr>"

lemma dp_demo_pick:
  "\<exists>t. pick_account (execution_request_new rid dp_demo_decision [dp_demo_candidate] AuthLocal) 5 sample_table
     = (Some (AccountId ''a''), t)"
  by (simp add: execution_request_new_def dp_demo_candidate_def execution_eval sample_eval)

lemma dp_demo_coordinator:
  assumes "cq_stream canonical"
  shows "\<exists>h t. run_coordinator dp_demo_env OpText dp_demo_decision canonical policy 0
      (execution_request_new rid dp_demo_decision [dp_demo_candidate] AuthLocal) sample_table
    = (Some (ExecutionSucceeded (AttemptStream \<lparr>ss_first_event = Some (Created ''x''), ss_upstream = stream_channel 7\<rparr>) Visible h), t)"
proof -
  obtain t where "pick_account (execution_request_new rid dp_demo_decision [dp_demo_candidate] AuthLocal) 5 sample_table
      = (Some (AccountId ''a''), t)" using dp_demo_pick by blast
  moreover have "er_body (execution_request_new rid dp_demo_decision [dp_demo_candidate] AuthLocal) = []"
    by (simp add: execution_request_new_def)
  ultimately show ?thesis
    using assms
    by (simp add: run_coordinator_def execute_def MAX_TOTAL_ATTEMPTS_def numeral_2_eq_2 dp_demo_env_def Let_def
        request_attempt_def attempt_context_of_def attempt_auth_def dp_demo_decision_def dp_demo_provider_def)
qed

lemma dp_demo_routed:
  assumes "cq_stream canonical"
  shows "\<exists>s. fst (execute_routed dp_demo_env OpText dp_demo_decision canonical m e rid sample_table) = Ok (ExecutedStream s)"
proof -
  let ?s = "AttemptStream \<lparr>ss_first_event = Some (Created ''x''), ss_upstream = stream_channel 7\<rparr>"
  have auths: "authentications_of dp_demo_decision = [AuthLocal]"
    by (simp add: authentications_of_def dp_demo_decision_def dp_demo_provider_def push_new_def)
  have cands: "group_candidates dp_demo_decision AuthLocal = Ok [dp_demo_candidate]"
    by (simp add: group_candidates_eq dp_demo_decision_def dp_demo_provider_def dp_demo_candidate_def)
  obtain policy where policy: "retry_policy_new 1 60000 JSON_BODY_LIMIT = Ok policy" using data_plane_policy by blast
  let ?req = "execution_request_new rid dp_demo_decision [dp_demo_candidate] AuthLocal"
  obtain out t' ds where out: "run_coordinator dp_demo_env OpText dp_demo_decision canonical policy 0 ?req sample_table = (Some out, t')"
    "history_iter (outcome_history out) = Some ds" by (rule run_coordinator_recorded)
  obtain h where h: "out = ExecutionSucceeded ?s Visible h"
    using dp_demo_coordinator [OF assms, of policy rid] out(1) by auto
  obtain i where "final_attempt_id h = (Ok i :: data_plane_execution_error failure + _)"
    using final_attempt_id_ok [of h ds] out(2) h by auto
  then have "\<exists>s. succeeded_execution dp_demo_decision canonical m e ?s h = Ok (ExecutedStream s)"
    using assms by (simp add: succeeded_execution_def request_observation_def executed_from_attempt_def)
  moreover have "de_between dp_demo_env 0 = []" by (simp add: dp_demo_env_def)
  ultimately show ?thesis using out(1) h auths cands policy by (simp add: execute_routed_def)
qed

lemma dp_demo_executed:
  "\<exists>s. fst (execute_canonical to_vec dp_demo_env (Some dp_demo_snapshot) True (ClientId ''c'') dp_demo_request OpText sample_table)
     = Ok (ExecutedStream s)"
proof -
  have rid: "execution_request_id_new (cq_request_id dp_demo_request) = Ok (ExecutionRequestId ''r'')"
    unfolding dp_demo_request_def by code_simp
  obtain sent_request where up: "upstream_canonical dp_demo_decision dp_demo_request = Ok sent_request"
    by (simp add: upstream_canonical_def public_effort_def dp_demo_request_def dp_demo_decision_def
        dp_demo_provider_def map_reasoning_effort_def bt_get_def Let_def)
  have "cq_stream sent_request" using upstream_canonical_keeps(1) [OF up] by (simp add: dp_demo_request_def)
  from dp_demo_routed [OF this] have "\<exists>s. fst (execute_decided to_vec dp_demo_env True dp_demo_request OpText rid dp_demo_decision sample_table)
      = Ok (ExecutedStream s)" for rid
    using up by (simp add: execute_decided_def) (simp add: dp_demo_decision_def dp_demo_provider_def)
  then show ?thesis using dp_demo_route [folded dp_demo_decision_def] rid by (simp add: execute_canonical_def)
qed

text \<open>An executor that fails: the only account is tried, then in its cooldown when the retry comes.\<close>

definition dp_failing_env :: data_plane_env where
  "dp_failing_env = dp_demo_env\<lparr>de_execute := (\<lambda>_. Some (UpstreamFailed (failure_new UfServer)))\<rparr>"

lemma dp_failing_cooldown: "5 < sat_add 5 (cooldown_duration sample_policy (sat_add 0 1) None)"
  by (simp add: word_less_nat_alt unat_sat_add cooldown_duration_value sample_policy_def)

lemma dp_failing_pick:
  "\<exists>t1 t2. pick_account (execution_request_new rid dp_demo_decision [dp_demo_candidate] AuthLocal) 5 sample_table
     = (Some (AccountId ''a''), t1)
   \<and> pick_account (execution_request_new rid dp_demo_decision [dp_demo_candidate] AuthLocal) 5
       (observe_failure (AccountId ''a'') (attempt_failure_new FailServer None None) 5 t1) = (None, t2)"
  using dp_failing_cooldown
  by (simp add: execution_request_new_def dp_demo_candidate_def execution_eval sample_eval observe_failure_def
      failure_observation_def attempt_failure_new_def observe_eq observe_state_def observe_failed_def select_state_def not_le)

lemma dp_failing_coordinator:
  assumes "retry_policy_new 1 60000 JSON_BODY_LIMIT = Ok policy"
  shows "\<exists>h t. run_coordinator dp_failing_env OpText dp_demo_decision canonical policy 0
      (execution_request_new rid dp_demo_decision [dp_demo_candidate] AuthLocal) sample_table
    = (Some (ExecutionFailed TerminalNoEligibleAccount h), t) \<and> hist_length h = 1"
proof -
  let ?req = "execution_request_new rid dp_demo_decision [dp_demo_candidate] AuthLocal"
  obtain t1 t2 where "pick_account ?req 5 sample_table = (Some (AccountId ''a''), t1)"
    "pick_account ?req 5 (observe_failure (AccountId ''a'') (attempt_failure_new FailServer None None) 5 t1) = (None, t2)"
    using dp_failing_pick by blast
  moreover have "retry_delay policy 1 (attempt_failure_new FailServer None None) BeforeVisible = Some 1"
    using assms by (auto simp: retry_delay_def attempt_failure_new_def MAX_TOTAL_ATTEMPTS_def retry_policy_new_def split: if_splits)
  moreover have "er_body ?req = []" "er_accountless_account_id ?req = None" by (simp_all add: execution_request_new_def)
  ultimately show ?thesis
    by (simp add: run_coordinator_def execute_def MAX_TOTAL_ATTEMPTS_def numeral_2_eq_2 dp_failing_env_def dp_demo_env_def Let_def
        request_attempt_def attempt_context_of_def attempt_auth_def dp_demo_decision_def dp_demo_provider_def failed_attempt_def
        failure_new_def map_failure_kind_def history_push_def history_default_def)
qed

lemma dp_failing_executed:
  "\<exists>e. fst (execute_canonical to_vec dp_failing_env (Some dp_demo_snapshot) True (ClientId ''c'') dp_demo_request OpText sample_table)
     = Err (Fail e) \<and> dpe_error e = transport_error ''no eligible account''"
proof -
  obtain policy where policy: "retry_policy_new 1 60000 JSON_BODY_LIMIT = Ok policy" using data_plane_policy by blast
  have auths: "authentications_of dp_demo_decision = [AuthLocal]"
    by (simp add: authentications_of_def dp_demo_decision_def dp_demo_provider_def push_new_def)
  have cands: "group_candidates dp_demo_decision AuthLocal = Ok [dp_demo_candidate]"
    by (simp add: group_candidates_eq dp_demo_decision_def dp_demo_provider_def dp_demo_candidate_def)
  have "\<exists>e. fst (execute_routed dp_failing_env OpText dp_demo_decision canonical m effort rid sample_table) = Err (Fail e)
      \<and> dpe_error e = transport_error ''no eligible account''" for canonical m effort rid
  proof -
    let ?req = "execution_request_new rid dp_demo_decision [dp_demo_candidate] AuthLocal"
    obtain h t' where out: "run_coordinator dp_failing_env OpText dp_demo_decision canonical policy 0 ?req sample_table
        = (Some (ExecutionFailed TerminalNoEligibleAccount h), t')" "hist_length h = 1"
      using dp_failing_coordinator [OF policy] by blast
    moreover obtain out' u ds where "run_coordinator dp_failing_env OpText dp_demo_decision canonical policy 0 ?req sample_table
        = (Some out', u)" "history_iter (outcome_history out') = Some ds" by (rule run_coordinator_recorded)
    ultimately have ds: "history_iter h = Some ds" by simp
    have "de_between dp_failing_env 0 = []" by (simp add: dp_failing_env_def dp_demo_env_def)
    with out ds auths cands policy show ?thesis
      by (simp add: execute_routed_def failed_execution_def request_observation_without_usage_def final_attempt_id_def
          execution_error_with_observation_def map_terminal_def)
  qed
  moreover have rid: "execution_request_id_new (cq_request_id dp_demo_request) = Ok (ExecutionRequestId ''r'')"
    unfolding dp_demo_request_def by code_simp
  moreover obtain sent_request where up: "upstream_canonical dp_demo_decision dp_demo_request = Ok sent_request"
    by (simp add: upstream_canonical_def public_effort_def dp_demo_request_def dp_demo_decision_def
        dp_demo_provider_def map_reasoning_effort_def bt_get_def Let_def)
  ultimately have "\<exists>e. fst (execute_decided to_vec dp_failing_env True dp_demo_request OpText rid dp_demo_decision sample_table)
      = Err (Fail e) \<and> dpe_error e = transport_error ''no eligible account''" for rid
    using up by (simp add: execute_decided_def) (simp add: dp_demo_decision_def dp_demo_provider_def)
  then show ?thesis using dp_demo_route [folded dp_demo_decision_def] rid by (simp add: execute_canonical_def)
qed

text \<open>
  C11. A request is refused for want of an account only after an account was tried, while the provider has
  a healthy one. Let the account table know the accounts of the routed provider, let one of them be healthy
  when the request starts, and let the clock not run backwards and no other request use the table meanwhile.
  Whatever the authentication of that account, and in whatever state the accounts with other authentications
  are, an answer that no account is eligible reports an attempt that was made and failed. (Its retry stays
  among the accounts with the same authentication, so that answer is possible.)
\<close>

theorem healthy_account_is_tried:
  assumes "route snapshot \<lparr>req_provider = None, req_model = cq_model canonical, req_client_id = Some client\<rparr> = Ok d"
    and "a \<in> set (rp_accounts (dec_provider d))" "table_wf t"
    and "\<forall>x \<in> set (rp_accounts (dec_provider d)). account_map t (ra_id x) \<noteq> None"
    and "map_option status_kind (health t (env_now_ms (de_exec env 0) 1) (ra_id a)) = Some Healthy"
    and "\<forall>m. de_between env m = []" "\<forall>m. env_now_ms (de_exec env m) 1 \<le> env_now_ms (de_exec env (Suc m)) 1"
    and "fst (execute_canonical to_vec env (Some snapshot) has_executor client canonical op t) = Err (Fail e)"
    and "dpe_error e = transport_error ''no eligible account''"
  shows "\<exists>ob. dpe_observation e = Some ob \<and> ob_attempt_id ob \<noteq> None"
proof (cases rule: execute_canonical_cases [of to_vec canonical op env "Some snapshot" has_executor client t])
  case 1
  with assms(8,9) show ?thesis
    by (auto simp: unrouted_def local_token_count_def estimate_local_tokens_def map_err_def execution_error_def gateway_errors
        Let_def and_then_eq_Err split: sum.splits if_splits)
next
  case (2 snapshot' rid d' sent_request)
  then have d: "d' = d" using assms(1) by simp
  obtain policy where policy: "retry_policy_new 1 60000 JSON_BODY_LIMIT = Ok policy" using data_plane_policy by blast
  have auth: "authentication (ra_auth a) \<in> set (authentications_of d)" using assms(2) by (simp add: set_authentications_of)
  have "tried (fst (execute_groups env op d sent_request (cq_model canonical) (public_effort canonical) rid policy 0
      (authentications_of d) t))"
    by (rule execute_groups_tried [OF _ _ assms(2) auth assms(3-5)]) (use assms(6,7) in simp_all)
  moreover have "authentications_of d \<noteq> []" using auth by auto
  ultimately show ?thesis using 2(4) policy assms(8,9) by (simp add: d execute_routed_def tried_def)
qed

theorem healthy_account_is_tried_witness:
  "\<exists>e ob. fst (execute_canonical (\<lambda>_. []) dp_failing_env (Some dp_demo_snapshot) True (ClientId ''c'') dp_demo_request OpText
       sample_table) = Err (Fail e) \<and> dpe_observation e = Some ob \<and> ob_attempt_id ob \<noteq> None"
proof -
  obtain e where e: "fst (execute_canonical (\<lambda>_. []) dp_failing_env (Some dp_demo_snapshot) True (ClientId ''c'') dp_demo_request
      OpText sample_table) = Err (Fail e)" "dpe_error e = transport_error ''no eligible account''"
    using dp_failing_executed by blast
  have "\<exists>ob. dpe_observation e = Some ob \<and> ob_attempt_id ob \<noteq> None"
    by (rule healthy_account_is_tried [OF dp_demo_route _ _ _ _ _ _ e, of "\<lparr>ra_id = AccountId ''a'', ra_auth = Local\<rparr>"])
       (simp_all add: dp_demo_provider_def dp_failing_env_def dp_demo_env_def health_def account_state_default_def state_status_def
         normalize_state_def elapsed_def Let_def)
  with e(1) show ?thesis by blast
qed

end
