(* ===== verification/Chat_Codec.thy ===== *)
theory Chat_Codec
  imports Canonical Sse
begin

text \<open>
  Encoding canonical events for clients of OpenAI Chat Completions,
  \<open>crates/wokcore-protocols/src/outbound/openai_chat.rs\<close>: the streaming encoder \<open>ChatCodec\<close>, which
  turns each event into chunks, and \<open>ChatResponseAggregator\<close>, which collects a whole list of events
  into one completion. The aggregator has the fields of the codec and four more, so its record
  extends that of the codec and the checks they share are written once.

  Results are \<open>gateway_error failure\<close>: indexing a vector out of range is \<open>Panic\<close>. The parameter
  \<open>to_vec\<close> is \<open>serde_json::to_vec\<close> on values, which cannot fail there. A method on \<open>&mut self\<close>
  returns the codec also on an error; the aggregator is consumed by \<open>encode\<close> and lost on an error.
\<close>

subsection \<open>Data\<close>

datatype chat_finish_reason = FinishStop | FinishLength | FinishToolCalls | FinishContentFilter | FinishFunctionCall

fun finish_reason_str :: "chat_finish_reason \<Rightarrow> string" where
  "finish_reason_str FinishStop = ''stop''"
| "finish_reason_str FinishLength = ''length''"
| "finish_reason_str FinishToolCalls = ''tool_calls''"
| "finish_reason_str FinishContentFilter = ''content_filter''"
| "finish_reason_str FinishFunctionCall = ''function_call''"

record chat_response_template =
  crt_choice_index :: u64
  crt_finish_reason :: chat_finish_reason
  crt_logprobs :: "json option"
  crt_include_usage :: bool
  crt_extra :: "(string, json) btree"

record chat_encode_context =
  cec_model :: string
  cec_created :: u64
  cec_response :: chat_response_template

record chat_limits =
  max_output_items :: nat
  max_identifier_bytes :: nat
  max_aggregate_bytes :: nat
  max_value_bytes :: nat

definition chat_limits_default :: chat_limits where
  "chat_limits_default =
     \<lparr>max_output_items = 4096, max_identifier_bytes = 512, max_aggregate_bytes = 16 * 1024 * 1024,
      max_value_bytes = 1024 * 1024\<rparr>"

datatype output_identity = IdText | IdTool nat

record chat_tool_identity =
  cti_call_id :: string
  cti_name :: string

record output_registry =
  identities :: "(string, output_identity) btree"
  reg_tools :: "chat_tool_identity list"

record chat_codec =
  cc_context :: chat_encode_context
  cc_limits :: chat_limits
  cc_context_validated :: bool
  cc_terminal :: bool
  cc_response_id :: "string option"
  cc_outputs :: output_registry
  cc_usage :: "json option"

record chat_aggregator = chat_codec +
  ca_failed :: "json option"
  ca_text :: string
  ca_arguments :: "string list"
  ca_aggregate_bytes :: nat

datatype transition = TrNone | TrChunks "json list" | TrFailed json

subsection \<open>Limits\<close>

definition valid_chat_function_name :: "string \<Rightarrow> bool" where
  "valid_chat_function_name v =
     (v \<noteq> [] \<and> length v \<le> 64 \<and> list_all (\<lambda>b. is_ascii_alphanumeric b \<or> b = CHR ''_'' \<or> b = CHR ''-'') v)"

definition chat_validate_identifier :: "chat_limits \<Rightarrow> string \<Rightarrow> unit codec_result" where
  "chat_validate_identifier lim v =
     (if v = [] \<or> max_identifier_bytes lim < length v then bad_request else Ok ())"

definition validate_serialized :: "(json \<Rightarrow> string) \<Rightarrow> chat_limits \<Rightarrow> json \<Rightarrow> unit codec_result" where
  "validate_serialized to_vec lim v =
     (if length (to_vec v) \<le> max_value_bytes lim then Ok () else bad_request)"

definition validate_string_map ::
  "(json \<Rightarrow> string) \<Rightarrow> chat_limits \<Rightarrow> (string, json) btree \<Rightarrow> unit codec_result" where
  "validate_string_map to_vec lim m =
     (if max_output_items lim < length m then bad_request
      else and_then (try_for_each (chat_validate_identifier lim) (map fst m))
             (\<lambda>_. validate_serialized to_vec lim (JObject m)))"

definition chat_validate_context ::
  "(json \<Rightarrow> string) \<Rightarrow> chat_limits \<Rightarrow> chat_encode_context \<Rightarrow> unit codec_result" where
  "chat_validate_context to_vec lim ctx =
     and_then (chat_validate_identifier lim (cec_model ctx)) (\<lambda>_.
     and_then (validate_string_map to_vec lim (crt_extra (cec_response ctx))) (\<lambda>_.
       validate_serialized to_vec lim (json_option (crt_logprobs (cec_response ctx)))))"

definition usage_details :: "usage \<Rightarrow> string \<Rightarrow> string \<Rightarrow> u64 \<Rightarrow> json" where
  "usage_details u extension_key canonical_key canonical_value =
     (let details = (case bt_get (us_extensions u) extension_key of
                       None \<Rightarrow> []
                     | Some v \<Rightarrow> (case json_as_object v of None \<Rightarrow> [] | Some m \<Rightarrow> m))
      in JObject (bt_insert canonical_key (json_u64 canonical_value) details))"

definition usage_value :: "usage \<Rightarrow> json" where
  "usage_value u =
     (let value = bt_collect
        [(''prompt_tokens'', json_u64 (us_input_tokens u)),
         (''completion_tokens'', json_u64 (us_output_tokens u)),
         (''total_tokens'', json_u64 (sat_add (us_input_tokens u) (us_output_tokens u))),
         (''prompt_tokens_details'',
          usage_details u ''prompt_tokens_details'' ''cached_tokens''
            (case us_cached_input_tokens u of None \<Rightarrow> 0 | Some n \<Rightarrow> n)),
         (''completion_tokens_details'',
          usage_details u ''completion_tokens_details'' ''reasoning_tokens''
            (case us_reasoning_tokens u of None \<Rightarrow> 0 | Some n \<Rightarrow> n))]
      in JObject (fold (\<lambda>(k, v). bt_or_insert k v) (us_extensions u) value))"

definition chat_validate_usage ::
  "(json \<Rightarrow> string) \<Rightarrow> chat_limits \<Rightarrow> usage \<Rightarrow> json codec_result" where
  "chat_validate_usage to_vec lim u =
     and_then (validate_string_map to_vec lim (us_extensions u)) (\<lambda>_.
     and_then (validate_serialized to_vec lim (usage_value u)) (\<lambda>_. Ok (usage_value u)))"

subsection \<open>The registry of output items\<close>

definition register_text :: "string \<Rightarrow> chat_limits \<Rightarrow> output_registry \<Rightarrow> output_registry codec_result" where
  "register_text item_id lim reg =
     and_then (chat_validate_identifier lim item_id) (\<lambda>_.
       case bt_get (identities reg) item_id of
         Some IdText \<Rightarrow> Ok reg
       | Some (IdTool _) \<Rightarrow> bad_request
       | None \<Rightarrow>
           if max_output_items lim \<le> length (identities reg) then bad_request
           else Ok (reg\<lparr>identities := bt_insert item_id IdText (identities reg)\<rparr>))"

definition register_tool ::
  "string \<Rightarrow> string \<Rightarrow> string \<Rightarrow> chat_limits \<Rightarrow> output_registry
    \<Rightarrow> ((nat \<times> bool) \<times> output_registry) codec_result" where
  "register_tool item_id call_id name lim reg =
     and_then (chat_validate_identifier lim item_id) (\<lambda>_.
     and_then (chat_validate_identifier lim call_id) (\<lambda>_.
     and_then (chat_validate_identifier lim name) (\<lambda>_.
       if \<not> valid_chat_function_name name then bad_request
       else case bt_get (identities reg) item_id of
         Some IdText \<Rightarrow> bad_request
       | Some (IdTool i) \<Rightarrow>
           if length (reg_tools reg) \<le> i then Err Panic
           else if cti_call_id (reg_tools reg ! i) = call_id \<and> cti_name (reg_tools reg ! i) = name
           then Ok ((i, False), reg)
           else bad_request
       | None \<Rightarrow>
           if max_output_items lim \<le> length (identities reg) \<or> max_output_items lim \<le> length (reg_tools reg)
              \<or> list_ex (\<lambda>t. cti_call_id t = call_id) (reg_tools reg)
           then bad_request
           else Ok ((length (reg_tools reg), True),
                  reg\<lparr>reg_tools := reg_tools reg @ [\<lparr>cti_call_id = call_id, cti_name = name\<rparr>],
                    identities := bt_insert item_id (IdTool (length (reg_tools reg))) (identities reg)\<rparr>))))"

subsection \<open>Checks and values shared by the codec and the aggregator\<close>

definition require_created :: "'a chat_codec_scheme \<Rightarrow> unit codec_result" where
  "require_created c = (if cc_response_id c \<noteq> None then Ok () else bad_request)"

definition require_delta_allowed :: "'a chat_codec_scheme \<Rightarrow> unit codec_result" where
  "require_delta_allowed c =
     and_then (require_created c) (\<lambda>_. if cc_usage c = None then Ok () else bad_request)"

definition validate_context_once ::
  "(json \<Rightarrow> string) \<Rightarrow> 'a chat_codec_scheme \<Rightarrow> unit codec_result \<times> 'a chat_codec_scheme" where
  "validate_context_once to_vec c =
     (if \<not> cc_context_validated c
      then case chat_validate_context to_vec (cc_limits c) (cc_context c) of
             Inl e \<Rightarrow> (Err e, c)
           | Inr _ \<Rightarrow> (Ok (), c\<lparr>cc_context_validated := True\<rparr>)
      else (Ok (), c))"

definition filtered_extra :: "(string, json) btree \<Rightarrow> string list \<Rightarrow> (string, json) btree" where
  "filtered_extra extra reserved = filter (\<lambda>(k, _). k \<notin> set reserved) extra"

definition error_envelope :: "gateway_error \<Rightarrow> json" where
  "error_envelope e =
     json_object
       [(''error'',
         json_object
           [(''type'', JString ''gateway_error''), (''code'', JString (ge_code e)),
            (''message'', JString (public_message e))])]"

subsection \<open>The streaming codec\<close>

definition chat_choice :: "chat_codec \<Rightarrow> json \<Rightarrow> json \<Rightarrow> json" where
  "chat_choice c delta finish_reason =
     json_object
       [(''index'', json_u64 (crt_choice_index (cec_response (cc_context c)))),
        (''delta'', delta),
        (''logprobs'', json_option (crt_logprobs (cec_response (cc_context c)))),
        (''finish_reason'', finish_reason)]"

definition chat_chunk :: "chat_codec \<Rightarrow> json list \<Rightarrow> json \<Rightarrow> json" where
  "chat_chunk c choices usage =
     json_object
       ([(''id'', JString (case cc_response_id c of None \<Rightarrow> [] | Some i \<Rightarrow> i)),
         (''object'', JString ''chat.completion.chunk''),
         (''created'', json_u64 (cec_created (cc_context c))),
         (''model'', JString (cec_model (cc_context c))),
         (''choices'', JArray choices)]
        @ (if crt_include_usage (cec_response (cc_context c)) then [(''usage'', usage)] else [])
        @ filtered_extra (crt_extra (cec_response (cc_context c)))
            [''id'', ''object'', ''created'', ''model'', ''choices'', ''usage''])"

definition chat_with_limits :: "chat_encode_context \<Rightarrow> chat_limits \<Rightarrow> chat_codec" where
  "chat_with_limits ctx lim =
     \<lparr>cc_context = ctx, cc_limits = lim, cc_context_validated = False, cc_terminal = False,
      cc_response_id = None, cc_outputs = \<lparr>identities = [], reg_tools = []\<rparr>, cc_usage = None\<rparr>"

definition chat_codec_new :: "chat_encode_context \<Rightarrow> chat_codec" where
  "chat_codec_new ctx = chat_with_limits ctx chat_limits_default"

definition chat_created :: "string \<Rightarrow> chat_codec \<Rightarrow> transition codec_result \<times> chat_codec" where
  "chat_created response_id c =
     (if cc_response_id c \<noteq> None then (bad_request, c)
      else case chat_validate_identifier (cc_limits c) response_id of
             Inl e \<Rightarrow> (Err e, c)
           | Inr _ \<Rightarrow>
               let c' = c\<lparr>cc_response_id := Some response_id\<rparr>
               in (Ok (TrChunks [chat_chunk c'
                     [chat_choice c' (json_object [(''role'', JString ''assistant'')]) JNull] JNull]), c'))"

definition chat_text_delta ::
  "string \<Rightarrow> string \<Rightarrow> chat_codec \<Rightarrow> transition codec_result \<times> chat_codec" where
  "chat_text_delta item_id delta c =
     (case and_then (require_delta_allowed c) (\<lambda>_. register_text item_id (cc_limits c) (cc_outputs c)) of
        Inl e \<Rightarrow> (Err e, c)
      | Inr reg' \<Rightarrow>
          let c' = c\<lparr>cc_outputs := reg'\<rparr>
          in (Ok (TrChunks [chat_chunk c'
                [chat_choice c' (json_object [(''content'', JString delta)]) JNull] JNull]), c'))"

definition chat_tool_delta ::
  "string \<Rightarrow> string \<Rightarrow> string \<Rightarrow> string \<Rightarrow> chat_codec \<Rightarrow> transition codec_result \<times> chat_codec" where
  "chat_tool_delta item_id call_id name delta c =
     (case and_then (require_delta_allowed c)
             (\<lambda>_. register_tool item_id call_id name (cc_limits c) (cc_outputs c)) of
        Inl e \<Rightarrow> (Err e, c)
      | Inr ((tool_index, is_new), reg') \<Rightarrow>
          let c' = c\<lparr>cc_outputs := reg'\<rparr>;
              tool_delta =
                (if is_new
                 then json_object
                   [(''index'', json_usize tool_index), (''id'', JString call_id),
                    (''type'', JString ''function''),
                    (''function'', json_object [(''name'', JString name), (''arguments'', JString delta)])]
                 else json_object
                   [(''index'', json_usize tool_index),
                    (''function'', json_object [(''arguments'', JString delta)])])
          in (Ok (TrChunks [chat_chunk c'
                [chat_choice c' (json_object [(''tool_calls'', JArray [tool_delta])]) JNull] JNull]), c'))"

definition chat_usage ::
  "(json \<Rightarrow> string) \<Rightarrow> usage \<Rightarrow> chat_codec \<Rightarrow> transition codec_result \<times> chat_codec" where
  "chat_usage to_vec u c =
     (case and_then (require_created c) (\<lambda>_.
             if cc_usage c \<noteq> None then bad_request else chat_validate_usage to_vec (cc_limits c) u) of
        Inl e \<Rightarrow> (Err e, c)
      | Inr v \<Rightarrow> (Ok TrNone, c\<lparr>cc_usage := Some v\<rparr>))"

definition chat_completed :: "chat_codec \<Rightarrow> transition codec_result \<times> chat_codec" where
  "chat_completed c =
     (case and_then (require_created c) (\<lambda>_. ok_or (cc_usage c) (Fail invalid_request)) of
        Inl e \<Rightarrow> (Err e, c)
      | Inr usage \<Rightarrow>
          let finish_reason = JString (finish_reason_str (crt_finish_reason (cec_response (cc_context c))));
              finish_choice = chat_choice c (json_object []) finish_reason
          in (Ok (TrChunks
                (chat_chunk c [finish_choice] JNull
                 # (if crt_include_usage (cec_response (cc_context c)) then [chat_chunk c [] usage] else []))),
              c\<lparr>cc_terminal := True\<rparr>))"

definition chat_failed :: "gateway_error \<Rightarrow> chat_codec \<Rightarrow> transition \<times> chat_codec" where
  "chat_failed e c = (TrFailed (error_envelope e), c\<lparr>cc_terminal := True\<rparr>)"

definition chat_transition ::
  "(json \<Rightarrow> string) \<Rightarrow> canonical_event \<Rightarrow> chat_codec \<Rightarrow> transition codec_result \<times> chat_codec" where
  "chat_transition to_vec ev c0 =
     (if cc_terminal c0 then (bad_request, c0)
      else st_then (validate_context_once to_vec c0) (\<lambda>_ c.
        case ev of
          Created response_id \<Rightarrow> chat_created response_id c
        | OutputTextDelta item_id delta \<Rightarrow> chat_text_delta item_id delta c
        | ReasoningDelta _ _ \<Rightarrow> (Err (Fail unsupported_capability), c)
        | ToolCallDelta item_id call_id name delta \<Rightarrow> chat_tool_delta item_id call_id name delta c
        | UsageEvent u \<Rightarrow> chat_usage to_vec u c
        | Completed \<Rightarrow> chat_completed c
        | Failed e \<Rightarrow> (case chat_failed e c of (t, c') \<Rightarrow> (Ok t, c'))))"

fun transition_values :: "transition \<Rightarrow> json list" where
  "transition_values TrNone = []"
| "transition_values (TrChunks chunks) = chunks"
| "transition_values (TrFailed e) = [e]"

definition sse_done :: string where
  "sse_done = ''data: [DONE]'' @ [LF, LF]"

definition encode_chunk ::
  "(json \<Rightarrow> string) \<Rightarrow> canonical_event \<Rightarrow> chat_codec \<Rightarrow> string codec_result \<times> chat_codec" where
  "encode_chunk to_vec ev c =
     st_then (chat_transition to_vec ev c) (\<lambda>t c'.
       (Ok (concat (map (\<lambda>v. encode_sse None (to_vec v)) (transition_values t))
            @ (if cc_terminal c' then sse_done else [])), c'))"

subsection \<open>The aggregator\<close>

definition aggregator_with_limits :: "chat_encode_context \<Rightarrow> chat_limits \<Rightarrow> chat_aggregator" where
  "aggregator_with_limits ctx lim =
     chat_codec.extend (chat_with_limits ctx lim)
       \<lparr>ca_failed = None, ca_text = [], ca_arguments = [], ca_aggregate_bytes = 0\<rparr>"

definition ensure_payload_capacity :: "nat \<Rightarrow> chat_aggregator \<Rightarrow> unit codec_result" where
  "ensure_payload_capacity additional a =
     (if ca_aggregate_bytes a + additional \<le> usize_max
         \<and> ca_aggregate_bytes a + additional \<le> max_aggregate_bytes (cc_limits a)
      then Ok () else bad_request)"

definition agg_created :: "string \<Rightarrow> chat_aggregator \<Rightarrow> chat_aggregator codec_result" where
  "agg_created response_id a =
     (if cc_response_id a \<noteq> None then bad_request
      else and_then (chat_validate_identifier (cc_limits a) response_id)
             (\<lambda>_. Ok (a\<lparr>cc_response_id := Some response_id\<rparr>)))"

definition agg_text_delta :: "string \<Rightarrow> string \<Rightarrow> chat_aggregator \<Rightarrow> chat_aggregator codec_result" where
  "agg_text_delta item_id delta a =
     and_then (require_delta_allowed a) (\<lambda>_.
     and_then (ensure_payload_capacity (length delta) a) (\<lambda>_.
     and_then (register_text item_id (cc_limits a) (cc_outputs a)) (\<lambda>reg'.
       Ok (a\<lparr>cc_outputs := reg', ca_text := ca_text a @ delta,
             ca_aggregate_bytes := ca_aggregate_bytes a + length delta\<rparr>))))"

definition agg_tool_delta ::
  "string \<Rightarrow> string \<Rightarrow> string \<Rightarrow> string \<Rightarrow> chat_aggregator \<Rightarrow> chat_aggregator codec_result" where
  "agg_tool_delta item_id call_id name delta a =
     and_then (require_delta_allowed a) (\<lambda>_.
     and_then (ensure_payload_capacity (length delta) a) (\<lambda>_.
     and_then (register_tool item_id call_id name (cc_limits a) (cc_outputs a)) (\<lambda>((tool_index, is_new), reg').
     and_then (if is_new
               then if max_output_items (cc_limits a) \<le> length (ca_arguments a) then bad_request
                    else Ok (ca_arguments a @ [[]])
               else Ok (ca_arguments a)) (\<lambda>args.
       if length args \<le> tool_index then Err Panic
       else Ok (a\<lparr>cc_outputs := reg', ca_arguments := args[tool_index := args ! tool_index @ delta],
                  ca_aggregate_bytes := ca_aggregate_bytes a + length delta\<rparr>)))))"

definition agg_usage :: "(json \<Rightarrow> string) \<Rightarrow> usage \<Rightarrow> chat_aggregator \<Rightarrow> chat_aggregator codec_result" where
  "agg_usage to_vec u a =
     and_then (require_created a) (\<lambda>_.
       if cc_usage a \<noteq> None then bad_request
       else and_then (chat_validate_usage to_vec (cc_limits a) u) (\<lambda>v. Ok (a\<lparr>cc_usage := Some v\<rparr>)))"

definition agg_completed :: "chat_aggregator \<Rightarrow> chat_aggregator codec_result" where
  "agg_completed a =
     and_then (require_created a) (\<lambda>_.
       if cc_usage a = None then bad_request else Ok (a\<lparr>cc_terminal := True\<rparr>))"

definition agg_transition ::
  "(json \<Rightarrow> string) \<Rightarrow> canonical_event \<Rightarrow> chat_aggregator \<Rightarrow> chat_aggregator codec_result" where
  "agg_transition to_vec ev a0 =
     (if cc_terminal a0 then bad_request
      else case validate_context_once to_vec a0 of
          (Inl e, _) \<Rightarrow> Err e
        | (Inr _, a) \<Rightarrow>
            (case ev of
               Created response_id \<Rightarrow> agg_created response_id a
             | OutputTextDelta item_id delta \<Rightarrow> agg_text_delta item_id delta a
             | ReasoningDelta _ _ \<Rightarrow> Err (Fail unsupported_capability)
             | ToolCallDelta item_id call_id name delta \<Rightarrow> agg_tool_delta item_id call_id name delta a
             | UsageEvent u \<Rightarrow> agg_usage to_vec u a
             | Completed \<Rightarrow> agg_completed a
             | Failed e \<Rightarrow> Ok (a\<lparr>ca_failed := Some (error_envelope e), cc_terminal := True\<rparr>)))"

definition response_value :: "json \<Rightarrow> chat_aggregator \<Rightarrow> json" where
  "response_value usage a =
     (let tool_calls = map (\<lambda>(tool, arguments).
            json_object
              [(''id'', JString (cti_call_id tool)), (''type'', JString ''function''),
               (''function'', json_object
                  [(''name'', JString (cti_name tool)), (''arguments'', JString arguments)])])
            (zip (reg_tools (cc_outputs a)) (ca_arguments a));
          message = json_object
            ([(''role'', JString ''assistant''),
              (''content'', if ca_text a = [] then JNull else JString (ca_text a))]
             @ (if reg_tools (cc_outputs a) \<noteq> [] then [(''tool_calls'', JArray tool_calls)] else []));
          choice = json_object
            [(''index'', json_u64 (crt_choice_index (cec_response (cc_context a)))),
             (''message'', message),
             (''logprobs'', json_option (crt_logprobs (cec_response (cc_context a)))),
             (''finish_reason'', JString (finish_reason_str (crt_finish_reason (cec_response (cc_context a)))))]
      in json_object
           ([(''id'', JString (case cc_response_id a of None \<Rightarrow> [] | Some i \<Rightarrow> i)),
             (''object'', JString ''chat.completion''),
             (''created'', json_u64 (cec_created (cc_context a))),
             (''model'', JString (cec_model (cc_context a))),
             (''choices'', JArray [choice]),
             (''usage'', usage)]
            @ filtered_extra (crt_extra (cec_response (cc_context a)))
                [''id'', ''object'', ''created'', ''model'', ''choices'', ''usage'']))"

definition agg_encode ::
  "(json \<Rightarrow> string) \<Rightarrow> canonical_event list \<Rightarrow> chat_aggregator \<Rightarrow> json codec_result" where
  "agg_encode to_vec events a0 =
     and_then (try_fold (agg_transition to_vec) events a0) (\<lambda>a.
       if \<not> cc_terminal a then bad_request
       else case ca_failed a of
           Some error \<Rightarrow> Ok error
         | None \<Rightarrow> and_then (ok_or (cc_usage a) (Fail invalid_request)) (\<lambda>usage. Ok (response_value usage a)))"

definition encode_response ::
  "(json \<Rightarrow> string) \<Rightarrow> chat_encode_context \<Rightarrow> canonical_event list \<Rightarrow> json codec_result" where
  "encode_response to_vec ctx events =
     agg_encode to_vec events (aggregator_with_limits ctx chat_limits_default)"

end
