(* ===== verification/Chat_Facts.thy ===== *)
theory Chat_Facts
  imports Chat_Codec
begin

text \<open>
  Facts on the Chat Completions encoder. A well-formedness invariant of the codec excludes every
  panic. The aggregator simulates the codec step by step: what a client assembles from the chunks
  of a stream is what it reads from the completion of the same events.
\<close>

subsection \<open>The codec inside an aggregator\<close>

abbreviation core :: "chat_aggregator \<Rightarrow> chat_codec" where
  "core a \<equiv> chat_codec.truncate a"

lemma core_sel [simp]:
  "cc_context (core a) = cc_context a"
  "cc_limits (core a) = cc_limits a"
  "cc_context_validated (core a) = cc_context_validated a"
  "cc_terminal (core a) = cc_terminal a"
  "cc_response_id (core a) = cc_response_id a"
  "cc_outputs (core a) = cc_outputs a"
  "cc_usage (core a) = cc_usage a"
  by (simp_all add: chat_codec.defs)

lemma core_upd [simp]:
  "core (a\<lparr>cc_context_validated := b\<rparr>) = (core a)\<lparr>cc_context_validated := b\<rparr>"
  "core (a\<lparr>cc_terminal := b\<rparr>) = (core a)\<lparr>cc_terminal := b\<rparr>"
  "core (a\<lparr>cc_response_id := i\<rparr>) = (core a)\<lparr>cc_response_id := i\<rparr>"
  "core (a\<lparr>cc_outputs := reg\<rparr>) = (core a)\<lparr>cc_outputs := reg\<rparr>"
  "core (a\<lparr>cc_usage := u\<rparr>) = (core a)\<lparr>cc_usage := u\<rparr>"
  "core (a\<lparr>ca_failed := f\<rparr>) = core a"
  "core (a\<lparr>ca_text := t\<rparr>) = core a"
  "core (a\<lparr>ca_arguments := g\<rparr>) = core a"
  "core (a\<lparr>ca_aggregate_bytes := n\<rparr>) = core a"
  by (simp_all add: chat_codec.defs)

lemma core_checks [simp]:
  "require_created (core a) = require_created a"
  "require_delta_allowed (core a) = require_delta_allowed a"
  by (simp_all add: require_created_def require_delta_allowed_def)

lemma core_validate_once:
  "validate_context_once to_vec (core a) = map_prod id core (validate_context_once to_vec a)"
  by (simp add: validate_context_once_def split: sum.split)

lemma core_new [simp]: "core (aggregator_with_limits ctx lim) = chat_with_limits ctx lim"
  by (simp add: aggregator_with_limits_def chat_codec.defs chat_with_limits_def)

subsection \<open>Well-formed registries\<close>

definition registry_wf :: "chat_limits \<Rightarrow> output_registry \<Rightarrow> bool" where
  "registry_wf lim reg =
     (bt_wf (identities reg) \<and> length (identities reg) \<le> max_output_items lim
      \<and> length (reg_tools reg) \<le> length (identities reg)
      \<and> distinct (map cti_call_id (reg_tools reg))
      \<and> (\<forall>t \<in> set (reg_tools reg). valid_chat_function_name (cti_name t))
      \<and> (\<forall>k i. bt_get (identities reg) k = Some (IdTool i) \<longrightarrow> i < length (reg_tools reg)))"

lemma registry_wf_empty [simp]: "registry_wf lim \<lparr>identities = [], reg_tools = []\<rparr>"
  by (simp add: registry_wf_def bt_get_def)

lemma register_text_cases:
  assumes "register_text item_id lim reg = Ok reg'"
  shows "reg' = reg \<or> bt_get (identities reg) item_id = None
      \<and> length (identities reg) < max_output_items lim
      \<and> reg' = reg\<lparr>identities := bt_insert item_id IdText (identities reg)\<rparr>"
  using assms
  by (auto simp: register_text_def split: option.splits output_identity.splits if_splits)

lemma register_text_wf:
  assumes "registry_wf lim reg" and "register_text item_id lim reg = Ok reg'"
  shows "registry_wf lim reg'" "reg_tools reg' = reg_tools reg"
  using register_text_cases [OF assms(2)] assms(1)
  by (auto simp: registry_wf_def bt.wf_insert bt.get_insert length_bt_insert_new split: if_splits)

lemma register_tool_cases:
  assumes "register_tool item_id call_id name lim reg = Ok ((i, is_new), reg')"
  shows "\<not> is_new \<and> reg' = reg \<and> i < length (reg_tools reg)
          \<and> cti_call_id (reg_tools reg ! i) = call_id \<and> cti_name (reg_tools reg ! i) = name
      \<or> is_new \<and> i = length (reg_tools reg) \<and> bt_get (identities reg) item_id = None
          \<and> length (identities reg) < max_output_items lim
          \<and> call_id \<notin> set (map cti_call_id (reg_tools reg)) \<and> valid_chat_function_name name
          \<and> reg' = reg\<lparr>reg_tools := reg_tools reg @ [\<lparr>cti_call_id = call_id, cti_name = name\<rparr>],
                identities := bt_insert item_id (IdTool (length (reg_tools reg))) (identities reg)\<rparr>"
  using assms
  by (auto simp: register_tool_def list_ex_iff split: option.splits output_identity.splits if_splits)

lemma register_tool_wf:
  assumes "registry_wf lim reg" and "register_tool item_id call_id name lim reg = Ok ((i, is_new), reg')"
  shows "registry_wf lim reg'"
proof (cases is_new)
  case False
  then show ?thesis using register_tool_cases [OF assms(2)] assms(1) by simp
next
  case True
  with register_tool_cases [OF assms(2)] assms(1) show ?thesis
    by (auto simp: registry_wf_def bt.wf_insert bt.get_insert length_bt_insert_new less_Suc_eq
        split: if_splits)
qed

lemma chat_validate_no_panic [simp]:
  "chat_validate_identifier lim v \<noteq> Err Panic"
  "validate_serialized to_vec lim j \<noteq> Err Panic"
  by (simp_all add: chat_validate_identifier_def validate_serialized_def)

lemma validate_string_map_no_panic [simp]: "validate_string_map to_vec lim m \<noteq> Err Panic"
  by (simp add: validate_string_map_def and_then_eq_Err try_for_each_no_panic)

lemma validate_no_panic [simp]:
  "chat_validate_context to_vec lim ctx \<noteq> Err Panic"
  "chat_validate_usage to_vec lim u \<noteq> Err Panic"
  by (simp_all add: chat_validate_context_def chat_validate_usage_def and_then_eq_Err)

lemma register_text_no_panic [simp]: "register_text item_id lim reg \<noteq> Err Panic"
  by (auto simp: register_text_def and_then_eq_Err split: option.splits output_identity.splits)

lemma registry_wf_index:
  "registry_wf lim reg \<Longrightarrow> bt_get (identities reg) k = Some (IdTool i) \<Longrightarrow> i < length (reg_tools reg)"
  by (simp add: registry_wf_def)

lemma register_tool_no_panic:
  assumes "registry_wf lim reg"
  shows "register_tool item_id call_id name lim reg \<noteq> Err Panic"
proof (cases "\<exists>i. bt_get (identities reg) item_id = Some (IdTool i)")
  case True
  then obtain i where i: "bt_get (identities reg) item_id = Some (IdTool i)" by blast
  then have "i < length (reg_tools reg)" by (rule registry_wf_index [OF assms])
  with i show ?thesis by (simp add: register_tool_def and_then_eq_Err)
next
  case False
  then show ?thesis
    by (auto simp: register_tool_def and_then_eq_Err split: option.split output_identity.split)
qed

subsection \<open>Steps of the codec\<close>

definition chat_wf :: "'a chat_codec_scheme \<Rightarrow> bool" where
  "chat_wf c = registry_wf (cc_limits c) (cc_outputs c)"

lemma chat_wf_new [simp]: "chat_wf (chat_with_limits ctx lim)"
  by (simp add: chat_wf_def chat_with_limits_def)

lemma require_no_panic [simp]:
  "require_created c \<noteq> Err Panic" "require_delta_allowed c \<noteq> Err Panic"
  by (simp_all add: require_created_def require_delta_allowed_def and_then_eq_Err)

text \<open>What every method of the codec keeps.\<close>

definition chat_keeps :: "chat_codec \<Rightarrow> 'r codec_result \<times> chat_codec \<Rightarrow> bool" where
  "chat_keeps c p =
     (fst p \<noteq> Err Panic \<and> chat_wf (snd p) \<and> cc_limits (snd p) = cc_limits c
      \<and> cc_context (snd p) = cc_context c)"

lemma chat_created_keeps: "chat_wf c \<Longrightarrow> chat_keeps c (chat_created i c)"
  by (simp add: chat_keeps_def chat_created_def chat_wf_def Let_def chat_validate_identifier_def)

lemma chat_text_delta_keeps:
  assumes "chat_wf c"
  shows "chat_keeps c (chat_text_delta i d c)"
proof (cases "and_then (require_delta_allowed c) (\<lambda>_. register_text i (cc_limits c) (cc_outputs c))")
  case (Inl e)
  then have "e \<noteq> Panic" by (auto simp: and_then_eq_Err)
  with Inl assms show ?thesis by (simp add: chat_keeps_def chat_text_delta_def)
next
  case (Inr reg)
  with assms show ?thesis
    by (auto simp: chat_keeps_def chat_text_delta_def chat_wf_def Let_def dest: register_text_wf(1))
qed

lemma chat_tool_delta_keeps:
  assumes "chat_wf c"
  shows "chat_keeps c (chat_tool_delta i k n d c)"
proof (cases "and_then (require_delta_allowed c) (\<lambda>_. register_tool i k n (cc_limits c) (cc_outputs c))")
  case (Inl e)
  then have "e \<noteq> Panic"
    using assms by (auto simp: and_then_eq_Err chat_wf_def register_tool_no_panic)
  with Inl assms show ?thesis by (simp add: chat_keeps_def chat_tool_delta_def)
next
  case (Inr r)
  obtain j b reg where r: "r = ((j, b), reg)" by (metis surj_pair)
  with Inr assms show ?thesis
    by (auto simp: chat_keeps_def chat_tool_delta_def chat_wf_def Let_def dest: register_tool_wf)
qed

lemma chat_usage_keeps:
  assumes "chat_wf c"
  shows "chat_keeps c (chat_usage to_vec u c)"
  using assms
  by (auto simp: chat_keeps_def chat_usage_def chat_wf_def and_then_eq_Err split: sum.split if_splits)

lemma chat_completed_keeps:
  assumes "chat_wf c"
  shows "chat_keeps c (chat_completed c)"
  using assms
  by (auto simp: chat_keeps_def chat_completed_def chat_wf_def and_then_eq_Err ok_or_def Let_def
      split: sum.split option.splits)

lemma validate_context_once_cases:
  obtains e where "validate_context_once to_vec c = (Err e, c)" "e \<noteq> Panic"
  | "validate_context_once to_vec c = (Ok (), c\<lparr>cc_context_validated := True\<rparr>)"
    "cc_context_validated c \<or> chat_validate_context to_vec (cc_limits c) (cc_context c) = Ok ()"
proof (cases "cc_context_validated c")
  case True
  then have "validate_context_once to_vec c = (Ok (), c\<lparr>cc_context_validated := True\<rparr>)"
    by (simp add: validate_context_once_def)
  with True that show ?thesis by blast
next
  case False
  then show ?thesis
    using that validate_no_panic(1) [of to_vec "cc_limits c" "cc_context c"]
    by (cases "chat_validate_context to_vec (cc_limits c) (cc_context c)")
       (auto simp: validate_context_once_def)
qed

lemma chat_wf_validated [simp]: "chat_wf (c\<lparr>cc_context_validated := b\<rparr>) = chat_wf c"
  by (simp add: chat_wf_def)

lemma chat_keeps_validated [simp]: "chat_keeps (c\<lparr>cc_context_validated := b\<rparr>) p = chat_keeps c p"
  by (simp add: chat_keeps_def)

lemma chat_transition_keeps:
  assumes "chat_wf c"
  shows "chat_keeps c (chat_transition to_vec ev c)"
proof (cases "cc_terminal c")
  case True
  with assms show ?thesis by (simp add: chat_keeps_def chat_transition_def)
next
  case False
  let ?c = "c\<lparr>cc_context_validated := True\<rparr>"
  have wf: "chat_wf ?c" using assms by simp
  show ?thesis
  proof (cases rule: validate_context_once_cases [of to_vec c])
    case (1 e)
    with False assms show ?thesis by (simp add: chat_keeps_def chat_transition_def)
  next
    case 2
    with False wf show ?thesis
      using chat_created_keeps [OF wf] chat_text_delta_keeps [OF wf] chat_tool_delta_keeps [OF wf]
        chat_usage_keeps [OF wf] chat_completed_keeps [OF wf]
      by (cases ev) (simp_all add: chat_transition_def, simp_all add: chat_keeps_def chat_failed_def chat_wf_def)
  qed
qed

lemma encode_chunk_keeps:
  assumes "chat_wf c"
  shows "chat_keeps c (encode_chunk to_vec ev c)"
  using chat_transition_keeps [OF assms, of to_vec ev]
  by (cases "chat_transition to_vec ev c"; cases "fst (chat_transition to_vec ev c)")
     (auto simp: encode_chunk_def chat_keeps_def)

interpretation chat_machine: invariant_machine "\<lambda>c ev. snd (encode_chunk to_vec ev c)" chat_wf for to_vec
  by unfold_locales (use encode_chunk_keeps in \<open>auto simp: chat_keeps_def\<close>)

subsection \<open>What a client assembles\<close>

fun str_of :: "json option \<Rightarrow> string" where
  "str_of (Some (JString s)) = s"
| "str_of _ = []"

fun array_of :: "json option \<Rightarrow> json list" where
  "array_of (Some (JArray xs)) = xs"
| "array_of _ = []"

fun index_of :: "json option \<Rightarrow> nat" where
  "index_of (Some (JNumber (PosInt n))) = unat n"
| "index_of _ = 0"

record assembly =
  as_text :: string
  as_tools :: "(string \<times> string \<times> string) list"
  as_finish :: json
  as_usage :: json

definition tool_of :: "json \<Rightarrow> string \<times> string \<times> string" where
  "tool_of t =
     (let f = json_option (json_get ''function'' t)
      in (str_of (json_get ''id'' t), str_of (json_get ''name'' f), str_of (json_get ''arguments'' f)))"

text \<open>Deltas of a tool call are joined by their index; the first one of an index opens the call.\<close>

definition merge_tool :: "json \<Rightarrow> (string \<times> string \<times> string) list \<Rightarrow> (string \<times> string \<times> string) list" where
  "merge_tool t tools =
     (let i = index_of (json_get ''index'' t); (c, n, g) = tool_of t
      in if i < length tools then tools[i := (case tools ! i of (c', n', g') \<Rightarrow> (c', n', g' @ g))]
         else tools @ [(c, n, g)])"

definition set_value :: "json option \<Rightarrow> json \<Rightarrow> json" where
  "set_value v old = (case v of None \<Rightarrow> old | Some j \<Rightarrow> if j = JNull then old else j)"

definition merge_choice :: "json \<Rightarrow> assembly \<Rightarrow> assembly" where
  "merge_choice ch s =
     (let d = json_option (json_get ''delta'' ch)
      in s\<lparr>as_text := as_text s @ str_of (json_get ''content'' d),
           as_tools := fold merge_tool (array_of (json_get ''tool_calls'' d)) (as_tools s),
           as_finish := set_value (json_get ''finish_reason'' ch) (as_finish s)\<rparr>)"

definition merge_chunk :: "json \<Rightarrow> assembly \<Rightarrow> assembly" where
  "merge_chunk v s =
     (let s' = fold merge_choice (array_of (json_get ''choices'' v)) s
      in s'\<lparr>as_usage := set_value (json_get ''usage'' v) (as_usage s')\<rparr>)"

definition assemble :: "json list \<Rightarrow> assembly" where
  "assemble chunks =
     fold merge_chunk chunks \<lparr>as_text = [], as_tools = [], as_finish = JNull, as_usage = JNull\<rparr>"

text \<open>The same information read from a completion.\<close>

definition read_completion :: "json \<Rightarrow> assembly" where
  "read_completion v =
     (let ch = (case array_of (json_get ''choices'' v) of [] \<Rightarrow> JNull | ch # _ \<Rightarrow> ch);
          m = json_option (json_get ''message'' ch)
      in \<lparr>as_text = str_of (json_get ''content'' m),
          as_tools = map tool_of (array_of (json_get ''tool_calls'' m)),
          as_finish = json_option (json_get ''finish_reason'' ch),
          as_usage = json_option (json_get ''usage'' v)\<rparr>)"

text \<open>The fields that identify a response.\<close>

definition same_response :: "json \<Rightarrow> json \<Rightarrow> bool" where
  "same_response v w =
     (json_get ''id'' v = json_get ''id'' w \<and> json_get ''created'' v = json_get ''created'' w
      \<and> json_get ''model'' v = json_get ''model'' w)"

lemma map_of_rev_filtered_extra [simp]:
  "k \<in> set ks \<Longrightarrow> map_of (rev (filtered_extra extra ks)) k = None"
  by (auto simp: map_of_eq_None_iff filtered_extra_def)

lemma json_get_chunk [simp]:
  "json_get ''id'' (chat_chunk c cs u) = Some (JString (case cc_response_id c of None \<Rightarrow> [] | Some i \<Rightarrow> i))"
  "json_get ''created'' (chat_chunk c cs u) = Some (json_u64 (cec_created (cc_context c)))"
  "json_get ''model'' (chat_chunk c cs u) = Some (JString (cec_model (cc_context c)))"
  "json_get ''choices'' (chat_chunk c cs u) = Some (JArray cs)"
  "json_get ''usage'' (chat_chunk c cs u) =
     (if crt_include_usage (cec_response (cc_context c)) then Some u else None)"
  by (simp_all add: chat_chunk_def map_add_def)

lemma json_get_choice [simp]:
  "json_get ''delta'' (chat_choice c d f) = Some d"
  "json_get ''finish_reason'' (chat_choice c d f) = Some f"
  by (simp_all add: chat_choice_def)

lemma json_get_response [simp]:
  "json_get ''id'' (response_value u a) = Some (JString (case cc_response_id a of None \<Rightarrow> [] | Some i \<Rightarrow> i))"
  "json_get ''created'' (response_value u a) = Some (json_u64 (cec_created (cc_context a)))"
  "json_get ''model'' (response_value u a) = Some (JString (cec_model (cc_context a)))"
  "json_get ''usage'' (response_value u a) = Some u"
  by (simp_all add: response_value_def Let_def map_add_def)

subsection \<open>The aggregator simulates the codec\<close>

definition agg_view :: "chat_aggregator \<Rightarrow> assembly" where
  "agg_view a =
     \<lparr>as_text = ca_text a,
      as_tools = map2 (\<lambda>t g. (cti_call_id t, cti_name t, g)) (reg_tools (cc_outputs a)) (ca_arguments a),
      as_finish = JNull, as_usage = JNull\<rparr>"

definition agg_wf :: "chat_aggregator \<Rightarrow> bool" where
  "agg_wf a =
     (chat_wf a \<and> length (ca_arguments a) = length (reg_tools (cc_outputs a))
      \<and> max_output_items (cc_limits a) \<le> usize_max \<and> cc_usage a \<noteq> Some JNull)"

definition chunk_of :: "chat_aggregator \<Rightarrow> json \<Rightarrow> bool" where
  "chunk_of a v =
     (cc_response_id a \<noteq> None \<and> json_get ''id'' v = map_option JString (cc_response_id a)
      \<and> json_get ''created'' v = Some (json_u64 (cec_created (cc_context a)))
      \<and> json_get ''model'' v = Some (JString (cec_model (cc_context a))))"

definition agg_sim :: "chat_aggregator \<Rightarrow> chat_aggregator \<Rightarrow> transition codec_result \<times> chat_codec \<Rightarrow> bool" where
  "agg_sim a a' p =
     (\<exists>t. p = (Ok t, core a') \<and> fold merge_chunk (transition_values t) (agg_view a) = agg_view a'
        \<and> agg_wf a' \<and> cc_context a' = cc_context a \<and> cc_limits a' = cc_limits a
        \<and> ca_failed a' = ca_failed a \<and> cc_terminal a' = cc_terminal a
        \<and> (\<forall>v \<in> set (transition_values t). chunk_of a' v)
        \<and> (\<forall>i. cc_response_id a = Some i \<longrightarrow> cc_response_id a' = Some i))"

lemma merge_chunk_delta:
  "merge_chunk (chat_chunk c [chat_choice c d JNull] JNull) s =
     s\<lparr>as_text := as_text s @ str_of (json_get ''content'' d),
       as_tools := fold merge_tool (array_of (json_get ''tool_calls'' d)) (as_tools s)\<rparr>"
  by (cases s) (simp add: merge_chunk_def merge_choice_def Let_def set_value_def)

lemma agg_created_sim:
  assumes "agg_created i a = Ok a'" "agg_wf a"
  shows "agg_sim a a' (chat_created i (core a))"
  using assms
  by (auto simp: agg_created_def agg_sim_def chat_created_def Let_def merge_chunk_delta agg_view_def
      agg_wf_def chat_wf_def chunk_of_def split: if_splits)

lemma delta_allowed_id: "require_delta_allowed c = Ok u \<Longrightarrow> \<exists>i. cc_response_id c = Some i"
  by (auto simp: require_delta_allowed_def require_created_def split: if_splits)

lemma agg_text_sim:
  assumes "agg_text_delta i d a = Ok a'" "agg_wf a"
  shows "agg_sim a a' (chat_text_delta i d (core a))"
proof -
  from assms(1) obtain reg where reg: "require_delta_allowed a = Ok ()"
      "register_text i (cc_limits a) (cc_outputs a) = Ok reg"
    and a': "a' = a\<lparr>cc_outputs := reg, ca_text := ca_text a @ d,
             ca_aggregate_bytes := ca_aggregate_bytes a + length d\<rparr>"
    by (auto simp: agg_text_delta_def)
  obtain r where "cc_response_id a = Some r" using delta_allowed_id [OF reg(1)] by blast
  moreover have "registry_wf (cc_limits a) reg" "reg_tools reg = reg_tools (cc_outputs a)"
    using assms(2) register_text_wf [OF _ reg(2)] by (auto simp: agg_wf_def chat_wf_def)
  ultimately show ?thesis
    using assms(2) reg
    by (auto simp: a' agg_sim_def chat_text_delta_def Let_def merge_chunk_delta agg_view_def agg_wf_def
        chat_wf_def chunk_of_def)
qed

lemma map2_append_one:
  "length xs = length ys \<Longrightarrow> map2 f (xs @ [x]) (ys @ [y]) = map2 f xs ys @ [f x y]"
  by simp

lemma map2_update_right:
  "length xs = length ys \<Longrightarrow> i < length ys \<Longrightarrow> map2 f xs (ys[i := y]) = (map2 f xs ys)[i := f (xs ! i) y]"
  by (simp add: list_eq_iff_nth_eq nth_list_update)

lemma index_of_usize: "i \<le> usize_max \<Longrightarrow> index_of (Some (json_usize i)) = i"
  by (simp add: json_usize_def usize_max_def unat_of_nat)

lemma merge_tool_new:
  assumes "i = length tools" "i \<le> usize_max"
  shows "merge_tool (json_object
      [(''index'', json_usize i), (''id'', JString k), (''type'', JString ''function''),
       (''function'', json_object [(''name'', JString n), (''arguments'', JString d)])]) tools
    = tools @ [(k, n, d)]"
  using assms by (simp add: merge_tool_def tool_of_def index_of_usize Let_def)

lemma merge_tool_more:
  assumes "i < length tools" "i \<le> usize_max" "tools ! i = (k, n, g)"
  shows "merge_tool (json_object
      [(''index'', json_usize i), (''function'', json_object [(''arguments'', JString d)])]) tools
    = tools[i := (k, n, g @ d)]"
  using assms by (simp add: merge_tool_def tool_of_def index_of_usize Let_def)

lemma agg_tool_sim:
  assumes "agg_tool_delta i k n d a = Ok a'" "agg_wf a"
  shows "agg_sim a a' (chat_tool_delta i k n d (core a))"
proof -
  let ?ts = "reg_tools (cc_outputs a)" and ?gs = "ca_arguments a"
  let ?f = "\<lambda>t g. (cti_call_id t, cti_name t, g)"
  from assms(1) obtain j b reg where reg: "require_delta_allowed a = Ok ()"
      "register_tool i k n (cc_limits a) (cc_outputs a) = Ok ((j, b), reg)"
    by (auto simp: agg_tool_delta_def)
  note cases = register_tool_cases [OF reg(2)]
  obtain r where r: "cc_response_id a = Some r" using delta_allowed_id [OF reg(1)] by blast
  have wf: "registry_wf (cc_limits a) (cc_outputs a)" "length ?gs = length ?ts"
      "length ?ts \<le> usize_max"
    using assms(2) by (auto simp: agg_wf_def chat_wf_def registry_wf_def)
  have wf': "registry_wf (cc_limits a) reg" using register_tool_wf [OF wf(1) reg(2)] .
  show ?thesis
  proof (cases b)
    case True
    with cases have j: "j = length ?ts" and tools: "reg_tools reg = ?ts @ [\<lparr>cti_call_id = k, cti_name = n\<rparr>]"
      by auto
    from assms(1) reg True j wf(2) have a': "a' = a\<lparr>cc_outputs := reg, ca_arguments := ?gs @ [d],
        ca_aggregate_bytes := ca_aggregate_bytes a + length d\<rparr>"
      by (auto simp: agg_tool_delta_def list_update_append nth_append split: if_splits)
    have "merge_tool (json_object
        [(''index'', json_usize j), (''id'', JString k), (''type'', JString ''function''),
         (''function'', json_object [(''name'', JString n), (''arguments'', JString d)])]) (map2 ?f ?ts ?gs)
      = map2 ?f (reg_tools reg) (?gs @ [d])"
      using wf j by (subst merge_tool_new) (simp_all add: tools)
    then show ?thesis
      using assms(2) reg r True wf wf' tools
      by (auto simp: a' agg_sim_def chat_tool_delta_def Let_def merge_chunk_delta agg_view_def agg_wf_def
          chat_wf_def chunk_of_def)
  next
    case False
    with cases have j: "j < length ?ts" "reg = cc_outputs a" by auto
    from assms(1) reg False j wf(2) have a': "a' = a\<lparr>cc_outputs := reg, ca_arguments := ?gs[j := ?gs ! j @ d],
        ca_aggregate_bytes := ca_aggregate_bytes a + length d\<rparr>"
      by (auto simp: agg_tool_delta_def)
    have "merge_tool (json_object
        [(''index'', json_usize j), (''function'', json_object [(''arguments'', JString d)])]) (map2 ?f ?ts ?gs)
      = map2 ?f ?ts (?gs[j := ?gs ! j @ d])"
      using wf j
      by (subst merge_tool_more [where k = "cti_call_id (?ts ! j)" and n = "cti_name (?ts ! j)" and g = "?gs ! j"])
         (simp_all add: map2_update_right)
    then show ?thesis
      using assms(2) reg r False j(2)
      by (auto simp: a' agg_sim_def chat_tool_delta_def Let_def merge_chunk_delta agg_view_def agg_wf_def
          chat_wf_def chunk_of_def)
  qed
qed

lemma agg_usage_sim:
  assumes "agg_usage to_vec u a = Ok a'" "agg_wf a"
  shows "agg_sim a a' (chat_usage to_vec u (core a))"
  using assms
  by (auto simp: agg_usage_def agg_sim_def chat_usage_def chat_validate_usage_def usage_value_def Let_def
      agg_view_def agg_wf_def chat_wf_def split: if_splits)

text \<open>One event of a response that is not over.\<close>

lemma agg_transition_sim:
  assumes "agg_transition to_vec ev a = Ok a'" "agg_wf a" "ev \<noteq> Completed" "\<forall>e. ev \<noteq> Failed e"
  shows "agg_sim a a' (chat_transition to_vec ev (core a))"
proof -
  let ?a = "a\<lparr>cc_context_validated := True\<rparr>"
  have live: "\<not> cc_terminal a" using assms(1) by (auto simp: agg_transition_def)
  have sim: "agg_sim ?a b p = agg_sim a b p" for b p
    by (simp add: agg_sim_def agg_view_def)
  have wf: "agg_wf ?a" using assms(2) by (simp add: agg_wf_def chat_wf_def)
  have ok: "validate_context_once to_vec a = (Ok (), ?a)"
    using assms(1) live
    by (cases rule: validate_context_once_cases [of to_vec a]) (simp_all add: agg_transition_def)
  then have "validate_context_once to_vec (core a) = (Ok (), core ?a)"
    by (simp add: core_validate_once)
  with ok live assms wf show ?thesis
    by (cases ev)
       (auto simp: agg_transition_def chat_transition_def sim [symmetric] simp del: core_upd
         intro: agg_created_sim agg_text_sim agg_tool_sim agg_usage_sim)
qed

subsection \<open>Whole streams\<close>

fun encode_chunks :: "(json \<Rightarrow> string) \<Rightarrow> canonical_event list \<Rightarrow> chat_codec \<Rightarrow> string codec_result \<times> chat_codec" where
  "encode_chunks to_vec [] c = (Ok [], c)"
| "encode_chunks to_vec (ev # evs) c =
     st_then (encode_chunk to_vec ev c) (\<lambda>b c1.
       st_then (encode_chunks to_vec evs c1) (\<lambda>bs c2. (Ok (b @ bs), c2)))"

definition frames :: "(json \<Rightarrow> string) \<Rightarrow> json list \<Rightarrow> string" where
  "frames to_vec vs = concat (map (\<lambda>v. encode_sse None (to_vec v)) vs)"

lemma frames_append [simp]: "frames to_vec (vs @ ws) = frames to_vec vs @ frames to_vec ws"
  by (simp add: frames_def)

lemma encode_chunk_Ok:
  "chat_transition to_vec ev c = (Ok t, c') \<Longrightarrow>
     encode_chunk to_vec ev c =
       (Ok (frames to_vec (transition_values t) @ (if cc_terminal c' then sse_done else [])), c')"
  by (simp add: encode_chunk_def frames_def)

text \<open>What a finished stream has told its client.\<close>

definition final_view :: "chat_aggregator \<Rightarrow> assembly" where
  "final_view a =
     (agg_view a)\<lparr>
       as_finish := JString (finish_reason_str (crt_finish_reason (cec_response (cc_context a)))),
       as_usage := if crt_include_usage (cec_response (cc_context a)) then json_option (cc_usage a) else JNull\<rparr>"

definition finished_sim :: "chat_aggregator \<Rightarrow> chat_aggregator \<Rightarrow> json list \<Rightarrow> bool" where
  "finished_sim a b chunks =
     (agg_wf b \<and> cc_context b = cc_context a \<and> (\<forall>i. cc_response_id a = Some i \<longrightarrow> cc_response_id b = Some i) \<and>
      (case ca_failed b of
         Some err \<Rightarrow> chunks \<noteq> [] \<and> last chunks = err
       | None \<Rightarrow> cc_usage b \<noteq> None \<and> fold merge_chunk chunks (agg_view a) = final_view b
           \<and> (\<forall>v \<in> set chunks. chunk_of b v)))"

lemma try_fold_terminal:
  assumes "cc_terminal a" "try_fold (agg_transition to_vec) evs a = Ok b"
  shows "evs = []" "b = a"
  using assms by (cases evs; simp add: agg_transition_def)+

lemma merge_chunk_finish:
  "f \<noteq> JNull \<Longrightarrow> merge_chunk (chat_chunk c [chat_choice c (json_object []) f] JNull) s = s\<lparr>as_finish := f\<rparr>"
  by (cases s) (simp add: merge_chunk_def merge_choice_def Let_def set_value_def)

lemma merge_chunk_usage:
  "u \<noteq> JNull \<Longrightarrow> crt_include_usage (cec_response (cc_context c)) \<Longrightarrow>
     merge_chunk (chat_chunk c [] u) s = s\<lparr>as_usage := u\<rparr>"
  by (cases s) (simp add: merge_chunk_def Let_def set_value_def)

lemma agg_completed_sim:
  assumes "agg_completed a = Ok b" "agg_wf a" "ca_failed a = None"
  shows "\<exists>t. chat_completed (core a) = (Ok t, core b) \<and> cc_terminal b
    \<and> finished_sim a b (transition_values t)"
proof -
  from assms(1) obtain i u where u: "cc_response_id a = Some i" "cc_usage a = Some u"
    and b: "b = a\<lparr>cc_terminal := True\<rparr>"
    by (auto simp: agg_completed_def require_created_def split: if_splits)
  with assms(2) have "u \<noteq> JNull" by (simp add: agg_wf_def)
  with u assms show ?thesis
    by (auto simp: b chat_completed_def require_created_def Let_def finished_sim_def agg_wf_def chat_wf_def
        agg_view_def final_view_def chunk_of_def merge_chunk_finish merge_chunk_usage)
qed

lemma agg_failed_sim:
  assumes "agg_wf a"
  shows "finished_sim a (a\<lparr>ca_failed := Some v, cc_terminal := True\<rparr>) [v]"
  using assms by (simp add: finished_sim_def agg_wf_def chat_wf_def)

lemma agg_transition_failed:
  assumes "agg_transition to_vec ev a = Ok b"
  shows "ca_failed b = (case ev of Failed e \<Rightarrow> Some (error_envelope e) | _ \<Rightarrow> ca_failed a)"
  using assms
  by (cases ev; cases rule: validate_context_once_cases [of to_vec a])
     (auto simp: agg_transition_def agg_created_def agg_text_delta_def agg_tool_delta_def agg_usage_def
       agg_completed_def split: if_splits)

text \<open>The event that ends a response.\<close>

lemma agg_last_sim:
  assumes "agg_transition to_vec ev a = Ok b" "agg_wf a" "ca_failed a = None"
    and "ev = Completed \<or> (\<exists>e. ev = Failed e)"
  shows "\<exists>t. chat_transition to_vec ev (core a) = (Ok t, core b) \<and> cc_terminal b
    \<and> finished_sim a b (transition_values t)"
proof -
  let ?a = "a\<lparr>cc_context_validated := True\<rparr>"
  have live: "\<not> cc_terminal a" using assms(1) by (auto simp: agg_transition_def)
  have ok: "validate_context_once to_vec a = (Ok (), ?a)"
    using assms(1) live
    by (cases rule: validate_context_once_cases [of to_vec a]) (simp_all add: agg_transition_def)
  then have core: "validate_context_once to_vec (core a) = (Ok (), core ?a)"
    by (simp add: core_validate_once)
  have wf: "agg_wf ?a" "ca_failed ?a = None" using assms by (simp_all add: agg_wf_def chat_wf_def)
  have sim: "finished_sim ?a b vs = finished_sim a b vs" for vs
    by (simp add: finished_sim_def agg_view_def split: option.split)
  from assms(4) show ?thesis
  proof
    assume "ev = Completed"
    then show ?thesis
      using assms(1) ok core live agg_completed_sim [OF _ wf, of b]
      by (auto simp: agg_transition_def chat_transition_def sim simp del: core_upd)
  next
    assume "\<exists>e. ev = Failed e"
    then obtain e where "ev = Failed e" by blast
    then show ?thesis
      using assms(1) ok core live agg_failed_sim [OF wf(1), of "error_envelope e"]
      by (auto simp: agg_transition_def chat_transition_def chat_failed_def finished_sim_def)
  qed
qed

lemma agg_run_failed:
  assumes "try_fold (agg_transition to_vec) evs a = Ok b" "ca_failed a = None"
  shows "(\<exists>e. Failed e \<in> set evs) \<longleftrightarrow> ca_failed b \<noteq> None"
  using assms
proof (induction evs arbitrary: a)
  case (Cons ev evs)
  then obtain a1 where a1: "agg_transition to_vec ev a = Ok a1" "try_fold (agg_transition to_vec) evs a1 = Ok b"
    by auto
  show ?case
  proof (cases "\<exists>e. ev = Failed e")
    case True
    with a1(1) have "cc_terminal a1" "ca_failed a1 \<noteq> None"
      by (auto simp: agg_transition_def split: if_splits prod.splits sum.splits)
    with try_fold_terminal [OF _ a1(2)] True show ?thesis by auto
  next
    case False
    with agg_transition_failed [OF a1(1)] Cons.prems(2) have "ca_failed a1 = None"
      by (cases ev) auto
    with Cons.IH [OF a1(2)] False show ?thesis by auto
  qed
qed auto

lemma agg_run_sim:
  assumes "try_fold (agg_transition to_vec) evs a = Ok b" "agg_wf a" "ca_failed a = None"
    and "\<not> cc_terminal a" "cc_terminal b"
  shows "\<exists>chunks. encode_chunks to_vec evs (core a) = (Ok (frames to_vec chunks @ sse_done), core b)
    \<and> finished_sim a b chunks"
  using assms
proof (induction evs arbitrary: a)
  case (Cons ev evs)
  then obtain a1 where a1: "agg_transition to_vec ev a = Ok a1" "try_fold (agg_transition to_vec) evs a1 = Ok b"
    by auto
  show ?case
  proof (cases "ev = Completed \<or> (\<exists>e. ev = Failed e)")
    case True
    then obtain t where t: "chat_transition to_vec ev (core a) = (Ok t, core a1)" "cc_terminal a1"
        "finished_sim a a1 (transition_values t)"
      using agg_last_sim [OF a1(1) Cons.prems(2,3)] by blast
    moreover have "evs = []" "b = a1" using try_fold_terminal [OF t(2) a1(2)] by auto
    ultimately show ?thesis
      by (intro exI [of _ "transition_values t"]) (simp add: encode_chunk_Ok)
  next
    case False
    then obtain t where t: "chat_transition to_vec ev (core a) = (Ok t, core a1)"
        "fold merge_chunk (transition_values t) (agg_view a) = agg_view a1" "agg_wf a1"
        "cc_context a1 = cc_context a" "ca_failed a1 = ca_failed a" "cc_terminal a1 = cc_terminal a"
        "\<forall>v \<in> set (transition_values t). chunk_of a1 v"
        "\<And>i. cc_response_id a = Some i \<Longrightarrow> cc_response_id a1 = Some i"
      using agg_transition_sim [OF a1(1) Cons.prems(2)] unfolding agg_sim_def by blast
    with Cons.IH [OF a1(2)] Cons.prems obtain chunks where c:
        "encode_chunks to_vec evs (core a1) = (Ok (frames to_vec chunks @ sse_done), core b)"
        "finished_sim a1 b chunks"
      by auto
    have "chunk_of b v" if "v \<in> set (transition_values t)" "ca_failed b = None" for v
      using t(7) that c(2) by (auto simp: chunk_of_def finished_sim_def)
    then have "finished_sim a b (transition_values t @ chunks)"
      using c(2) t by (auto simp: finished_sim_def split: option.splits)
    moreover have "encode_chunks to_vec (ev # evs) (core a) =
        (Ok (frames to_vec (transition_values t @ chunks) @ sse_done), core b)"
      using c(1) t(1,6) Cons.prems(4) by (simp add: encode_chunk_Ok)
    ultimately show ?thesis by blast
  qed
qed simp

subsection \<open>The codec accepts no more than the aggregator\<close>

fun payload :: "canonical_event \<Rightarrow> nat" where
  "payload (OutputTextDelta _ d) = length d"
| "payload (ToolCallDelta _ _ _ d) = length d"
| "payload _ = 0"

definition fits :: "nat \<Rightarrow> chat_aggregator \<Rightarrow> bool" where
  "fits n a =
     (ca_aggregate_bytes a + n \<le> max_aggregate_bytes (cc_limits a) \<and> max_aggregate_bytes (cc_limits a) \<le> usize_max)"

lemma fits_capacity: "fits n a \<Longrightarrow> ensure_payload_capacity n a = Ok ()"
  by (simp add: fits_def ensure_payload_capacity_def)

lemma agg_text_accepts:
  assumes "chat_text_delta i d (core a) = (Ok t, c)" "fits (length d) a"
  shows "\<exists>b. agg_text_delta i d a = Ok b \<and> ca_aggregate_bytes b = ca_aggregate_bytes a + length d"
  using assms(1) fits_capacity [OF assms(2)]
  by (auto simp: chat_text_delta_def agg_text_delta_def split: sum.splits)

lemma agg_tool_accepts:
  assumes "chat_tool_delta i k n d (core a) = (Ok t, c)" "fits (length d) a" "agg_wf a"
  shows "\<exists>b. agg_tool_delta i k n d a = Ok b \<and> ca_aggregate_bytes b = ca_aggregate_bytes a + length d"
proof -
  from assms(1) obtain j b reg where reg: "require_delta_allowed a = Ok ()"
      "register_tool i k n (cc_limits a) (cc_outputs a) = Ok ((j, b), reg)"
    by (auto simp: chat_tool_delta_def split: sum.splits)
  with fits_capacity [OF assms(2)] assms(3) register_tool_cases [OF reg(2)] show ?thesis
    by (cases b) (auto simp: agg_tool_delta_def agg_wf_def chat_wf_def registry_wf_def)
qed

lemma agg_accepts:
  assumes "chat_transition to_vec ev (core a) = (Ok t, c)" "fits (payload ev) a" "agg_wf a"
  shows "\<exists>b. agg_transition to_vec ev a = Ok b \<and> ca_aggregate_bytes b = ca_aggregate_bytes a + payload ev"
proof -
  let ?a = "a\<lparr>cc_context_validated := True\<rparr>"
  have live: "\<not> cc_terminal a" using assms(1) by (auto simp: chat_transition_def)
  have ok: "validate_context_once to_vec a = (Ok (), ?a)"
    using assms(1) live
    by (cases rule: validate_context_once_cases [of to_vec a])
       (simp_all add: chat_transition_def core_validate_once)
  then have core: "validate_context_once to_vec (core a) = (Ok (), core ?a)"
    by (simp add: core_validate_once)
  have "fits n ?a = fits n a" for n by (simp add: fits_def)
  moreover have "agg_wf ?a" using assms(3) by (simp add: agg_wf_def chat_wf_def)
  ultimately show ?thesis
    using assms live ok core agg_text_accepts [of _ _ ?a t c] agg_tool_accepts [of _ _ _ _ ?a t c]
    by (cases ev)
       (auto simp: agg_transition_def chat_transition_def agg_created_def chat_created_def agg_usage_def
         chat_usage_def agg_completed_def chat_completed_def simp del: core_upd
         split: sum.splits if_splits)
qed

lemma agg_run_accepts:
  assumes "encode_chunks to_vec evs (core a) = (Ok bs, c)" "fits (sum_list (map payload evs)) a" "agg_wf a"
    and "ca_failed a = None" "\<not> cc_terminal a"
  shows "\<exists>b. try_fold (agg_transition to_vec) evs a = Ok b \<and> core b = c"
  using assms
proof (induction evs arbitrary: a bs)
  case (Cons ev evs)
  then obtain t c1 bs1 where t: "chat_transition to_vec ev (core a) = (Ok t, c1)"
    and rest: "encode_chunks to_vec evs c1 = (Ok bs1, c)"
    by (auto simp: st_then_eq_Ok encode_chunk_def)
  have "fits (payload ev) a" using Cons.prems(2) by (simp add: fits_def)
  then obtain a1 where a1: "agg_transition to_vec ev a = Ok a1"
      "ca_aggregate_bytes a1 = ca_aggregate_bytes a + payload ev"
    using agg_accepts [OF t _ Cons.prems(3)] by blast
  show ?case
  proof (cases "ev = Completed \<or> (\<exists>e. ev = Failed e)")
    case True
    then have last: "c1 = core a1" "cc_terminal a1"
      using agg_last_sim [OF a1(1) Cons.prems(3,4)] t by auto
    with rest have "evs = []"
      by (cases evs) (auto simp: encode_chunk_def chat_transition_def)
    with last rest a1(1) show ?thesis by simp
  next
    case False
    then have "agg_sim a a1 (Ok t, c1)"
      using agg_transition_sim [OF a1(1) Cons.prems(3)] t by simp
    then have "c1 = core a1" "agg_wf a1" "ca_failed a1 = None" "\<not> cc_terminal a1" "cc_limits a1 = cc_limits a"
      using Cons.prems(4,5) by (auto simp: agg_sim_def)
    with Cons.IH [of a1 bs1] rest a1 Cons.prems(2) show ?thesis by (simp add: fits_def add.assoc)
  qed
qed auto

subsection \<open>The aggregator does not panic\<close>

lemma agg_tool_no_panic:
  assumes "agg_wf a"
  shows "agg_tool_delta i k n d a \<noteq> Err Panic"
proof
  assume "agg_tool_delta i k n d a = Err Panic"
  moreover have "register_tool i k n (cc_limits a) (cc_outputs a) \<noteq> Err Panic"
    using assms by (simp add: agg_wf_def chat_wf_def register_tool_no_panic)
  ultimately obtain j b reg where reg: "register_tool i k n (cc_limits a) (cc_outputs a) = Ok ((j, b), reg)"
      "length (ca_arguments a) + (if b then 1 else 0) \<le> j"
    by (auto simp: agg_tool_delta_def and_then_eq_Err ensure_payload_capacity_def split: if_splits)
  with register_tool_cases [OF reg(1)] assms show False by (auto simp: agg_wf_def)
qed

lemma agg_transition_no_panic:
  assumes "agg_wf a"
  shows "agg_transition to_vec ev a \<noteq> Err Panic"
proof -
  have "agg_wf (a\<lparr>cc_context_validated := True\<rparr>)" using assms by (simp add: agg_wf_def chat_wf_def)
  then show ?thesis
    using agg_tool_no_panic
    by (cases ev; cases rule: validate_context_once_cases [of to_vec a])
       (auto simp: agg_transition_def agg_created_def agg_text_delta_def agg_usage_def agg_completed_def
         ensure_payload_capacity_def and_then_eq_Err split: if_splits)
qed

lemma agg_run_no_panic:
  assumes "agg_wf a" "ca_failed a = None"
  shows "try_fold (agg_transition to_vec) evs a \<noteq> Err Panic"
  using assms
proof (induction evs arbitrary: a)
  case (Cons ev evs)
  show ?case
  proof (cases "agg_transition to_vec ev a")
    case (Inl e)
    then show ?thesis using agg_transition_no_panic [OF Cons.prems(1), of to_vec ev] by auto
  next
    case (Inr b)
    show ?thesis
    proof (cases "ev = Completed \<or> (\<exists>e. ev = Failed e)")
      case True
      then have "cc_terminal b" using agg_last_sim [OF Inr Cons.prems] by blast
      then show ?thesis using Inr by (cases evs) (simp_all add: agg_transition_def [where ?a0.0 = b])
    next
      case False
      then have "agg_wf b" "ca_failed b = None"
        using agg_transition_sim [OF Inr Cons.prems(1)] Cons.prems(2) by (auto simp: agg_sim_def)
      with Cons.IH [of b] Inr show ?thesis by simp
    qed
  qed
qed simp

subsection \<open>Properties\<close>

lemma read_completion_response:
  assumes "agg_wf b" "crt_include_usage (cec_response (cc_context b))" "cc_usage b = Some u"
  shows "read_completion (response_value u b) = final_view b"
  using assms
  by (auto simp: read_completion_def response_value_def Let_def map_add_def final_view_def agg_view_def
      tool_of_def agg_wf_def)

lemma aggregator_start:
  "agg_wf (aggregator_with_limits ctx chat_limits_default)"
  "ca_failed (aggregator_with_limits ctx chat_limits_default) = None"
  "\<not> cc_terminal (aggregator_with_limits ctx chat_limits_default)"
  "agg_view (aggregator_with_limits ctx chat_limits_default) =
     \<lparr>as_text = [], as_tools = [], as_finish = JNull, as_usage = JNull\<rparr>"
  "cc_context (aggregator_with_limits ctx chat_limits_default) = ctx"
  by (simp_all add: agg_wf_def agg_view_def aggregator_with_limits_def chat_with_limits_def chat_codec.defs
      chat_wf_def chat_limits_default_def usize_max_def)

definition demo_context :: chat_encode_context where
  "demo_context =
     \<lparr>cec_model = ''m'', cec_created = 7,
      cec_response = \<lparr>crt_choice_index = 0, crt_finish_reason = FinishToolCalls, crt_logprobs = None,
        crt_include_usage = True, crt_extra = []\<rparr>\<rparr>"

definition demo_usage :: usage where
  "demo_usage =
     \<lparr>us_input_tokens = 3, us_output_tokens = 4, us_cached_input_tokens = None, us_reasoning_tokens = None,
      us_extensions = []\<rparr>"

definition demo_events :: "canonical_event list" where
  "demo_events =
     [Created ''r'', OutputTextDelta ''t'' ''hi'', ToolCallDelta ''x'' ''c'' ''f'' ''[1'',
      ToolCallDelta ''x'' ''c'' ''f'' '', 2]'', UsageEvent demo_usage, Completed]"

lemmas chat_eval = chat_validate_context_def chat_validate_identifier_def validate_string_map_def
  validate_serialized_def try_for_each_def chat_limits_default_def chat_with_limits_def
  validate_context_once_def require_created_def require_delta_allowed_def register_text_def
  register_tool_def valid_chat_function_name_def bt_get_def chat_validate_usage_def

lemmas agg_eval = encode_response_def agg_encode_def agg_transition_def agg_created_def agg_text_delta_def
  agg_tool_delta_def agg_usage_def agg_completed_def ensure_payload_capacity_def aggregator_with_limits_def
  chat_codec.defs

lemma demo_response:
  "\<exists>v. encode_response (\<lambda>_. ''{}'') demo_context demo_events = Ok v
     \<and> as_text (read_completion v) = ''hi''
     \<and> as_tools (read_completion v) = [(''c'', ''f'', ''[1, 2]'')]"
  by (simp add: demo_events_def demo_context_def demo_usage_def agg_eval chat_eval usize_max_def
      read_completion_def response_value_def Let_def tool_of_def filtered_extra_def str_eval
      is_ascii_alphanumeric_def is_ascii_digit_def is_ascii_lowercase_def)

lemma chat_stream_assembles:
  assumes "encode_response to_vec ctx events = Ok v" and "crt_include_usage (cec_response ctx)"
  shows "\<exists>chunks c. encode_chunks to_vec events (chat_codec_new ctx) = (Ok (frames to_vec chunks @ sse_done), c)
    \<and> (if \<exists>e. Failed e \<in> set events then chunks \<noteq> [] \<and> last chunks = v
       else assemble chunks = read_completion v \<and> (\<forall>w \<in> set chunks. same_response w v))"
proof -
  let ?a = "aggregator_with_limits ctx chat_limits_default"
  from assms(1) obtain b where b: "try_fold (agg_transition to_vec) events ?a = Ok b" "cc_terminal b"
    and v: "case ca_failed b of Some e \<Rightarrow> v = e | None \<Rightarrow> \<exists>u. cc_usage b = Some u \<and> v = response_value u b"
    by (auto simp: encode_response_def agg_encode_def split: if_splits option.splits)
  obtain chunks where c: "encode_chunks to_vec events (core ?a) = (Ok (frames to_vec chunks @ sse_done), core b)"
      "finished_sim ?a b chunks"
    using agg_run_sim [OF b(1) aggregator_start(1,2,3) b(2)] by blast
  have failed: "(\<exists>e. Failed e \<in> set events) \<longleftrightarrow> ca_failed b \<noteq> None"
    by (rule agg_run_failed [OF b(1) aggregator_start(2)])
  show ?thesis
  proof (intro exI conjI)
    show "encode_chunks to_vec events (chat_codec_new ctx) = (Ok (frames to_vec chunks @ sse_done), core b)"
      using c(1) by (simp add: chat_codec_new_def)
    show "if \<exists>e. Failed e \<in> set events then chunks \<noteq> [] \<and> last chunks = v
       else assemble chunks = read_completion v \<and> (\<forall>w \<in> set chunks. same_response w v)"
      using c(2) v failed assms(2)
      by (auto simp: finished_sim_def assemble_def aggregator_start read_completion_response same_response_def
          chunk_of_def split: option.splits)
  qed
qed

text \<open>
  Streaming and collecting agree. Whenever \<open>encode_response\<close> turns a list of events into one
  completion, the streaming codec accepts the same events and sends a sequence of chunks closed by
  one \<open>[DONE]\<close>. If the response failed, the last chunk is the error the completion call returns.
  Otherwise a client that joins the chunks (text, tool calls by index, finish reason, usage) has
  exactly what the completion says, and every chunk carries the identifier, time and model of it.
\<close>

lemma chat_stream_equals_response:
  assumes "encode_response to_vec ctx events = Ok v" and "crt_include_usage (cec_response ctx)"
  shows "\<exists>chunks c. encode_chunks to_vec events (chat_codec_new ctx) = (Ok (frames to_vec chunks @ sse_done), c)
    \<and> (if \<exists>e. Failed e \<in> set events then chunks \<noteq> [] \<and> last chunks = v
       else assemble chunks = read_completion v \<and> (\<forall>w \<in> set chunks. same_response w v))"
  using assms by (rule chat_stream_assembles)

text \<open>
  The two encoders accept the same responses: within the limit on collected payload, a
  completion can be built exactly when the stream of the same events runs to its end.
\<close>

lemma chat_response_iff_stream:
  assumes "sum_list (map payload events) \<le> max_aggregate_bytes chat_limits_default"
  shows "(\<exists>v. encode_response to_vec ctx events = Ok v) \<longleftrightarrow>
    (\<exists>bytes c. encode_chunks to_vec events (chat_codec_new ctx) = (Ok bytes, c) \<and> cc_terminal c)"
proof -
  let ?a = "aggregator_with_limits ctx chat_limits_default"
  have fits: "fits (sum_list (map payload events)) ?a"
    using assms by (simp add: fits_def aggregator_with_limits_def chat_with_limits_def chat_codec.defs
        chat_limits_default_def usize_max_def)
  have "\<exists>v. encode_response to_vec ctx events = Ok v"
    if run: "encode_chunks to_vec events (chat_codec_new ctx) = (Ok bytes, c)" "cc_terminal c" for bytes c
  proof -
    obtain b where b: "try_fold (agg_transition to_vec) events ?a = Ok b" "core b = c"
      using agg_run_accepts [of to_vec events ?a bytes c] run fits aggregator_start
      by (auto simp: chat_codec_new_def)
    moreover have "cc_terminal b" using b(2) run(2) core_sel(4) [of b] by simp
    moreover from this obtain chunks where "finished_sim ?a b chunks"
      using agg_run_sim [OF b(1) aggregator_start(1,2,3)] by blast
    ultimately show ?thesis
      by (auto simp: encode_response_def agg_encode_def finished_sim_def split: option.splits)
  qed
  moreover have "\<exists>bytes c. encode_chunks to_vec events (chat_codec_new ctx) = (Ok bytes, c) \<and> cc_terminal c"
    if "encode_response to_vec ctx events = Ok v" for v
  proof -
    from that obtain b where b: "try_fold (agg_transition to_vec) events ?a = Ok b" "cc_terminal b"
      by (auto simp: encode_response_def agg_encode_def split: if_splits)
    with agg_run_sim [OF b(1) aggregator_start(1,2,3) b(2)] show ?thesis
      by (auto simp: chat_codec_new_def)
  qed
  ultimately show ?thesis by blast
qed

lemma encode_response_no_panic: "encode_response to_vec ctx events \<noteq> Err Panic"
  using agg_run_no_panic [OF aggregator_start(1,2)]
  by (auto simp: encode_response_def agg_encode_def and_then_eq_Err ok_or_def split: if_splits option.splits)

text \<open>
  C38. Type safety of the encoders. Whatever events a codec is given, in any order and also after
  errors, its registry stays well-formed (bounded, with distinct call identifiers, valid function
  names and tool indices in range) and no call panics; collecting the same events does not panic
  either.
\<close>

theorem chat_never_panics:
  "let c = exec (\<lambda>c ev. snd (encode_chunk to_vec ev c)) (chat_codec_new ctx) events
   in registry_wf (cc_limits c) (cc_outputs c) \<and> fst (encode_chunk to_vec ev c) \<noteq> Err Panic
      \<and> encode_response to_vec ctx events \<noteq> Err Panic"
proof -
  let ?c = "exec (\<lambda>c ev. snd (encode_chunk to_vec ev c)) (chat_codec_new ctx) events"
  have wf: "chat_wf ?c" by (rule chat_machine.inv_exec) (simp add: chat_codec_new_def)
  then have "fst (encode_chunk to_vec ev ?c) \<noteq> Err Panic"
    using encode_chunk_keeps [OF wf] by (simp add: chat_keeps_def)
  then show ?thesis using wf encode_response_no_panic by (simp add: chat_wf_def Let_def)
qed

end
