(* ===== verification/Chat_Stream.thy ===== *)
theory Chat_Stream
  imports Client_Stream Chat_Facts
begin

text \<open>
  Streamed responses for clients of Chat Completions: the codec of
  \<open>crates/wokcore-server/src/data_plane/chat.rs\<close> as an instance of the locale \<open>client_codec\<close>, and what
  its streams guarantee.
\<close>

subsection \<open>The Chat Completions codec of a stream\<close>

fun chat_finish_reason_of :: "upstream_finish_reason \<Rightarrow> chat_finish_reason" where
  "chat_finish_reason_of UpStop = FinishStop"
| "chat_finish_reason_of UpPauseTurn = FinishStop"
| "chat_finish_reason_of UpRefusal = FinishStop"
| "chat_finish_reason_of UpLength = FinishLength"
| "chat_finish_reason_of UpModelContextWindowExceeded = FinishLength"
| "chat_finish_reason_of UpToolCalls = FinishToolCalls"
| "chat_finish_reason_of UpContentFilter = FinishContentFilter"
| "chat_finish_reason_of UpFunctionCall = FinishFunctionCall"

definition chat_stream_codec :: "string \<Rightarrow> u64 \<Rightarrow> upstream_finish_reason \<Rightarrow> chat_codec" where
  "chat_stream_codec public_model created_at reason =
     chat_codec_new
       \<lparr>cec_model = public_model, cec_created = created_at,
        cec_response = \<lparr>crt_choice_index = 0, crt_finish_reason = chat_finish_reason_of reason,
          crt_logprobs = None, crt_include_usage = True, crt_extra = []\<rparr>\<rparr>"

lemma encode_chunks_feed: "encode_chunks to_vec evs c = feed (encode_chunk to_vec) evs c"
  by (induction evs arbitrary: c) simp_all

lemma agg_transition_open:
  assumes "agg_transition to_vec ev a = Ok b" "event_outcome ev = None"
  shows "\<not> cc_terminal b"
  using assms
  by (cases ev; cases rule: validate_context_once_cases [of to_vec a])
     (auto simp: agg_transition_def agg_created_def agg_text_delta_def agg_tool_delta_def agg_usage_def
       event_outcome_def split: if_splits)

lemma encode_response_ends:
  assumes "encode_response to_vec ctx events = Ok v"
  shows "ends events"
proof -
  let ?a = "aggregator_with_limits ctx chat_limits_default"
  from assms obtain b where b: "try_fold (agg_transition to_vec) events ?a = Ok b" "cc_terminal b"
    by (auto simp: encode_response_def agg_encode_def split: if_splits option.splits)
  show ?thesis
  proof (cases events rule: rev_cases)
    case Nil
    with b aggregator_start(3) show ?thesis by (metis Inr_inject try_fold.simps(1))
  next
    case (snoc xs x)
    with b(1) obtain a where "agg_transition to_vec x a = Ok b" by auto
    from agg_transition_open [OF this] b(2) snoc show ?thesis by (auto simp: ends_def)
  qed
qed

subsection \<open>The Chat Completions codec keeps the contract\<close>

definition chat_live :: "(json \<Rightarrow> string) \<Rightarrow> chat_codec \<Rightarrow> bool" where
  "chat_live to_vec c =
     (chat_wf c \<and> \<not> cc_terminal c
      \<and> (cc_context_validated c \<or> chat_validate_context to_vec (cc_limits c) (cc_context c) = Ok ()))"

definition chat_good :: "(json \<Rightarrow> string) \<Rightarrow> string \<Rightarrow> chat_codec \<Rightarrow> bool" where
  "chat_good to_vec out c = (chat_live to_vec c \<and> (\<exists>vs. out = frames to_vec vs))"

definition chat_closed :: "(json \<Rightarrow> string) \<Rightarrow> string \<Rightarrow> bool" where
  "chat_closed to_vec out = (\<exists>vs. out = frames to_vec vs @ sse_done)"

lemma chat_live_validated:
  assumes "chat_live to_vec c"
  shows "validate_context_once to_vec c = (Ok (), c\<lparr>cc_context_validated := True\<rparr>)"
  using assms
  by (cases "cc_context_validated c") (auto simp: chat_live_def validate_context_once_def)

lemma chat_transition_live:
  assumes "chat_live to_vec c" "chat_transition to_vec ev c = (r, c')"
  shows "cc_context_validated c'" "\<not> is_ok r \<Longrightarrow> \<not> cc_terminal c'"
    "is_ok r \<Longrightarrow> cc_terminal c' \<longleftrightarrow> event_outcome ev \<noteq> None"
proof -
  have live: "\<not> cc_terminal c" using assms(1) by (simp add: chat_live_def)
  have "cc_context_validated c' \<and> (\<not> is_ok r \<longrightarrow> \<not> cc_terminal c')
    \<and> (is_ok r \<longrightarrow> cc_terminal c' = (event_outcome ev \<noteq> None))"
    using assms(2) live chat_live_validated [OF assms(1)]
    by (cases ev)
       (auto simp: chat_transition_def chat_created_def chat_text_delta_def chat_tool_delta_def chat_usage_def
         chat_completed_def chat_failed_def event_outcome_def Let_def split: if_splits sum.splits prod.splits)
  then show "cc_context_validated c'" "\<not> is_ok r \<Longrightarrow> \<not> cc_terminal c'"
    "is_ok r \<Longrightarrow> cc_terminal c' \<longleftrightarrow> event_outcome ev \<noteq> None" by auto
qed

lemma chat_encode_live:
  assumes "chat_live to_vec c" "encode_chunk to_vec ev c = (r, c')"
  shows "\<not> is_ok r \<or> event_outcome ev = None \<Longrightarrow> chat_live to_vec c'"
    "r = Ok b \<Longrightarrow> event_outcome ev = None \<Longrightarrow> \<exists>vs. b = frames to_vec vs"
    "r = Ok b \<Longrightarrow> event_outcome ev \<noteq> None \<Longrightarrow> \<exists>vs. b = frames to_vec vs @ sse_done"
proof -
  obtain t where t: "chat_transition to_vec ev c = (t, c')"
    using assms(2) by (cases "chat_transition to_vec ev c"; cases "fst (chat_transition to_vec ev c)")
      (auto simp: encode_chunk_def)
  have ok: "is_ok r = is_ok t" using assms(2) t by (cases t) (auto simp: encode_chunk_def)
  have wf: "chat_wf c'"
    using chat_transition_keeps [of c to_vec ev] assms(1) t by (simp add: chat_live_def chat_keeps_def)
  note facts = chat_transition_live [OF assms(1) t]
  show "\<not> is_ok r \<or> event_outcome ev = None \<Longrightarrow> chat_live to_vec c'"
    using facts wf ok by (auto simp: chat_live_def)
  show "r = Ok b \<Longrightarrow> event_outcome ev = None \<Longrightarrow> \<exists>vs. b = frames to_vec vs"
    and "r = Ok b \<Longrightarrow> event_outcome ev \<noteq> None \<Longrightarrow> \<exists>vs. b = frames to_vec vs @ sse_done"
    using assms(2) t facts(3)
    by (cases t; auto simp: encode_chunk_def frames_def)+
qed

lemma chat_good_start: "chat_live to_vec c \<Longrightarrow> chat_good to_vec [] c"
  unfolding chat_good_def by (intro conjI exI [of _ "[]"]) (simp_all add: frames_def)

lemma chat_encode_over:
  assumes "chat_live to_vec c" "encode_chunk to_vec ev c = (Ok b, c')" "event_outcome ev \<noteq> None"
  shows "\<not> is_ok (fst (encode_chunk to_vec ev' c'))"
proof -
  obtain t where "chat_transition to_vec ev c = (Ok t, c')"
    using assms(2) by (auto simp: encode_chunk_def st_then_eq_Ok)
  then have "cc_terminal c'" using chat_transition_live(3) [OF assms(1)] assms(3) by simp
  then show ?thesis by (simp add: encode_chunk_def chat_transition_def)
qed

interpretation chat_client: client_codec "encode_chunk to_vec" "chat_good to_vec" "chat_good to_vec"
  "chat_closed to_vec" for to_vec
proof (unfold_locales, goal_cases)
  case (1 out c ev)
  then show ?case
    using encode_chunk_keeps [of c to_vec ev] by (simp add: chat_good_def chat_live_def chat_keeps_def)
next
  case (2 out c ev e c')
  then have "chat_live to_vec c'" using chat_encode_live(1) [of to_vec c ev "Err e"] by (simp add: chat_good_def)
  with 2 show ?case by (simp add: chat_good_def)
next
  case (3 out c ev b c')
  then obtain vs where c: "chat_live to_vec c" "out = frames to_vec vs" by (auto simp: chat_good_def)
  obtain ws where "b = frames to_vec ws" using chat_encode_live(2) [OF c(1) 3(2) refl 3(3)] by blast
  with c(2) have "out @ b = frames to_vec (vs @ ws)" by simp
  moreover have "chat_live to_vec c'" using chat_encode_live(1) [OF c(1) 3(2)] 3(3) by simp
  ultimately show ?case unfolding chat_good_def by blast
next
  case (4 out c ev b c')
  then obtain vs where c: "chat_live to_vec c" "out = frames to_vec vs" by (auto simp: chat_good_def)
  obtain ws where b: "b = frames to_vec ws @ sse_done" using chat_encode_live(3) [OF c(1) 4(2) refl 4(3)] by blast
  with c(2) have "out @ b = frames to_vec (vs @ ws) @ sse_done" by simp
  moreover have "b \<noteq> []" by (simp add: b sse_done_def)
  ultimately show ?case unfolding chat_closed_def by blast
next
  case (5 out c ev b c' ev')
  then show ?case using chat_encode_over by (auto simp: chat_good_def)
next
  case (6 out c)
  then show ?case .
next
  case (7 out c error)
  then obtain vs where c: "chat_live to_vec c" "out = frames to_vec vs" by (auto simp: chat_good_def)
  then obtain b c' where b: "encode_chunk to_vec (Failed error) c = (Ok b, c')"
    using chat_live_validated [OF c(1)]
    by (auto simp: encode_chunk_def chat_transition_def chat_live_def chat_failed_def)
  then obtain ws where "b = frames to_vec ws @ sse_done"
    using chat_encode_live(3) [OF c(1) b] by (auto simp: event_outcome_def)
  then have "b \<noteq> [] \<and> out @ b = frames to_vec (vs @ ws) @ sse_done" using c by (simp add: sse_done_def)
  with b show ?case unfolding chat_closed_def by blast
qed

subsection \<open>Properties\<close>

text \<open>What the gateway and the serialiser guarantee of the public model of a request.\<close>

definition servable :: "(json \<Rightarrow> string) \<Rightarrow> string \<Rightarrow> bool" where
  "servable to_vec public_model =
     (public_model \<noteq> [] \<and> length public_model \<le> 512 \<and> length (to_vec JNull) \<le> 1048576
      \<and> length (to_vec (JObject [])) \<le> 1048576)"

lemma chat_stream_codec_live: "servable to_vec public_model \<Longrightarrow> chat_live to_vec (chat_stream_codec public_model created_at reason)"
  by (simp add: servable_def chat_live_def chat_stream_codec_def chat_codec_new_def chat_with_limits_def chat_wf_def
      chat_validate_context_def chat_validate_identifier_def validate_string_map_def validate_serialized_def
      try_for_each_def chat_limits_default_def json_option_def)

lemmas chat_run_inv =
  chat_client.run_client_inv [OF chat_client.run_inv_start [OF chat_good_start [OF chat_stream_codec_live]]]

text \<open>
  A streamed chat response is always well formed. Whatever the upstream delivers (events in any
  order, failures, a dropped sender) and however the polls interleave with it, the stream neither
  panics nor spins. Until it finishes, the client has received whole frames only; when it finishes
  and the request was not cancelled, they are followed by exactly one \<open>[DONE]\<close>; and after that
  nothing more is sent.
\<close>

lemma chat_client_stream_well_formed:
  assumes "servable to_vec public_model"
    and "run_client (encode_chunk to_vec) ins (stream_start (chat_stream_codec public_model created_at reason) first) = (ps, s)"
  shows "PollPanic \<notin> set ps \<and> PollDiverges \<notin> set ps
    \<and> (\<not> cs_finished s \<longrightarrow> (\<exists>vs. sent ps = frames to_vec vs))
    \<and> (cs_finished s \<and> CancelRequest \<notin> set ins \<longrightarrow> (\<exists>vs. sent ps = frames to_vec vs @ sse_done))
    \<and> (cs_finished s \<longrightarrow> (\<forall>more. sent (fst (run_client (encode_chunk to_vec) more s)) = []))"
  using chat_run_inv [OF assms] run_finished_silent
  by (auto simp: chat_client.run_inv_def chat_client.open_stream_def chat_good_def chat_closed_def split: if_splits)

definition demo_inputs :: "stream_input list" where
  "demo_inputs =
     [PollOnce, Arrive (ItemEvent (OutputTextDelta ''t'' ''hi'')), PollOnce, PollOnce, CloseSender, PollOnce]"

lemma demo_run:
  "cs_finished (snd (run_client (encode_chunk (\<lambda>_. ''{}'')) demo_inputs
     (stream_start (chat_stream_codec ''m'' 7 UpStop) (Created ''r''))))"
  by (simp add: demo_inputs_def stream_start_def chat_stream_codec_def chat_codec_new_def poll_next_def
      handle_item_def stream_encode_event_def encode_chunk_def chat_transition_def chat_eval
      chat_created_def chat_text_delta_def chat_failed_def emit_protocol_error_def emit_error_def event_outcome_def
      stream_finish_def observe_bytes_def encode_sse_def sse_done_def Let_def)

text \<open>
  Every streamed chat response ends. Once the upstream has dropped its sender, at most two polls
  more than there are queued items finish the stream, whatever happened before.
\<close>

lemma chat_client_stream_ends:
  assumes "servable to_vec public_model"
    and "run_client (encode_chunk to_vec) ins (stream_start (chat_stream_codec public_model created_at reason) first) = (ps, s)"
    and "CloseSender \<in> set ins"
  shows "cs_finished (snd (run_client (encode_chunk to_vec) (replicate (length (cs_queue s) + 2) PollOnce) s))"
proof (rule chat_client.polls_finish)
  show "chat_client.run_inv to_vec (CancelRequest \<in> set ins) ([] @ sent ps) s"
    using chat_run_inv [OF assms(1,2)] by simp
  show "cs_closed s" using run_client_closed [OF assms(2)] assms(3) by blast
  show "chat_client.pending s < length (cs_queue s) + 2" by (simp add: chat_client.pending_def)
qed

end
