(* ===== verification/Anthropic_Codec.thy ===== *)
theory Anthropic_Codec
  imports Canonical Sse
begin

text \<open>
  Encoding canonical events for clients of Anthropic Messages,
  \<open>crates/wokcore-protocols/src/outbound/anthropic.rs\<close>: the streaming \<open>AnthropicCodec\<close>, which opens and
  closes content blocks, and \<open>AnthropicResponseAggregator\<close>. A method on \<open>&mut self\<close> returns the codec
  also on an error, with what it has changed until then. A \<open>BTreeSet\<close>, of which only \<open>len\<close>,
  \<open>contains\<close> and \<open>insert\<close> are used, is a list without duplicates. \<open>to_vec\<close> and \<open>from_str\<close> are the
  serialiser and the parser of \<open>serde_json\<close>.
\<close>

subsection \<open>Data\<close>

datatype anthropic_stop_reason =
    StopEndTurn | StopMaxTokens | StopStopSequence | StopToolUse | StopPauseTurn | StopRefusal
  | StopModelContextWindowExceeded

fun stop_reason_str :: "anthropic_stop_reason \<Rightarrow> string" where
  "stop_reason_str StopEndTurn = ''end_turn''"
| "stop_reason_str StopMaxTokens = ''max_tokens''"
| "stop_reason_str StopStopSequence = ''stop_sequence''"
| "stop_reason_str StopToolUse = ''tool_use''"
| "stop_reason_str StopPauseTurn = ''pause_turn''"
| "stop_reason_str StopRefusal = ''refusal''"
| "stop_reason_str StopModelContextWindowExceeded = ''model_context_window_exceeded''"

record anthropic_response_template =
  art_stop_reason :: anthropic_stop_reason
  art_stop_sequence :: "string option"
  art_thinking_signatures :: "(string, string) btree"
  art_extra :: "(string, json) btree"

record anthropic_encode_context =
  aec_request_id :: string
  aec_model :: string
  aec_initial_usage :: usage
  aec_response :: anthropic_response_template

record anthropic_limits =
  al_max_output_items :: nat
  al_max_identifier_bytes :: nat
  al_max_opaque_payload_bytes :: nat
  al_max_value_bytes :: nat
  al_max_aggregate_bytes :: nat

definition anthropic_limits_default :: anthropic_limits where
  "anthropic_limits_default =
     \<lparr>al_max_output_items = 4096, al_max_identifier_bytes = 512, al_max_opaque_payload_bytes = 1024 * 1024,
      al_max_value_bytes = 1024 * 1024, al_max_aggregate_bytes = 16 * 1024 * 1024\<rparr>"

datatype active_block =
    ActText (act_item: string) (act_index: nat)
  | is_ActReasoning: ActReasoning (act_item: string) (act_index: nat)
  | ActTool (act_item: string) (act_call: string) (act_name: string) (act_index: nat)

record anthropic_codec =
  an_context :: anthropic_encode_context
  an_limits :: anthropic_limits
  an_context_validated :: bool
  an_terminal :: bool
  an_response_id :: "string option"
  an_active :: "active_block option"
  an_seen_items :: "string list"
  an_call_ids :: "string list"
  an_next_index :: nat
  an_usage :: "usage option"

datatype aggregate_output =
    AggText (ao_item: string) string
  | AggReasoning (ao_item: string) string
  | AggTool (ao_item: string) string string string

record anthropic_aggregator =
  ag_context :: anthropic_encode_context
  ag_limits :: anthropic_limits
  ag_terminal :: bool
  ag_failed :: "json option"
  ag_response_id :: "string option"
  ag_outputs :: "aggregate_output list"
  ag_seen_items :: "string list"
  ag_call_ids :: "string list"
  ag_aggregate_bytes :: nat
  ag_usage :: "usage option"

type_synonym wire_event = "string \<times> json"

definition an_wire :: "string \<Rightarrow> (string \<times> json) list \<Rightarrow> wire_event" where
  "an_wire kind kvs = (kind, json_object ((''type'', JString kind) # kvs))"

subsection \<open>Limits and values\<close>

definition an_validate_identifier :: "anthropic_limits \<Rightarrow> string \<Rightarrow> unit codec_result" where
  "an_validate_identifier lim v =
     (if v = [] \<or> al_max_identifier_bytes lim < length v then bad_request else Ok ())"

definition an_validate_value :: "(json \<Rightarrow> string) \<Rightarrow> anthropic_limits \<Rightarrow> json \<Rightarrow> unit codec_result" where
  "an_validate_value to_vec lim v =
     (if length (to_vec v) \<le> al_max_value_bytes lim then Ok () else bad_request)"

definition validate_opaque_payload :: "anthropic_limits \<Rightarrow> string \<Rightarrow> unit codec_result" where
  "validate_opaque_payload lim v =
     (if v = [] \<or> al_max_opaque_payload_bytes lim < length v then bad_request else Ok ())"

definition json_as_u64 :: "json option \<Rightarrow> u64 option" where
  "json_as_u64 v = (case v of Some (JNumber (PosInt n)) \<Rightarrow> Some n | _ \<Rightarrow> None)"

definition an_usage_value :: "usage \<Rightarrow> json" where
  "an_usage_value u =
     (let ext = us_extensions u;
          cache_creation = (case json_as_u64 (bt_get ext ''cache_creation_input_tokens'') of None \<Rightarrow> 0 | Some n \<Rightarrow> n);
          cache_read =
            (case json_as_u64 (bt_get ext ''cache_read_input_tokens'') of
               Some n \<Rightarrow> n
             | None \<Rightarrow> (case us_cached_input_tokens u of None \<Rightarrow> 0 | Some n \<Rightarrow> n));
          value = bt_collect
            [(''input_tokens'', json_u64 (us_input_tokens u)),
             (''cache_creation_input_tokens'', json_u64 cache_creation),
             (''cache_read_input_tokens'', json_u64 cache_read),
             (''output_tokens'', json_u64 (us_output_tokens u))];
          value' =
            (case us_reasoning_tokens u of
               None \<Rightarrow> value
             | Some n \<Rightarrow>
                 let details = (case bt_get ext ''output_tokens_details'' of
                                  None \<Rightarrow> []
                                | Some v \<Rightarrow> (case json_as_object v of None \<Rightarrow> [] | Some m \<Rightarrow> m))
                 in bt_insert ''output_tokens_details''
                      (JObject (bt_insert ''thinking_tokens'' (json_u64 n) details)) value)
      in JObject (fold (\<lambda>(k, v). bt_or_insert k v) ext value'))"

definition initial_usage_value :: "usage \<Rightarrow> json" where
  "initial_usage_value u =
     (case an_usage_value u of
        JObject m \<Rightarrow> JObject (bt_insert ''output_tokens'' (json_u64 (us_output_tokens u)) m)
      | v \<Rightarrow> v)"

definition final_usage_value :: "usage \<Rightarrow> json" where
  "final_usage_value u =
     (let value = bt_collect [(''output_tokens'', json_u64 (us_output_tokens u))];
          value' =
            (case us_reasoning_tokens u of
               None \<Rightarrow> value
             | Some n \<Rightarrow>
                 bt_insert ''output_tokens_details'' (json_object [(''thinking_tokens'', json_u64 n)]) value)
      in JObject (fold (\<lambda>(k, v) m. if starts_with ''output_'' k then bt_or_insert k v m else m)
            (us_extensions u) value'))"

definition anthropic_error_type :: "gateway_error \<Rightarrow> string" where
  "anthropic_error_type e =
     (if ge_code e = ''invalid_request'' \<or> ge_code e = ''unsupported_capability'' then ''invalid_request_error''
      else if ge_code e = ''upstream_auth'' then ''authentication_error''
      else if ge_code e = ''rate_limited'' then ''rate_limit_error''
      else if ge_code e = ''upstream_unavailable'' then ''overloaded_error''
      else if ge_code e = ''model_not_found'' then ''not_found_error''
      else ''api_error'')"

definition an_error_wire :: "gateway_error \<Rightarrow> wire_event" where
  "an_error_wire e =
     an_wire ''error''
       [(''error'', json_object
           [(''type'', JString (anthropic_error_type e)), (''message'', JString (public_message e))])]"

definition error_value_with_request_id :: "gateway_error \<Rightarrow> string \<Rightarrow> json codec_result" where
  "error_value_with_request_id e request_id =
     (case snd (an_error_wire e) of
        JObject m \<Rightarrow> Ok (JObject (bt_insert ''request_id'' (JString request_id) m))
      | _ \<Rightarrow> Err Panic)"

text \<open>\<open>validate_context\<close> of the aggregator, and the part of \<open>validate_context_once\<close> that checks.\<close>

definition an_validate_context ::
  "(json \<Rightarrow> string) \<Rightarrow> anthropic_limits \<Rightarrow> anthropic_encode_context \<Rightarrow> unit codec_result" where
  "an_validate_context to_vec lim ctx =
     and_then (an_validate_identifier lim (aec_model ctx)) (\<lambda>_.
     and_then (an_validate_identifier lim (aec_request_id ctx)) (\<lambda>_.
     and_then (case art_stop_sequence (aec_response ctx) of
                 None \<Rightarrow> Ok () | Some s \<Rightarrow> an_validate_identifier lim s) (\<lambda>_.
     and_then (an_validate_value to_vec lim (initial_usage_value (aec_initial_usage ctx))) (\<lambda>_.
     and_then (an_validate_value to_vec lim (JObject (art_extra (aec_response ctx)))) (\<lambda>_.
       if al_max_output_items lim < length (art_thinking_signatures (aec_response ctx)) then bad_request
       else try_for_each (\<lambda>(item_id, signature).
              and_then (an_validate_identifier lim item_id) (\<lambda>_. validate_opaque_payload lim signature))
            (art_thinking_signatures (aec_response ctx)))))))"

definition an_validate_context_once ::
  "(json \<Rightarrow> string) \<Rightarrow> anthropic_codec \<Rightarrow> unit codec_result \<times> anthropic_codec" where
  "an_validate_context_once to_vec c =
     (if an_context_validated c then (Ok (), c)
      else case an_validate_context to_vec (an_limits c) (an_context c) of
          Inl e \<Rightarrow> (Err e, c)
        | Inr _ \<Rightarrow> (Ok (), c\<lparr>an_context_validated := True\<rparr>))"

subsection \<open>The streaming codec\<close>

definition an_with_limits :: "anthropic_encode_context \<Rightarrow> anthropic_limits \<Rightarrow> anthropic_codec" where
  "an_with_limits ctx lim =
     \<lparr>an_context = ctx, an_limits = lim, an_context_validated = False, an_terminal = False,
      an_response_id = None, an_active = None, an_seen_items = [], an_call_ids = [], an_next_index = 0,
      an_usage = None\<rparr>"

definition anthropic_codec_new :: "anthropic_encode_context \<Rightarrow> anthropic_codec" where
  "anthropic_codec_new ctx = an_with_limits ctx anthropic_limits_default"

definition an_require_created :: "anthropic_codec \<Rightarrow> unit codec_result" where
  "an_require_created c = (if an_response_id c \<noteq> None then Ok () else bad_request)"

definition an_require_delta_allowed :: "anthropic_codec \<Rightarrow> unit codec_result" where
  "an_require_delta_allowed c =
     and_then (an_require_created c) (\<lambda>_. if an_usage c = None then Ok () else bad_request)"

definition close_active :: "anthropic_codec \<Rightarrow> wire_event list codec_result \<times> anthropic_codec" where
  "close_active c =
     (case an_active c of
        None \<Rightarrow> (Ok [], c)
      | Some active \<Rightarrow>
          let c' = c\<lparr>an_active := None\<rparr>;
              index = act_index active;
              stop = an_wire ''content_block_stop'' [(''index'', json_usize index)]
          in (case active of
                ActReasoning item_id _ \<Rightarrow>
                  (case bt_get (art_thinking_signatures (aec_response (an_context c))) item_id of
                     None \<Rightarrow> (Err (Fail unsupported_capability), c')
                   | Some signature \<Rightarrow>
                       (Ok [an_wire ''content_block_delta''
                              [(''index'', json_usize index),
                               (''delta'', json_object
                                  [(''type'', JString ''signature_delta''), (''signature'', JString signature)])],
                            stop], c'))
              | _ \<Rightarrow> (Ok [stop], c')))"

definition register_item :: "string \<Rightarrow> anthropic_codec \<Rightarrow> nat codec_result \<times> anthropic_codec" where
  "register_item item_id c =
     (case an_validate_identifier (an_limits c) item_id of
        Inl e \<Rightarrow> (Err e, c)
      | Inr _ \<Rightarrow>
          if al_max_output_items (an_limits c) \<le> length (an_seen_items c) \<or> item_id \<in> set (an_seen_items c)
          then (bad_request, c)
          else (Ok (an_next_index c),
                c\<lparr>an_seen_items := item_id # an_seen_items c, an_next_index := an_next_index c + 1\<rparr>))"

definition block_start :: "nat \<Rightarrow> json \<Rightarrow> wire_event" where
  "block_start index block =
     an_wire ''content_block_start'' [(''index'', json_usize index), (''content_block'', block)]"

definition activate_text :: "string \<Rightarrow> anthropic_codec \<Rightarrow> wire_event list codec_result \<times> anthropic_codec" where
  "activate_text item_id c =
     (if (case an_active c of Some (ActText active _) \<Rightarrow> active = item_id | _ \<Rightarrow> False) then (Ok [], c)
      else st_then (close_active c) (\<lambda>wires c1.
           st_then (register_item item_id c1) (\<lambda>index c2.
             (Ok (wires @ [block_start index (json_object [(''type'', JString ''text''), (''text'', JString [])])]),
              c2\<lparr>an_active := Some (ActText item_id index)\<rparr>))))"

definition activate_reasoning :: "string \<Rightarrow> anthropic_codec \<Rightarrow> wire_event list codec_result \<times> anthropic_codec" where
  "activate_reasoning item_id c =
     (if (case an_active c of Some (ActReasoning active _) \<Rightarrow> active = item_id | _ \<Rightarrow> False) then (Ok [], c)
      else case bt_get (art_thinking_signatures (aec_response (an_context c))) item_id of
          None \<Rightarrow> (Err (Fail unsupported_capability), c)
        | Some signature \<Rightarrow>
            (case validate_opaque_payload (an_limits c) signature of
               Inl e \<Rightarrow> (Err e, c)
             | Inr _ \<Rightarrow>
                 st_then (close_active c) (\<lambda>wires c1.
                 st_then (register_item item_id c1) (\<lambda>index c2.
                   (Ok (wires @ [block_start index (json_object
                          [(''type'', JString ''thinking''), (''thinking'', JString []), (''signature'', JString [])])]),
                    c2\<lparr>an_active := Some (ActReasoning item_id index)\<rparr>)))))"

definition activate_tool ::
  "string \<Rightarrow> string \<Rightarrow> string \<Rightarrow> anthropic_codec \<Rightarrow> wire_event list codec_result \<times> anthropic_codec" where
  "activate_tool item_id call_id name c =
     (if (case an_active c of
            Some (ActTool i k n _) \<Rightarrow> i = item_id \<and> k = call_id \<and> n = name | _ \<Rightarrow> False) then (Ok [], c)
      else case and_then (an_validate_identifier (an_limits c) call_id)
                  (\<lambda>_. an_validate_identifier (an_limits c) name) of
          Inl e \<Rightarrow> (Err e, c)
        | Inr _ \<Rightarrow>
            st_then (close_active c) (\<lambda>wires c1.
              if call_id \<in> set (an_call_ids c1) then (bad_request, c1)
              else st_then (register_item item_id c1) (\<lambda>index c2.
                (Ok (wires @ [block_start index (json_object
                       [(''type'', JString ''tool_use''), (''id'', JString call_id), (''name'', JString name),
                        (''input'', json_object [])])]),
                 c2\<lparr>an_call_ids := call_id # an_call_ids c2, an_active := Some (ActTool item_id call_id name index)\<rparr>))))"

text \<open>The common end of the three delta methods: the index is that of the active block.\<close>

definition push_delta ::
  "(string \<times> json) list \<Rightarrow> wire_event list \<Rightarrow> anthropic_codec \<Rightarrow> wire_event list codec_result \<times> anthropic_codec" where
  "push_delta kvs wires c =
     (case an_active c of
        None \<Rightarrow> (Err Panic, c)
      | Some active \<Rightarrow>
          (Ok (wires @ [an_wire ''content_block_delta''
                 [(''index'', json_usize (act_index active)), (''delta'', json_object kvs)]]), c))"

definition an_text_delta ::
  "(json \<Rightarrow> string) \<Rightarrow> string \<Rightarrow> string \<Rightarrow> anthropic_codec \<Rightarrow> wire_event list codec_result \<times> anthropic_codec" where
  "an_text_delta to_vec item_id delta c =
     (case and_then (an_require_delta_allowed c) (\<lambda>_. an_validate_value to_vec (an_limits c) (JString delta)) of
        Inl e \<Rightarrow> (Err e, c)
      | Inr _ \<Rightarrow>
          st_then (activate_text item_id c)
            (push_delta [(''type'', JString ''text_delta''), (''text'', JString delta)]))"

definition an_reasoning_delta ::
  "(json \<Rightarrow> string) \<Rightarrow> string \<Rightarrow> string \<Rightarrow> anthropic_codec \<Rightarrow> wire_event list codec_result \<times> anthropic_codec" where
  "an_reasoning_delta to_vec item_id delta c =
     (case and_then (an_require_delta_allowed c) (\<lambda>_. an_validate_value to_vec (an_limits c) (JString delta)) of
        Inl e \<Rightarrow> (Err e, c)
      | Inr _ \<Rightarrow>
          st_then (activate_reasoning item_id c)
            (push_delta [(''type'', JString ''thinking_delta''), (''thinking'', JString delta)]))"

definition an_tool_delta ::
  "(json \<Rightarrow> string) \<Rightarrow> string \<Rightarrow> string \<Rightarrow> string \<Rightarrow> string \<Rightarrow> anthropic_codec
    \<Rightarrow> wire_event list codec_result \<times> anthropic_codec" where
  "an_tool_delta to_vec item_id call_id name delta c =
     (case and_then (an_require_delta_allowed c) (\<lambda>_. an_validate_value to_vec (an_limits c) (JString delta)) of
        Inl e \<Rightarrow> (Err e, c)
      | Inr _ \<Rightarrow>
          st_then (activate_tool item_id call_id name c)
            (push_delta [(''type'', JString ''input_json_delta''), (''partial_json'', JString delta)]))"

definition an_created :: "string \<Rightarrow> anthropic_codec \<Rightarrow> wire_event list codec_result \<times> anthropic_codec" where
  "an_created response_id c =
     (if an_response_id c \<noteq> None then (bad_request, c)
      else case an_validate_identifier (an_limits c) response_id of
          Inl e \<Rightarrow> (Err e, c)
        | Inr _ \<Rightarrow>
            let message = bt_collect
                  [(''id'', JString response_id), (''type'', JString ''message''),
                   (''role'', JString ''assistant''), (''content'', JArray []),
                   (''model'', JString (aec_model (an_context c))), (''stop_reason'', JNull),
                   (''stop_sequence'', JNull),
                   (''usage'', initial_usage_value (aec_initial_usage (an_context c)))]
            in (Ok [an_wire ''message_start''
                      [(''message'', JObject (fold (\<lambda>(k, v). bt_or_insert k v)
                           (art_extra (aec_response (an_context c))) message))]],
                c\<lparr>an_response_id := Some response_id\<rparr>))"

definition an_usage_event ::
  "(json \<Rightarrow> string) \<Rightarrow> usage \<Rightarrow> anthropic_codec \<Rightarrow> wire_event list codec_result \<times> anthropic_codec" where
  "an_usage_event to_vec u c =
     (case and_then (an_require_created c) (\<lambda>_.
             if an_usage c \<noteq> None then bad_request
             else an_validate_value to_vec (an_limits c) (an_usage_value u)) of
        Inl e \<Rightarrow> (Err e, c)
      | Inr _ \<Rightarrow>
          st_then (close_active c) (\<lambda>wires c1.
            (Ok (wires @ [an_wire ''message_delta''
                   [(''delta'', json_object
                       [(''stop_reason'', JString (stop_reason_str (art_stop_reason (aec_response (an_context c1))))),
                        (''stop_sequence'', json_option (map_option JString (art_stop_sequence (aec_response (an_context c1)))))]),
                    (''usage'', final_usage_value u)]]),
             c1\<lparr>an_usage := Some u\<rparr>)))"

definition an_completed :: "anthropic_codec \<Rightarrow> wire_event list codec_result \<times> anthropic_codec" where
  "an_completed c =
     (case an_require_created c of
        Inl e \<Rightarrow> (Err e, c)
      | Inr _ \<Rightarrow>
          if an_usage c = None \<or> an_active c \<noteq> None then (bad_request, c)
          else (Ok [an_wire ''message_stop'' []], c\<lparr>an_terminal := True\<rparr>))"

definition an_failed :: "gateway_error \<Rightarrow> anthropic_codec \<Rightarrow> wire_event list \<times> anthropic_codec" where
  "an_failed e c = ([an_error_wire e], c\<lparr>an_terminal := True\<rparr>)"

definition an_transition ::
  "(json \<Rightarrow> string) \<Rightarrow> canonical_event \<Rightarrow> anthropic_codec \<Rightarrow> wire_event list codec_result \<times> anthropic_codec" where
  "an_transition to_vec ev c0 =
     (if an_terminal c0 then (bad_request, c0)
      else st_then (an_validate_context_once to_vec c0) (\<lambda>_ c.
        case ev of
          Created response_id \<Rightarrow> an_created response_id c
        | OutputTextDelta item_id delta \<Rightarrow> an_text_delta to_vec item_id delta c
        | ReasoningDelta item_id delta \<Rightarrow> an_reasoning_delta to_vec item_id delta c
        | ToolCallDelta item_id call_id name delta \<Rightarrow> an_tool_delta to_vec item_id call_id name delta c
        | UsageEvent u \<Rightarrow> an_usage_event to_vec u c
        | Completed \<Rightarrow> an_completed c
        | Failed e \<Rightarrow> (case an_failed e c of (wires, c') \<Rightarrow> (Ok wires, c'))))"

definition wire_frames :: "(json \<Rightarrow> string) \<Rightarrow> wire_event list \<Rightarrow> string" where
  "wire_frames to_vec wires = concat (map (\<lambda>(kind, v). encode_sse (Some kind) (to_vec v)) wires)"

definition an_encode_event ::
  "(json \<Rightarrow> string) \<Rightarrow> canonical_event \<Rightarrow> anthropic_codec \<Rightarrow> string codec_result \<times> anthropic_codec" where
  "an_encode_event to_vec ev c =
     st_then (an_transition to_vec ev c) (\<lambda>wires c'. (Ok (wire_frames to_vec wires), c'))"

subsection \<open>The aggregator\<close>

text \<open>
  \<open>encode\<close> consumes the aggregator and stops at the first error, so an error keeps no state.
\<close>

type_synonym agg_result = "anthropic_aggregator codec_result"

definition anthropic_aggregator_new :: "anthropic_encode_context \<Rightarrow> anthropic_limits \<Rightarrow> anthropic_aggregator" where
  "anthropic_aggregator_new ctx lim =
     \<lparr>ag_context = ctx, ag_limits = lim, ag_terminal = False, ag_failed = None, ag_response_id = None,
      ag_outputs = [], ag_seen_items = [], ag_call_ids = [], ag_aggregate_bytes = 0, ag_usage = None\<rparr>"

definition ag_require_created :: "anthropic_aggregator \<Rightarrow> unit codec_result" where
  "ag_require_created a = (if ag_response_id a \<noteq> None then Ok () else bad_request)"

definition ag_require_delta_allowed :: "anthropic_aggregator \<Rightarrow> unit codec_result" where
  "ag_require_delta_allowed a =
     and_then (ag_require_created a) (\<lambda>_. if ag_usage a = None then Ok () else bad_request)"

definition ag_ensure_payload_capacity :: "nat \<Rightarrow> anthropic_aggregator \<Rightarrow> unit codec_result" where
  "ag_ensure_payload_capacity additional a =
     (if ag_aggregate_bytes a + additional \<le> usize_max
         \<and> ag_aggregate_bytes a + additional \<le> al_max_aggregate_bytes (ag_limits a)
      then Ok () else bad_request)"

definition ag_register_item :: "string \<Rightarrow> anthropic_aggregator \<Rightarrow> agg_result" where
  "ag_register_item item_id a =
     and_then (an_validate_identifier (ag_limits a) item_id) (\<lambda>_.
       if al_max_output_items (ag_limits a) \<le> length (ag_seen_items a) \<or> item_id \<in> set (ag_seen_items a)
       then bad_request
       else Ok (a\<lparr>ag_seen_items := item_id # ag_seen_items a\<rparr>))"

definition last_output :: "anthropic_aggregator \<Rightarrow> aggregate_output option" where
  "last_output a = (if ag_outputs a = [] then None else Some (last (ag_outputs a)))"

definition set_last_output :: "aggregate_output \<Rightarrow> anthropic_aggregator \<Rightarrow> anthropic_aggregator" where
  "set_last_output out a = a\<lparr>ag_outputs := butlast (ag_outputs a) @ [out]\<rparr>"

definition push_output :: "aggregate_output \<Rightarrow> anthropic_aggregator \<Rightarrow> anthropic_aggregator" where
  "push_output out a = a\<lparr>ag_outputs := ag_outputs a @ [out]\<rparr>"

definition add_bytes :: "nat \<Rightarrow> anthropic_aggregator \<Rightarrow> anthropic_aggregator" where
  "add_bytes n a = a\<lparr>ag_aggregate_bytes := ag_aggregate_bytes a + n\<rparr>"

definition ag_created :: "string \<Rightarrow> anthropic_aggregator \<Rightarrow> agg_result" where
  "ag_created response_id a =
     (if ag_response_id a \<noteq> None then bad_request
      else and_then (an_validate_identifier (ag_limits a) response_id)
        (\<lambda>_. Ok (a\<lparr>ag_response_id := Some response_id\<rparr>)))"

definition append_text :: "string \<Rightarrow> string \<Rightarrow> anthropic_aggregator \<Rightarrow> agg_result" where
  "append_text item_id delta a =
     and_then (ag_require_delta_allowed a) (\<lambda>_.
     and_then (ag_ensure_payload_capacity (length delta) a) (\<lambda>_.
     and_then
       (case last_output a of
          Some (AggText active text) \<Rightarrow>
            if active = item_id then Ok (set_last_output (AggText active (text @ delta)) a)
            else and_then (ag_register_item item_id a) (\<lambda>a1. Ok (push_output (AggText item_id delta) a1))
        | _ \<Rightarrow> and_then (ag_register_item item_id a) (\<lambda>a1. Ok (push_output (AggText item_id delta) a1)))
       (\<lambda>a2. Ok (add_bytes (length delta) a2))))"

definition append_reasoning :: "string \<Rightarrow> string \<Rightarrow> anthropic_aggregator \<Rightarrow> agg_result" where
  "append_reasoning item_id delta a =
     and_then (ag_require_delta_allowed a) (\<lambda>_.
     and_then (ag_ensure_payload_capacity (length delta) a) (\<lambda>_.
       if bt_get (art_thinking_signatures (aec_response (ag_context a))) item_id = None
       then Err (Fail unsupported_capability)
       else and_then
         (case last_output a of
            Some (AggReasoning active thinking) \<Rightarrow>
              if active = item_id then Ok (set_last_output (AggReasoning active (thinking @ delta)) a)
              else and_then (ag_register_item item_id a) (\<lambda>a1. Ok (push_output (AggReasoning item_id delta) a1))
          | _ \<Rightarrow> and_then (ag_register_item item_id a) (\<lambda>a1. Ok (push_output (AggReasoning item_id delta) a1)))
         (\<lambda>a2. Ok (add_bytes (length delta) a2))))"

definition open_tool :: "string \<Rightarrow> string \<Rightarrow> string \<Rightarrow> string \<Rightarrow> anthropic_aggregator \<Rightarrow> agg_result" where
  "open_tool item_id call_id name delta a =
     and_then (ag_register_item item_id a) (\<lambda>a1.
       if call_id \<in> set (ag_call_ids a1) then bad_request
       else Ok (push_output (AggTool item_id call_id name delta) (a1\<lparr>ag_call_ids := call_id # ag_call_ids a1\<rparr>)))"

definition append_tool :: "string \<Rightarrow> string \<Rightarrow> string \<Rightarrow> string \<Rightarrow> anthropic_aggregator \<Rightarrow> agg_result" where
  "append_tool item_id call_id name delta a =
     and_then (ag_require_delta_allowed a) (\<lambda>_.
     and_then (ag_ensure_payload_capacity (length delta) a) (\<lambda>_.
     and_then (an_validate_identifier (ag_limits a) call_id) (\<lambda>_.
     and_then (an_validate_identifier (ag_limits a) name) (\<lambda>_.
     and_then
       (case last_output a of
          Some (AggTool i k n partial) \<Rightarrow>
            if i = item_id \<and> k = call_id \<and> n = name then Ok (set_last_output (AggTool i k n (partial @ delta)) a)
            else open_tool item_id call_id name delta a
        | _ \<Rightarrow> open_tool item_id call_id name delta a)
       (\<lambda>a2. Ok (add_bytes (length delta) a2))))))"

definition set_usage :: "(json \<Rightarrow> string) \<Rightarrow> usage \<Rightarrow> anthropic_aggregator \<Rightarrow> agg_result" where
  "set_usage to_vec u a =
     and_then (ag_require_created a) (\<lambda>_.
       if ag_usage a \<noteq> None then bad_request
       else and_then (an_validate_value to_vec (ag_limits a) (an_usage_value u))
         (\<lambda>_. Ok (a\<lparr>ag_usage := Some u\<rparr>)))"

definition ag_completed :: "anthropic_aggregator \<Rightarrow> agg_result" where
  "ag_completed a =
     and_then (ag_require_created a) (\<lambda>_.
       if ag_usage a = None \<or> ag_outputs a = [] then bad_request else Ok (a\<lparr>ag_terminal := True\<rparr>))"

definition ag_transition :: "(json \<Rightarrow> string) \<Rightarrow> canonical_event \<Rightarrow> anthropic_aggregator \<Rightarrow> agg_result" where
  "ag_transition to_vec ev a =
     (if ag_terminal a then bad_request
      else case ev of
          Created response_id \<Rightarrow> ag_created response_id a
        | OutputTextDelta item_id delta \<Rightarrow> append_text item_id delta a
        | ReasoningDelta item_id delta \<Rightarrow> append_reasoning item_id delta a
        | ToolCallDelta item_id call_id name delta \<Rightarrow> append_tool item_id call_id name delta a
        | UsageEvent u \<Rightarrow> set_usage to_vec u a
        | Completed \<Rightarrow> ag_completed a
        | Failed e \<Rightarrow>
            and_then (error_value_with_request_id e (aec_request_id (ag_context a)))
              (\<lambda>v. Ok (a\<lparr>ag_failed := Some v, ag_terminal := True\<rparr>)))"

definition output_value ::
  "(string \<Rightarrow> json option) \<Rightarrow> anthropic_encode_context \<Rightarrow> aggregate_output \<Rightarrow> json codec_result" where
  "output_value from_str ctx out =
     (case out of
        AggText _ text \<Rightarrow> Ok (json_object [(''type'', JString ''text''), (''text'', JString text)])
      | AggReasoning item_id thinking \<Rightarrow>
          (case bt_get (art_thinking_signatures (aec_response ctx)) item_id of
             None \<Rightarrow> Err (Fail unsupported_capability)
           | Some signature \<Rightarrow>
               Ok (json_object [(''type'', JString ''thinking''), (''thinking'', JString thinking),
                     (''signature'', JString signature)]))
      | AggTool _ call_id name partial_json \<Rightarrow>
          (case from_str partial_json of
             None \<Rightarrow> bad_request
           | Some input \<Rightarrow>
               if json_as_object input = None then bad_request
               else Ok (json_object [(''type'', JString ''tool_use''), (''id'', JString call_id),
                      (''name'', JString name), (''input'', input)])))"

definition an_response_value :: "(string \<Rightarrow> json option) \<Rightarrow> anthropic_aggregator \<Rightarrow> json codec_result" where
  "an_response_value from_str a =
     (case ag_response_id a of
        None \<Rightarrow> bad_request
      | Some response_id \<Rightarrow>
          (case ag_usage a of
             None \<Rightarrow> bad_request
           | Some u \<Rightarrow>
               and_then (try_map (output_value from_str (ag_context a)) (ag_outputs a)) (\<lambda>content.
                 let tpl = aec_response (ag_context a);
                     response = bt_collect
                       [(''id'', JString response_id), (''type'', JString ''message''),
                        (''role'', JString ''assistant''), (''content'', JArray content),
                        (''model'', JString (aec_model (ag_context a))),
                        (''stop_reason'', JString (stop_reason_str (art_stop_reason tpl))),
                        (''stop_sequence'', json_option (map_option JString (art_stop_sequence tpl))),
                        (''usage'', an_usage_value u)]
                 in Ok (JObject (fold (\<lambda>(k, v). bt_or_insert k v) (art_extra tpl) response)))))"

definition an_encode_response_with_limits ::
  "(json \<Rightarrow> string) \<Rightarrow> (string \<Rightarrow> json option) \<Rightarrow> anthropic_encode_context \<Rightarrow> canonical_event list
    \<Rightarrow> anthropic_limits \<Rightarrow> json codec_result" where
  "an_encode_response_with_limits to_vec from_str ctx events lim =
     and_then (an_validate_context to_vec lim ctx) (\<lambda>_.
     and_then (try_fold (ag_transition to_vec) events (anthropic_aggregator_new ctx lim)) (\<lambda>a.
       if \<not> ag_terminal a then bad_request
       else case ag_failed a of Some e \<Rightarrow> Ok e | None \<Rightarrow> an_response_value from_str a))"

definition an_encode_response ::
  "(json \<Rightarrow> string) \<Rightarrow> (string \<Rightarrow> json option) \<Rightarrow> anthropic_encode_context \<Rightarrow> canonical_event list \<Rightarrow> json codec_result" where
  "an_encode_response to_vec from_str ctx events =
     an_encode_response_with_limits to_vec from_str ctx events anthropic_limits_default"

end
