(* ===== verification/Anthropic_Facts.thy ===== *)
theory Anthropic_Facts
  imports Anthropic_Codec Client_Stream
begin

text \<open>
  A reader of Anthropic Messages streams, as a client is written against the event grammar: it checks
  the order and the indices of the events and joins the deltas of every content block. The codec is
  shown to produce, on every input, only what this reader accepts.
\<close>

subsection \<open>The client's reader\<close>

datatype read_phase = RdStart | RdBetween | RdOpen | RdDelta | RdStop | RdError

datatype block = BText string | BThinking string string | BTool string string string

record reader =
  rd_phase :: read_phase
  rd_blocks :: "block list"
  rd_message :: json
  rd_delta :: json

definition reader_new :: reader where
  "reader_new = \<lparr>rd_phase = RdStart, rd_blocks = [], rd_message = JNull, rd_delta = JNull\<rparr>"

fun as_str :: "json option \<Rightarrow> string option" where
  "as_str (Some (JString s)) = Some s"
| "as_str _ = None"

definition read_block :: "json \<Rightarrow> block option" where
  "read_block v =
     (if json_get ''type'' v = Some (JString ''text'') then map_option BText (as_str (json_get ''text'' v))
      else if json_get ''type'' v = Some (JString ''thinking'')
      then (case (as_str (json_get ''thinking'' v), as_str (json_get ''signature'' v)) of
              (Some t, Some s) \<Rightarrow> Some (BThinking t s) | _ \<Rightarrow> None)
      else if json_get ''type'' v = Some (JString ''tool_use'')
      then (case (as_str (json_get ''id'' v), as_str (json_get ''name'' v)) of
              (Some k, Some n) \<Rightarrow> Some (BTool k n []) | _ \<Rightarrow> None)
      else None)"

definition extend_block :: "json \<Rightarrow> block \<Rightarrow> block option" where
  "extend_block v b =
     (case b of
        BText t \<Rightarrow>
          if json_get ''type'' v = Some (JString ''text_delta'')
          then map_option (\<lambda>d. BText (t @ d)) (as_str (json_get ''text'' v)) else None
      | BThinking t s \<Rightarrow>
          if json_get ''type'' v = Some (JString ''thinking_delta'')
          then map_option (\<lambda>d. BThinking (t @ d) s) (as_str (json_get ''thinking'' v))
          else if json_get ''type'' v = Some (JString ''signature_delta'')
          then map_option (\<lambda>d. BThinking t (s @ d)) (as_str (json_get ''signature'' v)) else None
      | BTool k n j \<Rightarrow>
          if json_get ''type'' v = Some (JString ''input_json_delta'')
          then map_option (\<lambda>d. BTool k n (j @ d)) (as_str (json_get ''partial_json'' v)) else None)"

text \<open>A thinking block without its signature cannot be sent back to the API.\<close>

definition complete_block :: "block \<Rightarrow> bool" where
  "complete_block b = (case b of BThinking _ s \<Rightarrow> s \<noteq> [] | _ \<Rightarrow> True)"

definition has_index :: "nat \<Rightarrow> json \<Rightarrow> bool" where
  "has_index i v = (json_get ''index'' v = Some (json_usize i))"

definition read_wire :: "wire_event \<Rightarrow> reader \<Rightarrow> reader option" where
  "read_wire w r =
     (case w of (kind, v) \<Rightarrow>
        if json_get ''type'' v \<noteq> Some (JString kind) then None
        else if kind = ''message_start'' \<and> rd_phase r = RdStart
        then map_option (\<lambda>m. r\<lparr>rd_phase := RdBetween, rd_message := m\<rparr>) (json_get ''message'' v)
        else if kind = ''content_block_start'' \<and> rd_phase r = RdBetween \<and> has_index (length (rd_blocks r)) v
        then (case json_get ''content_block'' v of
                None \<Rightarrow> None
              | Some blk \<Rightarrow> map_option (\<lambda>b. r\<lparr>rd_phase := RdOpen, rd_blocks := rd_blocks r @ [b]\<rparr>) (read_block blk))
        else if kind = ''content_block_delta'' \<and> rd_phase r = RdOpen \<and> has_index (length (rd_blocks r) - 1) v
        then (case json_get ''delta'' v of
                None \<Rightarrow> None
              | Some d \<Rightarrow> map_option (\<lambda>b. r\<lparr>rd_blocks := butlast (rd_blocks r) @ [b]\<rparr>) (extend_block d (last (rd_blocks r))))
        else if kind = ''content_block_stop'' \<and> rd_phase r = RdOpen \<and> has_index (length (rd_blocks r) - 1) v
             \<and> complete_block (last (rd_blocks r))
        then Some (r\<lparr>rd_phase := RdBetween\<rparr>)
        else if kind = ''message_delta'' \<and> rd_phase r = RdBetween
        then map_option (\<lambda>d. r\<lparr>rd_phase := RdDelta, rd_delta := d\<rparr>) (json_get ''delta'' v)
        else if kind = ''message_stop'' \<and> rd_phase r = RdDelta then Some (r\<lparr>rd_phase := RdStop\<rparr>)
        else if kind = ''error'' \<and> rd_phase r \<noteq> RdStop \<and> rd_phase r \<noteq> RdError
             \<and> json_get ''error'' v \<noteq> None
        then Some (r\<lparr>rd_phase := RdError\<rparr>)
        else None)"

fun read_wires :: "wire_event list \<Rightarrow> reader \<Rightarrow> reader option" where
  "read_wires [] r = Some r"
| "read_wires (w # ws) r = (case read_wire w r of None \<Rightarrow> None | Some r' \<Rightarrow> read_wires ws r')"

lemma read_wires_append:
  "read_wires (ws @ vs) r = (case read_wires ws r of None \<Rightarrow> None | Some r' \<Rightarrow> read_wires vs r')"
  by (induction ws arbitrary: r) (auto split: option.split)

lemma read_start:
  "rd_phase r = RdBetween \<Longrightarrow> read_block blk = Some b \<Longrightarrow> n = length (rd_blocks r) \<Longrightarrow>
   read_wire (block_start n blk) r = Some (r\<lparr>rd_phase := RdOpen, rd_blocks := rd_blocks r @ [b]\<rparr>)"
  by (simp add: read_wire_def block_start_def an_wire_def has_index_def)

lemma read_delta:
  "rd_phase r = RdOpen \<Longrightarrow> rd_blocks r = bs @ [b] \<Longrightarrow> extend_block (json_object kvs) b = Some b' \<Longrightarrow>
   read_wire (an_wire ''content_block_delta'' [(''index'', json_usize (length bs)), (''delta'', json_object kvs)]) r
     = Some (r\<lparr>rd_blocks := bs @ [b']\<rparr>)"
  by (simp add: read_wire_def an_wire_def has_index_def)

lemma read_stop:
  "rd_phase r = RdOpen \<Longrightarrow> rd_blocks r = bs @ [b] \<Longrightarrow> complete_block b \<Longrightarrow>
   read_wire (an_wire ''content_block_stop'' [(''index'', json_usize (length bs))]) r
     = Some (r\<lparr>rd_phase := RdBetween\<rparr>)"
  by (simp add: read_wire_def an_wire_def has_index_def)

lemma read_error:
  "rd_phase r \<noteq> RdStop \<Longrightarrow> rd_phase r \<noteq> RdError \<Longrightarrow>
   read_wires [an_error_wire e] r = Some (r\<lparr>rd_phase := RdError\<rparr>)"
  by (simp add: read_wire_def an_wire_def an_error_wire_def)

subsection \<open>What the reader has seen of a codec\<close>

abbreviation signatures :: "anthropic_codec \<Rightarrow> (string, string) btree" where
  "signatures c \<equiv> art_thinking_signatures (aec_response (an_context c))"

fun shows_block :: "(string, string) btree \<Rightarrow> active_block \<Rightarrow> block \<Rightarrow> bool" where
  "shows_block sigs (ActText _ _) (BText _) = True"
| "shows_block sigs (ActReasoning i _) (BThinking _ s) = (s = [] \<and> bt_get sigs i \<noteq> None)"
| "shows_block sigs (ActTool _ k n _) (BTool k' n' _) = (k = k' \<and> n = n')"
| "shows_block sigs _ _ = False"

definition all_signed :: "(string, string) btree \<Rightarrow> bool" where
  "all_signed sigs = (\<forall>i s. bt_get sigs i = Some s \<longrightarrow> s \<noteq> [])"

definition an_view :: "anthropic_codec \<Rightarrow> reader \<Rightarrow> bool" where
  "an_view c r =
     (all_signed (signatures c)
      \<and> rd_phase r = (if an_response_id c = None then RdStart else if an_usage c \<noteq> None then RdDelta
                      else if an_active c = None then RdBetween else RdOpen)
      \<and> an_next_index c = length (rd_blocks r)
      \<and> (an_response_id c = None \<longrightarrow> an_active c = None \<and> an_usage c = None)
      \<and> (an_usage c \<noteq> None \<longrightarrow> an_active c = None)
      \<and> (\<forall>b. an_active c = Some b \<longrightarrow>
           (\<exists>bs x. rd_blocks r = bs @ [x] \<and> act_index b = length bs \<and> shows_block (signatures c) b x)))"

text \<open>The blocks as they are once the open one is closed.\<close>

definition sealed :: "anthropic_codec \<Rightarrow> block list \<Rightarrow> block list" where
  "sealed c bs =
     (case an_active c of
        Some (ActReasoning i _) \<Rightarrow>
          (case (last bs, bt_get (signatures c) i) of
             (BThinking t _, Some s) \<Rightarrow> butlast bs @ [BThinking t s] | _ \<Rightarrow> bs)
      | _ \<Rightarrow> bs)"

lemma sealed_length: "rd_blocks r \<noteq> [] \<or> an_active c = None \<Longrightarrow> length (sealed c (rd_blocks r)) = length (rd_blocks r)"
  by (auto simp: sealed_def split: option.split active_block.split block.split)

lemma close_active_read:
  assumes v: "an_view c r" and live: "an_response_id c \<noteq> None" "an_usage c = None"
  shows "\<exists>ws. close_active c = (Ok ws, c\<lparr>an_active := None\<rparr>)
    \<and> read_wires ws r = Some (r\<lparr>rd_phase := RdBetween, rd_blocks := sealed c (rd_blocks r)\<rparr>)
    \<and> an_view (c\<lparr>an_active := None\<rparr>) (r\<lparr>rd_phase := RdBetween, rd_blocks := sealed c (rd_blocks r)\<rparr>)"
proof (cases "an_active c")
  case None
  moreover from this have "rd_phase r = RdBetween" using v live by (simp add: an_view_def)
  moreover have "c\<lparr>an_active := None\<rparr> = c" using None by simp
  ultimately show ?thesis using v live by (simp add: close_active_def sealed_def an_view_def)
next
  case (Some b)
  then obtain bs x where x: "rd_blocks r = bs @ [x]" "act_index b = length bs" "shows_block (signatures c) b x"
    using v by (auto simp: an_view_def)
  have ph: "rd_phase r = RdOpen" using v live Some by (simp add: an_view_def)
  have view: "an_view (c\<lparr>an_active := None\<rparr>) (r\<lparr>rd_phase := RdBetween, rd_blocks := sealed c (rd_blocks r)\<rparr>)"
    using v live x(1) sealed_length [of r c] by (simp add: an_view_def)
  show ?thesis
  proof (cases b)
    case (ActReasoning i n)
    then obtain t s where s: "x = BThinking t []" "bt_get (signatures c) i = Some s"
      using x(3) by (cases x) auto
    then have "s \<noteq> []" using v by (auto simp: an_view_def all_signed_def)
    then show ?thesis
      using Some ActReasoning x s ph view
      by (simp add: close_active_def sealed_def Let_def complete_block_def read_stop
          read_delta [where b' = "BThinking t s"] extend_block_def)
  qed (use Some x ph view in \<open>cases x; simp add: close_active_def sealed_def Let_def complete_block_def read_stop\<close>)+
qed

lemma an_view_irrelevant [simp]:
  "an_view (c\<lparr>an_call_ids := ks\<rparr>) r = an_view c r" "an_view (c\<lparr>an_context_validated := v\<rparr>) r = an_view c r"
  by (simp_all add: an_view_def)

lemma register_item_Ok:
  "register_item i c = (Ok n, c') \<Longrightarrow>
   n = an_next_index c \<and> c' = c\<lparr>an_seen_items := i # an_seen_items c, an_next_index := an_next_index c + 1\<rparr>"
  by (auto simp: register_item_def split: sum.splits if_splits)

text \<open>Closing the open block and opening the next one.\<close>

lemma open_read:
  assumes v: "an_view c r" and live: "an_response_id c \<noteq> None" "an_usage c = None"
    and ops: "close_active c = (Ok ws, c1)" "register_item i c1 = (Ok n, c2)"
    and blk: "read_block blk = Some x" "act_index b = n" "shows_block (signatures c) b x"
  defines "r' \<equiv> r\<lparr>rd_phase := RdOpen, rd_blocks := sealed c (rd_blocks r) @ [x]\<rparr>"
  shows "read_wires (ws @ [block_start n blk]) r = Some r' \<and> an_view (c2\<lparr>an_active := Some b\<rparr>) r'"
proof -
  let ?r1 = "r\<lparr>rd_phase := RdBetween, rd_blocks := sealed c (rd_blocks r)\<rparr>"
  from close_active_read [OF v live] ops(1) have c1: "c1 = c\<lparr>an_active := None\<rparr>"
    and rd: "read_wires ws r = Some ?r1" and v1: "an_view c1 ?r1" by auto
  from register_item_Ok [OF ops(2)] v1 have n: "n = length (sealed c (rd_blocks r))"
    and c2: "c2 = c1\<lparr>an_seen_items := i # an_seen_items c1, an_next_index := n + 1\<rparr>" by (auto simp: an_view_def)
  have "read_wires (ws @ [block_start n blk]) r = Some r'"
    using rd n blk(1) by (simp add: read_wires_append read_start r'_def)
  moreover have "an_view (c2\<lparr>an_active := Some b\<rparr>) r'"
    using v1 live c1 c2 n blk by (auto simp: an_view_def r'_def)
  ultimately show ?thesis by blast
qed

lemma push_delta_read:
  assumes v: "an_view c r" and a: "an_active c = Some b"
    and x: "rd_blocks r = bs @ [x]" "extend_block (json_object kvs) x = Some y" "shows_block (signatures c) b y"
    and rd: "read_wires ws r0 = Some r"
    and p: "push_delta kvs ws c = (Ok vs, c')"
  shows "c' = c \<and> read_wires vs r0 = Some (r\<lparr>rd_blocks := bs @ [y]\<rparr>) \<and> an_view c (r\<lparr>rd_blocks := bs @ [y]\<rparr>)"
proof -
  have "act_index b = length bs" "rd_phase r = RdOpen" using v a x(1) by (auto simp: an_view_def split: if_splits)
  with a x rd p show ?thesis using v
    by (auto simp: push_delta_def read_wires_append read_delta an_view_def)
qed

text \<open>
  What a delta does to the reader: it extends the open block when it belongs to it, and otherwise
  closes that block and starts another.
\<close>

definition delta_read ::
  "anthropic_codec \<Rightarrow> reader \<Rightarrow> wire_event list \<Rightarrow> anthropic_codec \<Rightarrow> bool \<Rightarrow> (block \<Rightarrow> block) \<Rightarrow> block \<Rightarrow> bool" where
  "delta_read c r ws c' same grow fresh =
     (\<exists>r'. read_wires ws r = Some r' \<and> an_view c' r'
        \<and> r' = r\<lparr>rd_phase := RdOpen, rd_blocks :=
            if same then butlast (rd_blocks r) @ [grow (last (rd_blocks r))]
            else sealed c (rd_blocks r) @ [grow fresh]\<rparr>)"

fun grow_text :: "string \<Rightarrow> block \<Rightarrow> block" where
  "grow_text d (BText t) = BText (t @ d)"
| "grow_text d (BThinking t s) = BThinking (t @ d) s"
| "grow_text d (BTool k n j) = BTool k n (j @ d)"

lemma delta_read_same:
  assumes v: "an_view c r" and a: "an_active c = Some b" and p: "push_delta kvs [] c = (Ok ws, c')"
    and g: "\<And>x. shows_block (signatures c) b x \<Longrightarrow> extend_block (json_object kvs) x = Some (grow_text d x)"
  shows "c' = c \<and> delta_read c r ws c' True (grow_text d) fresh"
proof -
  obtain bs x where x: "rd_blocks r = bs @ [x]" "shows_block (signatures c) b x"
    using v a by (auto simp: an_view_def)
  have "rd_phase r = RdOpen" using v a by (auto simp: an_view_def split: if_splits)
  then have "r\<lparr>rd_phase := RdOpen\<rparr> = r" by simp
  moreover have "shows_block (signatures c) b (grow_text d x)" using x(2) by (cases b; cases x) auto
  ultimately show ?thesis
    using push_delta_read [OF v a x(1) g [OF x(2)] _ _ p] x by (auto simp: delta_read_def)
qed

lemma delta_read_fresh:
  assumes v: "an_view c r" and live: "an_response_id c \<noteq> None" "an_usage c = None"
    and ops: "close_active c = (Ok ws, c1)" "register_item i c1 = (Ok n, c2)"
    and blk: "read_block blk = Some x" "act_index b = n" "shows_block (signatures c) b x"
    and g: "extend_block (json_object kvs) x = Some (grow_text d x)"
    and p: "push_delta kvs (ws @ [block_start n blk]) (c2\<lparr>an_call_ids := ks, an_active := Some b\<rparr>) = (Ok vs, c')"
  shows "c' = c2\<lparr>an_call_ids := ks, an_active := Some b\<rparr> \<and> delta_read c r vs c' False (grow_text d) x"
proof -
  let ?r = "r\<lparr>rd_phase := RdOpen, rd_blocks := sealed c (rd_blocks r) @ [x]\<rparr>"
  let ?c = "c2\<lparr>an_call_ids := ks, an_active := Some b\<rparr>"
  have rd: "read_wires (ws @ [block_start n blk]) r = Some ?r" and "an_view (c2\<lparr>an_active := Some b\<rparr>) ?r"
    using open_read [OF v live ops blk] by auto
  then have v': "an_view ?c ?r" by (simp add: an_view_def)
  have ctx: "signatures ?c = signatures c"
    using close_active_read [OF v live] ops(1) register_item_Ok [OF ops(2)] by auto
  have "shows_block (signatures c) b (grow_text d x)" using blk(3) by (cases b; cases x) auto
  then show ?thesis
    using push_delta_read [OF v' _ _ g _ rd p] ctx by (auto simp: delta_read_def)
qed

definition same_text :: "string \<Rightarrow> anthropic_codec \<Rightarrow> bool" where
  "same_text i c = (case an_active c of Some (ActText a _) \<Rightarrow> a = i | _ \<Rightarrow> False)"

definition same_reasoning :: "string \<Rightarrow> anthropic_codec \<Rightarrow> bool" where
  "same_reasoning i c = (case an_active c of Some (ActReasoning a _) \<Rightarrow> a = i | _ \<Rightarrow> False)"

definition same_tool :: "string \<Rightarrow> string \<Rightarrow> string \<Rightarrow> anthropic_codec \<Rightarrow> bool" where
  "same_tool i k n c = (case an_active c of Some (ActTool a k' n' _) \<Rightarrow> a = i \<and> k' = k \<and> n' = n | _ \<Rightarrow> False)"

lemma delta_allowed_Ok:
  "an_require_delta_allowed c = Ok u \<longleftrightarrow> an_response_id c \<noteq> None \<and> an_usage c = None"
  by (auto simp: an_require_delta_allowed_def an_require_created_def split: if_splits)

abbreviation text_kvs :: "string \<Rightarrow> (string \<times> json) list" where
  "text_kvs d \<equiv> [(''type'', JString ''text_delta''), (''text'', JString d)]"

abbreviation thinking_kvs :: "string \<Rightarrow> (string \<times> json) list" where
  "thinking_kvs d \<equiv> [(''type'', JString ''thinking_delta''), (''thinking'', JString d)]"

abbreviation input_kvs :: "string \<Rightarrow> (string \<times> json) list" where
  "input_kvs d \<equiv> [(''type'', JString ''input_json_delta''), (''partial_json'', JString d)]"

lemma extend_text: "shows_block sigs (ActText i n) x \<Longrightarrow> extend_block (json_object (text_kvs d)) x = Some (grow_text d x)"
  by (cases x) (simp_all add: extend_block_def)

lemma extend_thinking:
  "shows_block sigs (ActReasoning i n) x \<Longrightarrow> extend_block (json_object (thinking_kvs d)) x = Some (grow_text d x)"
  by (cases x) (simp_all add: extend_block_def)

lemma extend_input:
  "shows_block sigs (ActTool i k m n) x \<Longrightarrow> extend_block (json_object (input_kvs d)) x = Some (grow_text d x)"
  by (cases x) (simp_all add: extend_block_def)

lemma text_delta_read:
  assumes v: "an_view c r" and ok: "an_text_delta to_vec i d c = (Ok ws, c')"
  shows "delta_read c r ws c' (same_text i c) (grow_text d) (BText [])
    \<and> (\<exists>n. an_active c' = Some (ActText i n))"
proof -
  have live: "an_response_id c \<noteq> None" "an_usage c = None"
    using ok by (auto simp: an_text_delta_def delta_allowed_Ok split: sum.splits)
  show ?thesis
  proof (cases "same_text i c")
    case True
    then obtain n where a: "an_active c = Some (ActText i n)"
      by (auto simp: same_text_def split: option.splits active_block.splits)
    then have "push_delta (text_kvs d) [] c = (Ok ws, c')"
      using ok by (auto simp: an_text_delta_def activate_text_def split: sum.splits)
    from delta_read_same [OF v a this extend_text [of "signatures c" i n]] show ?thesis using True a by auto
  next
    case False
    then obtain ws1 c1 n c2 where ops: "close_active c = (Ok ws1, c1)" "register_item i c1 = (Ok n, c2)"
      and p: "push_delta (text_kvs d)
        (ws1 @ [block_start n (json_object [(''type'', JString ''text''), (''text'', JString [])])])
        (c2\<lparr>an_call_ids := an_call_ids c2, an_active := Some (ActText i n)\<rparr>) = (Ok ws, c')"
      using ok by (auto simp: an_text_delta_def activate_text_def same_text_def st_then_eq_Ok split: sum.splits)
    from delta_read_fresh [where x = "BText []", OF v live ops _ _ _ extend_text [of "signatures c" i n] p] False show ?thesis
      by (auto simp: read_block_def)
  qed
qed

lemma reasoning_delta_read:
  assumes v: "an_view c r" and ok: "an_reasoning_delta to_vec i d c = (Ok ws, c')"
  shows "delta_read c r ws c' (same_reasoning i c) (grow_text d) (BThinking [] [])
    \<and> (\<exists>n. an_active c' = Some (ActReasoning i n))"
proof -
  have live: "an_response_id c \<noteq> None" "an_usage c = None"
    using ok by (auto simp: an_reasoning_delta_def delta_allowed_Ok split: sum.splits)
  show ?thesis
  proof (cases "same_reasoning i c")
    case True
    then obtain n where a: "an_active c = Some (ActReasoning i n)"
      by (auto simp: same_reasoning_def split: option.splits active_block.splits)
    then have "push_delta (thinking_kvs d) [] c = (Ok ws, c')"
      using ok by (auto simp: an_reasoning_delta_def activate_reasoning_def split: sum.splits)
    from delta_read_same [OF v a this extend_thinking [of "signatures c" i n]] show ?thesis using True a by auto
  next
    case False
    then obtain ws1 c1 n c2 where ops: "close_active c = (Ok ws1, c1)" "register_item i c1 = (Ok n, c2)"
      and sig: "bt_get (signatures c) i \<noteq> None"
      and p: "push_delta (thinking_kvs d)
        (ws1 @ [block_start n (json_object
           [(''type'', JString ''thinking''), (''thinking'', JString []), (''signature'', JString [])])])
        (c2\<lparr>an_call_ids := an_call_ids c2, an_active := Some (ActReasoning i n)\<rparr>) = (Ok ws, c')"
      using ok
      by (auto simp: an_reasoning_delta_def activate_reasoning_def same_reasoning_def st_then_eq_Ok
          split: sum.splits option.splits)
    from delta_read_fresh [where x = "BThinking [] []", OF v live ops _ _ _ extend_thinking [of "signatures c" i n] p] False sig show ?thesis
      by (auto simp: read_block_def)
  qed
qed

lemma tool_delta_read:
  assumes v: "an_view c r" and ok: "an_tool_delta to_vec i k m d c = (Ok ws, c')"
  shows "delta_read c r ws c' (same_tool i k m c) (grow_text d) (BTool k m [])
    \<and> (\<exists>n. an_active c' = Some (ActTool i k m n))"
proof -
  have live: "an_response_id c \<noteq> None" "an_usage c = None"
    using ok by (auto simp: an_tool_delta_def delta_allowed_Ok split: sum.splits)
  show ?thesis
  proof (cases "same_tool i k m c")
    case True
    then obtain n where a: "an_active c = Some (ActTool i k m n)"
      by (auto simp: same_tool_def split: option.splits active_block.splits)
    then have "push_delta (input_kvs d) [] c = (Ok ws, c')"
      using ok by (auto simp: an_tool_delta_def activate_tool_def split: sum.splits)
    from delta_read_same [OF v a this extend_input [of "signatures c" i k m n]] show ?thesis using True a by auto
  next
    case False
    then obtain ws1 c1 n c2 where ops: "close_active c = (Ok ws1, c1)" "register_item i c1 = (Ok n, c2)"
      and p: "push_delta (input_kvs d)
        (ws1 @ [block_start n (json_object
           [(''type'', JString ''tool_use''), (''id'', JString k), (''name'', JString m), (''input'', json_object [])])])
        (c2\<lparr>an_call_ids := k # an_call_ids c2, an_active := Some (ActTool i k m n)\<rparr>) = (Ok ws, c')"
      using ok
      by (auto simp: an_tool_delta_def activate_tool_def same_tool_def st_then_eq_Ok split: sum.splits if_splits)
    from delta_read_fresh [where x = "BTool k m []", OF v live ops _ _ _ extend_input [of "signatures c" i k m n] p] False show ?thesis
      by (auto simp: read_block_def)
  qed
qed

text \<open>Extra fields never replace a field of the message.\<close>

lemma or_insert_keeps:
  "bt_wf m \<Longrightarrow> bt_get m k = Some v \<Longrightarrow> bt_get (fold (\<lambda>(k, v). bt_or_insert k v) kvs m) k = Some v"
proof (induction kvs arbitrary: m)
  case (Cons kv kvs)
  then show ?case
    using Cons.IH [OF bt_or_insert_wf [OF Cons.prems(1)]] by (cases kv) (simp add: bt_get_or_insert)
qed simp

lemma extra_keeps:
  assumes "map_of (rev base) k = Some v"
  shows "json_get k (JObject (fold (\<lambda>(k, v). bt_or_insert k v) kvs (bt_collect base))) = Some v"
  using assms json_get_object [of k base] or_insert_keeps [OF bt_collect_wf] by (simp add: json_object_def)

lemma created_read:
  assumes "an_view c r" "an_created response_id c = (Ok ws, c')"
  shows "\<exists>m. read_wires ws r = Some (r\<lparr>rd_phase := RdBetween, rd_message := m\<rparr>)
    \<and> an_view c' (r\<lparr>rd_phase := RdBetween, rd_message := m\<rparr>)
    \<and> json_get ''id'' m = Some (JString response_id) \<and> json_get ''model'' m = Some (JString (aec_model (an_context c)))"
proof -
  define m where "m = JObject (fold (\<lambda>(k, v). bt_or_insert k v) (art_extra (aec_response (an_context c)))
    (bt_collect [(''id'', JString response_id), (''type'', JString ''message''), (''role'', JString ''assistant''),
      (''content'', JArray []), (''model'', JString (aec_model (an_context c))), (''stop_reason'', JNull),
      (''stop_sequence'', JNull), (''usage'', initial_usage_value (aec_initial_usage (an_context c)))]))"
  have ws: "ws = [an_wire ''message_start'' [(''message'', m)]]" "c' = c\<lparr>an_response_id := Some response_id\<rparr>"
    "an_response_id c = None"
    using assms(2) by (auto simp: an_created_def m_def Let_def split: if_splits sum.splits)
  show ?thesis
  proof (intro exI [of _ m] conjI)
    show "read_wires ws r = Some (r\<lparr>rd_phase := RdBetween, rd_message := m\<rparr>)"
      using assms(1) ws by (simp add: read_wire_def an_wire_def an_view_def)
    show "an_view c' (r\<lparr>rd_phase := RdBetween, rd_message := m\<rparr>)" using assms(1) ws by (simp add: an_view_def)
    show "json_get ''id'' m = Some (JString response_id)"
      unfolding m_def by (rule extra_keeps) simp
    show "json_get ''model'' m = Some (JString (aec_model (an_context c)))"
      unfolding m_def by (rule extra_keeps) simp
  qed
qed

lemma usage_read:
  assumes v: "an_view c r" and ok: "an_usage_event to_vec u c = (Ok ws, c')"
  shows "\<exists>d. read_wires ws r = Some (r\<lparr>rd_phase := RdDelta, rd_blocks := sealed c (rd_blocks r), rd_delta := d\<rparr>)
    \<and> an_view c' (r\<lparr>rd_phase := RdDelta, rd_blocks := sealed c (rd_blocks r), rd_delta := d\<rparr>)
    \<and> c' = c\<lparr>an_active := None, an_usage := Some u\<rparr>
    \<and> json_get ''stop_reason'' d = Some (JString (stop_reason_str (art_stop_reason (aec_response (an_context c)))))
    \<and> json_get ''stop_sequence'' d
        = Some (json_option (map_option JString (art_stop_sequence (aec_response (an_context c)))))"
proof -
  have live: "an_response_id c \<noteq> None" "an_usage c = None"
    using ok by (auto simp: an_usage_event_def an_require_created_def split: sum.splits if_splits)
  from close_active_read [OF v live] obtain vs where vs: "close_active c = (Ok vs, c\<lparr>an_active := None\<rparr>)"
    "read_wires vs r = Some (r\<lparr>rd_phase := RdBetween, rd_blocks := sealed c (rd_blocks r)\<rparr>)"
    "an_view (c\<lparr>an_active := None\<rparr>) (r\<lparr>rd_phase := RdBetween, rd_blocks := sealed c (rd_blocks r)\<rparr>)"
    by blast
  let ?tpl = "aec_response (an_context c)"
  let ?d = "json_object [(''stop_reason'', JString (stop_reason_str (art_stop_reason ?tpl))),
    (''stop_sequence'', json_option (map_option JString (art_stop_sequence ?tpl)))]"
  have ws: "ws = vs @ [an_wire ''message_delta'' [(''delta'', ?d), (''usage'', final_usage_value u)]]"
    "c' = c\<lparr>an_active := None, an_usage := Some u\<rparr>"
    using ok vs(1) by (auto simp: an_usage_event_def split: sum.splits)
  show ?thesis
    using vs(2,3) live
    by (intro exI [of _ ?d] conjI)
       (simp_all add: ws read_wires_append read_wire_def an_wire_def an_view_def)
qed

lemma completed_read:
  assumes "an_view c r" "an_completed c = (Ok ws, c')"
  shows "read_wires ws r = Some (r\<lparr>rd_phase := RdStop\<rparr>) \<and> ws \<noteq> [] \<and> an_terminal c'
    \<and> an_usage c \<noteq> None \<and> an_active c = None"
  using assms
  by (auto simp: an_completed_def an_require_created_def read_wire_def an_wire_def an_view_def split: if_splits)

subsection \<open>One event\<close>

lemma validated_once:
  assumes "an_validate_context to_vec (an_limits c) (an_context c) = Ok ()"
  shows "an_validate_context_once to_vec c = (Ok (), c\<lparr>an_context_validated := True\<rparr>)"
  using assms by (cases "an_context_validated c") (auto simp: an_validate_context_once_def)

lemma validated_signed:
  assumes "an_validate_context to_vec lim ctx = Ok ()"
  shows "all_signed (art_thinking_signatures (aec_response ctx))"
  using assms
  by (auto simp: an_validate_context_def try_for_each_Ok all_signed_def validate_opaque_payload_def bt_get_def
      split: if_splits dest!: map_of_SomeD)

lemma an_view_start:
  "all_signed (art_thinking_signatures (aec_response ctx)) \<Longrightarrow> an_view (an_with_limits ctx lim) reader_new"
  by (simp add: an_view_def an_with_limits_def reader_new_def)

text \<open>What every event leaves alone, accepted or not.\<close>

definition an_frame :: "anthropic_codec \<Rightarrow> anthropic_codec \<Rightarrow> bool" where
  "an_frame c c' = (an_context c' = an_context c \<and> an_limits c' = an_limits c \<and> an_terminal c' = an_terminal c)"

lemma close_active_frame: "close_active c = (x, c') \<Longrightarrow> an_frame c c' \<and> x \<noteq> Err Panic"
  by (auto simp: close_active_def an_frame_def Let_def split: option.splits active_block.splits)

lemma register_item_frame: "register_item i c = (x, c') \<Longrightarrow> an_frame c c' \<and> x \<noteq> Err Panic"
  by (auto simp: register_item_def an_frame_def an_validate_identifier_def split: sum.splits if_splits)

lemma an_frame_trans: "an_frame c c' \<Longrightarrow> an_frame c' c'' \<Longrightarrow> an_frame c c''"
  by (simp add: an_frame_def)

text \<open>Closing the open block, claiming an item and going on: \<open>k\<close> only opens the new block.\<close>

lemma reopen_frame:
  assumes "st_then (close_active c) (\<lambda>ws c1. if P c1 then (bad_request, c1)
      else st_then (register_item i c1) (\<lambda>n c2. (Ok (f ws n), g n c2))) = (x, c')"
    and "\<And>n c2. an_frame c2 (g n c2) \<and> an_active (g n c2) \<noteq> None"
  shows "an_frame c c' \<and> x \<noteq> Err Panic \<and> (is_ok x \<longrightarrow> an_active c' \<noteq> None)"
proof -
  obtain y c1 where y: "close_active c = (y, c1)" by (cases "close_active c")
  obtain z c2 where z: "register_item i c1 = (z, c2)" by (cases "register_item i c1")
  note fr = close_active_frame [OF y] register_item_frame [OF z]
  show ?thesis
    using assms fr y z by (cases y; cases z) (auto split: if_splits intro: an_frame_trans)
qed

lemma an_frame_updates [simp]:
  "an_frame c c"
  "an_frame c (c\<lparr>an_active := b\<rparr>)" "an_frame c (c\<lparr>an_call_ids := ks, an_active := b\<rparr>)"
  by (simp_all add: an_frame_def)

lemma activate_frame:
  "activate_text i c = (x, c') \<Longrightarrow> an_frame c c' \<and> x \<noteq> Err Panic \<and> (is_ok x \<longrightarrow> an_active c' \<noteq> None)"
  "activate_reasoning i c = (x, c') \<Longrightarrow> an_frame c c' \<and> x \<noteq> Err Panic \<and> (is_ok x \<longrightarrow> an_active c' \<noteq> None)"
  "activate_tool i k m c = (x, c') \<Longrightarrow> an_frame c c' \<and> x \<noteq> Err Panic \<and> (is_ok x \<longrightarrow> an_active c' \<noteq> None)"
proof -
  show "an_frame c c' \<and> x \<noteq> Err Panic \<and> (is_ok x \<longrightarrow> an_active c' \<noteq> None)" if t: "activate_text i c = (x, c')"
  proof (cases "same_text i c")
    case True
    with t show ?thesis by (auto simp: activate_text_def same_text_def split: option.splits)
  next
    case False
    with t show ?thesis
      by (intro reopen_frame [where P = "\<lambda>_. False" and i = i and g = "\<lambda>n c2. c2\<lparr>an_active := Some (ActText i n)\<rparr>"])
         (auto simp: activate_text_def same_text_def)
  qed
  show "an_frame c c' \<and> x \<noteq> Err Panic \<and> (is_ok x \<longrightarrow> an_active c' \<noteq> None)" if t: "activate_reasoning i c = (x, c')"
  proof (cases "same_reasoning i c \<or> bt_get (signatures c) i = None
      \<or> (\<exists>e s. bt_get (signatures c) i = Some s \<and> validate_opaque_payload (an_limits c) s = Err e)")
    case True
    with t show ?thesis
      by (auto simp: activate_reasoning_def same_reasoning_def validate_opaque_payload_def split: option.splits if_splits)
  next
    case False
    then obtain s where "bt_get (signatures c) i = Some s" "validate_opaque_payload (an_limits c) s = Ok ()"
      by (cases "bt_get (signatures c) i"; cases "validate_opaque_payload (an_limits c) (the (bt_get (signatures c) i))") auto
    with t False show ?thesis
      by (intro reopen_frame [where P = "\<lambda>_. False" and i = i and g = "\<lambda>n c2. c2\<lparr>an_active := Some (ActReasoning i n)\<rparr>"])
         (auto simp: activate_reasoning_def same_reasoning_def)
  qed
  show "an_frame c c' \<and> x \<noteq> Err Panic \<and> (is_ok x \<longrightarrow> an_active c' \<noteq> None)" if t: "activate_tool i k m c = (x, c')"
  proof (cases "same_tool i k m c \<or> an_validate_identifier (an_limits c) k \<noteq> Ok () \<or> an_validate_identifier (an_limits c) m \<noteq> Ok ()")
    case True
    with t show ?thesis
      by (auto simp: activate_tool_def same_tool_def an_validate_identifier_def split: option.splits if_splits)
  next
    case False
    with t show ?thesis
      by (intro reopen_frame [where P = "\<lambda>c1. k \<in> set (an_call_ids c1)" and i = i
            and g = "\<lambda>n c2. c2\<lparr>an_call_ids := k # an_call_ids c2, an_active := Some (ActTool i k m n)\<rparr>"])
         (auto simp: activate_tool_def same_tool_def)
  qed
qed

lemma push_delta_frame:
  "an_active c \<noteq> None \<Longrightarrow> push_delta kvs ws c = (x, c') \<Longrightarrow> an_frame c c' \<and> x \<noteq> Err Panic"
  by (auto simp: push_delta_def)

lemma activate_then_delta_frame:
  assumes "st_then (y, c1) (push_delta kvs) = (x, c')"
    and "an_frame c c1 \<and> y \<noteq> Err Panic \<and> (is_ok y \<longrightarrow> an_active c1 \<noteq> None)"
  shows "an_frame c c' \<and> x \<noteq> Err Panic"
  using assms push_delta_frame [of c1 kvs _ x c'] by (cases y) (auto intro: an_frame_trans)

lemma delta_checks_no_panic:
  "and_then (an_require_delta_allowed c) (\<lambda>_. an_validate_value to_vec lim v) \<noteq> Err Panic"
  by (auto simp: an_require_delta_allowed_def an_require_created_def an_validate_value_def)

lemma delta_frame:
  "an_text_delta to_vec i d c = (x, c') \<Longrightarrow> an_frame c c' \<and> x \<noteq> Err Panic"
  "an_reasoning_delta to_vec i d c = (x, c') \<Longrightarrow> an_frame c c' \<and> x \<noteq> Err Panic"
  "an_tool_delta to_vec i k m d c = (x, c') \<Longrightarrow> an_frame c c' \<and> x \<noteq> Err Panic"
proof -
  let ?chk = "and_then (an_require_delta_allowed c) (\<lambda>_. an_validate_value to_vec (an_limits c) (JString d))"
  have np: "?chk \<noteq> Err Panic" by (rule delta_checks_no_panic)
  show "an_frame c c' \<and> x \<noteq> Err Panic" if t: "an_text_delta to_vec i d c = (x, c')"
  proof (cases ?chk)
    case (Inr u)
    obtain y c1 where y: "activate_text i c = (y, c1)" by (cases "activate_text i c")
    with t Inr have "st_then (y, c1) (push_delta (text_kvs d)) = (x, c')" by (simp add: an_text_delta_def)
    then show ?thesis by (rule activate_then_delta_frame [OF _ activate_frame(1) [OF y]])
  qed (use t np in \<open>auto simp: an_text_delta_def\<close>)
  show "an_frame c c' \<and> x \<noteq> Err Panic" if t: "an_reasoning_delta to_vec i d c = (x, c')"
  proof (cases ?chk)
    case (Inr u)
    obtain y c1 where y: "activate_reasoning i c = (y, c1)" by (cases "activate_reasoning i c")
    with t Inr have "st_then (y, c1) (push_delta (thinking_kvs d)) = (x, c')" by (simp add: an_reasoning_delta_def)
    then show ?thesis by (rule activate_then_delta_frame [OF _ activate_frame(2) [OF y]])
  qed (use t np in \<open>auto simp: an_reasoning_delta_def\<close>)
  show "an_frame c c' \<and> x \<noteq> Err Panic" if t: "an_tool_delta to_vec i k m d c = (x, c')"
  proof (cases ?chk)
    case (Inr u)
    obtain y c1 where y: "activate_tool i k m c = (y, c1)" by (cases "activate_tool i k m c")
    with t Inr have "st_then (y, c1) (push_delta (input_kvs d)) = (x, c')" by (simp add: an_tool_delta_def)
    then show ?thesis by (rule activate_then_delta_frame [OF _ activate_frame(3) [OF y]])
  qed (use t np in \<open>auto simp: an_tool_delta_def\<close>)
qed

lemma usage_event_frame:
  assumes "an_usage_event to_vec u c = (x, c')"
  shows "an_frame c c' \<and> x \<noteq> Err Panic"
proof -
  obtain y c1 where y: "close_active c = (y, c1)" by (cases "close_active c")
  from close_active_frame [OF y] assms y show ?thesis
    by (cases y)
       (auto simp: an_usage_event_def an_frame_def an_require_created_def an_validate_value_def
         split: sum.splits if_splits)
qed

definition an_live :: "(json \<Rightarrow> string) \<Rightarrow> anthropic_codec \<Rightarrow> bool" where
  "an_live to_vec c = (\<not> an_terminal c \<and> an_validate_context to_vec (an_limits c) (an_context c) = Ok ())"

text \<open>The event without the checks that come before it.\<close>

definition an_apply ::
  "(json \<Rightarrow> string) \<Rightarrow> canonical_event \<Rightarrow> anthropic_codec \<Rightarrow> wire_event list codec_result \<times> anthropic_codec" where
  "an_apply to_vec ev c =
     (case ev of
        Created response_id \<Rightarrow> an_created response_id c
      | OutputTextDelta i d \<Rightarrow> an_text_delta to_vec i d c
      | ReasoningDelta i d \<Rightarrow> an_reasoning_delta to_vec i d c
      | ToolCallDelta i k m d \<Rightarrow> an_tool_delta to_vec i k m d c
      | UsageEvent u \<Rightarrow> an_usage_event to_vec u c
      | Completed \<Rightarrow> an_completed c
      | Failed e \<Rightarrow> (Ok [an_error_wire e], c\<lparr>an_terminal := True\<rparr>))"

lemma an_transition_live:
  "an_live to_vec c \<Longrightarrow> an_transition to_vec ev c = an_apply to_vec ev (c\<lparr>an_context_validated := True\<rparr>)"
  by (cases ev) (simp_all add: an_live_def an_transition_def an_apply_def validated_once an_failed_def)

lemma an_apply_frame:
  assumes "an_apply to_vec ev c = (x, c')" "\<not> an_terminal c"
  shows "an_context c' = an_context c \<and> an_limits c' = an_limits c \<and> x \<noteq> Err Panic
    \<and> (an_terminal c' \<longleftrightarrow> is_ok x \<and> event_outcome ev \<noteq> None)"
  using assms delta_frame(1,2) [where to_vec = to_vec and c = c and x = x and c' = c']
    delta_frame(3) [where to_vec = to_vec and c = c and x = x and c' = c'] usage_event_frame [of to_vec _ c x c']
  by (cases ev)
     (auto simp: an_apply_def an_frame_def event_outcome_def an_created_def an_completed_def an_require_created_def
       an_validate_identifier_def Let_def split: if_splits sum.splits)

text \<open>
  The main lemma on one event: the reader accepts what the codec produces. After the last event the
  reader is done; before, it still agrees with the codec.
\<close>

lemma an_apply_read:
  assumes v: "an_view c r" and ok: "an_apply to_vec ev c = (Ok ws, c')"
  shows "ws \<noteq> [] \<and> (\<exists>r'. read_wires ws r = Some r'
    \<and> (if event_outcome ev = None then an_view c' r' else rd_phase r' = RdStop \<or> rd_phase r' = RdError))"
proof -
  have open_phase: "rd_phase r \<noteq> RdStop" "rd_phase r \<noteq> RdError" using v by (auto simp: an_view_def)
  show ?thesis
  proof (cases ev)
    case (Created response_id)
    then have e: "an_created response_id c = (Ok ws, c')" using ok by (simp add: an_apply_def)
    then have "ws \<noteq> []" by (auto simp: an_created_def Let_def split: if_splits sum.splits)
    with Created created_read [OF v e] show ?thesis by (auto simp: event_outcome_def)
  next
    case (OutputTextDelta i d)
    then have "an_text_delta to_vec i d c = (Ok ws, c')" using ok by (simp add: an_apply_def)
    from text_delta_read [OF v this] this OutputTextDelta show ?thesis
      by (auto simp: event_outcome_def delta_read_def an_text_delta_def st_then_eq_Ok push_delta_def split: sum.splits option.splits)
  next
    case (ReasoningDelta i d)
    then have "an_reasoning_delta to_vec i d c = (Ok ws, c')" using ok by (simp add: an_apply_def)
    from reasoning_delta_read [OF v this] this ReasoningDelta show ?thesis
      by (auto simp: event_outcome_def delta_read_def an_reasoning_delta_def st_then_eq_Ok push_delta_def split: sum.splits option.splits)
  next
    case (ToolCallDelta i k m d)
    then have "an_tool_delta to_vec i k m d c = (Ok ws, c')" using ok by (simp add: an_apply_def)
    from tool_delta_read [OF v this] this ToolCallDelta show ?thesis
      by (auto simp: event_outcome_def delta_read_def an_tool_delta_def st_then_eq_Ok push_delta_def split: sum.splits option.splits)
  next
    case (UsageEvent u)
    then have e: "an_usage_event to_vec u c = (Ok ws, c')" using ok by (simp add: an_apply_def)
    then have "ws \<noteq> []" by (auto simp: an_usage_event_def st_then_eq_Ok split: sum.splits)
    with UsageEvent usage_read [OF v e] show ?thesis by (auto simp: event_outcome_def)
  next
    case Completed
    then show ?thesis using ok completed_read [OF v] by (auto simp: an_apply_def event_outcome_def)
  next
    case (Failed e)
    then show ?thesis using ok read_error [OF open_phase] by (auto simp: an_apply_def event_outcome_def)
  qed
qed

end
