(* ===== verification/Anthropic_Response.thy ===== *)
theory Anthropic_Response
  imports Anthropic_Facts
begin

text \<open>
  The streaming codec against the aggregator of Anthropic Messages: whenever the aggregator builds a
  response, the stream of the same events is accepted to its end, and the client's reader has joined
  the content of that response. The simulation relates the aggregator, the codec and the reader
  after every event.
\<close>

subsection \<open>The simulation\<close>

fun block_of :: "(string, string) btree \<Rightarrow> aggregate_output \<Rightarrow> block" where
  "block_of sigs (AggText _ t) = BText t"
| "block_of sigs (AggReasoning i t) = BThinking t (case bt_get sigs i of None \<Rightarrow> [] | Some s \<Rightarrow> s)"
| "block_of sigs (AggTool _ k n j) = BTool k n j"

fun shows_output :: "active_block option \<Rightarrow> aggregate_output option \<Rightarrow> bool" where
  "shows_output None None = True"
| "shows_output (Some (ActText i _)) (Some (AggText i' _)) = (i = i')"
| "shows_output (Some (ActReasoning i _)) (Some (AggReasoning i' _)) = (i = i')"
| "shows_output (Some (ActTool i k n _)) (Some (AggTool i' k' n' _)) = (i = i' \<and> k = k' \<and> n = n')"
| "shows_output _ _ = False"

definition same_items :: "anthropic_aggregator \<Rightarrow> anthropic_codec \<Rightarrow> bool" where
  "same_items a c =
     (ag_context a = an_context c \<and> ag_limits a = an_limits c \<and> ag_response_id a = an_response_id c
      \<and> ag_usage a = an_usage c \<and> ag_seen_items a = an_seen_items c \<and> ag_call_ids a = an_call_ids c)"

definition response_sim :: "anthropic_aggregator \<Rightarrow> anthropic_codec \<Rightarrow> reader \<Rightarrow> bool" where
  "response_sim a c r =
     (same_items a c \<and> an_view c r \<and> sealed c (rd_blocks r) = map (block_of (signatures c)) (ag_outputs a)
      \<and> (an_usage c = None \<longrightarrow> shows_output (an_active c) (last_output a))
      \<and> (\<forall>rid. an_response_id c = Some rid \<longrightarrow>
           json_get ''id'' (rd_message r) = Some (JString rid)
           \<and> json_get ''model'' (rd_message r) = Some (JString (aec_model (an_context c))))
      \<and> (an_usage c \<noteq> None \<longrightarrow>
           json_get ''stop_reason'' (rd_delta r)
             = Some (JString (stop_reason_str (art_stop_reason (aec_response (an_context c)))))
           \<and> json_get ''stop_sequence'' (rd_delta r)
             = Some (json_option (map_option JString (art_stop_sequence (aec_response (an_context c)))))))"

lemma grow_block_of:
  "grow_text d (block_of sigs (AggText i t)) = block_of sigs (AggText i (t @ d))"
  "grow_text d (block_of sigs (AggReasoning i t)) = block_of sigs (AggReasoning i (t @ d))"
  "grow_text d (block_of sigs (AggTool i k n j)) = block_of sigs (AggTool i k n (j @ d))"
  by simp_all

text \<open>Growing the open block commutes with sealing it.\<close>

lemma sealed_grow:
  "bs \<noteq> [] \<Longrightarrow>
   sealed c (butlast bs @ [grow_text d (last bs)]) = butlast (sealed c bs) @ [grow_text d (last (sealed c bs))]"
  by (cases bs rule: rev_cases) (auto simp: sealed_def split: option.split active_block.split block.split)

lemma sealed_validated [simp]: "sealed (c\<lparr>an_context_validated := v\<rparr>) bs = sealed c bs"
  by (auto simp: sealed_def split: option.split active_block.split block.split)

lemma sealed_cong:
  "signatures c' = signatures c \<Longrightarrow> an_active c = Some b \<Longrightarrow> an_active c' = Some b' \<Longrightarrow> act_item b = act_item b'
   \<Longrightarrow> is_ActReasoning b = is_ActReasoning b' \<Longrightarrow> sealed c' bs = sealed c bs"
  by (cases b; cases b') (auto simp: sealed_def)

subsection \<open>The codec accepts what the aggregator accepts\<close>

definition may_register :: "string \<Rightarrow> anthropic_codec \<Rightarrow> bool" where
  "may_register i c =
     (an_validate_identifier (an_limits c) i = Ok () \<and> length (an_seen_items c) < al_max_output_items (an_limits c)
      \<and> i \<notin> set (an_seen_items c))"

definition small_delta :: "(json \<Rightarrow> string) \<Rightarrow> anthropic_limits \<Rightarrow> canonical_event \<Rightarrow> bool" where
  "small_delta to_vec lim ev =
     (case ev of
        OutputTextDelta _ d \<Rightarrow> length (to_vec (JString d)) \<le> al_max_value_bytes lim
      | ReasoningDelta _ d \<Rightarrow> length (to_vec (JString d)) \<le> al_max_value_bytes lim
      | ToolCallDelta _ _ _ d \<Rightarrow> length (to_vec (JString d)) \<le> al_max_value_bytes lim
      | _ \<Rightarrow> True)"

lemma register_item_may:
  "may_register i c \<Longrightarrow>
   register_item i c =
     (Ok (an_next_index c), c\<lparr>an_seen_items := i # an_seen_items c, an_next_index := an_next_index c + 1\<rparr>)"
  by (auto simp: may_register_def register_item_def)

lemma may_register_active [simp]: "may_register i (c\<lparr>an_active := b\<rparr>) = may_register i c"
  by (simp add: may_register_def)

text \<open>The bookkeeping that an accepted delta leaves: nothing new, or one item and perhaps one call.\<close>

definition noted :: "anthropic_codec \<Rightarrow> anthropic_codec \<Rightarrow> string list \<Rightarrow> string list \<Rightarrow> bool" where
  "noted c c' items calls =
     (an_context c' = an_context c \<and> an_limits c' = an_limits c \<and> an_response_id c' = an_response_id c
      \<and> an_usage c' = an_usage c \<and> an_seen_items c' = items @ an_seen_items c
      \<and> an_call_ids c' = calls @ an_call_ids c)"

lemma text_delta_accepted:
  assumes v: "an_view c r" and live: "an_response_id c \<noteq> None" "an_usage c = None"
    and small: "an_validate_value to_vec (an_limits c) (JString d) = Ok ()"
    and ok: "\<not> same_text i c \<Longrightarrow> may_register i c"
  shows "\<exists>ws c'. an_text_delta to_vec i d c = (Ok ws, c') \<and> noted c c' (if same_text i c then [] else [i]) []"
proof -
  have chk: "and_then (an_require_delta_allowed c) (\<lambda>_. an_validate_value to_vec (an_limits c) (JString d)) = Ok ()"
    using live small by (simp add: delta_allowed_Ok)
  obtain ws where cl: "close_active c = (Ok ws, c\<lparr>an_active := None\<rparr>)" using close_active_read [OF v live] by blast
  show ?thesis
  proof (cases "same_text i c")
    case True
    then obtain n where "an_active c = Some (ActText i n)"
      by (auto simp: same_text_def split: option.splits active_block.splits)
    with True chk show ?thesis by (simp add: an_text_delta_def activate_text_def push_delta_def noted_def)
  next
    case False
    with chk cl register_item_may [of i "c\<lparr>an_active := None\<rparr>"] ok [OF False] show ?thesis
      by (simp add: an_text_delta_def activate_text_def push_delta_def noted_def same_text_def)
  qed
qed

lemma reasoning_delta_accepted:
  assumes v: "an_view c r" and live: "an_response_id c \<noteq> None" "an_usage c = None"
    and small: "an_validate_value to_vec (an_limits c) (JString d) = Ok ()"
    and sig: "bt_get (signatures c) i = Some s" "validate_opaque_payload (an_limits c) s = Ok ()"
    and ok: "\<not> same_reasoning i c \<Longrightarrow> may_register i c"
  shows "\<exists>ws c'. an_reasoning_delta to_vec i d c = (Ok ws, c') \<and> noted c c' (if same_reasoning i c then [] else [i]) []"
proof -
  have chk: "and_then (an_require_delta_allowed c) (\<lambda>_. an_validate_value to_vec (an_limits c) (JString d)) = Ok ()"
    using live small by (simp add: delta_allowed_Ok)
  obtain ws where cl: "close_active c = (Ok ws, c\<lparr>an_active := None\<rparr>)" using close_active_read [OF v live] by blast
  show ?thesis
  proof (cases "same_reasoning i c")
    case True
    then obtain n where "an_active c = Some (ActReasoning i n)"
      by (auto simp: same_reasoning_def split: option.splits active_block.splits)
    with True chk show ?thesis by (simp add: an_reasoning_delta_def activate_reasoning_def push_delta_def noted_def)
  next
    case False
    with chk cl sig register_item_may [of i "c\<lparr>an_active := None\<rparr>"] ok [OF False] show ?thesis
      by (simp add: an_reasoning_delta_def activate_reasoning_def push_delta_def noted_def same_reasoning_def)
  qed
qed

lemma tool_delta_accepted:
  assumes v: "an_view c r" and live: "an_response_id c \<noteq> None" "an_usage c = None"
    and small: "an_validate_value to_vec (an_limits c) (JString d) = Ok ()"
    and ids: "an_validate_identifier (an_limits c) k = Ok ()" "an_validate_identifier (an_limits c) m = Ok ()"
    and ok: "\<not> same_tool i k m c \<Longrightarrow> may_register i c \<and> k \<notin> set (an_call_ids c)"
  shows "\<exists>ws c'. an_tool_delta to_vec i k m d c = (Ok ws, c')
    \<and> noted c c' (if same_tool i k m c then [] else [i]) (if same_tool i k m c then [] else [k])"
proof -
  have chk: "and_then (an_require_delta_allowed c) (\<lambda>_. an_validate_value to_vec (an_limits c) (JString d)) = Ok ()"
    using live small by (simp add: delta_allowed_Ok)
  obtain ws where cl: "close_active c = (Ok ws, c\<lparr>an_active := None\<rparr>)" using close_active_read [OF v live] by blast
  show ?thesis
  proof (cases "same_tool i k m c")
    case True
    then obtain n where "an_active c = Some (ActTool i k m n)"
      by (auto simp: same_tool_def split: option.splits active_block.splits)
    with True chk show ?thesis by (simp add: an_tool_delta_def activate_tool_def push_delta_def noted_def)
  next
    case False
    with chk cl ids register_item_may [of i "c\<lparr>an_active := None\<rparr>"] ok [OF False] show ?thesis
      by (simp add: an_tool_delta_def activate_tool_def push_delta_def noted_def same_tool_def)
  qed
qed

subsection \<open>One event of both\<close>

lemma last_output_Some: "last_output a = Some out \<longleftrightarrow> (\<exists>outs. ag_outputs a = outs @ [out])"
  by (cases "ag_outputs a" rule: rev_cases) (auto simp: last_output_def)

text \<open>What an accepted delta does to the aggregator.\<close>

definition appended :: "anthropic_aggregator \<Rightarrow> anthropic_aggregator \<Rightarrow> bool \<Rightarrow> string list \<Rightarrow> string list \<Rightarrow> aggregate_output \<Rightarrow> bool" where
  "appended a a' same items calls out =
     (ag_context a' = ag_context a \<and> ag_limits a' = ag_limits a \<and> ag_response_id a' = ag_response_id a
      \<and> ag_usage a' = ag_usage a \<and> ag_terminal a' = ag_terminal a \<and> ag_failed a' = ag_failed a
      \<and> ag_seen_items a' = items @ ag_seen_items a \<and> ag_call_ids a' = calls @ ag_call_ids a
      \<and> ag_outputs a' = (if same then butlast (ag_outputs a) else ag_outputs a) @ [out]
      \<and> ag_response_id a \<noteq> None \<and> ag_usage a = None)"

lemma response_sim_delta:
  assumes sim: "response_sim a c r" and rd: "delta_read c r ws c' same (grow_text d) fresh"
    and note_c: "noted c c' items calls" and app: "appended a a' same items calls out"
    and act: "an_active c' = Some b" "shows_output (Some b) (Some out)"
    and same: "same \<Longrightarrow> \<exists>b0 out0. an_active c = Some b0 \<and> act_item b0 = act_item b
        \<and> is_ActReasoning b0 = is_ActReasoning b \<and> last_output a = Some out0
        \<and> block_of (signatures c) out = grow_text d (block_of (signatures c) out0)"
    and fresh: "\<not> same \<Longrightarrow> \<forall>bs. sealed c' (bs @ [grow_text d fresh]) = bs @ [block_of (signatures c) out]"
  shows "\<exists>r'. read_wires ws r = Some r' \<and> response_sim a' c' r'"
proof -
  obtain r' where r': "read_wires ws r = Some r'" "an_view c' r'"
    and eq: "r' = r\<lparr>rd_phase := RdOpen, rd_blocks :=
      if same then butlast (rd_blocks r) @ [grow_text d (last (rd_blocks r))]
      else sealed c (rd_blocks r) @ [grow_text d fresh]\<rparr>"
    using rd by (auto simp: delta_read_def)
  have old: "sealed c (rd_blocks r) = map (block_of (signatures c)) (ag_outputs a)"
    using sim by (simp add: response_sim_def)
  have blocks: "sealed c' (rd_blocks r') = map (block_of (signatures c)) (ag_outputs a')"
  proof (cases same)
    case True
    with same obtain b0 out0 outs where b0: "an_active c = Some b0" "act_item b0 = act_item b"
      "is_ActReasoning b0 = is_ActReasoning b" and out0: "ag_outputs a = outs @ [out0]"
      "block_of (signatures c) out = grow_text d (block_of (signatures c) out0)"
      by (auto simp: last_output_Some)
    have "rd_blocks r \<noteq> []" using sim b0(1) by (auto simp: response_sim_def an_view_def)
    then have "sealed c (rd_blocks r') = map (block_of (signatures c)) outs @ [block_of (signatures c) out]"
      using True eq old out0 by (simp add: sealed_grow)
    moreover have "sealed c' (rd_blocks r') = sealed c (rd_blocks r')"
      using note_c by (intro sealed_cong [OF _ b0(1) act(1)]) (simp_all add: noted_def b0)
    ultimately show ?thesis using app True out0(1) by (simp add: appended_def)
  next
    case False
    with fresh [OF False] eq old app show ?thesis by (simp add: appended_def)
  qed
  have "last_output a' = Some out" using app by (auto simp: appended_def last_output_Some)
  then have "response_sim a' c' r'"
    using sim r'(2) blocks note_c app act eq
    by (auto simp: response_sim_def same_items_def noted_def appended_def)
  with r'(1) show ?thesis by blast
qed

lemma append_text_Ok:
  assumes "append_text i d a = Ok a'"
  shows "(\<exists>t. last_output a = Some (AggText i t) \<and> appended a a' True [] [] (AggText i (t @ d)))
    \<or> (\<forall>t. last_output a \<noteq> Some (AggText i t)) \<and> appended a a' False [i] [] (AggText i d)
      \<and> an_validate_identifier (ag_limits a) i = Ok () \<and> length (ag_seen_items a) < al_max_output_items (ag_limits a)
      \<and> i \<notin> set (ag_seen_items a)"
  using assms
  by (auto simp: append_text_def ag_require_delta_allowed_def ag_require_created_def appended_def set_last_output_def
      push_output_def add_bytes_def ag_register_item_def split: if_splits option.splits aggregate_output.splits)

lemma append_reasoning_Ok:
  assumes "append_reasoning i d a = Ok a'"
  shows "(\<exists>t. last_output a = Some (AggReasoning i t) \<and> appended a a' True [] [] (AggReasoning i (t @ d)))
    \<or> (\<forall>t. last_output a \<noteq> Some (AggReasoning i t)) \<and> appended a a' False [i] [] (AggReasoning i d)
      \<and> an_validate_identifier (ag_limits a) i = Ok () \<and> length (ag_seen_items a) < al_max_output_items (ag_limits a)
      \<and> i \<notin> set (ag_seen_items a)"
    and "bt_get (art_thinking_signatures (aec_response (ag_context a))) i \<noteq> None"
  using assms
  by (auto simp: append_reasoning_def ag_require_delta_allowed_def ag_require_created_def appended_def
      set_last_output_def push_output_def add_bytes_def ag_register_item_def
      split: if_splits option.splits aggregate_output.splits)

lemma append_tool_Ok:
  assumes "append_tool i k m d a = Ok a'"
  shows "(\<exists>j. last_output a = Some (AggTool i k m j) \<and> appended a a' True [] [] (AggTool i k m (j @ d)))
    \<or> (\<forall>j. last_output a \<noteq> Some (AggTool i k m j)) \<and> appended a a' False [i] [k] (AggTool i k m d)
      \<and> an_validate_identifier (ag_limits a) i = Ok () \<and> length (ag_seen_items a) < al_max_output_items (ag_limits a)
      \<and> i \<notin> set (ag_seen_items a) \<and> k \<notin> set (ag_call_ids a)"
    and "an_validate_identifier (ag_limits a) k = Ok ()" "an_validate_identifier (ag_limits a) m = Ok ()"
  using assms
  by (auto simp: append_tool_def ag_require_delta_allowed_def ag_require_created_def appended_def open_tool_def
      set_last_output_def push_output_def add_bytes_def ag_register_item_def
      split: if_splits option.splits aggregate_output.splits)

lemma sim_same:
  assumes "response_sim a c r" "an_usage c = None"
  shows "same_text i c \<longleftrightarrow> (\<exists>t. last_output a = Some (AggText i t))"
    "same_reasoning i c \<longleftrightarrow> (\<exists>t. last_output a = Some (AggReasoning i t))"
    "same_tool i k m c \<longleftrightarrow> (\<exists>j. last_output a = Some (AggTool i k m j))"
proof -
  have "shows_output (an_active c) (last_output a)" using assms by (simp add: response_sim_def)
  then show "same_text i c \<longleftrightarrow> (\<exists>t. last_output a = Some (AggText i t))"
    "same_reasoning i c \<longleftrightarrow> (\<exists>t. last_output a = Some (AggReasoning i t))"
    "same_tool i k m c \<longleftrightarrow> (\<exists>j. last_output a = Some (AggTool i k m j))"
    by (cases "(an_active c, last_output a)" rule: shows_output.cases;
        auto simp: same_text_def same_reasoning_def same_tool_def)+
qed

lemma sim_text:
  assumes sim: "response_sim a c r" and ok: "append_text i d a = Ok a'"
    and small: "an_validate_value to_vec (an_limits c) (JString d) = Ok ()"
  shows "\<exists>ws c' r'. an_text_delta to_vec i d c = (Ok ws, c') \<and> read_wires ws r = Some r' \<and> response_sim a' c' r'"
proof -
  have v: "an_view c r" and it: "same_items a c" using sim by (simp_all add: response_sim_def)
  define items where "items = (if same_text i c then [] else [i])"
  have live: "an_response_id c \<noteq> None" "an_usage c = None"
    using append_text_Ok [OF ok] it by (auto simp: appended_def same_items_def)
  note sm = sim_same(1) [OF sim live(2)]
  from append_text_Ok [OF ok] obtain t where
    app: "appended a a' (same_text i c) items [] (AggText i (t @ d))"
    and t: "if same_text i c then last_output a = Some (AggText i t) else t = []"
    and reg: "\<not> same_text i c \<Longrightarrow> may_register i c"
    unfolding sm items_def may_register_def using it by (fastforce simp: same_items_def)
  obtain ws c' where e: "an_text_delta to_vec i d c = (Ok ws, c')" and n: "noted c c' items []"
    using text_delta_accepted [OF v live small reg] by (auto simp: items_def)
  from text_delta_read [OF v e] obtain n' where rd: "delta_read c r ws c' (same_text i c) (grow_text d) (BText [])"
    and act: "an_active c' = Some (ActText i n')" by blast
  have "\<exists>r'. read_wires ws r = Some r' \<and> response_sim a' c' r'"
  proof (rule response_sim_delta [OF sim rd n app act])
    show "shows_output (Some (ActText i n')) (Some (AggText i (t @ d)))" by simp
    show "\<exists>b0 out0. an_active c = Some b0 \<and> act_item b0 = act_item (ActText i n')
        \<and> is_ActReasoning b0 = is_ActReasoning (ActText i n') \<and> last_output a = Some out0
        \<and> block_of (signatures c) (AggText i (t @ d)) = grow_text d (block_of (signatures c) out0)" if "same_text i c"
      using that t by (auto simp: same_text_def split: option.splits active_block.splits)
    show "\<forall>bs. sealed c' (bs @ [grow_text d (BText [])]) = bs @ [block_of (signatures c) (AggText i (t @ d))]" if "\<not> same_text i c"
      using that t act by (simp add: sealed_def)
  qed
  with e show ?thesis by blast
qed

lemma sim_reasoning:
  assumes sim: "response_sim a c r" and ok: "append_reasoning i d a = Ok a'"
    and small: "an_validate_value to_vec (an_limits c) (JString d) = Ok ()"
    and opaque: "\<And>s. bt_get (signatures c) i = Some s \<Longrightarrow> validate_opaque_payload (an_limits c) s = Ok ()"
  shows "\<exists>ws c' r'. an_reasoning_delta to_vec i d c = (Ok ws, c') \<and> read_wires ws r = Some r' \<and> response_sim a' c' r'"
proof -
  have v: "an_view c r" and it: "same_items a c" using sim by (simp_all add: response_sim_def)
  define items where "items = (if same_reasoning i c then [] else [i])"
  have live: "an_response_id c \<noteq> None" "an_usage c = None"
    using append_reasoning_Ok(1) [OF ok] it by (auto simp: appended_def same_items_def)
  obtain s where s: "bt_get (signatures c) i = Some s"
    using append_reasoning_Ok(2) [OF ok] it by (auto simp: same_items_def)
  note sm = sim_same(2) [OF sim live(2)]
  from append_reasoning_Ok(1) [OF ok] obtain t where
    app: "appended a a' (same_reasoning i c) items [] (AggReasoning i (t @ d))"
    and t: "if same_reasoning i c then last_output a = Some (AggReasoning i t) else t = []"
    and reg: "\<not> same_reasoning i c \<Longrightarrow> may_register i c"
    unfolding sm items_def may_register_def using it by (fastforce simp: same_items_def)
  obtain ws c' where e: "an_reasoning_delta to_vec i d c = (Ok ws, c')" and n: "noted c c' items []"
    using reasoning_delta_accepted [OF v live small s opaque [OF s] reg] by (auto simp: items_def)
  from reasoning_delta_read [OF v e] obtain n' where
    rd: "delta_read c r ws c' (same_reasoning i c) (grow_text d) (BThinking [] [])"
    and act: "an_active c' = Some (ActReasoning i n')" by blast
  have "\<exists>r'. read_wires ws r = Some r' \<and> response_sim a' c' r'"
  proof (rule response_sim_delta [OF sim rd n app act])
    show "shows_output (Some (ActReasoning i n')) (Some (AggReasoning i (t @ d)))" by simp
    show "\<exists>b0 out0. an_active c = Some b0 \<and> act_item b0 = act_item (ActReasoning i n')
        \<and> is_ActReasoning b0 = is_ActReasoning (ActReasoning i n') \<and> last_output a = Some out0
        \<and> block_of (signatures c) (AggReasoning i (t @ d)) = grow_text d (block_of (signatures c) out0)" if "same_reasoning i c"
      using that t by (auto simp: same_reasoning_def split: option.splits active_block.splits)
    show "\<forall>bs. sealed c' (bs @ [grow_text d (BThinking [] [])]) = bs @ [block_of (signatures c) (AggReasoning i (t @ d))]"
      if "\<not> same_reasoning i c"
      using that t act s n by (simp add: sealed_def noted_def)
  qed
  with e show ?thesis by blast
qed

lemma sim_tool:
  assumes sim: "response_sim a c r" and ok: "append_tool i k m d a = Ok a'"
    and small: "an_validate_value to_vec (an_limits c) (JString d) = Ok ()"
  shows "\<exists>ws c' r'. an_tool_delta to_vec i k m d c = (Ok ws, c') \<and> read_wires ws r = Some r' \<and> response_sim a' c' r'"
proof -
  have v: "an_view c r" and it: "same_items a c" using sim by (simp_all add: response_sim_def)
  define items where "items = (if same_tool i k m c then [] else [i])"
  define calls where "calls = (if same_tool i k m c then [] else [k])"
  have live: "an_response_id c \<noteq> None" "an_usage c = None"
    using append_tool_Ok(1) [OF ok] it by (auto simp: appended_def same_items_def)
  have ids: "an_validate_identifier (an_limits c) k = Ok ()" "an_validate_identifier (an_limits c) m = Ok ()"
    using append_tool_Ok(2,3) [OF ok] it by (simp_all add: same_items_def)
  note sm = sim_same(3) [OF sim live(2)]
  from append_tool_Ok(1) [OF ok] obtain j where
    app: "appended a a' (same_tool i k m c) items calls (AggTool i k m (j @ d))"
    and j: "if same_tool i k m c then last_output a = Some (AggTool i k m j) else j = []"
    and reg: "\<not> same_tool i k m c \<Longrightarrow> may_register i c \<and> k \<notin> set (an_call_ids c)"
    unfolding sm items_def calls_def may_register_def using it by (fastforce simp: same_items_def)
  obtain ws c' where e: "an_tool_delta to_vec i k m d c = (Ok ws, c')" and n: "noted c c' items calls"
    using tool_delta_accepted [OF v live small ids reg] by (auto simp: items_def calls_def)
  from tool_delta_read [OF v e] obtain n' where
    rd: "delta_read c r ws c' (same_tool i k m c) (grow_text d) (BTool k m [])"
    and act: "an_active c' = Some (ActTool i k m n')" by blast
  have "\<exists>r'. read_wires ws r = Some r' \<and> response_sim a' c' r'"
  proof (rule response_sim_delta [OF sim rd n app act])
    show "shows_output (Some (ActTool i k m n')) (Some (AggTool i k m (j @ d)))" by simp
    show "\<exists>b0 out0. an_active c = Some b0 \<and> act_item b0 = act_item (ActTool i k m n')
        \<and> is_ActReasoning b0 = is_ActReasoning (ActTool i k m n') \<and> last_output a = Some out0
        \<and> block_of (signatures c) (AggTool i k m (j @ d)) = grow_text d (block_of (signatures c) out0)" if "same_tool i k m c"
      using that j by (auto simp: same_tool_def split: option.splits active_block.splits)
    show "\<forall>bs. sealed c' (bs @ [grow_text d (BTool k m [])]) = bs @ [block_of (signatures c) (AggTool i k m (j @ d))]"
      if "\<not> same_tool i k m c"
      using that j act by (simp add: sealed_def)
  qed
  with e show ?thesis by blast
qed

lemma sim_created:
  assumes sim: "response_sim a c r" and ok: "ag_created rid a = Ok a'"
  shows "\<exists>ws c' r'. an_created rid c = (Ok ws, c') \<and> read_wires ws r = Some r' \<and> response_sim a' c' r'"
proof -
  have v: "an_view c r" and it: "same_items a c" using sim by (simp_all add: response_sim_def)
  have pre: "an_response_id c = None" "an_validate_identifier (an_limits c) rid = Ok ()"
    and a': "a' = a\<lparr>ag_response_id := Some rid\<rparr>"
    using ok it by (auto simp: ag_created_def same_items_def split: if_splits)
  then obtain ws where e: "an_created rid c = (Ok ws, c\<lparr>an_response_id := Some rid\<rparr>)"
    by (auto simp: an_created_def Let_def)
  have lo: "last_output a' = last_output a" by (simp add: a' last_output_def)
  have none: "an_active c = None" "an_usage c = None" using v pre(1) by (auto simp: an_view_def)
  from created_read [OF v e] obtain m where m: "read_wires ws r = Some (r\<lparr>rd_phase := RdBetween, rd_message := m\<rparr>)"
    "an_view (c\<lparr>an_response_id := Some rid\<rparr>) (r\<lparr>rd_phase := RdBetween, rd_message := m\<rparr>)"
    "json_get ''id'' m = Some (JString rid)" "json_get ''model'' m = Some (JString (aec_model (an_context c)))"
    by blast
  have "response_sim a' (c\<lparr>an_response_id := Some rid\<rparr>) (r\<lparr>rd_phase := RdBetween, rd_message := m\<rparr>)"
    using sim m a' none lo by (simp add: response_sim_def same_items_def sealed_def)
  with e m(1) show ?thesis by blast
qed

lemma sim_usage:
  assumes sim: "response_sim a c r" and ok: "set_usage to_vec u a = Ok a'"
  shows "\<exists>ws c' r'. an_usage_event to_vec u c = (Ok ws, c') \<and> read_wires ws r = Some r' \<and> response_sim a' c' r'"
proof -
  have v: "an_view c r" and it: "same_items a c" using sim by (simp_all add: response_sim_def)
  have pre: "an_response_id c \<noteq> None" "an_usage c = None"
    "an_validate_value to_vec (an_limits c) (an_usage_value u) = Ok ()" and a': "a' = a\<lparr>ag_usage := Some u\<rparr>"
    using ok it by (auto simp: set_usage_def ag_require_created_def same_items_def split: if_splits)
  from close_active_read [OF v pre(1,2)] pre obtain ws c' where e: "an_usage_event to_vec u c = (Ok ws, c')"
    by (auto simp: an_usage_event_def an_require_created_def)
  from usage_read [OF v e] obtain r' where
    r': "read_wires ws r = Some r'" "an_view c' r'" "c' = c\<lparr>an_active := None, an_usage := Some u\<rparr>"
    "rd_blocks r' = sealed c (rd_blocks r)" "rd_message r' = rd_message r"
    "json_get ''stop_reason'' (rd_delta r') = Some (JString (stop_reason_str (art_stop_reason (aec_response (an_context c)))))"
    "json_get ''stop_sequence'' (rd_delta r')
        = Some (json_option (map_option JString (art_stop_sequence (aec_response (an_context c)))))" by auto
  have "response_sim a' c' r'" using sim r' a' by (simp add: response_sim_def same_items_def sealed_def)
  with e r'(1) show ?thesis by blast
qed

lemma validated_opaque:
  assumes "an_validate_context to_vec lim ctx = Ok ()" "bt_get (art_thinking_signatures (aec_response ctx)) i = Some s"
  shows "validate_opaque_payload lim s = Ok ()"
  using assms
  by (auto simp: an_validate_context_def try_for_each_Ok bt_get_def split: if_splits dest!: map_of_SomeD)

text \<open>Any event but the last.\<close>

lemma sim_step:
  assumes sim: "response_sim a c r" and live: "an_live to_vec c" and ok: "ag_transition to_vec ev a = Ok a'"
    and small: "small_delta to_vec (an_limits c) ev" and ev: "event_outcome ev = None"
  shows "\<exists>ws c' r'. an_transition to_vec ev c = (Ok ws, c') \<and> read_wires ws r = Some r' \<and> response_sim a' c' r'"
proof -
  let ?c = "c\<lparr>an_context_validated := True\<rparr>"
  have sim': "response_sim a ?c r" using sim by (simp add: response_sim_def same_items_def)
  have ctx: "an_validate_context to_vec (an_limits c) (an_context c) = Ok ()" using live by (simp add: an_live_def)
  have step: "ag_transition to_vec ev a = Ok a'" "\<not> ag_terminal a" using ok by (auto simp: ag_transition_def split: if_splits)
  show ?thesis
    unfolding an_transition_live [OF live]
  proof (cases ev)
    case (Created rid)
    then show "\<exists>ws c' r'. an_apply to_vec ev ?c = (Ok ws, c') \<and> read_wires ws r = Some r' \<and> response_sim a' c' r'"
      using sim_created [OF sim'] step by (simp add: ag_transition_def an_apply_def)
  next
    case (OutputTextDelta i d)
    then show "\<exists>ws c' r'. an_apply to_vec ev ?c = (Ok ws, c') \<and> read_wires ws r = Some r' \<and> response_sim a' c' r'"
      using sim_text [OF sim'] step small by (simp add: ag_transition_def an_apply_def small_delta_def an_validate_value_def)
  next
    case (ReasoningDelta i d)
    have op: "validate_opaque_payload (an_limits ?c) s = Ok ()" if "bt_get (signatures ?c) i = Some s" for s
      using validated_opaque [OF ctx] that by simp
    show "\<exists>ws c' r'. an_apply to_vec ev ?c = (Ok ws, c') \<and> read_wires ws r = Some r' \<and> response_sim a' c' r'"
      using sim_reasoning [OF sim' _ _ op] ReasoningDelta step small
      by (simp add: ag_transition_def an_apply_def small_delta_def an_validate_value_def)
  next
    case (ToolCallDelta i k m d)
    then show "\<exists>ws c' r'. an_apply to_vec ev ?c = (Ok ws, c') \<and> read_wires ws r = Some r' \<and> response_sim a' c' r'"
      using sim_tool [OF sim'] step small by (simp add: ag_transition_def an_apply_def small_delta_def an_validate_value_def)
  next
    case (UsageEvent u)
    then show "\<exists>ws c' r'. an_apply to_vec ev ?c = (Ok ws, c') \<and> read_wires ws r = Some r' \<and> response_sim a' c' r'"
      using sim_usage [OF sim'] step by (simp add: ag_transition_def an_apply_def)
  qed (use ev in \<open>simp_all add: event_outcome_def\<close>)
qed

subsection \<open>Whole responses\<close>

text \<open>What a client has read of a finished stream, as the content of a response.\<close>

definition block_value :: "(string \<Rightarrow> json option) \<Rightarrow> block \<Rightarrow> json option" where
  "block_value from_str b =
     (case b of
        BText t \<Rightarrow> Some (json_object [(''type'', JString ''text''), (''text'', JString t)])
      | BThinking t s \<Rightarrow>
          Some (json_object [(''type'', JString ''thinking''), (''thinking'', JString t), (''signature'', JString s)])
      | BTool k n j \<Rightarrow>
          map_option (\<lambda>input. json_object [(''type'', JString ''tool_use''), (''id'', JString k), (''name'', JString n),
            (''input'', input)]) (from_str j))"

definition reads_response :: "(string \<Rightarrow> json option) \<Rightarrow> reader \<Rightarrow> json \<Rightarrow> bool" where
  "reads_response from_str r v =
     (rd_phase r = RdStop
      \<and> (\<exists>content. json_get ''content'' v = Some (JArray content)
           \<and> map (block_value from_str) (rd_blocks r) = map Some content)
      \<and> (\<forall>key \<in> {''id'', ''model''}. json_get key v = json_get key (rd_message r))
      \<and> (\<forall>key \<in> {''stop_reason'', ''stop_sequence''}. json_get key v = json_get key (rd_delta r)))"

text \<open>All events of a stream, before they are turned into bytes.\<close>

fun an_wires ::
  "(json \<Rightarrow> string) \<Rightarrow> canonical_event list \<Rightarrow> anthropic_codec \<Rightarrow> wire_event list codec_result \<times> anthropic_codec" where
  "an_wires to_vec [] c = (Ok [], c)"
| "an_wires to_vec (ev # evs) c =
     st_then (an_transition to_vec ev c) (\<lambda>ws c1. st_then (an_wires to_vec evs c1) (\<lambda>vs c2. (Ok (ws @ vs), c2)))"

lemma output_value_block:
  "output_value from_str ctx out = Ok v \<Longrightarrow>
   block_value from_str (block_of (art_thinking_signatures (aec_response ctx)) out) = Some v"
  by (cases out) (auto simp: output_value_def block_value_def split: option.splits if_splits)

lemma try_map_output_values:
  "try_map (output_value from_str ctx) outs = Ok vs \<Longrightarrow>
   map (block_value from_str) (map (block_of (art_thinking_signatures (aec_response ctx))) outs) = map Some vs"
  by (induction outs arbitrary: vs) (auto simp: output_value_block)

lemma sim_completed:
  assumes sim: "response_sim a c r" and live: "an_live to_vec c" and ok: "ag_completed a = Ok a'"
    and v: "an_response_value from_str a' = Ok v"
  shows "\<exists>ws c' r'. an_transition to_vec Completed c = (Ok ws, c') \<and> read_wires ws r = Some r'
    \<and> reads_response from_str r' v"
proof -
  let ?c = "c\<lparr>an_context_validated := True\<rparr>"
  have view: "an_view ?c r" and it: "same_items a c" using sim by (simp_all add: response_sim_def)
  have pre: "an_response_id c \<noteq> None" "an_usage c \<noteq> None" and a': "a' = a\<lparr>ag_terminal := True\<rparr>"
    using ok it by (auto simp: ag_completed_def ag_require_created_def same_items_def split: if_splits)
  have none: "an_active c = None" using view pre(2) by (auto simp: an_view_def)
  have e: "an_completed ?c = (Ok [an_wire ''message_stop'' []], ?c\<lparr>an_terminal := True\<rparr>)"
    using pre none by (simp add: an_completed_def an_require_created_def)
  note rd = completed_read [OF view e]
  obtain rid u where ids: "an_response_id c = Some rid" "an_usage c = Some u" using pre by blast
  obtain content where content: "try_map (output_value from_str (an_context c)) (ag_outputs a) = Ok content"
    and keys: "v = JObject (fold (\<lambda>(k, v). bt_or_insert k v) (art_extra (aec_response (an_context c)))
      (bt_collect [(''id'', JString rid), (''type'', JString ''message''),
        (''role'', JString ''assistant''), (''content'', JArray content),
        (''model'', JString (aec_model (an_context c))),
        (''stop_reason'', JString (stop_reason_str (art_stop_reason (aec_response (an_context c))))),
        (''stop_sequence'', json_option (map_option JString (art_stop_sequence (aec_response (an_context c))))),
        (''usage'', an_usage_value u)]))"
    using v it ids a' by (auto simp: an_response_value_def same_items_def Let_def)
  have "sealed c (rd_blocks r) = rd_blocks r" using none by (simp add: sealed_def)
  then have blocks: "map (block_value from_str) (rd_blocks r) = map Some content"
    using sim try_map_output_values [OF content] by (simp add: response_sim_def)
  have get: "json_get ''content'' v = Some (JArray content)" "json_get ''id'' v = Some (JString rid)"
    "json_get ''model'' v = Some (JString (aec_model (an_context c)))"
    "json_get ''stop_reason'' v = Some (JString (stop_reason_str (art_stop_reason (aec_response (an_context c)))))"
    "json_get ''stop_sequence'' v = Some (json_option (map_option JString (art_stop_sequence (aec_response (an_context c)))))"
    unfolding keys by (rule extra_keeps, simp)+
  have "reads_response from_str (r\<lparr>rd_phase := RdStop\<rparr>) v"
    using sim ids blocks get by (simp add: reads_response_def response_sim_def)
  then show ?thesis
    using rd e by (auto simp: an_transition_live [OF live] an_apply_def)
qed

lemma ag_over: "ag_terminal a \<Longrightarrow> try_fold (ag_transition to_vec) evs a = Ok b \<Longrightarrow> evs = []"
  by (cases evs) (simp_all add: ag_transition_def)

lemma append_flags:
  "append_text i d a = Ok a' \<Longrightarrow> ag_terminal a' = ag_terminal a \<and> ag_failed a' = ag_failed a"
  "append_reasoning i d a = Ok a' \<Longrightarrow> ag_terminal a' = ag_terminal a \<and> ag_failed a' = ag_failed a"
  "append_tool i k m d a = Ok a' \<Longrightarrow> ag_terminal a' = ag_terminal a \<and> ag_failed a' = ag_failed a"
  by (drule append_text_Ok append_reasoning_Ok(1) append_tool_Ok(1), auto simp: appended_def)+

lemma ag_transition_flags:
  assumes "ag_transition to_vec ev a = Ok a'" "event_outcome ev = None"
  shows "\<not> ag_terminal a'" "ag_failed a' = ag_failed a"
  using assms
  by (cases ev; auto simp: ag_transition_def ag_created_def set_usage_def event_outcome_def append_flags split: if_splits)+

lemma an_transition_keeps_live:
  assumes live: "an_live to_vec c" and e: "an_transition to_vec ev c = (Ok ws, c')" and ev: "event_outcome ev = None"
  shows "an_live to_vec c' \<and> an_limits c' = an_limits c"
proof -
  have "an_apply to_vec ev (c\<lparr>an_context_validated := True\<rparr>) = (Ok ws, c')" using e an_transition_live [OF live] by simp
  from an_apply_frame [OF this] live ev show ?thesis by (simp add: an_live_def)
qed

lemma sim_run:
  assumes "response_sim a c r" "an_live to_vec c" "ag_failed a = None" "\<not> ag_terminal a"
    and "try_fold (ag_transition to_vec) evs a = Ok a'" "ag_terminal a'" "an_response_value from_str a' = Ok v"
    and "\<forall>ev \<in> set evs. small_delta to_vec (an_limits c) ev \<and> (\<forall>e. ev \<noteq> Failed e)"
  shows "\<exists>ws c' r'. an_wires to_vec evs c = (Ok ws, c') \<and> read_wires ws r = Some r' \<and> reads_response from_str r' v"
  using assms
proof (induction evs arbitrary: a c r)
  case Nil
  then show ?case by simp
next
  case (Cons ev evs)
  obtain a1 where a1: "ag_transition to_vec ev a = Ok a1" "try_fold (ag_transition to_vec) evs a1 = Ok a'"
    using Cons.prems(5) by auto
  show ?case
  proof (cases "event_outcome ev")
    case None
    obtain ws c1 r1 where s: "an_transition to_vec ev c = (Ok ws, c1)" "read_wires ws r = Some r1" "response_sim a1 c1 r1"
      using sim_step [OF Cons.prems(1,2) a1(1) _ None] Cons.prems(8) by auto
    have "an_live to_vec c1" "an_limits c1 = an_limits c" using an_transition_keeps_live [OF Cons.prems(2) s(1) None] by auto
    with Cons.IH [OF s(3) _ _ _ a1(2) Cons.prems(6,7)] ag_transition_flags [OF a1(1) None] Cons.prems(3,8)
    obtain vs c' r' where "an_wires to_vec evs c1 = (Ok vs, c')" "read_wires vs r1 = Some r'" "reads_response from_str r' v"
      by auto
    with s show ?thesis by (auto simp: read_wires_append)
  next
    case (Some out)
    then have ev: "ev = Completed" using Cons.prems(8) by (cases ev) (auto simp: event_outcome_def)
    then have c: "ag_completed a = Ok a1" using a1(1) by (auto simp: ag_transition_def split: if_splits)
    then have "ag_terminal a1" by (auto simp: ag_completed_def split: if_splits)
    with a1(2) have "evs = []" "a1 = a'" using ag_over by fastforce+
    with sim_completed [OF Cons.prems(1,2), of a' from_str v] c ev Cons.prems(7) show ?thesis by auto
  qed
qed

lemma response_sim_start:
  "all_signed (art_thinking_signatures (aec_response ctx)) \<Longrightarrow>
   response_sim (anthropic_aggregator_new ctx lim) (an_with_limits ctx lim) reader_new"
  using an_view_start [of ctx lim]
  by (simp add: response_sim_def same_items_def an_with_limits_def anthropic_aggregator_new_def sealed_def
      last_output_def reader_new_def)

lemma ag_run_no_failure:
  assumes "try_fold (ag_transition to_vec) evs a = Ok a'" "\<forall>ev \<in> set evs. \<forall>e. ev \<noteq> Failed e" "ag_failed a = None"
  shows "ag_failed a' = None"
proof (rule try_fold_inv [where P = "\<lambda>b. ag_failed b = None", OF assms(1,3)])
  fix ev b b'
  assume "ev \<in> set evs" "ag_failed b = None" "ag_transition to_vec ev b = Ok b'"
  with assms(2) ag_transition_flags(2) [of to_vec ev b b'] show "ag_failed b' = None"
    by (cases ev) (auto simp: event_outcome_def ag_transition_def ag_completed_def split: if_splits)
qed

lemma ag_run_ends:
  assumes "try_fold (ag_transition to_vec) evs a = Ok a'" "\<not> ag_terminal a" "ag_terminal a'"
  shows "ends evs"
proof (cases evs rule: rev_cases)
  case Nil
  with assms show ?thesis by simp
next
  case (snoc xs x)
  with assms(1) obtain b where "ag_transition to_vec x b = Ok a'" by auto
  from ag_transition_flags(1) [OF this] assms(3) snoc show ?thesis by (auto simp: ends_def)
qed

lemma an_encode_response_ends:
  assumes "an_encode_response_with_limits to_vec from_str ctx events lim = Ok v"
  shows "ends events"
  using assms
  by (auto simp: an_encode_response_with_limits_def anthropic_aggregator_new_def split: if_splits intro: ag_run_ends)

text \<open>
  A streamed Messages response is the response. Whenever the aggregator builds a response from the
  events of a request, and every delta fits the limit for a single value, the streaming codec accepts
  the same events to the end; a client that checks the event grammar of the stream and joins its deltas
  ends with the content blocks (text, signed thinking, parsed tool input), the identifier, the model
  and the stop reason of that response.
\<close>

lemma anthropic_stream_equals_response:
  assumes "an_encode_response_with_limits to_vec from_str ctx events lim = Ok v"
    and "\<forall>ev \<in> set events. small_delta to_vec lim ev \<and> (\<forall>e. ev \<noteq> Failed e)"
  shows "\<exists>ws c r. an_wires to_vec events (an_with_limits ctx lim) = (Ok ws, c)
    \<and> read_wires ws reader_new = Some r \<and> reads_response from_str r v"
proof -
  from assms(1) obtain a where ctx: "an_validate_context to_vec lim ctx = Ok ()"
    and a: "try_fold (ag_transition to_vec) events (anthropic_aggregator_new ctx lim) = Ok a" "ag_terminal a"
    and v: "(case ag_failed a of Some e \<Rightarrow> Ok e | None \<Rightarrow> an_response_value from_str a) = Ok v"
    by (auto simp: an_encode_response_with_limits_def split: if_splits)
  have "ag_failed a = None"
    using assms(2) by (intro ag_run_no_failure [OF a(1)]) (auto simp: anthropic_aggregator_new_def)
  with v have v': "an_response_value from_str a = Ok v" by simp
  show ?thesis
    using assms(2) ctx
    by (intro sim_run [OF response_sim_start [OF validated_signed [OF ctx]] _ _ _ a v'])
       (simp_all add: an_live_def an_with_limits_def anthropic_aggregator_new_def)
qed

end
