(* ===== verification/Anthropic_Stream.thy ===== *)
theory Anthropic_Stream
  imports Anthropic_Response
begin

text \<open>
  Streamed responses for clients of Anthropic Messages: the codec of
  \<open>crates/wokcore-server/src/data_plane/anthropic.rs\<close> as an instance of the locale \<open>client_codec\<close>. A
  refused event may have taken the open block with it, so a codec that has refused an event need not
  agree with the client any more; the stream then sends the error event, which the client accepts
  in any phase.
\<close>

subsection \<open>The Messages codec of a stream\<close>

fun anthropic_stop_reason_of :: "upstream_finish_reason \<Rightarrow> anthropic_stop_reason" where
  "anthropic_stop_reason_of UpStop = StopEndTurn"
| "anthropic_stop_reason_of UpContentFilter = StopEndTurn"
| "anthropic_stop_reason_of UpFunctionCall = StopEndTurn"
| "anthropic_stop_reason_of UpLength = StopMaxTokens"
| "anthropic_stop_reason_of UpToolCalls = StopToolUse"
| "anthropic_stop_reason_of UpPauseTurn = StopPauseTurn"
| "anthropic_stop_reason_of UpRefusal = StopRefusal"
| "anthropic_stop_reason_of UpModelContextWindowExceeded = StopModelContextWindowExceeded"

definition anthropic_initial_usage :: "canonical_event list \<Rightarrow> usage" where
  "anthropic_initial_usage events =
     (let usages = [u. UsageEvent u \<leftarrow> events]
      in \<lparr>us_input_tokens = (case usages of [] \<Rightarrow> 0 | u # _ \<Rightarrow> us_input_tokens u), us_output_tokens = 0,
          us_cached_input_tokens = (case usages of [] \<Rightarrow> None | u # _ \<Rightarrow> us_cached_input_tokens u),
          us_reasoning_tokens = None, us_extensions = []\<rparr>)"

definition anthropic_context :: "string \<Rightarrow> string \<Rightarrow> upstream_execution_stream \<Rightarrow> anthropic_encode_context" where
  "anthropic_context request_id public_model st =
     \<lparr>aec_request_id = request_id, aec_model = public_model, aec_initial_usage = ux_initial_usage st,
      aec_response = \<lparr>art_stop_reason = anthropic_stop_reason_of (ux_finish_reason st),
        art_stop_sequence = ux_stop_sequence st, art_thinking_signatures = ux_thinking_signatures st, art_extra = []\<rparr>\<rparr>"

definition anthropic_stream_codec :: "string \<Rightarrow> string \<Rightarrow> upstream_execution_stream \<Rightarrow> anthropic_codec" where
  "anthropic_stream_codec request_id public_model st = anthropic_codec_new (anthropic_context request_id public_model st)"

subsection \<open>The Messages codec keeps the contract\<close>

definition an_out :: "(json \<Rightarrow> string) \<Rightarrow> string \<Rightarrow> reader \<Rightarrow> bool" where
  "an_out to_vec out r = (\<exists>ws. out = wire_frames to_vec ws \<and> read_wires ws reader_new = Some r)"

definition an_good :: "(json \<Rightarrow> string) \<Rightarrow> string \<Rightarrow> anthropic_codec \<Rightarrow> bool" where
  "an_good to_vec out c = (an_live to_vec c \<and> (\<exists>r. an_out to_vec out r \<and> an_view c r))"

definition an_stuck :: "(json \<Rightarrow> string) \<Rightarrow> string \<Rightarrow> anthropic_codec \<Rightarrow> bool" where
  "an_stuck to_vec out c =
     (an_live to_vec c \<and> (\<exists>r. an_out to_vec out r \<and> rd_phase r \<noteq> RdStop \<and> rd_phase r \<noteq> RdError))"

definition an_closed :: "(json \<Rightarrow> string) \<Rightarrow> string \<Rightarrow> bool" where
  "an_closed to_vec out = (\<exists>r. an_out to_vec out r \<and> (rd_phase r = RdStop \<or> rd_phase r = RdError))"

lemma wire_frames_append: "wire_frames to_vec (ws @ vs) = wire_frames to_vec ws @ wire_frames to_vec vs"
  by (simp add: wire_frames_def)

lemma wire_frames_nonempty: "ws \<noteq> [] \<Longrightarrow> wire_frames to_vec ws \<noteq> []"
  by (cases ws) (auto simp: wire_frames_def encode_sse_def)

lemma an_out_append:
  assumes "an_out to_vec out r" "read_wires ws r = Some r'"
  shows "an_out to_vec (out @ wire_frames to_vec ws) r'"
proof -
  obtain vs where "out = wire_frames to_vec vs" "read_wires vs reader_new = Some r"
    using assms(1) by (auto simp: an_out_def)
  then show ?thesis
    unfolding an_out_def using assms(2)
    by (intro exI [of _ "vs @ ws"]) (simp add: wire_frames_append read_wires_append)
qed

lemma an_encode_live:
  assumes "an_live to_vec c" "an_encode_event to_vec ev c = (x, c')"
  shows "x \<noteq> Err Panic"
    "\<not> is_ok x \<or> event_outcome ev = None \<Longrightarrow> an_live to_vec c'"
    "is_ok x \<Longrightarrow> event_outcome ev \<noteq> None \<Longrightarrow> an_terminal c'"
proof -
  let ?c = "c\<lparr>an_context_validated := True\<rparr>"
  obtain y c1 where y: "an_apply to_vec ev ?c = (y, c1)" by (cases "an_apply to_vec ev ?c")
  have x: "c' = c1" "is_ok x = is_ok y" "x = Err Panic \<longleftrightarrow> y = Err Panic"
    using assms y by (cases y; auto simp: an_encode_event_def an_transition_live)+
  have "\<not> an_terminal ?c" using assms(1) by (simp add: an_live_def)
  from an_apply_frame [OF y this] x assms(1)
  show "x \<noteq> Err Panic" "\<not> is_ok x \<or> event_outcome ev = None \<Longrightarrow> an_live to_vec c'"
    "is_ok x \<Longrightarrow> event_outcome ev \<noteq> None \<Longrightarrow> an_terminal c'"
    by (auto simp: an_live_def)
qed

lemma an_encode_read:
  assumes "an_live to_vec c" "an_view c r" "an_out to_vec out r" "an_encode_event to_vec ev c = (Ok b, c')"
  shows "b \<noteq> [] \<and> (\<exists>r'. an_out to_vec (out @ b) r'
    \<and> (if event_outcome ev = None then an_view c' r' else rd_phase r' = RdStop \<or> rd_phase r' = RdError))"
proof -
  let ?c = "c\<lparr>an_context_validated := True\<rparr>"
  obtain ws where ws: "an_apply to_vec ev ?c = (Ok ws, c')" "b = wire_frames to_vec ws"
    using assms(1,4) by (auto simp: an_encode_event_def an_transition_live st_then_eq_Ok)
  have "an_view ?c r" using assms(2) by simp
  from an_apply_read [OF this ws(1)] obtain r' where r': "ws \<noteq> []" "read_wires ws r = Some r'"
    "if event_outcome ev = None then an_view c' r' else rd_phase r' = RdStop \<or> rd_phase r' = RdError" by blast
  from an_out_append [OF assms(3) r'(2)] wire_frames_nonempty [OF r'(1)] r'(3) ws(2)
  show ?thesis by auto
qed

lemma an_good_start:
  assumes "an_validate_context to_vec lim ctx = Ok ()"
  shows "an_good to_vec [] (an_with_limits ctx lim)"
proof -
  have "an_out to_vec [] reader_new" unfolding an_out_def by (intro exI [of _ "[]"]) (simp add: wire_frames_def)
  then show ?thesis
    using assms an_view_start [OF validated_signed [OF assms]]
    by (auto simp: an_good_def an_live_def an_with_limits_def)
qed

lemma an_view_open: "an_view c r \<Longrightarrow> rd_phase r \<noteq> RdStop \<and> rd_phase r \<noteq> RdError"
  by (auto simp: an_view_def)

interpretation anthropic_client: client_codec "an_encode_event to_vec" "an_good to_vec" "an_stuck to_vec"
  "an_closed to_vec" for to_vec
proof (unfold_locales, goal_cases)
  case (1 out c ev)
  then show ?case
    using an_encode_live(1) [of to_vec c ev, OF _ prod.collapse [symmetric]] by (simp add: an_good_def)
next
  case (2 out c ev e c')
  then show ?case
    using an_encode_live(2) [of to_vec c ev "Err e" c'] an_view_open by (auto simp: an_good_def an_stuck_def)
next
  case (3 out c ev b c')
  then obtain r where r: "an_live to_vec c" "an_out to_vec out r" "an_view c r" by (auto simp: an_good_def)
  from an_encode_read [OF r(1,3,2) 3(2)] an_encode_live(2) [OF r(1) 3(2)] 3(3)
  show ?case by (auto simp: an_good_def)
next
  case (4 out c ev b c')
  then obtain r where r: "an_live to_vec c" "an_out to_vec out r" "an_view c r" by (auto simp: an_good_def)
  from an_encode_read [OF r(1,3,2) 4(2)] 4(3) show ?case by (auto simp: an_closed_def)
next
  case (5 out c ev b c' ev')
  then have "an_terminal c'" using an_encode_live(3) [of to_vec c ev "Ok b" c'] by (simp add: an_good_def)
  then show ?case by (simp add: an_encode_event_def an_transition_def)
next
  case (6 out c)
  then show ?case using an_view_open by (auto simp: an_good_def an_stuck_def)
next
  case (7 out c error)
  then obtain r where r: "an_live to_vec c" "an_out to_vec out r" "rd_phase r \<noteq> RdStop" "rd_phase r \<noteq> RdError"
    by (auto simp: an_stuck_def)
  have "an_out to_vec (out @ wire_frames to_vec [an_error_wire error]) (r\<lparr>rd_phase := RdError\<rparr>)"
    by (rule an_out_append [OF r(2) read_error [OF r(3,4)]])
  moreover have "wire_frames to_vec [an_error_wire error] \<noteq> []" by (simp add: wire_frames_nonempty)
  ultimately show ?case
    using r(1) by (auto simp: an_encode_event_def an_transition_live an_apply_def an_closed_def)
qed

subsection \<open>Streams that the codec can serve\<close>

text \<open>
  What the gateway guarantees of the request, and what is left to ask of the serialiser: that it
  keeps the announced usage and an empty object within a megabyte.
\<close>

definition message_servable :: "(json \<Rightarrow> string) \<Rightarrow> string \<Rightarrow> string \<Rightarrow> upstream_execution_stream \<Rightarrow> bool" where
  "message_servable to_vec request_id public_model st =
     (valid_stream_identifier request_id \<and> valid_stream_identifier public_model
      \<and> length (to_vec (initial_usage_value (ux_initial_usage st))) \<le> 1048576
      \<and> length (to_vec (JObject [])) \<le> 1048576)"

text \<open>The bounds that the data plane enforces on a stream are those that the codec asks for.\<close>

lemma stream_context_valid:
  assumes "build_stream to_vec created_at bs = Ok st" "message_servable to_vec request_id public_model st"
  shows "an_validate_context to_vec anthropic_limits_default (anthropic_context request_id public_model st) = Ok ()"
  using build_stream_ok [OF assms(1)] assms(2)
  by (auto simp: stream_meta_ok_def message_servable_def an_validate_context_def anthropic_context_def
      an_validate_identifier_def an_validate_value_def validate_opaque_payload_def try_for_each_Ok list_all_iff
      valid_signature_def valid_stream_identifier_def anthropic_limits_default_def MAX_UPSTREAM_EVENTS_def
      MAX_UPSTREAM_METADATA_BYTES_def MAX_UPSTREAM_IDENTIFIER_BYTES_def split: option.split)

lemma stream_codec_good:
  assumes "build_stream to_vec created_at bs = Ok st" "message_servable to_vec request_id public_model st"
  shows "an_good to_vec [] (anthropic_stream_codec request_id public_model st)"
  unfolding anthropic_stream_codec_def anthropic_codec_new_def
  by (rule an_good_start [OF stream_context_valid [OF assms]])

lemmas anthropic_run_inv =
  anthropic_client.run_client_inv [OF anthropic_client.run_inv_start [OF stream_codec_good]]

subsection \<open>Properties\<close>

text \<open>
  C13. A streamed Messages response always follows the event grammar, and ends. Take a stream whose
  metadata the data plane has accepted. Whatever the upstream delivers (events in any order,
  failures, a dropped sender) and however the polls interleave with it, the stream neither panics nor
  spins, and a client finds \<open>message_start\<close>, content blocks with consecutive indices that are started,
  extended by deltas of their own kind and stopped, \<open>message_delta\<close>, \<open>message_stop\<close> in this order, or an
  \<open>error\<close> event as the last one. A thinking block is never closed without its signature. Once the sender
  is gone, at most two polls more than there are queued items finish the stream.
\<close>

theorem anthropic_client_stream_well_formed:
  assumes "build_stream to_vec created_at bs = Ok st" "message_servable to_vec request_id public_model st"
    and "run_client (an_encode_event to_vec) ins (stream_start (anthropic_stream_codec request_id public_model st) first) = (ps, s)"
  shows "PollPanic \<notin> set ps \<and> PollDiverges \<notin> set ps
    \<and> (\<exists>ws r. sent ps = wire_frames to_vec ws \<and> read_wires ws reader_new = Some r
         \<and> (cs_finished s \<and> CancelRequest \<notin> set ins \<longrightarrow> rd_phase r = RdStop \<or> rd_phase r = RdError))
    \<and> (cs_finished s \<longrightarrow> (\<forall>more. sent (fst (run_client (an_encode_event to_vec) more s)) = []))
    \<and> (CloseSender \<in> set ins \<longrightarrow>
         cs_finished (snd (run_client (an_encode_event to_vec) (replicate (length (cs_queue s) + 2) PollOnce) s)))"
proof -
  note inv = anthropic_run_inv [OF assms]
  have "\<exists>ws r. sent ps = wire_frames to_vec ws \<and> read_wires ws reader_new = Some r
      \<and> (cs_finished s \<and> CancelRequest \<notin> set ins \<longrightarrow> rd_phase r = RdStop \<or> rd_phase r = RdError)"
    using inv
    by (fastforce simp: anthropic_client.run_inv_def anthropic_client.open_stream_def an_good_def an_closed_def an_out_def
        split: if_splits)
  moreover have "cs_finished (snd (run_client (an_encode_event to_vec) (replicate (length (cs_queue s) + 2) PollOnce) s))"
    if "CloseSender \<in> set ins"
  proof (rule anthropic_client.polls_finish)
    show "anthropic_client.run_inv to_vec (CancelRequest \<in> set ins) ([] @ sent ps) s" using inv by simp
    show "cs_closed s" using run_client_closed [OF assms(3)] that by blast
    show "anthropic_client.pending s < length (cs_queue s) + 2" by (simp add: anthropic_client.pending_def)
  qed
  ultimately show ?thesis using inv run_finished_silent by blast
qed

definition an_demo_builds :: "stream_build list" where
  "an_demo_builds = [WithFinishReason UpToolCalls, WithThinkingSignatures [(''r'', ''sig'')], WithStopSequence ''end'']"

definition an_demo_stream :: upstream_execution_stream where
  "an_demo_stream =
     (stream_channel 7)\<lparr>ux_finish_reason := UpToolCalls, ux_thinking_signatures := [(''r'', ''sig'')],
        ux_stop_sequence := Some ''end''\<rparr>"

lemma an_demo_build: "build_stream (\<lambda>_. ''{}'') 7 an_demo_builds = Ok an_demo_stream"
  by (simp add: build_stream_def an_demo_builds_def an_demo_stream_def stream_with_thinking_signatures_def
      stream_with_stop_sequence_def valid_stream_identifier_def json_fits_def counter_write_def counter_new_def
      MAX_UPSTREAM_EVENTS_def MAX_UPSTREAM_METADATA_BYTES_def MAX_UPSTREAM_IDENTIFIER_BYTES_def usize_max_def Let_def)

lemma an_demo_servable: "message_servable (\<lambda>_. ''{}'') ''q'' ''m'' an_demo_stream"
  by (simp add: message_servable_def valid_stream_identifier_def MAX_UPSTREAM_IDENTIFIER_BYTES_def)

lemmas an_stream_eval = poll_next_def handle_item_def stream_encode_event_def an_encode_event_def an_transition_def
  an_validate_context_once_def an_validate_context_def an_validate_identifier_def an_validate_value_def
  validate_opaque_payload_def try_for_each_def anthropic_limits_default_def an_created_def an_text_delta_def
  an_reasoning_delta_def an_tool_delta_def an_usage_event_def an_completed_def an_failed_def activate_text_def
  activate_reasoning_def activate_tool_def close_active_def register_item_def push_delta_def an_require_delta_allowed_def
  an_require_created_def emit_protocol_error_def emit_error_def event_outcome_def stream_finish_def observe_bytes_def
  wire_frames_def encode_sse_def Let_def bt_get_def

definition an_demo_inputs :: "stream_input list" where
  "an_demo_inputs =
     [PollOnce, CloseSender, PollOnce]"

lemma an_demo_run:
  "cs_finished (snd (run_client (an_encode_event (\<lambda>_. ''{}'')) an_demo_inputs
     (stream_start (anthropic_stream_codec ''q'' ''m'' an_demo_stream) (Created ''x''))))"
  by (simp add: an_demo_inputs_def stream_start_def anthropic_stream_codec_def anthropic_codec_new_def
      anthropic_context_def an_demo_stream_def stream_channel_def an_with_limits_def an_stream_eval)

theorem anthropic_client_stream_well_formed_witness:
  "\<exists>ws r. sent (fst (run_client (an_encode_event (\<lambda>_. ''{}'')) an_demo_inputs
       (stream_start (anthropic_stream_codec ''q'' ''m'' an_demo_stream) (Created ''x''))))
       = wire_frames (\<lambda>_. ''{}'') ws
     \<and> read_wires ws reader_new = Some r \<and> (rd_phase r = RdStop \<or> rd_phase r = RdError)"
  using anthropic_client_stream_well_formed [OF an_demo_build an_demo_servable prod.collapse [symmetric],
      of an_demo_inputs "Created ''x''"] an_demo_run
  by (auto simp: an_demo_inputs_def)

subsection \<open>The response on the wire\<close>

text \<open>A member of an object is no longer than the object, as serialised JSON.\<close>

definition embeds :: "(json \<Rightarrow> string) \<Rightarrow> bool" where
  "embeds to_vec = (\<forall>k v w. json_get k w = Some v \<longrightarrow> length (to_vec v) \<le> length (to_vec w))"

lemma sent_event_small:
  assumes "embeds to_vec" "stream_event_fits to_vec ev"
  shows "small_delta to_vec anthropic_limits_default ev"
proof -
  have fits: "length (to_vec (event_json ev)) \<le> 1048576"
    using assms(2) json_fits_iff [of MAX_UPSTREAM_METADATA_BYTES to_vec "event_json ev"]
    by (simp add: stream_event_fits_def MAX_UPSTREAM_METADATA_BYTES_def usize_max_def)
  have "length (to_vec (JString d)) \<le> 1048576"
    if "event_json ev = tagged k payload" "json_get ''delta'' payload = Some (JString d)" for k payload d
  proof -
    have "json_get ''data'' (event_json ev) = Some payload" by (simp add: that(1) tagged_def)
    with assms(1) that(2) have "length (to_vec (JString d)) \<le> length (to_vec payload)"
      "length (to_vec payload) \<le> length (to_vec (event_json ev))" by (auto simp: embeds_def)
    with fits show ?thesis by simp
  qed
  then show ?thesis
    by (cases ev) (simp_all add: small_delta_def event_json_def anthropic_limits_default_def)
qed

lemma feed_wires:
  "an_wires to_vec evs c = (Ok ws, c') \<Longrightarrow> feed (an_encode_event to_vec) evs c = (Ok (wire_frames to_vec ws), c')"
proof (induction evs arbitrary: c ws)
  case Nil
  then show ?case by (simp add: wire_frames_def)
next
  case (Cons ev evs)
  then obtain ws1 c1 ws2 where "an_transition to_vec ev c = (Ok ws1, c1)" "an_wires to_vec evs c1 = (Ok ws2, c')"
    "ws = ws1 @ ws2" by (auto simp: st_then_eq_Ok)
  with Cons.IH [of c1 ws2] show ?case by (simp add: an_encode_event_def wire_frames_append)
qed

text \<open>
  C6. A streamed Messages response is the response. Let the upstream send, within the bounds of the
  data plane, the events of a response that the gateway would also return as one message, and let
  the arrivals and the polls interleave in any way, until enough polls have followed the last event.
  The stream has then finished, and a client that checks the event grammar and joins the deltas of
  every block has received exactly that message: its text, its signed thinking, its tool calls with
  the parsed input, its identifier, model and stop reason. Serialised JSON is assumed to contain the
  text of its members.
\<close>

theorem streamed_message_is_the_message:
  assumes "build_stream to_vec created_at bs = Ok st" "message_servable to_vec request_id public_model st"
    and "embeds to_vec" "\<forall>ev \<in> set (first # events). stream_event_fits to_vec ev"
    and "an_encode_response to_vec from_str (anthropic_context request_id public_model st) (first # events) = Ok v"
    and "\<forall>i \<in> set ins. i = PollOnce \<or> (\<exists>ev. i = Arrive (ItemEvent ev))" "concat (map arrived ins) = events"
    and "length events < n"
    and "run_client (an_encode_event to_vec) (ins @ replicate n PollOnce)
        (stream_start (anthropic_stream_codec request_id public_model st) first) = (ps, s)"
  shows "cs_finished s
    \<and> (\<exists>ws r. sent ps = wire_frames to_vec ws \<and> read_wires ws reader_new = Some r \<and> reads_response from_str r v)"
proof -
  let ?c = "anthropic_stream_codec request_id public_model st"
  have small: "\<forall>ev \<in> set (first # events). small_delta to_vec anthropic_limits_default ev \<and> (\<forall>e. ev \<noteq> Failed e)"
    using assms(4) sent_event_small [OF assms(3)] by (auto simp: stream_event_fits_def)
  note enc = assms(5) [unfolded an_encode_response_def]
  from anthropic_stream_equals_response [OF enc small]
  obtain ws c r where ws: "an_wires to_vec (first # events) ?c = (Ok ws, c)"
    "read_wires ws reader_new = Some r" "reads_response from_str r v"
    unfolding anthropic_stream_codec_def anthropic_codec_new_def by blast
  from anthropic_client.run_client_complete [OF stream_codec_good [OF assms(1,2)] feed_wires [OF ws(1)]
      an_encode_response_ends [OF enc] assms(6-9)] ws show ?thesis by blast
qed

definition an_demo_events :: "canonical_event list" where
  "an_demo_events =
     [ReasoningDelta ''r'' ''hm'', OutputTextDelta ''t'' ''hi'', OutputTextDelta ''t'' ''!'',
      ToolCallDelta ''k'' ''c'' ''f'' ''{}'', UsageEvent usage_zero, Completed]"

definition an_demo_arrivals :: "stream_input list" where
  "an_demo_arrivals = PollOnce # concat (map (\<lambda>ev. [Arrive (ItemEvent ev), PollOnce]) an_demo_events)"

lemmas an_eval = an_encode_response_def an_encode_response_with_limits_def an_validate_context_def
  an_validate_identifier_def an_validate_value_def validate_opaque_payload_def try_for_each_def
  anthropic_limits_default_def anthropic_aggregator_new_def ag_transition_def ag_created_def append_text_def
  append_reasoning_def append_tool_def open_tool_def set_usage_def ag_completed_def ag_require_delta_allowed_def
  ag_require_created_def ag_ensure_payload_capacity_def ag_register_item_def last_output_def set_last_output_def
  push_output_def add_bytes_def an_response_value_def output_value_def bt_get_def usize_max_def

lemma an_demo_response:
  "\<exists>v. an_encode_response (\<lambda>_. ''{}'') (\<lambda>_. Some (JObject [])) (anthropic_context ''q'' ''m'' an_demo_stream)
     (Created ''x'' # an_demo_events) = Ok v"
  by (simp add: an_demo_events_def anthropic_context_def an_demo_stream_def stream_channel_def an_eval Let_def)

theorem streamed_message_is_the_message_witness:
  "\<exists>v ws r. an_encode_response (\<lambda>_. ''{}'') (\<lambda>_. Some (JObject [])) (anthropic_context ''q'' ''m'' an_demo_stream)
       (Created ''x'' # an_demo_events) = Ok v
     \<and> sent (fst (run_client (an_encode_event (\<lambda>_. ''{}'')) (an_demo_arrivals @ replicate 7 PollOnce)
         (stream_start (anthropic_stream_codec ''q'' ''m'' an_demo_stream) (Created ''x''))))
       = wire_frames (\<lambda>_. ''{}'') ws
     \<and> read_wires ws reader_new = Some r \<and> reads_response (\<lambda>_. Some (JObject [])) r v"
proof -
  obtain v where v: "an_encode_response (\<lambda>_. ''{}'') (\<lambda>_. Some (JObject [])) (anthropic_context ''q'' ''m'' an_demo_stream)
       (Created ''x'' # an_demo_events) = Ok v" using an_demo_response by blast
  have fits: "\<forall>ev \<in> set (Created ''x'' # an_demo_events). stream_event_fits (\<lambda>_. ''{}'') ev"
    by (simp add: an_demo_events_def stream_event_fits_def valid_stream_identifier_def json_fits_def counter_write_def
        counter_new_def MAX_UPSTREAM_METADATA_BYTES_def MAX_UPSTREAM_IDENTIFIER_BYTES_def usize_max_def Let_def)
  have emb: "embeds (\<lambda>_. ''{}'')" by (simp add: embeds_def)
  have ins: "\<forall>i \<in> set an_demo_arrivals. i = PollOnce \<or> (\<exists>ev. i = Arrive (ItemEvent ev))"
    "concat (map arrived an_demo_arrivals) = an_demo_events" "length an_demo_events < 7"
    by (simp_all add: an_demo_arrivals_def an_demo_events_def)
  from streamed_message_is_the_message [OF an_demo_build an_demo_servable emb fits v ins prod.collapse [symmetric]] v
  show ?thesis by blast
qed

end
