(* ===== verification/Responses_Codec.thy ===== *)
theory Responses_Codec
  imports Canonical Sse
begin

text \<open>
  Encoding canonical events for clients of OpenAI Responses,
  \<open>crates/wokcore-protocols/src/outbound/openai_responses.rs\<close>. One codec serves both modes: a stream
  sends the events that \<open>encode_event_values\<close> returns, a complete response is the one that the last of
  them carries. \<open>to_vec\<close> is the serialiser of \<open>serde_json\<close>; an \<open>f64\<close> is its 64 bits.
\<close>

subsection \<open>Data\<close>

record responses_template =
  rt_completed_at :: "u64 option"
  rt_error :: "json option"
  rt_incomplete_details :: "json option"
  rt_instructions :: "json option"
  rt_max_output_tokens :: "u64 option"
  rt_metadata :: "(string, json) btree"
  rt_parallel_tool_calls :: bool
  rt_previous_response_id :: "string option"
  rt_reasoning :: json
  rt_store :: bool
  rt_temperature :: "u64 option"
  rt_text :: json
  rt_tool_choice :: json
  rt_tools :: "json list"
  rt_top_p :: "u64 option"
  rt_truncation :: json
  rt_user :: "string option"

record responses_encode_context =
  rec_model :: string
  rec_created_at :: u64
  rec_response :: responses_template

record responses_limits =
  rl_max_output_items :: nat
  rl_max_identifier_bytes :: nat
  rl_max_aggregate_bytes :: nat
  rl_max_value_bytes :: nat

definition responses_limits_default :: responses_limits where
  "responses_limits_default =
     \<lparr>rl_max_output_items = 4096, rl_max_identifier_bytes = 512, rl_max_aggregate_bytes = 16 * 1024 * 1024,
      rl_max_value_bytes = 1024 * 1024\<rparr>"

datatype responses_output =
    RText (ro_item: string) string
  | RReasoning (ro_item: string) string
  | RTool (ro_item: string) string string string

record responses_codec =
  rc_context :: responses_encode_context
  rc_limits :: responses_limits
  rc_context_validated :: bool
  rc_terminal :: bool
  rc_sequence_number :: u64
  rc_response_id :: "string option"
  rc_output :: "responses_output list"
  rc_aggregate_bytes :: nat
  rc_usage :: "json option"

type_synonym responses_wire = "string \<times> json"

subsection \<open>Limits and values\<close>

definition rs_validate_identifier :: "responses_limits \<Rightarrow> string \<Rightarrow> unit codec_result" where
  "rs_validate_identifier lim v =
     (if v = [] \<or> rl_max_identifier_bytes lim < length v then bad_request else Ok ())"

definition rs_validate_serialized :: "(json \<Rightarrow> string) \<Rightarrow> responses_limits \<Rightarrow> json \<Rightarrow> unit codec_result" where
  "rs_validate_serialized to_vec lim v =
     (if length (to_vec v) \<le> rl_max_value_bytes lim then Ok () else bad_request)"

definition rs_validate_string_map ::
  "(json \<Rightarrow> string) \<Rightarrow> responses_limits \<Rightarrow> (string, json) btree \<Rightarrow> unit codec_result" where
  "rs_validate_string_map to_vec lim values =
     (if rl_max_output_items lim < length values then bad_request
      else and_then (try_for_each (\<lambda>(k, _). rs_validate_identifier lim k) values)
        (\<lambda>_. rs_validate_serialized to_vec lim (JObject values)))"

definition rs_validate_context ::
  "(json \<Rightarrow> string) \<Rightarrow> responses_limits \<Rightarrow> responses_encode_context \<Rightarrow> unit codec_result" where
  "rs_validate_context to_vec lim ctx =
     (let t = rec_response ctx; serialized = rs_validate_serialized to_vec lim
      in and_then (rs_validate_identifier lim (rec_model ctx)) (\<lambda>_.
         and_then (case rt_previous_response_id t of None \<Rightarrow> Ok () | Some i \<Rightarrow> rs_validate_identifier lim i) (\<lambda>_.
         and_then (rs_validate_string_map to_vec lim (rt_metadata t)) (\<lambda>_.
           if rl_max_output_items lim < length (rt_tools t) then bad_request
           else and_then (serialized (json_option (rt_error t))) (\<lambda>_.
                and_then (serialized (json_option (rt_incomplete_details t))) (\<lambda>_.
                and_then (serialized (json_option (rt_instructions t))) (\<lambda>_.
                and_then (serialized (rt_reasoning t)) (\<lambda>_.
                and_then (serialized (rt_text t)) (\<lambda>_.
                and_then (serialized (rt_tool_choice t)) (\<lambda>_.
                and_then (serialized (JArray (rt_tools t))) (\<lambda>_.
                and_then (serialized (rt_truncation t)) (\<lambda>_.
                  serialized (json_option (map_option JString (rt_user t)))))))))))))))"

definition rs_usage_value :: "usage \<Rightarrow> json" where
  "rs_usage_value u =
     (let value = bt_collect
        [(''input_tokens'', json_u64 (us_input_tokens u)),
         (''input_tokens_details'', json_object
            [(''cached_tokens'', json_u64 (case us_cached_input_tokens u of None \<Rightarrow> 0 | Some n \<Rightarrow> n))]),
         (''output_tokens'', json_u64 (us_output_tokens u)),
         (''output_tokens_details'', json_object
            [(''reasoning_tokens'', json_u64 (case us_reasoning_tokens u of None \<Rightarrow> 0 | Some n \<Rightarrow> n))]),
         (''total_tokens'', json_u64 (sat_add (us_input_tokens u) (us_output_tokens u)))]
      in JObject (fold (\<lambda>(k, v). bt_or_insert k v) (us_extensions u) value))"

definition rs_validate_usage :: "(json \<Rightarrow> string) \<Rightarrow> responses_limits \<Rightarrow> usage \<Rightarrow> json codec_result" where
  "rs_validate_usage to_vec lim u =
     and_then (rs_validate_string_map to_vec lim (us_extensions u)) (\<lambda>_.
     and_then (rs_validate_serialized to_vec lim (rs_usage_value u)) (\<lambda>_. Ok (rs_usage_value u)))"

text \<open>\<open>json!\<close> of an \<open>f64\<close>: a value that is not finite becomes null.\<close>

definition json_f64 :: "u64 \<Rightarrow> json" where
  "json_f64 bits = (if (bits div 2 ^ 52) mod 2 ^ 11 = 2047 then JNull else JNumber (Float bits))"

definition text_part :: "string \<Rightarrow> json" where
  "text_part text =
     json_object [(''type'', JString ''output_text''), (''text'', JString text), (''annotations'', JArray [])]"

definition summary_part :: "string \<Rightarrow> json" where
  "summary_part text = json_object [(''type'', JString ''summary_text''), (''text'', JString text)]"

definition responses_output_value :: "responses_output \<Rightarrow> json" where
  "responses_output_value out =
     (case out of
        RText item_id text \<Rightarrow>
          json_object [(''id'', JString item_id), (''type'', JString ''message''), (''role'', JString ''assistant''),
            (''status'', JString ''completed''), (''content'', JArray [text_part text])]
      | RReasoning item_id text \<Rightarrow>
          json_object [(''id'', JString item_id), (''type'', JString ''reasoning''),
            (''status'', JString ''completed''), (''summary'', JArray [summary_part text])]
      | RTool item_id call_id name arguments \<Rightarrow>
          json_object [(''id'', JString item_id), (''type'', JString ''function_call''),
            (''call_id'', JString call_id), (''name'', JString name), (''arguments'', JString arguments),
            (''status'', JString ''completed'')])"

definition rs_response_value :: "string \<Rightarrow> json list \<Rightarrow> json \<Rightarrow> responses_codec \<Rightarrow> json" where
  "rs_response_value status out u c =
     (let t = rec_response (rc_context c)
      in json_object
        [(''id'', JString (case rc_response_id c of None \<Rightarrow> [] | Some i \<Rightarrow> i)),
         (''object'', JString ''response''),
         (''created_at'', json_u64 (rec_created_at (rc_context c))),
         (''status'', JString status),
         (''completed_at'',
            if status = ''completed'' then json_option (map_option json_u64 (rt_completed_at t)) else JNull),
         (''error'', json_option (rt_error t)),
         (''incomplete_details'', json_option (rt_incomplete_details t)),
         (''instructions'', json_option (rt_instructions t)),
         (''max_output_tokens'', json_option (map_option json_u64 (rt_max_output_tokens t))),
         (''model'', JString (rec_model (rc_context c))),
         (''output'', JArray out),
         (''parallel_tool_calls'', JBool (rt_parallel_tool_calls t)),
         (''previous_response_id'', json_option (map_option JString (rt_previous_response_id t))),
         (''reasoning'', rt_reasoning t),
         (''store'', JBool (rt_store t)),
         (''temperature'', json_option (map_option json_f64 (rt_temperature t))),
         (''text'', rt_text t),
         (''tool_choice'', rt_tool_choice t),
         (''tools'', JArray (rt_tools t)),
         (''top_p'', json_option (map_option json_f64 (rt_top_p t))),
         (''truncation'', rt_truncation t),
         (''usage'', u),
         (''user'', json_option (map_option JString (rt_user t))),
         (''metadata'', JObject (rt_metadata t))])"

subsection \<open>Numbered events\<close>

definition rs_wire_event :: "string \<Rightarrow> (string \<times> json) list \<Rightarrow> json" where
  "rs_wire_event kind kvs = json_object ((''type'', JString kind) # kvs)"

definition rs_wire :: "string \<Rightarrow> (string \<times> json) list \<Rightarrow> responses_codec \<Rightarrow> responses_wire \<times> responses_codec" where
  "rs_wire kind kvs c =
     ((kind, rs_wire_event kind (kvs @ [(''sequence_number'', json_u64 (rc_sequence_number c))])),
      c\<lparr>rc_sequence_number := rc_sequence_number c + 1\<rparr>)"

text \<open>A sequence of calls of \<open>wire\<close>, one after the other.\<close>

fun rs_wires ::
  "(string \<times> (string \<times> json) list) list \<Rightarrow> responses_codec \<Rightarrow> responses_wire list \<times> responses_codec" where
  "rs_wires [] c = ([], c)"
| "rs_wires ((kind, kvs) # specs) c =
     (let (w, c1) = rs_wire kind kvs c; (ws, c2) = rs_wires specs c1 in (w # ws, c2))"

subsection \<open>The codec\<close>

definition responses_with_limits :: "responses_encode_context \<Rightarrow> responses_limits \<Rightarrow> responses_codec" where
  "responses_with_limits ctx lim =
     \<lparr>rc_context = ctx, rc_limits = lim, rc_context_validated = False, rc_terminal = False,
      rc_sequence_number = 1, rc_response_id = None, rc_output = [], rc_aggregate_bytes = 0, rc_usage = None\<rparr>"

definition responses_codec_new :: "responses_encode_context \<Rightarrow> responses_codec" where
  "responses_codec_new ctx = responses_with_limits ctx responses_limits_default"

definition rs_require_created :: "responses_codec \<Rightarrow> unit codec_result" where
  "rs_require_created c = (if rc_response_id c \<noteq> None then Ok () else bad_request)"

definition rs_require_delta_allowed :: "responses_codec \<Rightarrow> unit codec_result" where
  "rs_require_delta_allowed c =
     and_then (rs_require_created c) (\<lambda>_. if rc_usage c = None then Ok () else bad_request)"

definition rs_validate_context_once ::
  "(json \<Rightarrow> string) \<Rightarrow> responses_codec \<Rightarrow> unit codec_result \<times> responses_codec" where
  "rs_validate_context_once to_vec c =
     (if rc_context_validated c then (Ok (), c)
      else case rs_validate_context to_vec (rc_limits c) (rc_context c) of
          Inl e \<Rightarrow> (Err e, c)
        | Inr _ \<Rightarrow> (Ok (), c\<lparr>rc_context_validated := True\<rparr>))"

definition checked_aggregate_bytes :: "nat \<Rightarrow> responses_codec \<Rightarrow> nat codec_result" where
  "checked_aggregate_bytes additional c =
     (let bytes = rc_aggregate_bytes c + additional
      in if bytes \<le> usize_max \<and> bytes \<le> rl_max_aggregate_bytes (rc_limits c) then Ok bytes else bad_request)"

fun find_output_from :: "nat \<Rightarrow> string \<Rightarrow> responses_output list \<Rightarrow> nat option" where
  "find_output_from n item_id [] = None"
| "find_output_from n item_id (out # outs) =
     (if ro_item out = item_id then Some n else find_output_from (Suc n) item_id outs)"

definition find_output :: "string \<Rightarrow> responses_codec \<Rightarrow> nat option" where
  "find_output item_id c = find_output_from 0 item_id (rc_output c)"

text \<open>
  The common part of the three \<open>append\<close> methods: an item that is known is replaced by its extension,
  a new one is added; both only when the payload fits.
\<close>

definition replace_output ::
  "nat \<Rightarrow> responses_output \<Rightarrow> nat \<Rightarrow> responses_codec \<Rightarrow> (nat \<times> bool) codec_result \<times> responses_codec" where
  "replace_output index out additional c =
     (case checked_aggregate_bytes additional c of
        Inl e \<Rightarrow> (Err e, c)
      | Inr bytes \<Rightarrow> (Ok (index, False), c\<lparr>rc_output := (rc_output c)[index := out], rc_aggregate_bytes := bytes\<rparr>))"

definition add_output ::
  "responses_output \<Rightarrow> nat \<Rightarrow> responses_codec \<Rightarrow> (nat \<times> bool) codec_result \<times> responses_codec" where
  "add_output out additional c =
     (case checked_aggregate_bytes additional c of
        Inl e \<Rightarrow> (Err e, c)
      | Inr bytes \<Rightarrow>
          (Ok (length (rc_output c), True), c\<lparr>rc_output := rc_output c @ [out], rc_aggregate_bytes := bytes\<rparr>))"

definition rs_append_text ::
  "string \<Rightarrow> string \<Rightarrow> responses_codec \<Rightarrow> (nat \<times> bool) codec_result \<times> responses_codec" where
  "rs_append_text item_id delta c =
     (case rs_validate_identifier (rc_limits c) item_id of
        Inl e \<Rightarrow> (Err e, c)
      | Inr _ \<Rightarrow>
          (case find_output item_id c of
             Some index \<Rightarrow>
               (case rc_output c ! index of
                  RText i text \<Rightarrow> replace_output index (RText i (text @ delta)) (length delta) c
                | _ \<Rightarrow> (bad_request, c))
           | None \<Rightarrow>
               if rl_max_output_items (rc_limits c) \<le> length (rc_output c) then (bad_request, c)
               else add_output (RText item_id delta) (length delta) c))"

definition rs_append_reasoning ::
  "string \<Rightarrow> string \<Rightarrow> responses_codec \<Rightarrow> (nat \<times> bool) codec_result \<times> responses_codec" where
  "rs_append_reasoning item_id delta c =
     (case rs_validate_identifier (rc_limits c) item_id of
        Inl e \<Rightarrow> (Err e, c)
      | Inr _ \<Rightarrow>
          (case find_output item_id c of
             Some index \<Rightarrow>
               (case rc_output c ! index of
                  RReasoning i text \<Rightarrow> replace_output index (RReasoning i (text @ delta)) (length delta) c
                | _ \<Rightarrow> (bad_request, c))
           | None \<Rightarrow>
               if rl_max_output_items (rc_limits c) \<le> length (rc_output c) then (bad_request, c)
               else add_output (RReasoning item_id delta) (length delta) c))"

definition is_call :: "string \<Rightarrow> responses_output \<Rightarrow> bool" where
  "is_call call_id out = (case out of RTool _ existing _ _ \<Rightarrow> existing = call_id | _ \<Rightarrow> False)"

definition rs_append_tool ::
  "string \<Rightarrow> string \<Rightarrow> string \<Rightarrow> string \<Rightarrow> responses_codec \<Rightarrow> (nat \<times> bool) codec_result \<times> responses_codec" where
  "rs_append_tool item_id call_id name delta c =
     (case and_then (rs_validate_identifier (rc_limits c) item_id) (\<lambda>_.
           and_then (rs_validate_identifier (rc_limits c) call_id) (\<lambda>_. rs_validate_identifier (rc_limits c) name)) of
        Inl e \<Rightarrow> (Err e, c)
      | Inr _ \<Rightarrow>
          (case find_output item_id c of
             Some index \<Rightarrow>
               (case rc_output c ! index of
                  RTool i k n arguments \<Rightarrow>
                    if k = call_id \<and> n = name
                    then replace_output index (RTool i k n (arguments @ delta)) (length delta) c
                    else (bad_request, c)
                | _ \<Rightarrow> (bad_request, c))
           | None \<Rightarrow>
               if rl_max_output_items (rc_limits c) \<le> length (rc_output c) \<or> list_ex (is_call call_id) (rc_output c)
               then (bad_request, c)
               else add_output (RTool item_id call_id name delta) (length delta) c))"

type_synonym rs_step = "responses_wire list codec_result \<times> responses_codec"

definition rs_emit :: "(string \<times> (string \<times> json) list) list \<Rightarrow> responses_codec \<Rightarrow> rs_step" where
  "rs_emit specs c = (let (ws, c') = rs_wires specs c in (Ok ws, c'))"

definition rs_encode_created :: "string \<Rightarrow> responses_codec \<Rightarrow> rs_step" where
  "rs_encode_created response_id c =
     (if rc_response_id c \<noteq> None then (bad_request, c)
      else case rs_validate_identifier (rc_limits c) response_id of
          Inl e \<Rightarrow> (Err e, c)
        | Inr _ \<Rightarrow>
            let c1 = c\<lparr>rc_response_id := Some response_id\<rparr>
            in rs_emit [(''response.created'', [(''response'', rs_response_value ''in_progress'' [] JNull c1)])] c1)"

definition rs_encode_text_delta :: "string \<Rightarrow> string \<Rightarrow> responses_codec \<Rightarrow> rs_step" where
  "rs_encode_text_delta item_id delta c =
     (case rs_require_delta_allowed c of
        Inl e \<Rightarrow> (Err e, c)
      | Inr _ \<Rightarrow>
          st_then (rs_append_text item_id delta c) (\<lambda>(index, is_new) c1.
            rs_emit
              ((if is_new
                then [(''response.output_item.added'',
                        [(''output_index'', json_usize index),
                         (''item'', json_object
                            [(''id'', JString item_id), (''type'', JString ''message''), (''role'', JString ''assistant''),
                             (''status'', JString ''in_progress''), (''content'', JArray [])])]),
                      (''response.content_part.added'',
                        [(''item_id'', JString item_id), (''output_index'', json_usize index),
                         (''content_index'', json_usize 0), (''part'', text_part [])])]
                else [])
               @ [(''response.output_text.delta'',
                    [(''item_id'', JString item_id), (''output_index'', json_usize index),
                     (''content_index'', json_usize 0), (''delta'', JString delta)])]) c1))"

definition rs_encode_reasoning_delta :: "string \<Rightarrow> string \<Rightarrow> responses_codec \<Rightarrow> rs_step" where
  "rs_encode_reasoning_delta item_id delta c =
     (case rs_require_delta_allowed c of
        Inl e \<Rightarrow> (Err e, c)
      | Inr _ \<Rightarrow>
          st_then (rs_append_reasoning item_id delta c) (\<lambda>(index, is_new) c1.
            rs_emit
              ((if is_new
                then [(''response.output_item.added'',
                        [(''output_index'', json_usize index),
                         (''item'', json_object
                            [(''id'', JString item_id), (''type'', JString ''reasoning''),
                             (''status'', JString ''in_progress''), (''summary'', JArray [])])]),
                      (''response.reasoning_summary_part.added'',
                        [(''item_id'', JString item_id), (''output_index'', json_usize index),
                         (''summary_index'', json_usize 0), (''part'', summary_part [])])]
                else [])
               @ [(''response.reasoning_summary_text.delta'',
                    [(''item_id'', JString item_id), (''output_index'', json_usize index),
                     (''summary_index'', json_usize 0), (''delta'', JString delta)])]) c1))"

definition rs_encode_tool_delta :: "string \<Rightarrow> string \<Rightarrow> string \<Rightarrow> string \<Rightarrow> responses_codec \<Rightarrow> rs_step" where
  "rs_encode_tool_delta item_id call_id name delta c =
     (case rs_require_delta_allowed c of
        Inl e \<Rightarrow> (Err e, c)
      | Inr _ \<Rightarrow>
          st_then (rs_append_tool item_id call_id name delta c) (\<lambda>(index, is_new) c1.
            rs_emit
              ((if is_new
                then [(''response.output_item.added'',
                        [(''output_index'', json_usize index),
                         (''item'', json_object
                            [(''id'', JString item_id), (''type'', JString ''function_call''),
                             (''call_id'', JString call_id), (''name'', JString name), (''arguments'', JString []),
                             (''status'', JString ''in_progress'')])])]
                else [])
               @ [(''response.function_call_arguments.delta'',
                    [(''item_id'', JString item_id), (''output_index'', json_usize index),
                     (''delta'', JString delta)])]) c1))"

definition rs_encode_usage :: "(json \<Rightarrow> string) \<Rightarrow> usage \<Rightarrow> responses_codec \<Rightarrow> rs_step" where
  "rs_encode_usage to_vec u c =
     (case and_then (rs_require_created c) (\<lambda>_.
             if rc_usage c \<noteq> None then bad_request else rs_validate_usage to_vec (rc_limits c) u) of
        Inl e \<Rightarrow> (Err e, c)
      | Inr value \<Rightarrow> (Ok [], c\<lparr>rc_usage := Some value\<rparr>))"

definition item_done :: "nat \<Rightarrow> responses_output \<Rightarrow> (string \<times> (string \<times> json) list) list" where
  "item_done index out =
     (case out of
        RText item_id text \<Rightarrow>
          [(''response.output_text.done'',
             [(''item_id'', JString item_id), (''output_index'', json_usize index), (''content_index'', json_usize 0),
              (''text'', JString text)]),
           (''response.content_part.done'',
             [(''item_id'', JString item_id), (''output_index'', json_usize index), (''content_index'', json_usize 0),
              (''part'', text_part text)])]
      | RReasoning item_id text \<Rightarrow>
          [(''response.reasoning_summary_text.done'',
             [(''item_id'', JString item_id), (''output_index'', json_usize index), (''summary_index'', json_usize 0),
              (''text'', JString text)]),
           (''response.reasoning_summary_part.done'',
             [(''item_id'', JString item_id), (''output_index'', json_usize index), (''summary_index'', json_usize 0),
              (''part'', summary_part text)])]
      | RTool item_id _ name arguments \<Rightarrow>
          [(''response.function_call_arguments.done'',
             [(''item_id'', JString item_id), (''name'', JString name), (''output_index'', json_usize index),
              (''arguments'', JString arguments)])])
     @ [(''response.output_item.done'',
          [(''output_index'', json_usize index), (''item'', responses_output_value out)])]"

fun items_done :: "nat \<Rightarrow> responses_output list \<Rightarrow> (string \<times> (string \<times> json) list) list" where
  "items_done n [] = []"
| "items_done n (out # outs) = item_done n out @ items_done (Suc n) outs"

definition rs_encode_completed :: "responses_codec \<Rightarrow> rs_step" where
  "rs_encode_completed c =
     (case and_then (rs_require_created c) (\<lambda>_. ok_or (rc_usage c) (Fail invalid_request)) of
        Inl e \<Rightarrow> (Err e, c)
      | Inr u \<Rightarrow>
          let (status, event_name) =
                (if rt_incomplete_details (rec_response (rc_context c)) \<noteq> None
                 then (''incomplete'', ''response.incomplete'') else (''completed'', ''response.completed''));
              (ws, c1) = rs_wires (items_done 0 (rc_output c)) c;
              response = rs_response_value status (map responses_output_value (rc_output c)) u c1;
              (w, c2) = rs_wire event_name [(''response'', response)] c1
          in (Ok (ws @ [w]), c2\<lparr>rc_terminal := True\<rparr>))"

definition rs_encode_failed :: "gateway_error \<Rightarrow> responses_codec \<Rightarrow> responses_wire list \<times> responses_codec" where
  "rs_encode_failed e c =
     rs_wires [(''error'', [(''code'', JString (ge_code e)), (''message'', JString (public_message e)), (''param'', JNull)])]
       (c\<lparr>rc_terminal := True\<rparr>)"

definition rs_encode_event_values :: "(json \<Rightarrow> string) \<Rightarrow> canonical_event \<Rightarrow> responses_codec \<Rightarrow> rs_step" where
  "rs_encode_event_values to_vec ev c0 =
     (if rc_terminal c0 then (bad_request, c0)
      else st_then (rs_validate_context_once to_vec c0) (\<lambda>_ c.
        case ev of
          Created response_id \<Rightarrow> rs_encode_created response_id c
        | OutputTextDelta item_id delta \<Rightarrow> rs_encode_text_delta item_id delta c
        | ReasoningDelta item_id delta \<Rightarrow> rs_encode_reasoning_delta item_id delta c
        | ToolCallDelta item_id call_id name delta \<Rightarrow> rs_encode_tool_delta item_id call_id name delta c
        | UsageEvent u \<Rightarrow> rs_encode_usage to_vec u c
        | Completed \<Rightarrow> rs_encode_completed c
        | Failed e \<Rightarrow> (case rs_encode_failed e c of (ws, c') \<Rightarrow> (Ok ws, c'))))"

definition rs_encode_event ::
  "(json \<Rightarrow> string) \<Rightarrow> canonical_event \<Rightarrow> responses_codec \<Rightarrow> string codec_result \<times> responses_codec" where
  "rs_encode_event to_vec ev c =
     st_then (rs_encode_event_values to_vec ev c) (\<lambda>ws c'.
       (Ok (concat (map (\<lambda>(kind, v). encode_sse (Some kind) (to_vec v)) ws)), c'))"

subsection \<open>Complete responses\<close>

definition last_response :: "canonical_event \<Rightarrow> responses_wire list \<Rightarrow> json option \<Rightarrow> json option" where
  "last_response ev ws response =
     (case ev of
        Completed \<Rightarrow> if ws = [] then None else json_get ''response'' (snd (last ws))
      | Failed e \<Rightarrow>
          Some (json_object [(''error'', json_object
            [(''type'', JString ''gateway_error''), (''code'', JString (ge_code e)), (''message'', JString (public_message e))])])
      | _ \<Rightarrow> response)"

fun rs_response_loop ::
  "(json \<Rightarrow> string) \<Rightarrow> canonical_event list \<Rightarrow> responses_codec \<Rightarrow> json option \<Rightarrow> json codec_result" where
  "rs_response_loop to_vec [] c response =
     (if \<not> rc_terminal c then bad_request else ok_or response (Fail invalid_request))"
| "rs_response_loop to_vec (ev # evs) c response =
     (case rs_encode_event_values to_vec ev c of
        (Inl e, _) \<Rightarrow> Err e
      | (Inr ws, c') \<Rightarrow> rs_response_loop to_vec evs c' (last_response ev ws response))"

definition rs_encode_response ::
  "(json \<Rightarrow> string) \<Rightarrow> responses_encode_context \<Rightarrow> canonical_event list \<Rightarrow> json codec_result" where
  "rs_encode_response to_vec ctx events = rs_response_loop to_vec events (responses_codec_new ctx) None"

end
