(* ===== verification/Responses_Facts.thy ===== *)
theory Responses_Facts
  imports Responses_Codec Client_Stream
begin

text \<open>
  A reader of OpenAI Responses streams, as a client is written against the event reference: it checks
  the sequence numbers, the order of the events of every output item and its index, joins the deltas,
  and compares what it has joined with every text, part and item the server later calls done and
  with the response that ends the stream. The codec is shown to produce only what this reader accepts.
\<close>

subsection \<open>The client's reader\<close>

datatype rr_phase = RrStart | RrOpen | RrDone | RrFailed

text \<open>The life of an output item: announced, receiving deltas, and the three steps of its end.\<close>

datatype item_phase = IAdded | IReady | ITextDone | IPartDone | IDone

record rs_reader =
  rr_phase :: rr_phase
  rr_next :: u64
  rr_id :: json
  rr_items :: "(item_phase \<times> responses_output) list"
  rr_response :: json

definition rs_reader_new :: rs_reader where
  "rs_reader_new = \<lparr>rr_phase = RrStart, rr_next = 1, rr_id = JNull, rr_items = [], rr_response = JNull\<rparr>"

fun rs_str_of :: "json option \<Rightarrow> string" where
  "rs_str_of (Some (JString s)) = s"
| "rs_str_of _ = []"

definition read_item :: "json \<Rightarrow> (item_phase \<times> responses_output) option" where
  "read_item v =
     (if json_get ''status'' v \<noteq> Some (JString ''in_progress'') then None
      else if json_get ''type'' v = Some (JString ''message'') \<and> json_get ''content'' v = Some (JArray [])
      then Some (IAdded, RText (rs_str_of (json_get ''id'' v)) [])
      else if json_get ''type'' v = Some (JString ''reasoning'') \<and> json_get ''summary'' v = Some (JArray [])
      then Some (IAdded, RReasoning (rs_str_of (json_get ''id'' v)) [])
      else if json_get ''type'' v = Some (JString ''function_call'') \<and> json_get ''arguments'' v = Some (JString [])
      then Some (IReady, RTool (rs_str_of (json_get ''id'' v)) (rs_str_of (json_get ''call_id'' v)) (rs_str_of (json_get ''name'' v)) [])
      else None)"

text \<open>What an event does to the item it names; \<open>None\<close> when the item is not ready for it.\<close>

definition item_event :: "string \<Rightarrow> json \<Rightarrow> item_phase \<times> responses_output \<Rightarrow> (item_phase \<times> responses_output) option" where
  "item_event kind v x =
     (case x of
        (IAdded, RText i t) \<Rightarrow>
          if kind = ''response.content_part.added'' \<and> json_get ''part'' v = Some (text_part []) then Some (IReady, RText i t) else None
      | (IAdded, RReasoning i t) \<Rightarrow>
          if kind = ''response.reasoning_summary_part.added'' \<and> json_get ''part'' v = Some (summary_part [])
          then Some (IReady, RReasoning i t) else None
      | (IReady, RText i t) \<Rightarrow>
          if kind = ''response.output_text.delta'' then Some (IReady, RText i (t @ rs_str_of (json_get ''delta'' v)))
          else if kind = ''response.output_text.done'' \<and> json_get ''text'' v = Some (JString t) then Some (ITextDone, RText i t)
          else None
      | (IReady, RReasoning i t) \<Rightarrow>
          if kind = ''response.reasoning_summary_text.delta'' then Some (IReady, RReasoning i (t @ rs_str_of (json_get ''delta'' v)))
          else if kind = ''response.reasoning_summary_text.done'' \<and> json_get ''text'' v = Some (JString t)
          then Some (ITextDone, RReasoning i t) else None
      | (IReady, RTool i k n a) \<Rightarrow>
          if kind = ''response.function_call_arguments.delta'' then Some (IReady, RTool i k n (a @ rs_str_of (json_get ''delta'' v)))
          else if kind = ''response.function_call_arguments.done'' \<and> json_get ''arguments'' v = Some (JString a)
               \<and> json_get ''name'' v = Some (JString n)
          then Some (IPartDone, RTool i k n a) else None
      | (ITextDone, RText i t) \<Rightarrow>
          if kind = ''response.content_part.done'' \<and> json_get ''part'' v = Some (text_part t) then Some (IPartDone, RText i t) else None
      | (ITextDone, RReasoning i t) \<Rightarrow>
          if kind = ''response.reasoning_summary_part.done'' \<and> json_get ''part'' v = Some (summary_part t)
          then Some (IPartDone, RReasoning i t) else None
      | (IPartDone, out) \<Rightarrow>
          if kind = ''response.output_item.done'' \<and> json_get ''item'' v = Some (responses_output_value out)
          then Some (IDone, out) else None
      | _ \<Rightarrow> None)"

text \<open>The item an event is about, by its identifier; its index must be the item's position.\<close>

definition named_item :: "string \<Rightarrow> json \<Rightarrow> string" where
  "named_item kind v =
     (if kind = ''response.output_item.done''
      then (case json_get ''item'' v of None \<Rightarrow> [] | Some item \<Rightarrow> rs_str_of (json_get ''id'' item))
      else rs_str_of (json_get ''item_id'' v))"

definition on_item :: "string \<Rightarrow> json \<Rightarrow> rs_reader \<Rightarrow> rs_reader option" where
  "on_item kind v r =
     (case find_output_from 0 (named_item kind v) (map snd (rr_items r)) of
        None \<Rightarrow> None
      | Some i \<Rightarrow>
          if json_get ''output_index'' v \<noteq> Some (json_usize i) then None
          else map_option (\<lambda>x. r\<lparr>rr_items := (rr_items r)[i := x]\<rparr>) (item_event kind v (rr_items r ! i)))"

definition read_added :: "json \<Rightarrow> rs_reader \<Rightarrow> rs_reader option" where
  "read_added v r =
     (case json_get ''item'' v of
        None \<Rightarrow> None
      | Some item \<Rightarrow>
          (case read_item item of
             None \<Rightarrow> None
           | Some x \<Rightarrow>
               if json_get ''output_index'' v = Some (json_usize (length (rr_items r)))
                  \<and> ro_item (snd x) \<notin> ro_item ` snd ` set (rr_items r)
               then Some (r\<lparr>rr_items := rr_items r @ [x]\<rparr>) else None))"

definition read_final :: "string \<Rightarrow> json \<Rightarrow> rs_reader \<Rightarrow> rs_reader option" where
  "read_final status v r =
     (case json_get ''response'' v of
        None \<Rightarrow> None
      | Some response \<Rightarrow>
          if json_get ''status'' response = Some (JString status) \<and> json_get ''id'' response = Some (rr_id r)
             \<and> list_all (\<lambda>x. fst x = IDone) (rr_items r)
             \<and> json_get ''output'' response = Some (JArray (map (\<lambda>x. responses_output_value (snd x)) (rr_items r)))
          then Some (r\<lparr>rr_phase := RrDone, rr_response := response\<rparr>) else None)"

definition read_body :: "string \<Rightarrow> json \<Rightarrow> rs_reader \<Rightarrow> rs_reader option" where
  "read_body kind v r =
     (case rr_phase r of
        RrStart \<Rightarrow>
          if kind = ''response.created''
          then (case json_get ''response'' v of
                  None \<Rightarrow> None
                | Some response \<Rightarrow>
                    if json_get ''status'' response = Some (JString ''in_progress'')
                    then map_option (\<lambda>i. r\<lparr>rr_phase := RrOpen, rr_id := i\<rparr>) (json_get ''id'' response) else None)
          else if kind = ''error'' then Some (r\<lparr>rr_phase := RrFailed\<rparr>) else None
      | RrOpen \<Rightarrow>
          if kind = ''response.output_item.added'' then read_added v r
          else if kind = ''response.completed'' then read_final ''completed'' v r
          else if kind = ''response.incomplete'' then read_final ''incomplete'' v r
          else if kind = ''error'' then Some (r\<lparr>rr_phase := RrFailed\<rparr>)
          else on_item kind v r
      | _ \<Rightarrow> None)"

definition rs_read :: "responses_wire \<Rightarrow> rs_reader \<Rightarrow> rs_reader option" where
  "rs_read w r =
     (case w of (kind, v) \<Rightarrow>
        if json_get ''type'' v = Some (JString kind) \<and> json_get ''sequence_number'' v = Some (json_u64 (rr_next r))
        then read_body kind v (r\<lparr>rr_next := rr_next r + 1\<rparr>) else None)"

fun rs_reads :: "responses_wire list \<Rightarrow> rs_reader \<Rightarrow> rs_reader option" where
  "rs_reads [] r = Some r"
| "rs_reads (w # ws) r = (case rs_read w r of None \<Rightarrow> None | Some r' \<Rightarrow> rs_reads ws r')"

lemma rs_reads_append:
  "rs_reads (ws @ vs) r = (case rs_reads ws r of None \<Rightarrow> None | Some r' \<Rightarrow> rs_reads vs r')"
  by (induction ws arbitrary: r) (auto split: option.split)

subsection \<open>Reading the numbered events\<close>

lemma rs_read_wire:
  assumes "rr_next r = rc_sequence_number c" "''type'' \<notin> fst ` set kvs"
  shows "rs_read (fst (rs_wire kind kvs c)) r =
    read_body kind (rs_wire_event kind (kvs @ [(''sequence_number'', json_u64 (rr_next r))]))
      (r\<lparr>rr_next := rr_next r + 1\<rparr>)"
proof -
  have "map_of (rev kvs) ''type'' = None" using assms(2) by (simp add: map_of_eq_None_iff)
  with assms(1) show ?thesis by (simp add: rs_read_def rs_wire_def rs_wire_event_def map_add_def)
qed

lemma rs_wires_append:
  "rs_wires (xs @ ys) c =
     (case rs_wires xs c of (ws, c1) \<Rightarrow> (case rs_wires ys c1 of (vs, c2) \<Rightarrow> (ws @ vs, c2)))"
  by (induction xs arbitrary: c) (auto split: prod.splits simp: Let_def)

lemma rs_wires_state:
  "snd (rs_wires specs c) = c\<lparr>rc_sequence_number := rc_sequence_number c + of_nat (length specs)\<rparr>"
proof (induction specs arbitrary: c)
  case Nil
  then show ?case by simp
next
  case (Cons spec specs)
  then show ?case
    by (cases spec; cases "rs_wires specs (c\<lparr>rc_sequence_number := rc_sequence_number c + 1\<rparr>)")
       (use Cons.IH [of "c\<lparr>rc_sequence_number := rc_sequence_number c + 1\<rparr>"] in \<open>simp add: rs_wire_def add.assoc\<close>)
qed

text \<open>The events of a list of calls, read one after the other from the same number on.\<close>

fun read_specs :: "(string \<times> (string \<times> json) list) list \<Rightarrow> rs_reader \<Rightarrow> rs_reader option" where
  "read_specs [] r = Some r"
| "read_specs ((kind, kvs) # specs) r =
     (if ''type'' \<in> fst ` set kvs then None
      else case read_body kind (rs_wire_event kind (kvs @ [(''sequence_number'', json_u64 (rr_next r))]))
          (r\<lparr>rr_next := rr_next r + 1\<rparr>) of
        None \<Rightarrow> None
      | Some r' \<Rightarrow> read_specs specs r')"

lemma read_specs_append:
  "read_specs (xs @ ys) r = (case read_specs xs r of None \<Rightarrow> None | Some r' \<Rightarrow> read_specs ys r')"
proof (induction xs arbitrary: r)
  case Nil
  then show ?case by simp
next
  case (Cons spec specs)
  then show ?case by (cases spec) (simp split: option.split)
qed

lemma read_body_next: "read_body kind v r = Some r' \<Longrightarrow> rr_next r' = rr_next r"
  by (auto simp: read_body_def read_added_def read_final_def on_item_def split: rr_phase.splits if_splits option.splits)

lemma read_specs_wires:
  assumes "rs_wires specs c = (ws, c')" "rr_next r = rc_sequence_number c" "read_specs specs r = Some r'"
  shows "rs_reads ws r = Some r' \<and> rr_next r' = rc_sequence_number c'"
  using assms
proof (induction specs arbitrary: c ws r)
  case Nil
  then show ?case by simp
next
  case (Cons spec specs)
  obtain kind kvs where spec: "spec = (kind, kvs)" by (cases spec)
  obtain w c1 where w: "rs_wire kind kvs c = (w, c1)" by (cases "rs_wire kind kvs c")
  obtain vs where vs: "rs_wires specs c1 = (vs, c')" "ws = w # vs"
    using Cons.prems(1) by (auto simp: spec w split: prod.splits)
  obtain r1 where r1: "''type'' \<notin> fst ` set kvs" "read_specs specs r1 = Some r'"
    "read_body kind (rs_wire_event kind (kvs @ [(''sequence_number'', json_u64 (rr_next r))]))
       (r\<lparr>rr_next := rr_next r + 1\<rparr>) = Some r1"
    using Cons.prems(3) by (auto simp: spec split: if_splits option.splits)
  have "rs_read w r = Some r1" using rs_read_wire [OF Cons.prems(2) r1(1), of kind] r1(3) by (simp add: w)
  moreover have "rr_next r1 = rc_sequence_number c1"
    using read_body_next [OF r1(3)] w Cons.prems(2) by (auto simp: rs_wire_def)
  ultimately show ?case using Cons.IH [OF vs(1) _ r1(2)] vs(2) by simp
qed

subsection \<open>Output items\<close>

lemma find_output_None: "find_output_from n item_id outs = None \<longleftrightarrow> item_id \<notin> ro_item ` set outs"
  by (induction outs arbitrary: n) auto

lemma find_output_Some:
  "find_output_from n item_id outs = Some i \<Longrightarrow> n \<le> i \<and> i < n + length outs \<and> ro_item (outs ! (i - n)) = item_id"
proof (induction outs arbitrary: n)
  case Nil
  then show ?case by simp
next
  case (Cons out outs)
  show ?case
  proof (cases "ro_item out = item_id")
    case True
    with Cons.prems show ?thesis by simp
  next
    case False
    with Cons show ?thesis by (fastforce simp: nth_Cons' Suc_le_eq)
  qed
qed

lemma find_output_at:
  "distinct (map ro_item outs) \<Longrightarrow> i < length outs \<Longrightarrow> find_output_from n (ro_item (outs ! i)) outs = Some (n + i)"
proof (induction outs arbitrary: n i)
  case Nil
  then show ?case by simp
next
  case (Cons out outs)
  then show ?case by (cases i) (auto simp: image_iff)
qed

definition open_reader :: "rs_reader \<Rightarrow> bool" where
  "open_reader r = (rr_phase r = RrOpen \<and> distinct (map (ro_item \<circ> snd) (rr_items r)))"

lemma on_item_at:
  assumes "distinct (map (ro_item \<circ> snd) (rr_items r))" "i < length (rr_items r)"
    and "named_item kind v = ro_item (snd (rr_items r ! i))" "json_get ''output_index'' v = Some (json_usize i)"
  shows "on_item kind v r =
    map_option (\<lambda>x. r\<lparr>rr_items := (rr_items r)[i := x]\<rparr>) (item_event kind v (rr_items r ! i))"
  using find_output_at [of "map snd (rr_items r)" i 0] assms by (simp add: on_item_def)

text \<open>A list of calls that are all about the item with index \<open>i\<close>.\<close>

fun item_run ::
  "nat \<Rightarrow> (string \<times> (string \<times> json) list) list \<Rightarrow> item_phase \<times> responses_output \<Rightarrow> (item_phase \<times> responses_output) option" where
  "item_run i [] x = Some x"
| "item_run i ((kind, kvs) # specs) x =
     (if kind \<in> {''response.output_item.added'', ''response.completed'', ''response.incomplete'', ''error''}
         \<or> ''type'' \<in> fst ` set kvs \<or> named_item kind (rs_wire_event kind kvs) \<noteq> ro_item (snd x)
         \<or> json_get ''output_index'' (rs_wire_event kind kvs) \<noteq> Some (json_usize i) then None
      else case item_event kind (rs_wire_event kind kvs) x of
          None \<Rightarrow> None
        | Some x' \<Rightarrow> item_run i specs x')"

lemma json_get_numbered [simp]:
  "k \<noteq> ''sequence_number'' \<Longrightarrow>
   json_get k (rs_wire_event kind (kvs @ [(''sequence_number'', n)])) = json_get k (rs_wire_event kind kvs)"
  by (simp add: rs_wire_event_def map_add_def)

lemma item_event_item: "item_event kind v x = Some x' \<Longrightarrow> ro_item (snd x') = ro_item (snd x)"
  by (cases x; cases "fst x"; cases "snd x") (auto simp: item_event_def split: if_splits)

lemma item_event_numbered:
  "item_event kind (rs_wire_event kind (kvs @ [(''sequence_number'', n)])) x = item_event kind (rs_wire_event kind kvs) x"
  by (cases x; cases "fst x"; cases "snd x") (simp_all add: item_event_def)

lemma named_item_numbered:
  "named_item kind (rs_wire_event kind (kvs @ [(''sequence_number'', n)])) = named_item kind (rs_wire_event kind kvs)"
  by (simp add: named_item_def)

lemma item_run_append:
  "item_run i (xs @ ys) x = (case item_run i xs x of None \<Rightarrow> None | Some x' \<Rightarrow> item_run i ys x')"
proof (induction xs arbitrary: x)
  case Nil
  then show ?case by simp
next
  case (Cons spec specs)
  then show ?case by (cases spec) (simp split: option.split)
qed

lemma read_item_run:
  assumes "open_reader r" "rr_items r = xs @ x # ys" "item_run (length xs) specs x = Some x'"
  shows "\<exists>r'. read_specs specs r = Some r' \<and> open_reader r' \<and> rr_items r' = xs @ x' # ys
    \<and> rr_id r' = rr_id r"
  using assms
proof (induction specs arbitrary: r x)
  case Nil
  then show ?case by auto
next
  case (Cons spec specs)
  obtain kind kvs where spec: "spec = (kind, kvs)" by (cases spec)
  let ?v = "rs_wire_event kind (kvs @ [(''sequence_number'', json_u64 (rr_next r))])"
  let ?r = "r\<lparr>rr_next := rr_next r + 1\<rparr>"
  obtain y where y: "item_event kind (rs_wire_event kind kvs) x = Some y" "item_run (length xs) specs y = Some x'"
    and ok: "kind \<notin> {''response.output_item.added'', ''response.completed'', ''response.incomplete'', ''error''}"
      "''type'' \<notin> fst ` set kvs" "named_item kind (rs_wire_event kind kvs) = ro_item (snd x)"
      "json_get ''output_index'' (rs_wire_event kind kvs) = Some (json_usize (length xs))"
    using Cons.prems(3) by (auto simp: spec split: if_splits option.splits)
  have "on_item kind ?v ?r = Some (?r\<lparr>rr_items := xs @ y # ys\<rparr>)"
    using Cons.prems(1,2) y(1) ok on_item_at [of ?r "length xs" kind ?v]
    by (simp add: open_reader_def item_event_numbered named_item_numbered)
  then have step: "read_body kind ?v ?r = Some (?r\<lparr>rr_items := xs @ y # ys\<rparr>)"
    using Cons.prems(1) ok(1) by (simp add: read_body_def open_reader_def)
  have "open_reader (?r\<lparr>rr_items := xs @ y # ys\<rparr>)"
    using Cons.prems(1,2) item_event_item [OF y(1)] by (simp add: open_reader_def)
  from Cons.IH [OF this _ y(2)] step ok(2) show ?case by (simp add: spec)
qed

lemma read_new_item:
  assumes "open_reader r" "read_item item = Some x" "ro_item (snd x) \<notin> ro_item ` snd ` set (rr_items r)"
    and "item_run (length (rr_items r)) specs x = Some x'"
  shows "\<exists>r'. read_specs
      ((''response.output_item.added'', [(''output_index'', json_usize (length (rr_items r))), (''item'', item)]) # specs) r
        = Some r' \<and> open_reader r' \<and> rr_items r' = rr_items r @ [x'] \<and> rr_id r' = rr_id r"
proof -
  let ?r = "r\<lparr>rr_next := rr_next r + 1, rr_items := rr_items r @ [x]\<rparr>"
  have "open_reader ?r" using assms(1,3) by (auto simp: open_reader_def)
  from read_item_run [OF this _ assms(4), of "[]"] assms show ?thesis
    by (auto simp: read_body_def read_added_def rs_wire_event_def open_reader_def)
qed

subsection \<open>The end of the items\<close>

lemma item_done_run: "item_run i (item_done i out) (IReady, out) = Some (IDone, out)"
  by (cases out) (simp_all add: item_done_def named_item_def item_event_def rs_wire_event_def responses_output_value_def)

lemma read_items_done:
  assumes "open_reader r" "rr_items r = map (Pair IDone) outs @ map (Pair IReady) todo"
  shows "\<exists>r'. read_specs (items_done (length outs) todo) r = Some r' \<and> open_reader r'
    \<and> rr_items r' = map (Pair IDone) (outs @ todo) \<and> rr_id r' = rr_id r"
  using assms
proof (induction todo arbitrary: outs r)
  case Nil
  then show ?case by auto
next
  case (Cons out todo)
  from read_item_run [OF Cons.prems(1), of "map (Pair IDone) outs" "(IReady, out)" "map (Pair IReady) todo"
      "item_done (length outs) out" "(IDone, out)"] Cons.prems(2) item_done_run
  obtain r1 where r1: "read_specs (item_done (length outs) out) r = Some r1" "open_reader r1"
    "rr_items r1 = map (Pair IDone) (outs @ [out]) @ map (Pair IReady) todo" "rr_id r1 = rr_id r" by auto
  from Cons.IH [OF r1(2,3)] r1 show ?case by (simp add: read_specs_append)
qed

subsection \<open>What the reader has seen of a codec\<close>

definition rs_view :: "responses_codec \<Rightarrow> rs_reader \<Rightarrow> bool" where
  "rs_view c r =
     (rr_next r = rc_sequence_number c
      \<and> (case rc_response_id c of
           None \<Rightarrow> rr_phase r = RrStart \<and> rr_items r = [] \<and> rc_output c = []
         | Some i \<Rightarrow> open_reader r \<and> rr_id r = JString i \<and> rr_items r = map (Pair IReady) (rc_output c)))"

lemma rs_view_irrelevant [simp]:
  "rs_view (c\<lparr>rc_context_validated := b\<rparr>) r = rs_view c r"
  "rs_view (c\<lparr>rc_usage := u\<rparr>) r = rs_view c r"
  by (simp_all add: rs_view_def split: option.split)

lemma rs_view_start: "rs_view (responses_with_limits ctx lim) rs_reader_new"
  by (simp add: rs_view_def responses_with_limits_def rs_reader_new_def)

lemma rs_emit_read:
  assumes "rs_emit specs c = (Ok ws, c')" "rr_next r = rc_sequence_number c" "read_specs specs r = Some r'"
    and "rs_view (c\<lparr>rc_sequence_number := rr_next r'\<rparr>) r'"
  shows "rs_reads ws r = Some r' \<and> rs_view c' r'"
proof -
  have w: "rs_wires specs c = (ws, c')" using assms(1) by (simp add: rs_emit_def split: prod.splits)
  from read_specs_wires [OF this assms(2,3)] rs_wires_state [of specs c] w assms(4) show ?thesis
    by (auto simp: rs_view_def)
qed

lemma rs_created_read:
  assumes "rs_view c r" "rs_encode_created i c = (Ok ws, c')"
  shows "\<exists>r'. rs_reads ws r = Some r' \<and> rs_view c' r'"
proof -
  let ?c = "c\<lparr>rc_response_id := Some i\<rparr>"
  have none: "rc_response_id c = None"
    and emit: "rs_emit [(''response.created'', [(''response'', rs_response_value ''in_progress'' [] JNull ?c)])] ?c = (Ok ws, c')"
    using assms(2) by (auto simp: rs_encode_created_def Let_def split: if_splits sum.splits)
  have "read_specs [(''response.created'', [(''response'', rs_response_value ''in_progress'' [] JNull ?c)])] r
      = Some (r\<lparr>rr_next := rr_next r + 1, rr_phase := RrOpen, rr_id := JString i\<rparr>)"
    using assms(1) none by (simp add: rs_view_def read_body_def rs_wire_event_def rs_response_value_def Let_def)
  moreover have "rs_view (?c\<lparr>rc_sequence_number := rr_next r + 1\<rparr>)
      (r\<lparr>rr_next := rr_next r + 1, rr_phase := RrOpen, rr_id := JString i\<rparr>)" "rr_next r = rc_sequence_number ?c"
    using assms(1) none by (simp_all add: rs_view_def open_reader_def)
  ultimately show ?thesis using rs_emit_read [OF emit] by fastforce
qed

text \<open>What the three \<open>append\<close> methods do: they add the item \<open>mk delta\<close>, or extend the item \<open>mk t\<close>.\<close>

definition rs_appended ::
  "(string \<Rightarrow> responses_output) \<Rightarrow> string \<Rightarrow> nat \<Rightarrow> bool \<Rightarrow> responses_codec \<Rightarrow> responses_codec \<Rightarrow> bool" where
  "rs_appended mk delta i is_new c c1 =
     ((\<exists>outs b. c1 = c\<lparr>rc_output := outs, rc_aggregate_bytes := b\<rparr>)
      \<and> (if is_new
         then i = length (rc_output c) \<and> rc_output c1 = rc_output c @ [mk delta]
              \<and> ro_item (mk delta) \<notin> ro_item ` set (rc_output c)
         else \<exists>xs t ys. rc_output c = xs @ mk t # ys \<and> i = length xs \<and> rc_output c1 = xs @ mk (t @ delta) # ys))"

lemma replace_output_appended:
  assumes "replace_output i (mk (t @ delta)) n c = (Ok (j, is_new), c1)" "i < length (rc_output c)" "rc_output c ! i = mk t"
  shows "rs_appended mk delta j is_new c c1"
proof -
  obtain b where b: "j = i" "\<not> is_new" "c1 = c\<lparr>rc_output := (rc_output c)[i := mk (t @ delta)], rc_aggregate_bytes := b\<rparr>"
    using assms(1) by (auto simp: replace_output_def split: sum.splits)
  have "rc_output c = take i (rc_output c) @ mk t # drop (Suc i) (rc_output c)"
    using id_take_nth_drop [OF assms(2)] assms(3) by simp
  moreover have "rc_output c1 = take i (rc_output c) @ mk (t @ delta) # drop (Suc i) (rc_output c)"
    using b(3) upd_conv_take_nth_drop [OF assms(2)] by simp
  moreover have "i = length (take i (rc_output c))" using assms(2) by simp
  ultimately have "\<exists>xs u ys. rc_output c = xs @ mk u # ys \<and> i = length xs \<and> rc_output c1 = xs @ mk (u @ delta) # ys"
    by blast
  then show ?thesis using b by (auto simp: rs_appended_def)
qed

lemma add_output_appended:
  assumes "add_output (mk delta) n c = (Ok (j, is_new), c1)" "ro_item (mk delta) \<notin> ro_item ` set (rc_output c)"
  shows "rs_appended mk delta j is_new c c1"
  using assms by (auto simp: add_output_def rs_appended_def split: sum.splits)

lemma find_output_cases:
  obtains "find_output item_id c = None" "item_id \<notin> ro_item ` set (rc_output c)"
  | i where "find_output item_id c = Some i" "i < length (rc_output c)" "ro_item (rc_output c ! i) = item_id"
  using find_output_None [of 0 item_id "rc_output c"] find_output_Some [of 0 item_id "rc_output c"]
  by (cases "find_output item_id c") (auto simp: find_output_def)

lemma rs_append_text_appended:
  assumes "rs_append_text item_id delta c = (Ok (j, is_new), c1)"
  shows "rs_appended (RText item_id) delta j is_new c c1"
proof (cases rule: find_output_cases [of item_id c])
  case 1
  with assms show ?thesis
    by (intro add_output_appended [of "RText item_id" delta "length delta"])
       (auto simp: rs_append_text_def split: sum.splits if_splits)
next
  case (2 i)
  with assms obtain t where t: "rc_output c ! i = RText item_id t"
    by (cases "rc_output c ! i") (auto simp: rs_append_text_def split: sum.splits)
  with 2 assms show ?thesis
    by (intro replace_output_appended [of i "RText item_id" t delta "length delta"])
       (auto simp: rs_append_text_def split: sum.splits)
qed

lemma rs_append_reasoning_appended:
  assumes "rs_append_reasoning item_id delta c = (Ok (j, is_new), c1)"
  shows "rs_appended (RReasoning item_id) delta j is_new c c1"
proof (cases rule: find_output_cases [of item_id c])
  case 1
  with assms show ?thesis
    by (intro add_output_appended [of "RReasoning item_id" delta "length delta"])
       (auto simp: rs_append_reasoning_def split: sum.splits if_splits)
next
  case (2 i)
  with assms obtain t where t: "rc_output c ! i = RReasoning item_id t"
    by (cases "rc_output c ! i") (auto simp: rs_append_reasoning_def split: sum.splits)
  with 2 assms show ?thesis
    by (intro replace_output_appended [of i "RReasoning item_id" t delta "length delta"])
       (auto simp: rs_append_reasoning_def split: sum.splits)
qed

lemma rs_append_tool_appended:
  assumes "rs_append_tool item_id call_id name delta c = (Ok (j, is_new), c1)"
  shows "rs_appended (RTool item_id call_id name) delta j is_new c c1"
proof (cases rule: find_output_cases [of item_id c])
  case 1
  with assms show ?thesis
    by (intro add_output_appended [of "RTool item_id call_id name" delta "length delta"])
       (auto simp: rs_append_tool_def split: sum.splits if_splits)
next
  case (2 i)
  with assms obtain a where a: "rc_output c ! i = RTool item_id call_id name a"
    by (cases "rc_output c ! i") (auto simp: rs_append_tool_def split: sum.splits if_splits)
  with 2 assms show ?thesis
    by (intro replace_output_appended [of i "RTool item_id call_id name" a delta "length delta"])
       (auto simp: rs_append_tool_def split: sum.splits)
qed

lemma rs_delta_read:
  assumes "rs_view c r" "rc_response_id c \<noteq> None" "rs_appended mk delta i is_new c c1"
    and "rs_emit ((if is_new then (''response.output_item.added'', [(''output_index'', json_usize i), (''item'', item)]) # part
           else []) @ [d]) c1 = (Ok ws, c')"
    and "read_item item = Some x" "item_run i part x = Some (IReady, mk [])" "ro_item (snd x) = ro_item (mk delta)"
    and "\<And>t. item_run i [d] (IReady, mk t) = Some (IReady, mk (t @ delta))"
  shows "\<exists>r'. rs_reads ws r = Some r' \<and> rs_view c' r'"
proof -
  let ?specs = "(if is_new then (''response.output_item.added'', [(''output_index'', json_usize i), (''item'', item)]) # part
    else []) @ [d]"
  obtain k where k: "rc_response_id c = Some k" using assms(2) by blast
  with assms(1) have r: "open_reader r" "rr_id r = JString k" "rr_items r = map (Pair IReady) (rc_output c)"
    "rr_next r = rc_sequence_number c" by (simp_all add: rs_view_def)
  have c1: "rc_sequence_number c1 = rc_sequence_number c" "rc_response_id c1 = Some k"
    using assms(3) k by (auto simp: rs_appended_def)
  have "\<exists>r'. read_specs ?specs r = Some r' \<and> open_reader r' \<and> rr_items r' = map (Pair IReady) (rc_output c1)
      \<and> rr_id r' = rr_id r"
  proof (cases is_new)
    case True
    then have new: "i = length (rr_items r)" "rc_output c1 = rc_output c @ [mk delta]"
      "ro_item (snd x) \<notin> ro_item ` snd ` set (rr_items r)"
      using assms(3,7) r(3) by (auto simp: rs_appended_def image_image)
    have "item_run i (part @ [d]) x = Some (IReady, mk delta)"
      using assms(6) assms(8) [of "[]"] by (simp add: item_run_append)
    from read_new_item [OF r(1) assms(5) new(3), of "part @ [d]"] this new True r(3) show ?thesis by simp
  next
    case False
    then obtain xs t ys where old: "rc_output c = xs @ mk t # ys" "i = length xs" "rc_output c1 = xs @ mk (t @ delta) # ys"
      using assms(3) by (auto simp: rs_appended_def)
    from read_item_run [OF r(1), of "map (Pair IReady) xs" "(IReady, mk t)" "map (Pair IReady) ys" "[d]"] old r(3)
      assms(8) [of t] False show ?thesis by simp
  qed
  then obtain r' where "read_specs ?specs r = Some r'" "open_reader r'" "rr_items r' = map (Pair IReady) (rc_output c1)"
    "rr_id r' = rr_id r" by blast
  with rs_emit_read [OF assms(4), of r r'] r c1 show ?thesis by (auto simp: rs_view_def)
qed

lemmas rs_item_eval = read_item_def named_item_def item_event_def rs_wire_event_def

lemma rs_text_delta_read:
  assumes "rs_view c r" "rs_encode_text_delta item_id delta c = (Ok ws, c')"
  shows "\<exists>r'. rs_reads ws r = Some r' \<and> rs_view c' r'"
proof -
  obtain i is_new c1 where a: "rs_append_text item_id delta c = (Ok (i, is_new), c1)"
    and created: "rc_response_id c \<noteq> None"
    using assms(2)
    by (auto simp: rs_encode_text_delta_def rs_require_delta_allowed_def rs_require_created_def st_then_eq_Ok split: sum.splits if_splits)
  show ?thesis
    using assms(2) a created
    by (intro rs_delta_read [OF assms(1) created rs_append_text_appended [OF a], where d = "(''response.output_text.delta'',
          [(''item_id'', JString item_id), (''output_index'', json_usize i), (''content_index'', json_usize 0), (''delta'', JString delta)])"
        and part = "[(''response.content_part.added'', [(''item_id'', JString item_id), (''output_index'', json_usize i),
          (''content_index'', json_usize 0), (''part'', text_part [])])]"
        and item = "json_object [(''id'', JString item_id), (''type'', JString ''message''), (''role'', JString ''assistant''),
          (''status'', JString ''in_progress''), (''content'', JArray [])]" and x = "(IAdded, RText item_id [])"])
       (simp_all add: rs_encode_text_delta_def rs_require_delta_allowed_def rs_require_created_def rs_item_eval split: sum.splits if_splits)
qed

lemma rs_reasoning_delta_read:
  assumes "rs_view c r" "rs_encode_reasoning_delta item_id delta c = (Ok ws, c')"
  shows "\<exists>r'. rs_reads ws r = Some r' \<and> rs_view c' r'"
proof -
  obtain i is_new c1 where a: "rs_append_reasoning item_id delta c = (Ok (i, is_new), c1)"
    and created: "rc_response_id c \<noteq> None"
    using assms(2)
    by (auto simp: rs_encode_reasoning_delta_def rs_require_delta_allowed_def rs_require_created_def st_then_eq_Ok split: sum.splits if_splits)
  show ?thesis
    using assms(2) a created
    by (intro rs_delta_read [OF assms(1) created rs_append_reasoning_appended [OF a],
        where d = "(''response.reasoning_summary_text.delta'',
          [(''item_id'', JString item_id), (''output_index'', json_usize i), (''summary_index'', json_usize 0), (''delta'', JString delta)])"
        and part = "[(''response.reasoning_summary_part.added'', [(''item_id'', JString item_id), (''output_index'', json_usize i),
          (''summary_index'', json_usize 0), (''part'', summary_part [])])]"
        and item = "json_object [(''id'', JString item_id), (''type'', JString ''reasoning''),
          (''status'', JString ''in_progress''), (''summary'', JArray [])]" and x = "(IAdded, RReasoning item_id [])"])
       (simp_all add: rs_encode_reasoning_delta_def rs_require_delta_allowed_def rs_require_created_def rs_item_eval split: sum.splits if_splits)
qed

lemma rs_tool_delta_read:
  assumes "rs_view c r" "rs_encode_tool_delta item_id call_id name delta c = (Ok ws, c')"
  shows "\<exists>r'. rs_reads ws r = Some r' \<and> rs_view c' r'"
proof -
  obtain i is_new c1 where a: "rs_append_tool item_id call_id name delta c = (Ok (i, is_new), c1)"
    and created: "rc_response_id c \<noteq> None"
    using assms(2)
    by (auto simp: rs_encode_tool_delta_def rs_require_delta_allowed_def rs_require_created_def st_then_eq_Ok split: sum.splits if_splits)
  show ?thesis
    using assms(2) a created
    by (intro rs_delta_read [OF assms(1) created rs_append_tool_appended [OF a],
        where d = "(''response.function_call_arguments.delta'',
          [(''item_id'', JString item_id), (''output_index'', json_usize i), (''delta'', JString delta)])"
        and part = "[]"
        and item = "json_object [(''id'', JString item_id), (''type'', JString ''function_call''), (''call_id'', JString call_id),
          (''name'', JString name), (''arguments'', JString []), (''status'', JString ''in_progress'')]"
        and x = "(IReady, RTool item_id call_id name [])"])
       (simp_all add: rs_encode_tool_delta_def rs_require_delta_allowed_def rs_require_created_def rs_item_eval split: sum.splits if_splits)
qed

subsection \<open>The end of the response\<close>

text \<open>The response that ends a stream is what the reader has joined.\<close>

definition reads_final :: "responses_codec \<Rightarrow> rs_reader \<Rightarrow> bool" where
  "reads_final c r =
     (rr_phase r = RrDone \<and> map snd (rr_items r) = rc_output c
      \<and> json_get ''output'' (rr_response r) = Some (JArray (map responses_output_value (rc_output c))))"

lemma rs_wires_snoc:
  "rs_wires specs c = (ws, c1) \<Longrightarrow> rs_wire kind kvs c1 = (w, c2) \<Longrightarrow> rs_wires (specs @ [(kind, kvs)]) c = (ws @ [w], c2)"
  by (simp add: rs_wires_append)

lemma rs_response_value_numbered [simp]:
  "rs_response_value status out u (c\<lparr>rc_sequence_number := n\<rparr>) = rs_response_value status out u c"
  by (simp add: rs_response_value_def)

lemma read_response_done:
  assumes "open_reader r" "rr_id r = JString i" "rr_items r = map (Pair IReady) (rc_output c)"
    and "rc_response_id c = Some i"
    and "(status, kind) = (''incomplete'', ''response.incomplete'') \<or> (status, kind) = (''completed'', ''response.completed'')"
  shows "\<exists>r'. read_specs (items_done 0 (rc_output c) @
      [(kind, [(''response'', rs_response_value status (map responses_output_value (rc_output c)) u c)])]) r = Some r'
    \<and> reads_final c r' \<and> rr_response r' = rs_response_value status (map responses_output_value (rc_output c)) u c"
proof -
  let ?v = "rs_response_value status (map responses_output_value (rc_output c)) u c"
  have v: "json_get ''status'' ?v = Some (JString status)" "json_get ''id'' ?v = Some (JString i)"
    "json_get ''output'' ?v = Some (JArray (map responses_output_value (rc_output c)))"
    using assms(4) by (simp_all add: rs_response_value_def Let_def)
  from read_items_done [OF assms(1), of "[]" "rc_output c"] assms(2,3)
  obtain r1 where r1: "read_specs (items_done 0 (rc_output c)) r = Some r1" "open_reader r1"
    "rr_items r1 = map (Pair IDone) (rc_output c)" "rr_id r1 = JString i" by auto
  have "read_specs [(kind, [(''response'', ?v)])] r1 = Some (r1\<lparr>rr_next := rr_next r1 + 1, rr_phase := RrDone, rr_response := ?v\<rparr>)"
    using r1 v assms(5)
    by (auto simp: read_body_def read_final_def open_reader_def rs_wire_event_def list_all_iff comp_def)
  with r1 v(3) show ?thesis by (simp add: read_specs_append reads_final_def comp_def)
qed

lemma rs_completed_read:
  assumes "rs_view c r" "rs_encode_completed c = (Ok ws, c')"
  shows "ws \<noteq> [] \<and> rc_terminal c' \<and> (\<exists>r'. rs_reads ws r = Some r' \<and> reads_final c r'
    \<and> json_get ''response'' (snd (last ws)) = Some (rr_response r'))"
proof -
  obtain i u where i: "rc_response_id c = Some i" "rc_usage c = Some u"
    using assms(2) by (auto simp: rs_encode_completed_def rs_require_created_def ok_or_def split: sum.splits if_splits option.splits)
  define sk where "sk = (if rt_incomplete_details (rec_response (rc_context c)) \<noteq> None
    then (''incomplete'', ''response.incomplete'') else (''completed'', ''response.completed''))"
  obtain status kind where sk_eq: "sk = (status, kind)" by (cases sk)
  let ?v = "rs_response_value status (map responses_output_value (rc_output c)) u c"
  obtain vs c1 where vs: "rs_wires (items_done 0 (rc_output c)) c = (vs, c1)" by (cases "rs_wires (items_done 0 (rc_output c)) c")
  have c1: "c1 = c\<lparr>rc_sequence_number := rc_sequence_number c + of_nat (length (items_done 0 (rc_output c)))\<rparr>"
    using rs_wires_state [of "items_done 0 (rc_output c)" c] vs by simp
  obtain w c2 where w: "rs_wire kind [(''response'', ?v)] c1 = (w, c2)" by (cases "rs_wire kind [(''response'', ?v)] c1")
  have ws: "ws = vs @ [w]" "c' = c2\<lparr>rc_terminal := True\<rparr>"
    using assms(2) i vs w sk_eq [unfolded sk_def]
    by (cases "rt_incomplete_details (rec_response (rc_context c))";
        simp add: rs_encode_completed_def rs_require_created_def c1; fail)+
  have r: "open_reader r" "rr_id r = JString i" "rr_items r = map (Pair IReady) (rc_output c)"
    "rr_next r = rc_sequence_number c" using assms(1) i by (simp_all add: rs_view_def)
  have "(status, kind) = (''incomplete'', ''response.incomplete'') \<or> (status, kind) = (''completed'', ''response.completed'')"
    using sk_eq by (auto simp: sk_def split: if_splits)
  from read_response_done [OF r(1-3) i(1) this] obtain r' where
    r': "read_specs (items_done 0 (rc_output c) @ [(kind, [(''response'', ?v)])]) r = Some r'" "reads_final c r'"
      "rr_response r' = ?v" by blast
  from read_specs_wires [OF rs_wires_snoc [OF vs w] r(4) r'(1)] r' ws w show ?thesis
    by (auto simp: rs_wire_def rs_wire_event_def)
qed

lemma rs_failed_read:
  assumes "rr_next r = rc_sequence_number c" "rr_phase r = RrStart \<or> rr_phase r = RrOpen" "rs_encode_failed e c = (ws, c')"
  shows "ws \<noteq> [] \<and> rc_terminal c' \<and> (\<exists>r'. rs_reads ws r = Some r' \<and> rr_phase r' = RrFailed)"
proof -
  let ?spec = "(''error'', [(''code'', JString (ge_code e)), (''message'', JString (public_message e)), (''param'', JNull)])"
  have w: "rs_wires [?spec] (c\<lparr>rc_terminal := True\<rparr>) = (ws, c')" using assms(3) by (simp only: rs_encode_failed_def)
  have "read_specs [?spec] r = Some (r\<lparr>rr_next := rr_next r + 1, rr_phase := RrFailed\<rparr>)"
    using assms(2) by (auto simp: read_body_def)
  from read_specs_wires [OF w _ this] assms(1)
  have "\<exists>r'. rs_reads ws r = Some r' \<and> rr_phase r' = RrFailed" by fastforce
  moreover have "ws \<noteq> []" "rc_terminal c'" using w by (auto simp: rs_wire_def)
  ultimately show ?thesis by blast
qed

subsection \<open>One event of a codec that accepts its context\<close>

definition rs_apply :: "(json \<Rightarrow> string) \<Rightarrow> canonical_event \<Rightarrow> responses_codec \<Rightarrow> rs_step" where
  "rs_apply to_vec ev c =
     (case ev of
        Created response_id \<Rightarrow> rs_encode_created response_id c
      | OutputTextDelta item_id delta \<Rightarrow> rs_encode_text_delta item_id delta c
      | ReasoningDelta item_id delta \<Rightarrow> rs_encode_reasoning_delta item_id delta c
      | ToolCallDelta item_id call_id name delta \<Rightarrow> rs_encode_tool_delta item_id call_id name delta c
      | UsageEvent u \<Rightarrow> rs_encode_usage to_vec u c
      | Completed \<Rightarrow> rs_encode_completed c
      | Failed e \<Rightarrow> (case rs_encode_failed e c of (ws, c') \<Rightarrow> (Ok ws, c')))"

definition rs_live :: "(json \<Rightarrow> string) \<Rightarrow> responses_codec \<Rightarrow> bool" where
  "rs_live to_vec c =
     (\<not> rc_terminal c \<and> (rc_context_validated c \<or> rs_validate_context to_vec (rc_limits c) (rc_context c) = Ok ()))"

lemma rs_encode_live:
  "rs_live to_vec c \<Longrightarrow> rs_encode_event_values to_vec ev c = rs_apply to_vec ev (c\<lparr>rc_context_validated := True\<rparr>)"
proof (cases "rc_context_validated c")
  case True
  then have same: "c\<lparr>rc_context_validated := True\<rparr> = c" by (cases c) simp
  assume "rs_live to_vec c"
  then show ?thesis
    unfolding same using True by (simp add: rs_live_def rs_encode_event_values_def rs_validate_context_once_def rs_apply_def)
next
  case False
  moreover assume "rs_live to_vec c"
  ultimately show ?thesis by (simp add: rs_live_def rs_encode_event_values_def rs_validate_context_once_def rs_apply_def)
qed

lemma rs_encode_accepted:
  "rs_encode_event_values to_vec ev c = (Ok ws, c') \<Longrightarrow> rs_live to_vec c"
  by (auto simp: rs_encode_event_values_def rs_live_def rs_validate_context_once_def st_then_eq_Ok split: if_splits sum.splits)

text \<open>A refused event leaves no trace.\<close>

lemma rs_append_refused:
  "rs_append_text item_id delta c = (Err e, c') \<Longrightarrow> c' = c \<and> e \<noteq> Panic"
  "rs_append_reasoning item_id delta c = (Err e, c') \<Longrightarrow> c' = c \<and> e \<noteq> Panic"
  "rs_append_tool item_id call_id name delta c = (Err e, c') \<Longrightarrow> c' = c \<and> e \<noteq> Panic"
  by (auto simp: rs_append_text_def rs_append_reasoning_def rs_append_tool_def replace_output_def add_output_def
      checked_aggregate_bytes_def rs_validate_identifier_def Let_def
      split: if_splits sum.splits option.splits responses_output.splits)

lemma rs_emit_Ok [simp]: "rs_emit specs c \<noteq> (Err e, c')"
  by (simp add: rs_emit_def split: prod.split)

lemma rs_validate_usage_panic: "rs_validate_usage to_vec lim u \<noteq> Err Panic"
proof -
  have "try_for_each (\<lambda>(k, _). rs_validate_identifier lim k) kvs \<noteq> Err Panic" for kvs :: "(string \<times> json) list"
    by (rule try_for_each_no_panic) (auto simp: rs_validate_identifier_def split: if_splits)
  then show ?thesis
    by (simp add: rs_validate_usage_def rs_validate_string_map_def rs_validate_serialized_def and_then_eq_Err)
qed

lemma rs_apply_refused:
  assumes "rs_apply to_vec ev c = (Err e, c')"
  shows "c' = c \<and> e \<noteq> Panic"
proof (cases ev)
  case (Created i)
  with assms show ?thesis
    by (auto simp: rs_apply_def rs_encode_created_def rs_validate_identifier_def Let_def split: if_splits sum.splits)
next
  case (OutputTextDelta item_id delta)
  obtain x c1 where "rs_append_text item_id delta c = (x, c1)" by (cases "rs_append_text item_id delta c")
  with assms OutputTextDelta rs_append_refused(1) [of item_id delta c] show ?thesis
    by (cases x; auto simp: rs_apply_def rs_encode_text_delta_def rs_require_delta_allowed_def rs_require_created_def
        split: if_splits sum.splits )
next
  case (ReasoningDelta item_id delta)
  obtain x c1 where "rs_append_reasoning item_id delta c = (x, c1)" by (cases "rs_append_reasoning item_id delta c")
  with assms ReasoningDelta rs_append_refused(2) [of item_id delta c] show ?thesis
    by (cases x; auto simp: rs_apply_def rs_encode_reasoning_delta_def rs_require_delta_allowed_def rs_require_created_def
        split: if_splits sum.splits )
next
  case (ToolCallDelta item_id call_id name delta)
  obtain x c1 where "rs_append_tool item_id call_id name delta c = (x, c1)" by (cases "rs_append_tool item_id call_id name delta c")
  with assms ToolCallDelta rs_append_refused(3) [of item_id call_id name delta c] show ?thesis
    by (cases x; auto simp: rs_apply_def rs_encode_tool_delta_def rs_require_delta_allowed_def rs_require_created_def
        split: if_splits sum.splits )
next
  case (UsageEvent u)
  with assms rs_validate_usage_panic [of to_vec "rc_limits c" u] show ?thesis
    by (auto simp: rs_apply_def rs_encode_usage_def rs_require_created_def split: if_splits sum.splits)
next
  case Completed
  with assms show ?thesis
    by (auto simp: rs_apply_def rs_encode_completed_def rs_require_created_def ok_or_def Let_def
        split: if_splits sum.splits option.splits prod.splits)
next
  case (Failed e)
  with assms show ?thesis by (auto simp: rs_apply_def split: prod.splits)
qed

lemma rs_appended_frame:
  "rs_appended mk delta i is_new c c1 \<Longrightarrow> rc_terminal c1 = rc_terminal c \<and> rc_context_validated c1 = rc_context_validated c
   \<and> rc_context c1 = rc_context c \<and> rc_limits c1 = rc_limits c \<and> rc_usage c1 = rc_usage c"
  by (auto simp: rs_appended_def)

lemma rs_emit_frame:
  "rs_emit specs c = (Ok ws, c') \<Longrightarrow> rc_terminal c' = rc_terminal c \<and> rc_context_validated c' = rc_context_validated c"
  using rs_wires_state [of specs c] by (auto simp: rs_emit_def split: prod.splits)

lemma rs_apply_open:
  assumes "rs_apply to_vec ev c = (Ok ws, c')" "event_outcome ev = None"
  shows "rc_terminal c' = rc_terminal c \<and> rc_context_validated c' = rc_context_validated c"
proof (cases ev)
  case (Created i)
  with assms(1) show ?thesis
    by (auto simp: rs_apply_def rs_encode_created_def Let_def split: if_splits sum.splits dest: rs_emit_frame)
next
  case (UsageEvent u)
  with assms(1) show ?thesis by (auto simp: rs_apply_def rs_encode_usage_def split: sum.splits)
qed (use assms in \<open>auto simp: rs_apply_def event_outcome_def rs_encode_text_delta_def rs_encode_reasoning_delta_def
    rs_encode_tool_delta_def st_then_eq_Ok split: sum.splits
    dest!: rs_emit_frame rs_append_text_appended rs_append_reasoning_appended rs_append_tool_appended rs_appended_frame\<close>)

lemma rs_apply_read:
  assumes "rs_view c r" "rs_apply to_vec ev c = (Ok ws, c')" "event_outcome ev = None"
  shows "\<exists>r'. rs_reads ws r = Some r' \<and> rs_view c' r'"
proof (cases ev)
  case (UsageEvent u)
  with assms(1,2) have "ws = []" "rs_view c' r" by (auto simp: rs_apply_def rs_encode_usage_def split: sum.splits)
  then show ?thesis by simp
qed (use assms rs_created_read rs_text_delta_read rs_reasoning_delta_read rs_tool_delta_read in
    \<open>auto simp: rs_apply_def event_outcome_def\<close>)

lemma rs_view_open: "rs_view c r \<Longrightarrow> rr_next r = rc_sequence_number c \<and> (rr_phase r = RrStart \<or> rr_phase r = RrOpen)"
  by (auto simp: rs_view_def open_reader_def split: option.splits)

lemma rs_apply_close:
  assumes "rs_view c r" "rs_apply to_vec ev c = (Ok ws, c')" "event_outcome ev \<noteq> None"
  shows "ws \<noteq> [] \<and> rc_terminal c' \<and> (\<exists>r'. rs_reads ws r = Some r' \<and> (rr_phase r' = RrDone \<or> rr_phase r' = RrFailed))"
proof (cases ev)
  case Completed
  with rs_completed_read [OF assms(1)] assms(2) show ?thesis by (auto simp: rs_apply_def reads_final_def)
next
  case (Failed e)
  with rs_failed_read [of r c e] rs_view_open [OF assms(1)] assms(2) show ?thesis
    by (auto simp: rs_apply_def split: prod.splits)
qed (use assms(3) in \<open>simp_all add: event_outcome_def\<close>)

end
