(* ===== verification/Responses_Stream.thy ===== *)
theory Responses_Stream
  imports Responses_Facts Canonical_Request
begin

text \<open>
  Responses for clients of OpenAI Responses, \<open>crates/wokcore-server/src/data_plane/responses.rs\<close>: what
  a request may carry, the template that echoes its settings, and the codec of a stream as an
  instance of the locale \<open>client_codec\<close>.
\<close>

subsection \<open>The settings of a request\<close>

definition validate_extension ::
  "canonical_request \<Rightarrow> string \<Rightarrow> (json \<Rightarrow> bool) \<Rightarrow> unit codec_result" where
  "validate_extension req key valid =
     (case bt_get (cq_extensions req) key of
        None \<Rightarrow> Ok ()
      | Some v \<Rightarrow> if v = JNull \<or> valid v then Ok () else bad_request)"

definition is_object :: "json \<Rightarrow> bool" where
  "is_object v = (case v of JObject _ \<Rightarrow> True | _ \<Rightarrow> False)"

definition rs_validate_request :: "canonical_request \<Rightarrow> unit codec_result" where
  "rs_validate_request req =
     and_then (validate_extension req ''instructions'' (\<lambda>v. value_as_str v \<noteq> None)) (\<lambda>_.
     and_then (validate_extension req ''max_output_tokens''
        (\<lambda>v. case value_as_u64 v of None \<Rightarrow> False | Some limit \<Rightarrow> 0 < limit)) (\<lambda>_.
     and_then (validate_extension req ''metadata'' is_object) (\<lambda>_.
     and_then (validate_extension req ''parallel_tool_calls'' (\<lambda>v. value_as_bool v \<noteq> None)) (\<lambda>_.
     and_then (validate_extension req ''store'' (\<lambda>v. value_as_bool v \<noteq> None)) (\<lambda>_.
     and_then (validate_extension req ''temperature''
        (\<lambda>v. case value_as_f64 v of None \<Rightarrow> False | Some t \<Rightarrow> f64_between_zero_and f64_two t)) (\<lambda>_.
     and_then (validate_extension req ''text'' is_object) (\<lambda>_.
     and_then (validate_extension req ''tool_choice'' (\<lambda>v. value_as_str v \<noteq> None \<or> is_object v)) (\<lambda>_.
     and_then (validate_extension req ''top_p''
        (\<lambda>v. case value_as_f64 v of None \<Rightarrow> False | Some p \<Rightarrow> f64_between_zero_and f64_one p)) (\<lambda>_.
     and_then (validate_extension req ''truncation''
        (\<lambda>v. value_as_str v = Some ''auto'' \<or> value_as_str v = Some ''disabled'')) (\<lambda>_.
       validate_extension req ''user'' (\<lambda>v. value_as_str v \<noteq> None)))))))))))"

text \<open>\<open>serde_json::from_value\<close> at the type of the caller is the argument \<open>from_value\<close>.\<close>

definition extension :: "(json \<Rightarrow> 'a option) \<Rightarrow> canonical_request \<Rightarrow> string \<Rightarrow> 'a option codec_result" where
  "extension from_value req key =
     (case bt_get (cq_extensions req) key of
        None \<Rightarrow> Ok None
      | Some v \<Rightarrow>
          if v = JNull then Ok None
          else (case from_value v of None \<Rightarrow> bad_request | Some x \<Rightarrow> Ok (Some x)))"

definition extension_value :: "canonical_request \<Rightarrow> string \<Rightarrow> json \<Rightarrow> json" where
  "extension_value req key fallback = (case bt_get (cq_extensions req) key of None \<Rightarrow> fallback | Some v \<Rightarrow> v)"

fun incomplete_details :: "upstream_finish_reason \<Rightarrow> json option" where
  "incomplete_details UpLength = Some (json_object [(''reason'', JString ''max_output_tokens'')])"
| "incomplete_details UpModelContextWindowExceeded = Some (json_object [(''reason'', JString ''max_output_tokens'')])"
| "incomplete_details UpContentFilter = Some (json_object [(''reason'', JString ''content_filter'')])"
| "incomplete_details UpStop = None"
| "incomplete_details UpToolCalls = None"
| "incomplete_details UpFunctionCall = None"
| "incomplete_details UpPauseTurn = None"
| "incomplete_details UpRefusal = None"

definition reasoning_value :: "canonical_request \<Rightarrow> string option \<Rightarrow> json" where
  "reasoning_value req public_reasoning_effort =
     (case cq_reasoning req of
        None \<Rightarrow> json_object [(''effort'', JNull), (''summary'', JNull)]
      | Some reasoning \<Rightarrow>
          JObject (bt_or_insert ''summary'' JNull
            (bt_insert ''effort'' (json_option (map_option JString public_reasoning_effort))
              (bt_collect (rso_extensions reasoning)))))"

definition tool_value :: "tool_definition \<Rightarrow> json" where
  "tool_value tool =
     JObject (bt_insert ''parameters'' (td_input_schema tool)
       (bt_insert ''description'' (json_option (map_option JString (td_description tool)))
         (bt_insert ''name'' (JString (td_name tool))
           (bt_insert ''type'' (JString ''function'') (bt_collect (td_extensions tool))))))"

definition response_template_from_parts ::
  "canonical_request \<Rightarrow> string option \<Rightarrow> u64 \<Rightarrow> upstream_finish_reason \<Rightarrow> responses_template codec_result" where
  "response_template_from_parts req public_reasoning_effort created_at finish_reason =
     and_then (extension value_as_u64 req ''max_output_tokens'') (\<lambda>max_output_tokens.
     and_then (extension json_as_object req ''metadata'') (\<lambda>metadata.
     and_then (extension value_as_bool req ''parallel_tool_calls'') (\<lambda>parallel_tool_calls.
     and_then (extension value_as_bool req ''store'') (\<lambda>store.
     and_then (extension value_as_f64 req ''temperature'') (\<lambda>temperature.
     and_then (extension value_as_f64 req ''top_p'') (\<lambda>top_p.
     and_then (extension value_as_str req ''user'') (\<lambda>user.
       Ok \<lparr>rt_completed_at = (if incomplete_details finish_reason = None then Some created_at else None),
           rt_error = None,
           rt_incomplete_details = incomplete_details finish_reason,
           rt_instructions = bt_get (cq_extensions req) ''instructions'',
           rt_max_output_tokens = max_output_tokens,
           rt_metadata = (case metadata of None \<Rightarrow> [] | Some m \<Rightarrow> m),
           rt_parallel_tool_calls = (case parallel_tool_calls of None \<Rightarrow> False | Some b \<Rightarrow> b),
           rt_previous_response_id = cq_thread_key req,
           rt_reasoning = reasoning_value req public_reasoning_effort,
           rt_store = (case store of None \<Rightarrow> False | Some b \<Rightarrow> b),
           rt_temperature = temperature,
           rt_text = extension_value req ''text''
             (json_object [(''format'', json_object [(''type'', JString ''text'')]), (''verbosity'', JString ''medium'')]),
           rt_tool_choice = extension_value req ''tool_choice'' (JString ''auto''),
           rt_tools = map tool_value (cq_tools req),
           rt_top_p = top_p,
           rt_truncation = extension_value req ''truncation'' (JString ''disabled''),
           rt_user = user\<rparr>)))))))"

definition responses_context ::
  "canonical_request \<Rightarrow> string option \<Rightarrow> string \<Rightarrow> u64 \<Rightarrow> upstream_finish_reason \<Rightarrow> responses_encode_context codec_result" where
  "responses_context req effort public_model created_at finish_reason =
     and_then (response_template_from_parts req effort created_at finish_reason) (\<lambda>t.
       Ok \<lparr>rec_model = public_model, rec_created_at = created_at, rec_response = t\<rparr>)"

definition responses_stream_codec ::
  "canonical_request \<Rightarrow> string option \<Rightarrow> string \<Rightarrow> upstream_execution_stream \<Rightarrow> responses_codec codec_result" where
  "responses_stream_codec req effort public_model st =
     and_then (responses_context req effort public_model (ux_created_at st) (ux_finish_reason st)) (\<lambda>ctx.
       Ok (responses_codec_new ctx))"

subsection \<open>An accepted request has a template\<close>

text \<open>A value that passes its check can be read at the type that the template needs.\<close>

lemma extension_validated:
  assumes "validate_extension req key valid = Ok ()" "\<And>v. valid v \<Longrightarrow> from_value v \<noteq> None"
  shows "\<exists>x. extension from_value req key = Ok x"
  using assms by (fastforce simp: validate_extension_def extension_def split: option.splits if_splits)

lemma template_validated:
  assumes "rs_validate_request req = Ok ()"
  shows "\<exists>t. response_template_from_parts req effort created_at finish_reason = Ok t"
proof -
  have valid:
    "validate_extension req ''max_output_tokens'' (\<lambda>v. case value_as_u64 v of None \<Rightarrow> False | Some limit \<Rightarrow> 0 < limit) = Ok ()"
    "validate_extension req ''metadata'' is_object = Ok ()"
    "validate_extension req ''parallel_tool_calls'' (\<lambda>v. value_as_bool v \<noteq> None) = Ok ()"
    "validate_extension req ''store'' (\<lambda>v. value_as_bool v \<noteq> None) = Ok ()"
    "validate_extension req ''temperature''
       (\<lambda>v. case value_as_f64 v of None \<Rightarrow> False | Some t \<Rightarrow> f64_between_zero_and f64_two t) = Ok ()"
    "validate_extension req ''top_p''
       (\<lambda>v. case value_as_f64 v of None \<Rightarrow> False | Some p \<Rightarrow> f64_between_zero_and f64_one p) = Ok ()"
    "validate_extension req ''user'' (\<lambda>v. value_as_str v \<noteq> None) = Ok ()"
    using assms unfolding rs_validate_request_def and_then_eq_Ok by simp_all
  have object: "is_object v \<Longrightarrow> json_as_object v \<noteq> None" for v by (cases v) (simp_all add: is_object_def)
  from extension_validated [OF valid(1), of value_as_u64] extension_validated [OF valid(2), of json_as_object]
    extension_validated [OF valid(3), of value_as_bool] extension_validated [OF valid(4), of value_as_bool]
    extension_validated [OF valid(5), of value_as_f64] extension_validated [OF valid(6), of value_as_f64]
    extension_validated [OF valid(7), of value_as_str] object
  show ?thesis
    by (fastforce simp: response_template_from_parts_def split: option.splits)
qed

subsection \<open>The Responses codec keeps the contract\<close>

definition rs_frames :: "(json \<Rightarrow> string) \<Rightarrow> responses_wire list \<Rightarrow> string" where
  "rs_frames to_vec ws = concat (map (\<lambda>(kind, v). encode_sse (Some kind) (to_vec v)) ws)"

definition rs_out :: "(json \<Rightarrow> string) \<Rightarrow> string \<Rightarrow> rs_reader \<Rightarrow> bool" where
  "rs_out to_vec out r = (\<exists>ws. out = rs_frames to_vec ws \<and> rs_reads ws rs_reader_new = Some r)"

definition rs_good :: "(json \<Rightarrow> string) \<Rightarrow> string \<Rightarrow> responses_codec \<Rightarrow> bool" where
  "rs_good to_vec out c = (rs_live to_vec c \<and> (\<exists>r. rs_out to_vec out r \<and> rs_view c r))"

definition rs_closed :: "(json \<Rightarrow> string) \<Rightarrow> string \<Rightarrow> bool" where
  "rs_closed to_vec out = (\<exists>r. rs_out to_vec out r \<and> (rr_phase r = RrDone \<or> rr_phase r = RrFailed))"

lemma rs_frames_append: "rs_frames to_vec (ws @ vs) = rs_frames to_vec ws @ rs_frames to_vec vs"
  by (simp add: rs_frames_def)

lemma rs_frames_nonempty: "ws \<noteq> [] \<Longrightarrow> rs_frames to_vec ws \<noteq> []"
  by (cases ws) (auto simp: rs_frames_def encode_sse_def)

lemma rs_out_append:
  assumes "rs_out to_vec out r" "rs_reads ws r = Some r'"
  shows "rs_out to_vec (out @ rs_frames to_vec ws) r'"
proof -
  obtain vs where "out = rs_frames to_vec vs" "rs_reads vs rs_reader_new = Some r" using assms(1) by (auto simp: rs_out_def)
  then show ?thesis
    unfolding rs_out_def using assms(2) by (intro exI [of _ "vs @ ws"]) (simp add: rs_frames_append rs_reads_append)
qed

lemma rs_encode_event_live:
  assumes "rs_live to_vec c"
  shows "rs_encode_event to_vec ev c =
    st_then (rs_apply to_vec ev (c\<lparr>rc_context_validated := True\<rparr>)) (\<lambda>ws c'. (Ok (rs_frames to_vec ws), c'))"
  by (simp add: rs_encode_event_def rs_encode_live [OF assms] rs_frames_def)

lemma rs_good_step:
  assumes "rs_good to_vec out c" "rs_encode_event to_vec ev c = (Ok b, c')"
  obtains r ws where "rs_out to_vec out r" "rs_view (c\<lparr>rc_context_validated := True\<rparr>) r" "b = rs_frames to_vec ws"
    "rs_apply to_vec ev (c\<lparr>rc_context_validated := True\<rparr>) = (Ok ws, c')"
  using assms by (auto simp: rs_good_def rs_encode_event_live st_then_eq_Ok)

lemma rs_good_refused:
  assumes "rs_good to_vec out c" "rs_encode_event to_vec ev c = (Err e, c')"
  shows "rs_good to_vec out c' \<and> e \<noteq> Panic"
proof -
  obtain x c1 where x: "rs_apply to_vec ev (c\<lparr>rc_context_validated := True\<rparr>) = (x, c1)"
    by (cases "rs_apply to_vec ev (c\<lparr>rc_context_validated := True\<rparr>)")
  with assms have "x = Err e" "c1 = c'" by (cases x; auto simp: rs_good_def rs_encode_event_live)+
  with rs_apply_refused [of to_vec ev "c\<lparr>rc_context_validated := True\<rparr>" e c'] x assms(1) show ?thesis
    by (auto simp: rs_good_def rs_live_def)
qed

lemma rs_good_start:
  assumes "rs_validate_context to_vec lim ctx = Ok ()"
  shows "rs_good to_vec [] (responses_with_limits ctx lim)"
proof -
  have "rs_out to_vec [] rs_reader_new" unfolding rs_out_def by (intro exI [of _ "[]"]) (simp add: rs_frames_def)
  then show ?thesis
    using assms rs_view_start by (auto simp: rs_good_def rs_live_def responses_with_limits_def)
qed

interpretation responses_client: client_codec "rs_encode_event to_vec" "rs_good to_vec" "rs_good to_vec" "rs_closed to_vec"
  for to_vec
proof (unfold_locales, goal_cases)
  case (1 out c ev)
  then show ?case using rs_good_refused [of to_vec out c ev] by (metis prod.collapse)
next
  case (2 out c ev e c')
  then show ?case using rs_good_refused by blast
next
  case (3 out c ev b c')
  from 3(1,2) obtain r ws where r: "rs_out to_vec out r" "rs_view (c\<lparr>rc_context_validated := True\<rparr>) r" "b = rs_frames to_vec ws"
    "rs_apply to_vec ev (c\<lparr>rc_context_validated := True\<rparr>) = (Ok ws, c')" by (rule rs_good_step)
  from rs_apply_read [OF r(2,4) 3(3)] rs_apply_open [OF r(4) 3(3)] rs_out_append [OF r(1)] r(3) 3(1) show ?case
    by (auto simp: rs_good_def rs_live_def)
next
  case (4 out c ev b c')
  from 4(1,2) obtain r ws where r: "rs_out to_vec out r" "rs_view (c\<lparr>rc_context_validated := True\<rparr>) r" "b = rs_frames to_vec ws"
    "rs_apply to_vec ev (c\<lparr>rc_context_validated := True\<rparr>) = (Ok ws, c')" by (rule rs_good_step)
  from rs_apply_close [OF r(2,4) 4(3)] rs_out_append [OF r(1)] rs_frames_nonempty r(3) show ?case
    by (auto simp: rs_closed_def)
next
  case (5 out c ev b c' ev')
  from 5(1,2) obtain r ws where r: "rs_view (c\<lparr>rc_context_validated := True\<rparr>) r"
    "rs_apply to_vec ev (c\<lparr>rc_context_validated := True\<rparr>) = (Ok ws, c')" by (rule rs_good_step)
  from rs_apply_close [OF r 5(3)] show ?case by (simp add: rs_encode_event_def rs_encode_event_values_def)
next
  case (6 out c)
  then show ?case .
next
  case (7 out c error)
  then obtain r where r: "rs_live to_vec c" "rs_out to_vec out r" "rs_view (c\<lparr>rc_context_validated := True\<rparr>) r"
    by (auto simp: rs_good_def)
  obtain ws c' where ws: "rs_apply to_vec (Failed error) (c\<lparr>rc_context_validated := True\<rparr>) = (Ok ws, c')"
    by (cases "rs_encode_failed error (c\<lparr>rc_context_validated := True\<rparr>)") (auto simp: rs_apply_def)
  from rs_apply_close [OF r(3) ws] rs_out_append [OF r(2)] rs_frames_nonempty r(1) ws show ?case
    by (auto simp: rs_encode_event_live rs_closed_def event_outcome_def)
qed

subsection \<open>The events of a complete response\<close>

text \<open>The reader has finished with response \<open>v\<close>, whose output is what it has joined.\<close>

definition read_response :: "rs_reader \<Rightarrow> json \<Rightarrow> bool" where
  "read_response r v =
     (rr_phase r = RrDone \<and> rr_response r = v
      \<and> json_get ''output'' v = Some (JArray (map (\<lambda>x. responses_output_value (snd x)) (rr_items r))))"

lemma rs_loop_terminal:
  "rc_terminal c \<Longrightarrow> rs_response_loop to_vec evs c resp = Ok v \<Longrightarrow> evs = [] \<and> resp = Some v"
  by (cases evs) (auto simp: rs_encode_event_values_def ok_or_def split: option.splits)

lemma rs_completed_response:
  assumes "rs_view c r" "rs_encode_completed c = (Ok ws, c')"
  shows "\<exists>r' v. rs_reads ws r = Some r' \<and> last_response Completed ws resp = Some v \<and> read_response r' v"
proof -
  from rs_completed_read [OF assms] obtain r' where r': "ws \<noteq> []" "rs_reads ws r = Some r'" "reads_final c r'"
    "json_get ''response'' (snd (last ws)) = Some (rr_response r')" by blast
  have "map responses_output_value (rc_output c) = map (\<lambda>x. responses_output_value (snd x)) (rr_items r')"
    using r'(3) by (auto simp: reads_final_def simp flip: map_map [unfolded comp_def])
  then show ?thesis
    using r' by (auto simp: last_response_def read_response_def reads_final_def)
qed

lemma rs_loop_stream:
  assumes "rs_response_loop to_vec evs c resp = Ok v" "\<not> rc_terminal c" "rs_view c r" "\<forall>ev \<in> set evs. \<forall>e. ev \<noteq> Failed e"
  shows "ends evs \<and> (\<exists>ws c' r'. feed (rs_encode_event to_vec) evs c = (Ok (rs_frames to_vec ws), c')
    \<and> rs_reads ws r = Some r' \<and> read_response r' v)"
  using assms
proof (induction evs arbitrary: c resp r)
  case Nil
  then show ?case by simp
next
  case (Cons ev evs)
  obtain ws c1 where ws: "rs_encode_event_values to_vec ev c = (Ok ws, c1)"
    "rs_response_loop to_vec evs c1 (last_response ev ws resp) = Ok v"
    using Cons.prems(1) by (auto split: prod.splits sum.splits)
  have enc: "rs_encode_event to_vec ev c = (Ok (rs_frames to_vec ws), c1)"
    by (simp add: rs_encode_event_def ws(1) rs_frames_def)
  let ?c = "c\<lparr>rc_context_validated := True\<rparr>"
  have view: "rs_view ?c r" using Cons.prems(3) by simp
  have ap: "rs_apply to_vec ev ?c = (Ok ws, c1)"
    using ws(1) rs_encode_live [OF rs_encode_accepted [OF ws(1)]] by simp
  show ?case
  proof (cases "event_outcome ev")
    case None
    from rs_apply_read [OF view ap None] obtain r1 where r1: "rs_reads ws r = Some r1" "rs_view c1 r1" by blast
    have "\<not> rc_terminal c1" using rs_apply_open [OF ap None] Cons.prems(2) by simp
    from Cons.IH [OF ws(2) this r1(2)] Cons.prems(4) obtain vs c' r' where
      IH: "ends evs" "feed (rs_encode_event to_vec) evs c1 = (Ok (rs_frames to_vec vs), c')"
        "rs_reads vs r1 = Some r'" "read_response r' v" by auto
    have "feed (rs_encode_event to_vec) (ev # evs) c = (Ok (rs_frames to_vec (ws @ vs)), c')"
      by (simp add: enc IH(2) rs_frames_append)
    moreover have "rs_reads (ws @ vs) r = Some r'" using r1(1) IH(3) by (simp add: rs_reads_append)
    moreover have "ends (ev # evs)" using IH(1) by (auto simp: ends_def)
    ultimately show ?thesis using IH(4) by blast
  next
    case (Some outcome)
    then have ev: "ev = Completed" using Cons.prems(4) by (cases ev) (auto simp: event_outcome_def)
    have "rc_terminal c1" using rs_apply_close [OF view ap] Some by simp
    from rs_loop_terminal [OF this ws(2)] have fin: "evs = []" "last_response ev ws resp = Some v" by auto
    from rs_completed_response [OF view, of ws c1 resp] ap fin(2) ev obtain r' where
      "rs_reads ws r = Some r'" "read_response r' v" by (auto simp: rs_apply_def)
    moreover have "feed (rs_encode_event to_vec) (ev # evs) c = (Ok (rs_frames to_vec ws), c1)" by (simp add: fin(1) enc)
    ultimately show ?thesis using Some fin(1) by (auto simp: ends_def)
  qed
qed

lemma rs_loop_validated:
  "rs_response_loop to_vec (ev # evs) (responses_codec_new ctx) resp = Ok v \<Longrightarrow>
   rs_validate_context to_vec responses_limits_default ctx = Ok ()"
  by (auto simp: rs_encode_event_values_def rs_validate_context_once_def responses_codec_new_def responses_with_limits_def
      st_then_def split: prod.splits sum.splits if_splits)

subsection \<open>Properties\<close>

lemma responses_codec_new_start [simp]:
  "rc_context (responses_codec_new ctx) = ctx" "\<not> rc_terminal (responses_codec_new ctx)"
  "rs_view (responses_codec_new ctx) rs_reader_new"
  by (simp_all add: responses_codec_new_def rs_view_start) (simp_all add: responses_with_limits_def)

lemma responses_stream_good:
  assumes "responses_stream_codec req effort public_model st = Ok c"
    and "rs_validate_context to_vec responses_limits_default (rc_context c) = Ok ()"
  shows "rs_good to_vec [] c"
proof -
  obtain ctx where c: "c = responses_codec_new ctx" using assms(1) by (auto simp: responses_stream_codec_def)
  with rs_good_start [of to_vec responses_limits_default ctx] assms(2) show ?thesis
    by (simp add: responses_codec_new_def [symmetric])
qed

text \<open>
  C12. A streamed response for a client of OpenAI Responses is consistent in itself, and ends. Take a
  stream whose codec accepts its context. Whatever the upstream delivers and however the polls interleave
  with it, the stream neither panics nor spins, and a client finds events numbered from one without a
  gap: \<open>response.created\<close>, every output item announced with the next index before its parts and deltas,
  every delta for an item that is open, every text, part, argument list and item that is called done
  equal to the joined deltas, and a final response made of these items; or an \<open>error\<close> event as the
  last one. Once the sender is gone, at most two polls more than there are queued items finish the stream.
\<close>

theorem responses_client_stream_well_formed:
  assumes "responses_stream_codec req effort public_model st = Ok c"
    and "rs_validate_context to_vec responses_limits_default (rc_context c) = Ok ()"
    and "run_client (rs_encode_event to_vec) ins (stream_start c first) = (ps, s)"
  shows "PollPanic \<notin> set ps \<and> PollDiverges \<notin> set ps
    \<and> (\<exists>ws r. sent ps = rs_frames to_vec ws \<and> rs_reads ws rs_reader_new = Some r
         \<and> (cs_finished s \<and> CancelRequest \<notin> set ins \<longrightarrow> rr_phase r = RrDone \<or> rr_phase r = RrFailed))
    \<and> (cs_finished s \<longrightarrow> (\<forall>more. sent (fst (run_client (rs_encode_event to_vec) more s)) = []))
    \<and> (CloseSender \<in> set ins \<longrightarrow>
         cs_finished (snd (run_client (rs_encode_event to_vec) (replicate (length (cs_queue s) + 2) PollOnce) s)))"
proof -
  note inv = responses_client.run_client_inv [OF responses_client.run_inv_start [OF responses_stream_good [OF assms(1,2)]] assms(3)]
  have "\<exists>ws r. sent ps = rs_frames to_vec ws \<and> rs_reads ws rs_reader_new = Some r
      \<and> (cs_finished s \<and> CancelRequest \<notin> set ins \<longrightarrow> rr_phase r = RrDone \<or> rr_phase r = RrFailed)"
    using inv
    by (fastforce simp: responses_client.run_inv_def responses_client.open_stream_def rs_good_def rs_closed_def rs_out_def
        split: if_splits)
  moreover have "cs_finished (snd (run_client (rs_encode_event to_vec) (replicate (length (cs_queue s) + 2) PollOnce) s))"
    if "CloseSender \<in> set ins"
  proof (rule responses_client.polls_finish)
    show "responses_client.run_inv to_vec (CancelRequest \<in> set ins) ([] @ sent ps) s" using inv by simp
    show "cs_closed s" using run_client_closed [OF assms(3)] that by blast
    show "responses_client.pending s < length (cs_queue s) + 2" by (simp add: responses_client.pending_def)
  qed
  ultimately show ?thesis using inv run_finished_silent by blast
qed

definition rs_demo_request :: canonical_request where
  "rs_demo_request =
     \<lparr>cq_request_id = ''q'', cq_model = ''m'', cq_thread_key = None, cq_input = [InputText ''hello''],
      cq_tools = [\<lparr>td_name = ''f'', td_description = None, td_input_schema = JObject [], td_extensions = []\<rparr>],
      cq_stream = True, cq_reasoning = Some \<lparr>rso_effort = Some ''high'', rso_extensions = []\<rparr>,
      cq_extensions = [(''max_output_tokens'', JNumber (PosInt 9)), (''temperature'', JNumber (PosInt 1))]\<rparr>"

lemmas rs_context_eval = responses_stream_codec_def responses_context_def response_template_from_parts_def extension_def
  extension_value_def value_as_u64_def value_as_f64_def f64_of_small [simplified] rs_demo_request_def stream_channel_def responses_codec_new_def
  responses_with_limits_def bt_get_def

definition rs_demo_template :: responses_template where
  "rs_demo_template =
     \<lparr>rt_completed_at = Some 7, rt_error = None, rt_incomplete_details = None, rt_instructions = None,
      rt_max_output_tokens = Some 9, rt_metadata = [], rt_parallel_tool_calls = False, rt_previous_response_id = None,
      rt_reasoning = reasoning_value rs_demo_request (Some ''high''), rt_store = False, rt_temperature = Some f64_one,
      rt_text = json_object [(''format'', json_object [(''type'', JString ''text'')]), (''verbosity'', JString ''medium'')],
      rt_tool_choice = JString ''auto'', rt_tools = map tool_value (cq_tools rs_demo_request), rt_top_p = None,
      rt_truncation = JString ''disabled'', rt_user = None\<rparr>"

definition rs_demo_context :: responses_encode_context where
  "rs_demo_context = \<lparr>rec_model = ''m'', rec_created_at = 7, rec_response = rs_demo_template\<rparr>"

lemma rs_demo_codec:
  "responses_stream_codec rs_demo_request (Some ''high'') ''m'' (stream_channel 7) = Ok (responses_codec_new rs_demo_context)"
  by (simp add: rs_context_eval rs_demo_template_def rs_demo_context_def)

lemma rs_demo_valid: "rs_validate_context (\<lambda>_. ''{}'') responses_limits_default rs_demo_context = Ok ()"
  by (simp add: rs_validate_context_def rs_demo_context_def rs_demo_template_def rs_validate_identifier_def
      rs_validate_string_map_def rs_validate_serialized_def responses_limits_default_def try_for_each_def rs_demo_request_def)

lemmas rs_stream_eval = poll_next_def handle_item_def stream_encode_event_def rs_encode_event_def rs_encode_event_values_def
  rs_validate_context_once_def rs_encode_created_def rs_emit_def rs_wire_def rs_encode_failed_def rs_validate_identifier_def
  responses_limits_default_def emit_protocol_error_def emit_error_def event_outcome_def stream_finish_def observe_bytes_def
  encode_sse_def Let_def

lemma rs_demo_run:
  "cs_finished (snd (run_client (rs_encode_event (\<lambda>_. ''{}'')) [PollOnce, CloseSender, PollOnce]
     (stream_start (responses_codec_new rs_demo_context) (Created ''x''))))"
  using rs_demo_valid
  by (simp add: stream_start_def responses_codec_new_def responses_with_limits_def rs_stream_eval)

theorem responses_client_stream_well_formed_witness:
  "\<exists>ws r. sent (fst (run_client (rs_encode_event (\<lambda>_. ''{}'')) [PollOnce, CloseSender, PollOnce]
       (stream_start (responses_codec_new rs_demo_context) (Created ''x'')))) = rs_frames (\<lambda>_. ''{}'') ws
     \<and> rs_reads ws rs_reader_new = Some r \<and> (rr_phase r = RrDone \<or> rr_phase r = RrFailed)"
proof -
  have v: "rs_validate_context (\<lambda>_. ''{}'') responses_limits_default (rc_context (responses_codec_new rs_demo_context)) = Ok ()"
    using rs_demo_valid by simp
  from responses_client_stream_well_formed [OF rs_demo_codec v prod.collapse [symmetric],
      of "[PollOnce, CloseSender, PollOnce]" "Created ''x''"] rs_demo_run
  show ?thesis by auto
qed

text \<open>
  C4. A streamed response for a client of OpenAI Responses is the response. Let the upstream send the
  events of a response that the gateway would also return in one piece, with arrivals and polls
  interleaved in any way, until enough polls have followed the last event. The stream has then finished,
  and a client that checks the numbering and the life of every item and joins the deltas ends with
  exactly that response, whose output is made of the items the client has joined.
\<close>

theorem streamed_responses_response_is_the_response:
  assumes "responses_stream_codec req effort public_model st = Ok c"
    and "rs_encode_response to_vec (rc_context c) (first # events) = Ok v"
    and "\<forall>ev \<in> set (first # events). \<forall>e. ev \<noteq> Failed e"
    and "\<forall>i \<in> set ins. i = PollOnce \<or> (\<exists>ev. i = Arrive (ItemEvent ev))" "concat (map arrived ins) = events"
    and "length events < n"
    and "run_client (rs_encode_event to_vec) (ins @ replicate n PollOnce) (stream_start c first) = (ps, s)"
  shows "cs_finished s
    \<and> (\<exists>ws r. sent ps = rs_frames to_vec ws \<and> rs_reads ws rs_reader_new = Some r \<and> read_response r v)"
proof -
  obtain ctx where c: "c = responses_codec_new ctx" using assms(1) by (auto simp: responses_stream_codec_def)
  then have ctx: "rc_context c = ctx" "\<not> rc_terminal c" "rs_view c rs_reader_new" by simp_all
  have loop: "rs_response_loop to_vec (first # events) c None = Ok v"
    using assms(2) ctx(1) c by (simp add: rs_encode_response_def)
  have valid: "rs_validate_context to_vec responses_limits_default (rc_context c) = Ok ()"
    using rs_loop_validated [OF loop [unfolded c]] ctx(1) by simp
  from rs_loop_stream [OF loop ctx(2,3) assms(3)] obtain ws c' r where
    ws: "ends (first # events)" "feed (rs_encode_event to_vec) (first # events) c = (Ok (rs_frames to_vec ws), c')"
      "rs_reads ws rs_reader_new = Some r" "read_response r v" by blast
  from responses_client.run_client_complete [OF responses_stream_good [OF assms(1) valid] ws(2,1) assms(4-7)] ws
  show ?thesis by blast
qed

definition rs_demo_events :: "canonical_event list" where
  "rs_demo_events =
     [ReasoningDelta ''r'' ''hm'', OutputTextDelta ''t'' ''hi'', ToolCallDelta ''k'' ''c'' ''f'' ''{}'',
      OutputTextDelta ''t'' ''!'', UsageEvent usage_zero, Completed]"

definition rs_demo_arrivals :: "stream_input list" where
  "rs_demo_arrivals = PollOnce # concat (map (\<lambda>ev. [Arrive (ItemEvent ev), PollOnce]) rs_demo_events)"

lemmas rs_eval = rs_encode_event_values_def rs_validate_context_once_def rs_encode_created_def rs_encode_text_delta_def
  rs_encode_reasoning_delta_def rs_encode_tool_delta_def rs_encode_usage_def rs_encode_completed_def rs_append_text_def
  rs_append_reasoning_def rs_append_tool_def add_output_def replace_output_def checked_aggregate_bytes_def find_output_def
  is_call_def rs_require_delta_allowed_def rs_require_created_def rs_validate_identifier_def rs_validate_usage_def
  rs_validate_string_map_def rs_validate_serialized_def responses_limits_default_def rs_emit_def rs_wire_def usize_max_def
  try_for_each_def last_response_def ok_or_def Let_def

lemma rs_demo_response:
  "\<exists>v. rs_encode_response (\<lambda>_. ''{}'') rs_demo_context (Created ''x'' # rs_demo_events) = Ok v"
  using rs_demo_valid
  by (simp add: rs_demo_events_def rs_encode_response_def responses_codec_new_def responses_with_limits_def
      rs_demo_context_def rs_demo_template_def usage_zero_def item_done_def rs_wire_event_def rs_eval)

theorem streamed_responses_response_is_the_response_witness:
  "\<exists>v ws r. rs_encode_response (\<lambda>_. ''{}'') rs_demo_context (Created ''x'' # rs_demo_events) = Ok v
     \<and> sent (fst (run_client (rs_encode_event (\<lambda>_. ''{}'')) (rs_demo_arrivals @ replicate 7 PollOnce)
         (stream_start (responses_codec_new rs_demo_context) (Created ''x'')))) = rs_frames (\<lambda>_. ''{}'') ws
     \<and> rs_reads ws rs_reader_new = Some r \<and> read_response r v"
proof -
  obtain v where v: "rs_encode_response (\<lambda>_. ''{}'') rs_demo_context (Created ''x'' # rs_demo_events) = Ok v"
    using rs_demo_response by blast
  then have v': "rs_encode_response (\<lambda>_. ''{}'') (rc_context (responses_codec_new rs_demo_context))
      (Created ''x'' # rs_demo_events) = Ok v" by simp
  have ins: "\<forall>ev \<in> set (Created ''x'' # rs_demo_events). \<forall>e. ev \<noteq> Failed e"
    "\<forall>i \<in> set rs_demo_arrivals. i = PollOnce \<or> (\<exists>ev. i = Arrive (ItemEvent ev))"
    "concat (map arrived rs_demo_arrivals) = rs_demo_events" "length rs_demo_events < 7"
    by (simp_all add: rs_demo_arrivals_def rs_demo_events_def)
  from streamed_responses_response_is_the_response [OF rs_demo_codec v' ins prod.collapse [symmetric]] v
  show ?thesis by blast
qed

end
