(* ===== verification/Data_Handlers.thy ===== *)
theory Data_Handlers
  imports Data_Plane_Facts Api_Security Chat_Stream Anthropic_Stream Responses_Stream
begin

text \<open>
  The handlers of the data plane, \<open>routes.rs\<close>, \<open>response.rs\<close> and the entry of \<open>stream.rs\<close> in
  \<open>crates/wokcore-server/src/data_plane\<close>: they decode a request, execute it and encode the outcome in
  the protocol of the client, as one document or as an event stream. The inbound codecs are the
  argument \<open>decode\<close>, \<open>header_ok\<close> is \<open>HeaderValue::from_str\<close>, and \<open>to_vec\<close> and \<open>from_str\<close> are
  \<open>serde_json\<close>.
\<close>

subsection \<open>Responses (\<open>response.rs\<close>)\<close>

definition http_status :: "gateway_error \<Rightarrow> nat" where
  "http_status e =
     (case ge_kind e of
        EkInvalidRequest \<Rightarrow> 400
      | EkModelNotFound \<Rightarrow> 404
      | EkUnsupportedCapability \<Rightarrow> 422
      | EkNoExecutor \<Rightarrow> 501
      | EkRateLimited _ \<Rightarrow> 429
      | EkInternalError \<Rightarrow> 500
      | EkUpstreamAuth \<Rightarrow> 502
      | EkUpstreamError _ \<Rightarrow> 502
      | EkUpstreamUnavailable \<Rightarrow> 502)"

datatype client_stream_codec =
    ResponsesClient responses_codec
  | ChatClient chat_codec
  | AnthropicClient anthropic_codec

datatype data_body =
    ErrorDocument json
  | JsonDocument string
  | EventStream "client_stream_codec canonical_sse_stream"

record data_response =
  dr_status :: nat
  dr_body :: data_body
  dr_www_authenticate :: bool
  dr_upstream_request_id :: "string option"
  dr_observation :: "request_observation_context option"

definition error_document :: "string \<Rightarrow> string \<Rightarrow> string \<Rightarrow> client_protocol \<Rightarrow> json" where
  "error_document code message request_id protocol =
     (if is_anthropic protocol
      then json_object [(''type'', JString ''error''),
        (''error'', json_object [(''type'', JString code), (''message'', JString message)]),
        (''request_id'', JString request_id)]
      else json_object [(''error'', json_object
        [(''type'', JString ''gateway_error''), (''code'', JString code), (''message'', JString message),
         (''request_id'', JString request_id)])])"

definition public_error :: "nat \<Rightarrow> string \<Rightarrow> string \<Rightarrow> string \<Rightarrow> client_protocol \<Rightarrow> data_response" where
  "public_error http code message request_id protocol =
     \<lparr>dr_status = http, dr_body = ErrorDocument (error_document code message request_id protocol),
      dr_www_authenticate = (http = 401), dr_upstream_request_id = None, dr_observation = None\<rparr>"

definition attach_upstream_request_id ::
  "(string \<Rightarrow> bool) \<Rightarrow> data_response \<Rightarrow> string option \<Rightarrow> 'e failure + data_response" where
  "attach_upstream_request_id header_ok resp request_id =
     (case request_id of
        None \<Rightarrow> Ok resp
      | Some i \<Rightarrow> if header_ok i then Ok (resp\<lparr>dr_upstream_request_id := Some i\<rparr>) else Err Panic)"

definition gateway_error_response ::
  "(string \<Rightarrow> bool) \<Rightarrow> gateway_error \<Rightarrow> string \<Rightarrow> client_protocol \<Rightarrow> string option \<Rightarrow> 'e failure + data_response" where
  "gateway_error_response header_ok e request_id protocol upstream_request_id =
     attach_upstream_request_id header_ok
       (public_error (http_status e) (ge_code e) (public_message e) request_id protocol) upstream_request_id"

text \<open>\<open>BoundedJsonWriter\<close>: the bytes written so far.\<close>

record bounded_json_writer =
  bw_bytes :: string
  bw_limit :: nat

definition writer_write :: "string \<Rightarrow> bounded_json_writer \<Rightarrow> unit + bounded_json_writer" where
  "writer_write bytes w =
     (let n = length (bw_bytes w) + length bytes
      in if usize_max < n then Err () else if bw_limit w < n then Err () else Ok (w\<lparr>bw_bytes := bw_bytes w @ bytes\<rparr>))"

definition bounded_json_response ::
  "(json \<Rightarrow> string) \<Rightarrow> (string \<Rightarrow> bool) \<Rightarrow> json \<Rightarrow> string option \<Rightarrow> data_response codec_result" where
  "bounded_json_response to_vec header_ok v upstream_request_id =
     (case writer_write (to_vec v) \<lparr>bw_bytes = [], bw_limit = JSON_BODY_LIMIT\<rparr> of
        Inl _ \<Rightarrow> Err (Fail (internal_error ''response encoding''))
      | Inr w \<Rightarrow>
          attach_upstream_request_id header_ok
            \<lparr>dr_status = 200, dr_body = JsonDocument (bw_bytes w), dr_www_authenticate = False,
             dr_upstream_request_id = None, dr_observation = None\<rparr> upstream_request_id)"

subsection \<open>Complete responses\<close>

definition responses_encode ::
  "(json \<Rightarrow> string) \<Rightarrow> (string \<Rightarrow> bool) \<Rightarrow> executed_response \<Rightarrow> data_response codec_result" where
  "responses_encode to_vec header_ok x =
     (case ur_output (xr_response x) of
        OutputTokenCount _ \<Rightarrow> Err (Fail (internal_error ''unexpected upstream output''))
      | OutputEvents events \<Rightarrow>
          and_then (responses_context (xr_request x) (xr_public_reasoning_effort x) (xr_public_model x)
              (ur_created_at (xr_response x)) (ur_finish_reason (xr_response x))) (\<lambda>ctx.
          and_then (rs_encode_response to_vec ctx events) (\<lambda>v.
            bounded_json_response to_vec header_ok v (ur_upstream_request_id (xr_response x)))))"

definition chat_encode ::
  "(json \<Rightarrow> string) \<Rightarrow> (string \<Rightarrow> bool) \<Rightarrow> executed_response \<Rightarrow> data_response codec_result" where
  "chat_encode to_vec header_ok x =
     (case ur_output (xr_response x) of
        OutputTokenCount _ \<Rightarrow> Err (Fail (internal_error ''unexpected upstream output''))
      | OutputEvents events \<Rightarrow>
          and_then (encode_response to_vec
              \<lparr>cec_model = xr_public_model x, cec_created = ur_created_at (xr_response x),
               cec_response = \<lparr>crt_choice_index = 0,
                 crt_finish_reason = chat_finish_reason_of (ur_finish_reason (xr_response x)),
                 crt_logprobs = None, crt_include_usage = True, crt_extra = []\<rparr>\<rparr> events) (\<lambda>v.
            bounded_json_response to_vec header_ok v (ur_upstream_request_id (xr_response x))))"

definition anthropic_encode_message ::
  "(json \<Rightarrow> string) \<Rightarrow> (string \<Rightarrow> json option) \<Rightarrow> (string \<Rightarrow> bool) \<Rightarrow> string \<Rightarrow> executed_response
     \<Rightarrow> data_response codec_result" where
  "anthropic_encode_message to_vec from_str header_ok request_id x =
     (case ur_output (xr_response x) of
        OutputTokenCount _ \<Rightarrow> Err (Fail (internal_error ''unexpected upstream output''))
      | OutputEvents events \<Rightarrow>
          and_then (an_encode_response to_vec from_str
              \<lparr>aec_request_id = request_id, aec_model = xr_public_model x, aec_initial_usage = anthropic_initial_usage events,
               aec_response = \<lparr>art_stop_reason = anthropic_stop_reason_of (ur_finish_reason (xr_response x)),
                 art_stop_sequence = ur_stop_sequence (xr_response x),
                 art_thinking_signatures = ur_thinking_signatures (xr_response x), art_extra = []\<rparr>\<rparr> events) (\<lambda>v.
            bounded_json_response to_vec header_ok v (ur_upstream_request_id (xr_response x))))"

definition encode_token_count ::
  "(json \<Rightarrow> string) \<Rightarrow> (string \<Rightarrow> bool) \<Rightarrow> executed_response \<Rightarrow> data_response codec_result" where
  "encode_token_count to_vec header_ok x =
     (case ur_output (xr_response x) of
        OutputEvents _ \<Rightarrow> Err (Fail (internal_error ''unexpected upstream output''))
      | OutputTokenCount input_tokens \<Rightarrow>
          bounded_json_response to_vec header_ok (json_object [(''input_tokens'', json_u64 input_tokens)])
            (ur_upstream_request_id (xr_response x)))"

subsection \<open>Streams\<close>

definition client_encode :: "(json \<Rightarrow> string) \<Rightarrow> client_stream_codec client_encoder" where
  "client_encode to_vec ev c =
     (case c of
        ResponsesClient r \<Rightarrow> (case rs_encode_event to_vec ev r of (x, r') \<Rightarrow> (x, ResponsesClient r'))
      | ChatClient r \<Rightarrow> (case encode_chunk to_vec ev r of (x, r') \<Rightarrow> (x, ChatClient r'))
      | AnthropicClient r \<Rightarrow> (case an_encode_event to_vec ev r of (x, r') \<Rightarrow> (x, AnthropicClient r')))"

definition client_codec_of :: "executed_stream \<Rightarrow> client_protocol \<Rightarrow> client_stream_codec codec_result" where
  "client_codec_of x protocol =
     (let st = ss_upstream (xs_stream x)
      in case protocol of
           client_protocol.OpenAiResponses \<Rightarrow>
             and_then (responses_stream_codec (xs_request x) (xs_public_reasoning_effort x) (xs_public_model x) st)
               (\<lambda>c. Ok (ResponsesClient c))
         | OpenAiChatCompletions \<Rightarrow>
             Ok (ChatClient (chat_stream_codec (xs_public_model x) (ux_created_at st) (ux_finish_reason st)))
         | AnthropicMessages \<Rightarrow>
             Ok (AnthropicClient (anthropic_stream_codec (cq_request_id (xs_request x)) (xs_public_model x) st))
         | _ \<Rightarrow> Err (Fail unsupported_capability))"

definition encode_client_stream ::
  "(string \<Rightarrow> bool) \<Rightarrow> executed_stream \<Rightarrow> client_protocol \<Rightarrow> data_response codec_result" where
  "encode_client_stream header_ok x protocol =
     and_then (client_codec_of x protocol) (\<lambda>codec.
     and_then (ok_or (ss_first_event (xs_stream x)) (Fail (upstream_response 502 ''missing initial stream event''))) (\<lambda>first.
       attach_upstream_request_id header_ok
         \<lparr>dr_status = 200, dr_body = EventStream (stream_start codec first), dr_www_authenticate = False,
          dr_upstream_request_id = None, dr_observation = None\<rparr> (ux_upstream_request_id (ss_upstream (xs_stream x)))))"

subsection \<open>Handlers (\<open>routes.rs\<close>)\<close>

type_synonym handled = "unit failure + data_response"

definition observed :: "request_observation_context \<Rightarrow> handled \<Rightarrow> handled" where
  "observed observation r = and_then r (\<lambda>resp. Ok (resp\<lparr>dr_observation := Some observation\<rparr>))"

text \<open>An encoded response with its observation, or the error of encoding it.\<close>

definition encoded ::
  "(string \<Rightarrow> bool) \<Rightarrow> string \<Rightarrow> client_protocol \<Rightarrow> string option \<Rightarrow> request_observation_context
     \<Rightarrow> data_response codec_result \<Rightarrow> handled" where
  "encoded header_ok request_id protocol upstream_request_id observation r =
     observed observation
       (case r of
          Inl Panic \<Rightarrow> Err Panic
        | Inl (Fail e) \<Rightarrow> gateway_error_response header_ok e request_id protocol upstream_request_id
        | Inr resp \<Rightarrow> Ok resp)"

definition execution_failed :: "(string \<Rightarrow> bool) \<Rightarrow> string \<Rightarrow> client_protocol \<Rightarrow> data_plane_execution_error \<Rightarrow> handled" where
  "execution_failed header_ok request_id protocol e =
     (let resp = gateway_error_response header_ok (dpe_error e) request_id protocol (dpe_upstream_request_id e)
      in case dpe_observation e of None \<Rightarrow> resp | Some observation \<Rightarrow> observed observation resp)"

definition mode_mismatch :: gateway_error where
  "mode_mismatch = internal_error ''upstream execution mode mismatch''"

definition text_response ::
  "(string \<Rightarrow> bool) \<Rightarrow> string \<Rightarrow> client_protocol \<Rightarrow> bool \<Rightarrow> (executed_response \<Rightarrow> data_response codec_result)
     \<Rightarrow> executed_result \<Rightarrow> handled" where
  "text_response header_ok request_id protocol streaming encode r =
     (case r of
        Inl Panic \<Rightarrow> Err Panic
      | Inl (Fail e) \<Rightarrow> execution_failed header_ok request_id protocol e
      | Inr (ExecutedResponse x) \<Rightarrow>
          if \<not> streaming
          then encoded header_ok request_id protocol (ur_upstream_request_id (xr_response x)) (xr_observation x) (encode x)
          else gateway_error_response header_ok mode_mismatch request_id protocol None
      | Inr (ExecutedStream x) \<Rightarrow>
          if streaming
          then encoded header_ok request_id protocol (ux_upstream_request_id (ss_upstream (xs_stream x))) (xs_observation x)
            (encode_client_stream header_ok x protocol)
          else gateway_error_response header_ok mode_mismatch request_id protocol None)"

text \<open>\<open>decode\<close> of \<open>routes.rs\<close>: only four of the protocols have an inbound codec.\<close>

definition has_inbound_codec :: "client_protocol \<Rightarrow> bool" where
  "has_inbound_codec protocol =
     (protocol \<in> {client_protocol.OpenAiResponses, OpenAiChatCompletions, AnthropicMessages, AnthropicCountTokens})"

type_synonym decoder = "client_protocol \<Rightarrow> string \<Rightarrow> string \<Rightarrow> gateway_error + canonical_request"

definition decode_request :: "decoder \<Rightarrow> client_protocol \<Rightarrow> string \<Rightarrow> string \<Rightarrow> gateway_error + canonical_request" where
  "decode_request decode protocol request_id bytes =
     (if has_inbound_codec protocol then decode protocol request_id bytes else Err unsupported_capability)"

text \<open>What a handler finds in the server's state and around it.\<close>

record server_view =
  sv_env :: data_plane_env
  sv_providers :: "runtime_snapshot option"
  sv_executor :: bool
  sv_client :: client_id

abbreviation run_canonical ::
  "(json \<Rightarrow> string) \<Rightarrow> server_view \<Rightarrow> canonical_request \<Rightarrow> upstream_operation \<Rightarrow> account_health_table
     \<Rightarrow> executed_result \<times> account_health_table" where
  "run_canonical to_vec sv canonical op t \<equiv>
     execute_canonical to_vec (sv_env sv) (sv_providers sv) (sv_executor sv) (sv_client sv) canonical op t"

definition execute_text ::
  "(json \<Rightarrow> string) \<Rightarrow> (string \<Rightarrow> bool) \<Rightarrow> decoder \<Rightarrow> server_view \<Rightarrow> string \<Rightarrow> client_protocol \<Rightarrow> string
     \<Rightarrow> (canonical_request \<Rightarrow> unit codec_result) \<Rightarrow> (executed_response \<Rightarrow> data_response codec_result)
     \<Rightarrow> account_health_table \<Rightarrow> handled \<times> account_health_table" where
  "execute_text to_vec header_ok decode sv request_id protocol bytes validate encode t =
     (case decode_request decode protocol request_id bytes of
        Inl e \<Rightarrow> (gateway_error_response header_ok e request_id protocol None, t)
      | Inr canonical \<Rightarrow>
          (case validate canonical of
             Inl Panic \<Rightarrow> (Err Panic, t)
           | Inl (Fail e) \<Rightarrow> (gateway_error_response header_ok e request_id protocol None, t)
           | Inr _ \<Rightarrow>
               (case run_canonical to_vec sv canonical OpText t of
                  (r, t') \<Rightarrow> (text_response header_ok request_id protocol (cq_stream canonical) encode r, t'))))"

definition handle_responses ::
  "(json \<Rightarrow> string) \<Rightarrow> (string \<Rightarrow> bool) \<Rightarrow> decoder \<Rightarrow> server_view \<Rightarrow> string \<Rightarrow> client_protocol \<Rightarrow> string
     \<Rightarrow> account_health_table \<Rightarrow> handled \<times> account_health_table" where
  "handle_responses to_vec header_ok decode sv request_id protocol bytes t =
     execute_text to_vec header_ok decode sv request_id protocol bytes rs_validate_request (responses_encode to_vec header_ok) t"

definition handle_chat ::
  "(json \<Rightarrow> string) \<Rightarrow> (string \<Rightarrow> bool) \<Rightarrow> decoder \<Rightarrow> server_view \<Rightarrow> string \<Rightarrow> client_protocol \<Rightarrow> string
     \<Rightarrow> account_health_table \<Rightarrow> handled \<times> account_health_table" where
  "handle_chat to_vec header_ok decode sv request_id protocol bytes t =
     execute_text to_vec header_ok decode sv request_id protocol bytes (\<lambda>_. Ok ()) (chat_encode to_vec header_ok) t"

definition handle_anthropic ::
  "(json \<Rightarrow> string) \<Rightarrow> (string \<Rightarrow> json option) \<Rightarrow> (string \<Rightarrow> bool) \<Rightarrow> decoder \<Rightarrow> server_view \<Rightarrow> string \<Rightarrow> client_protocol
     \<Rightarrow> string \<Rightarrow> account_health_table \<Rightarrow> handled \<times> account_health_table" where
  "handle_anthropic to_vec from_str header_ok decode sv request_id protocol bytes t =
     (case decode_request decode protocol request_id bytes of
        Inl e \<Rightarrow> (gateway_error_response header_ok e request_id protocol None, t)
      | Inr canonical \<Rightarrow>
          (case run_canonical to_vec sv canonical OpText t of
             (r, t') \<Rightarrow>
               (text_response header_ok request_id protocol (cq_stream canonical)
                  (anthropic_encode_message to_vec from_str header_ok request_id) r, t')))"

definition handle_count_tokens ::
  "(json \<Rightarrow> string) \<Rightarrow> (string \<Rightarrow> bool) \<Rightarrow> decoder \<Rightarrow> server_view \<Rightarrow> string \<Rightarrow> client_protocol \<Rightarrow> string
     \<Rightarrow> account_health_table \<Rightarrow> handled \<times> account_health_table" where
  "handle_count_tokens to_vec header_ok decode sv request_id protocol bytes t =
     (case decode_request decode protocol request_id bytes of
        Inl e \<Rightarrow> (gateway_error_response header_ok e request_id protocol None, t)
      | Inr canonical \<Rightarrow>
          (case run_canonical to_vec sv canonical OpCountTokens t of
             (r, t') \<Rightarrow>
               ((case r of
                   Inl Panic \<Rightarrow> Err Panic
                 | Inl (Fail e) \<Rightarrow> execution_failed header_ok request_id protocol e
                 | Inr (ExecutedResponse x) \<Rightarrow>
                     encoded header_ok request_id protocol (ur_upstream_request_id (xr_response x)) (xr_observation x)
                       (encode_token_count to_vec header_ok x)
                 | Inr (ExecutedStream _) \<Rightarrow> gateway_error_response header_ok mode_mismatch request_id protocol None), t')))"

text \<open>
  The routes of \<open>api/mod.rs\<close> for requests that carry a text request; the protocol is the one that
  \<open>ProtocolRegistry::resolve\<close> has found for the path. The model list and the images have handlers of
  their own.
\<close>

definition data_plane_handler ::
  "(json \<Rightarrow> string) \<Rightarrow> (string \<Rightarrow> json option) \<Rightarrow> (string \<Rightarrow> bool) \<Rightarrow> decoder \<Rightarrow> server_view \<Rightarrow> string \<Rightarrow> client_protocol
     \<Rightarrow> string \<Rightarrow> account_health_table \<Rightarrow> (handled \<times> account_health_table) option" where
  "data_plane_handler to_vec from_str header_ok decode sv request_id protocol bytes t =
     (case protocol of
        client_protocol.OpenAiResponses \<Rightarrow> Some (handle_responses to_vec header_ok decode sv request_id protocol bytes t)
      | OpenAiChatCompletions \<Rightarrow> Some (handle_chat to_vec header_ok decode sv request_id protocol bytes t)
      | AnthropicMessages \<Rightarrow> Some (handle_anthropic to_vec from_str header_ok decode sv request_id protocol bytes t)
      | AnthropicCountTokens \<Rightarrow> Some (handle_count_tokens to_vec header_ok decode sv request_id protocol bytes t)
      | _ \<Rightarrow> None)"

end
