(* ===== verification/Data_Handlers_Facts.thy ===== *)
theory Data_Handlers_Facts
  imports Data_Handlers
begin

text \<open>
  What the handlers of the data plane guarantee: every text request is answered, in the protocol and
  the mode it asked for, and the codec that a stream is given keeps the contract of \<open>client_codec\<close>
  whichever protocol it serves.
\<close>

subsection \<open>Identifiers of upstream requests\<close>

text \<open>
  \<open>SafeUpstreamRequestId\<close> has one constructor, which checks its argument. \<open>safe_env\<close> says that all
  identifiers the executor returns have been made by it.
\<close>

definition safe_id :: "string option \<Rightarrow> bool" where
  "safe_id i = (case i of None \<Rightarrow> True | Some v \<Rightarrow> safe_upstream_request_id_new v = Ok v)"

definition safe_result :: "upstream_execution_result \<Rightarrow> bool" where
  "safe_result r =
     (case r of
        UpstreamSucceeded x \<Rightarrow> safe_id (ur_upstream_request_id x)
      | UpstreamStreaming x \<Rightarrow> safe_id (ux_upstream_request_id x)
      | UpstreamFailed x \<Rightarrow> safe_id (uf_upstream_request_id x))"

definition safe_env :: "data_plane_env \<Rightarrow> bool" where
  "safe_env env =
     ((\<forall>q r. de_execute env q = Some r \<longrightarrow> safe_result r)
      \<and> (\<forall>q f. de_receive env q = Received (ItemFailure f) \<longrightarrow> safe_id (uf_upstream_request_id f))
      \<and> (\<forall>i. de_dropped_id env = Some i \<longrightarrow> safe_id i))"

definition output_id :: "attempt_execution_output \<Rightarrow> string option" where
  "output_id out =
     (case out of
        AttemptComplete r \<Rightarrow> ur_upstream_request_id r
      | AttemptStream s \<Rightarrow> ux_upstream_request_id (ss_upstream s))"

lemma request_attempt_ids:
  assumes "safe_env env"
  shows "snd (request_attempt env op d canonical ctx) = Some i \<Longrightarrow> safe_id i"
    "fst (request_attempt env op d canonical ctx) = Some (AttemptSucceeded out b) \<Longrightarrow> safe_id (output_id out)"
  using assms
  by (auto simp: request_attempt_def safe_env_def safe_result_def output_id_def failed_attempt_def Let_def
      split: option.splits upstream_execution_result.splits receive_outcome.splits upstream_stream_item.splits if_splits)

lemma last_upstream_request_id_safe:
  assumes "safe_env env"
  shows "safe_id (last_upstream_request_id env op d canonical req terminal attempts)"
proof -
  have "safe_id (fold (\<lambda>g cell. case snd (request_attempt env op d canonical (diagnosed_context req g)) of None \<Rightarrow> cell | Some i \<Rightarrow> i) gs cell)"
    if "safe_id cell" for gs cell
    using that request_attempt_ids(1) [OF assms] by (induction gs arbitrary: cell) (auto split: option.split)
  note kept = this [of None attempts]
  show ?thesis
    using assms kept
    by (simp add: last_upstream_request_id_def safe_env_def Let_def safe_id_def [of None] split: option.split)
qed

definition result_ids :: "executed_result \<Rightarrow> bool" where
  "result_ids r =
     (case r of
        Inl Panic \<Rightarrow> True
      | Inl (Fail e) \<Rightarrow> safe_id (dpe_upstream_request_id e)
      | Inr (ExecutedResponse x) \<Rightarrow> safe_id (ur_upstream_request_id (xr_response x))
      | Inr (ExecutedStream x) \<Rightarrow> safe_id (ux_upstream_request_id (ss_upstream (xs_stream x))))"

lemma result_ids_error [simp]: "result_ids (Err (Fail (execution_error e None)))"
  by (simp add: result_ids_def execution_error_def safe_id_def)

lemma result_ids_panic [simp]: "result_ids (Err Panic)"
  by (simp add: result_ids_def)

lemma succeeded_execution_ids:
  "safe_id (output_id out) \<Longrightarrow> result_ids (succeeded_execution d canonical asked_model effort out h)"
  by (cases out; cases "cq_stream canonical") (auto simp: succeeded_execution_def request_observation_def final_attempt_id_def ok_or_def executed_from_attempt_def
      result_ids_def output_id_def execution_error_def safe_id_def split: option.splits)

lemma failed_execution_ids:
  "safe_env env \<Longrightarrow> result_ids (failed_execution env op d canonical req terminal h)"
  by (auto simp: failed_execution_def request_observation_without_usage_def final_attempt_id_def ok_or_def result_ids_def
      execution_error_with_observation_def last_upstream_request_id_safe split: option.splits)

lemma run_coordinator_ids:
  assumes "safe_env env" "run_coordinator env op d canonical policy n req t = (Some (ExecutionSucceeded out b h), t')"
  shows "safe_id (output_id out)"
  using run_coordinator_succeeded [OF assms(2)] request_attempt_ids(2) [OF assms(1)] by blast

lemma execute_groups_ids:
  assumes "safe_env env"
  shows "result_ids (fst (execute_groups env op d canonical asked_model effort rid policy n auths t))"
proof (induction auths arbitrary: n t)
  case (Cons auth auths)
  obtain cands where cands: "group_candidates d auth = Ok cands" by (simp add: group_candidates_eq)
  let ?req = "execution_request_new rid d cands auth"
  obtain out t' where out: "run_coordinator env op d canonical policy n ?req (exec run_account_op t (de_between env n)) = (Some out, t')"
    by (rule run_coordinator_recorded)
  show ?case
    using out cands Cons.IH run_coordinator_ids [OF assms]
    by (cases out) (auto simp: succeeded_execution_ids failed_execution_ids [OF assms])
qed simp

lemma execute_accountless_ids:
  assumes "safe_env env"
  shows "result_ids (fst (execute_accountless env op d canonical asked_model effort rid policy t))"
proof (cases "account_id_new ACCOUNTLESS_ACCOUNT_ID")
  case (Inr a)
  let ?req = "execution_request_accountless rid d a"
  obtain out t' where out: "run_coordinator env op d canonical policy 0 ?req t = (Some out, t')"
    by (rule run_coordinator_recorded)
  show ?thesis
    using out Inr run_coordinator_ids [OF assms]
    by (cases out) (auto simp: execute_accountless_def succeeded_execution_ids failed_execution_ids [OF assms])
qed (simp add: execute_accountless_def result_ids_def)

lemma execute_canonical_ids:
  assumes "safe_env env"
  shows "result_ids (fst (execute_canonical to_vec env providers has_executor client canonical op t))"
proof (cases rule: execute_canonical_cases [of to_vec canonical op env providers has_executor client t])
  case 1
  then show ?thesis
    by (auto simp: unrouted_def local_token_count_def map_err_def result_ids_def response_token_count_def response_new_def
        safe_id_def execution_error_def split: sum.splits)
next
  case (2 snapshot rid d sent_request)
  then show ?thesis
    using execute_groups_ids [OF assms] execute_accountless_ids [OF assms]
    by (auto simp: execute_routed_def split: sum.split)
qed

subsection \<open>The encoders do not panic\<close>

lemma rs_loop_no_panic: "rs_response_loop to_vec evs c resp \<noteq> Err Panic"
proof (induction evs arbitrary: c resp)
  case (Cons ev evs)
  have "rs_encode_event_values to_vec ev c \<noteq> (Err Panic, c')" for c'
  proof (cases "rs_live to_vec c")
    case True
    then show ?thesis using rs_apply_refused [of to_vec ev "c\<lparr>rc_context_validated := True\<rparr>" Panic c'] by (auto simp: rs_encode_live)
  next
    case False
    have "rs_validate_context to_vec lim ctx \<noteq> Err Panic" for lim ctx
    proof -
      have "try_for_each (\<lambda>(k, _). rs_validate_identifier lim k) kvs \<noteq> Err Panic" for kvs :: "(string \<times> json) list"
        by (rule try_for_each_no_panic) (auto simp: rs_validate_identifier_def split: if_splits)
      then show ?thesis
        by (simp add: rs_validate_context_def rs_validate_string_map_def rs_validate_serialized_def rs_validate_identifier_def
            and_then_eq_Err Let_def split: option.split)
    qed
    with False show ?thesis
      by (auto simp: rs_encode_event_values_def rs_live_def rs_validate_context_once_def split: sum.splits)
  qed
  with Cons.IH show ?case by (auto split: prod.split sum.split)
qed (simp add: ok_or_def split: option.split)

lemma extension_no_panic: "extension from_value req key \<noteq> Err Panic"
  by (simp add: extension_def split: option.split)

lemma responses_context_no_panic: "responses_context req effort m created_at reason \<noteq> Err Panic"
  by (simp add: responses_context_def response_template_from_parts_def and_then_eq_Err extension_no_panic)

lemma an_validate_no_panic:
  "an_validate_identifier lim v \<noteq> Err Panic" "an_validate_value to_vec lim j \<noteq> Err Panic"
  by (simp_all add: an_validate_identifier_def an_validate_value_def)

lemma ag_transition_no_panic: "ag_transition to_vec ev a \<noteq> Err Panic"
proof -
  have reg: "ag_register_item i b \<noteq> Err Panic" for i b
    by (simp add: ag_register_item_def and_then_eq_Err an_validate_no_panic)
  have req: "ag_require_created a \<noteq> Err Panic" "ag_require_delta_allowed a \<noteq> Err Panic"
    by (simp_all add: ag_require_created_def ag_require_delta_allowed_def and_then_eq_Err)
  have cap: "ag_ensure_payload_capacity n a \<noteq> Err Panic" for n by (simp add: ag_ensure_payload_capacity_def)
  have err: "error_value_with_request_id e i \<noteq> Err Panic" for e i
    by (simp add: error_value_with_request_id_def an_error_wire_def an_wire_def json_object_def)
  note no = reg req cap err an_validate_no_panic
  show ?thesis
    by (cases ev)
       (auto simp: ag_transition_def ag_created_def append_text_def append_reasoning_def append_tool_def open_tool_def set_usage_def
         ag_completed_def and_then_eq_Err no split: option.splits aggregate_output.splits if_splits)
qed

lemma try_no_panic:
  "(\<And>x s. f x s \<noteq> Err Panic) \<Longrightarrow> try_fold f xs s \<noteq> Err Panic"
  "(\<And>x. g x \<noteq> Err Panic) \<Longrightarrow> try_map g ys \<noteq> Err Panic"
  by (induction xs arbitrary: s, simp_all add: and_then_eq_Err) (induction ys, simp_all add: and_then_eq_Err)

lemma an_encode_response_no_panic: "an_encode_response to_vec from_str ctx events \<noteq> Err Panic"
proof -
  have "an_validate_context to_vec lim ctx \<noteq> Err Panic" for lim
    by (auto simp: an_validate_context_def and_then_eq_Err an_validate_no_panic validate_opaque_payload_def
        intro!: try_for_each_no_panic split: option.split if_splits)
  moreover have "try_map (output_value from_str ctx') outs \<noteq> Err Panic" for ctx' outs
    by (rule try_no_panic) (simp add: output_value_def split: aggregate_output.split option.split)
  ultimately show ?thesis
    using try_no_panic(1) [of "ag_transition to_vec", OF ag_transition_no_panic]
    by (simp add: an_encode_response_def an_encode_response_with_limits_def an_response_value_def and_then_eq_Err Let_def
        split: option.split)
qed

subsection \<open>What an encoder returns\<close>

text \<open>\<open>headers_take header_ok\<close>: \<open>HeaderValue::from_str\<close> accepts what \<open>SafeUpstreamRequestId\<close> accepts, which is printable ASCII.\<close>

definition headers_take :: "(string \<Rightarrow> bool) \<Rightarrow> bool" where
  "headers_take header_ok = (\<forall>i. safe_upstream_request_id_new i = Ok i \<longrightarrow> header_ok i)"

definition json_answer :: "data_response \<Rightarrow> bool" where
  "json_answer resp = (dr_status resp = 200 \<and> (\<exists>b. dr_body resp = JsonDocument b \<and> length b \<le> JSON_BODY_LIMIT))"

definition encodes_json :: "data_response codec_result \<Rightarrow> bool" where
  "encodes_json r = (case r of Inl Panic \<Rightarrow> False | Inl (Fail e) \<Rightarrow> True | Inr resp \<Rightarrow> json_answer resp)"

lemma attached:
  assumes "headers_take header_ok" "safe_id i"
  shows "attach_upstream_request_id header_ok resp i = Ok (resp\<lparr>dr_upstream_request_id := (case i of None \<Rightarrow> dr_upstream_request_id resp | Some v \<Rightarrow> Some v)\<rparr>)"
  using assms by (cases i) (simp_all add: attach_upstream_request_id_def headers_take_def safe_id_def)

lemma encodes_json_then:
  "r \<noteq> Err Panic \<Longrightarrow> (\<And>v. encodes_json (f v)) \<Longrightarrow> encodes_json (and_then r f)"
  by (cases r) (auto simp: encodes_json_def split: failure.split)

lemma bounded_json_encodes:
  assumes "headers_take header_ok" "safe_id i"
  shows "encodes_json (bounded_json_response to_vec header_ok v i)"
  by (simp add: bounded_json_response_def writer_write_def encodes_json_def json_answer_def attached [OF assms] Let_def)

lemma encoders_encode:
  assumes "headers_take header_ok" "safe_id (ur_upstream_request_id (xr_response x))"
  shows "encodes_json (responses_encode to_vec header_ok x)" "encodes_json (chat_encode to_vec header_ok x)"
    "encodes_json (anthropic_encode_message to_vec from_str header_ok request_id x)"
    "encodes_json (encode_token_count to_vec header_ok x)"
  unfolding responses_encode_def chat_encode_def anthropic_encode_message_def encode_token_count_def
  by (auto intro!: encodes_json_then bounded_json_encodes [OF assms]
      simp: responses_context_no_panic rs_encode_response_def rs_loop_no_panic encode_response_no_panic an_encode_response_no_panic
      encodes_json_def [of "Err _"] split: upstream_execution_output.split)

subsection \<open>Answers\<close>

definition error_answer :: "string \<Rightarrow> client_protocol \<Rightarrow> data_response \<Rightarrow> bool" where
  "error_answer request_id protocol resp =
     (\<exists>e. dr_status resp = http_status e
        \<and> dr_body resp = ErrorDocument (error_document (ge_code e) (public_message e) request_id protocol))"

definition codec_protocol :: "client_stream_codec \<Rightarrow> client_protocol" where
  "codec_protocol c =
     (case c of
        ResponsesClient _ \<Rightarrow> client_protocol.OpenAiResponses
      | ChatClient _ \<Rightarrow> OpenAiChatCompletions
      | AnthropicClient _ \<Rightarrow> AnthropicMessages)"

definition stream_answer :: "client_protocol \<Rightarrow> data_response \<Rightarrow> bool" where
  "stream_answer protocol resp =
     (dr_status resp = 200
      \<and> (\<exists>codec i. dr_body resp = EventStream (stream_start codec (Created i)) \<and> codec_protocol codec = protocol))"

definition text_answer :: "string \<Rightarrow> client_protocol \<Rightarrow> bool \<Rightarrow> data_response \<Rightarrow> bool" where
  "text_answer request_id protocol streaming resp =
     (error_answer request_id protocol resp \<or> (if streaming then stream_answer protocol resp else json_answer resp))"

definition answered :: "(data_response \<Rightarrow> bool) \<Rightarrow> handled \<Rightarrow> bool" where
  "answered P r = (\<exists>resp. r = Ok resp \<and> P resp)"

lemma error_answered:
  assumes "headers_take header_ok" "safe_id i"
  shows "answered (error_answer request_id protocol) (gateway_error_response header_ok e request_id protocol i)"
  by (auto simp: gateway_error_response_def attached [OF assms] answered_def error_answer_def public_error_def)

lemma answered_mono: "answered P r \<Longrightarrow> (\<And>resp. P resp \<Longrightarrow> Q resp) \<Longrightarrow> answered Q r"
  by (auto simp: answered_def)

lemma answer_observed [simp]:
  "error_answer request_id protocol (resp\<lparr>dr_observation := ob\<rparr>) = error_answer request_id protocol resp"
  "json_answer (resp\<lparr>dr_observation := ob\<rparr>) = json_answer resp"
  "stream_answer protocol (resp\<lparr>dr_observation := ob\<rparr>) = stream_answer protocol resp"
  "text_answer request_id protocol streaming (resp\<lparr>dr_observation := ob\<rparr>) = text_answer request_id protocol streaming resp"
  by (simp_all add: error_answer_def json_answer_def stream_answer_def text_answer_def)

lemma observed_answered:
  "answered (text_answer request_id protocol streaming) r \<Longrightarrow> answered (text_answer request_id protocol streaming) (observed ob r)"
  by (auto simp: observed_def answered_def)

lemma error_text_answered:
  assumes "headers_take header_ok" "safe_id i"
  shows "answered (text_answer request_id protocol streaming) (gateway_error_response header_ok e request_id protocol i)"
  using error_answered [OF assms] by (rule answered_mono) (simp add: text_answer_def)

lemma execution_failed_answered:
  assumes "headers_take header_ok" "safe_id (dpe_upstream_request_id e)"
  shows "answered (text_answer request_id protocol streaming) (execution_failed header_ok request_id protocol e)"
  by (simp add: execution_failed_def Let_def error_text_answered [OF assms] observed_answered split: option.split)

lemma encoded_answered:
  assumes "headers_take header_ok" "safe_id i" "encodes_json r"
  shows "answered (text_answer request_id protocol False) (encoded header_ok request_id protocol i ob r)"
proof -
  have "answered (text_answer request_id protocol False)
    (case r of Inl Panic \<Rightarrow> Err Panic | Inl (Fail e) \<Rightarrow> gateway_error_response header_ok e request_id protocol i | Inr resp \<Rightarrow> Ok resp)"
    using assms(3) error_text_answered [OF assms(1,2)]
    by (auto simp: encodes_json_def answered_def [of _ "Ok _"] text_answer_def split: sum.split failure.split)
  then show ?thesis unfolding encoded_def by (rule observed_answered)
qed

text \<open>A stream that has started has its codec, and the response is the stream.\<close>

lemma client_codec_protocol: "client_codec_of x protocol = Ok codec \<Longrightarrow> codec_protocol codec = protocol"
  by (auto simp: client_codec_of_def Let_def codec_protocol_def split: client_protocol.splits)

lemma codec_protocol_responses [simp]: "codec_protocol (ResponsesClient r) = client_protocol.OpenAiResponses"
  by (simp add: codec_protocol_def)

lemma stream_served:
  assumes "headers_take header_ok" "safe_id (ux_upstream_request_id (ss_upstream (xs_stream x)))"
    and "ss_first_event (xs_stream x) = Some (Created i)" "client_codec_of x protocol = Ok codec"
  shows "\<exists>resp. encoded header_ok request_id protocol (ux_upstream_request_id (ss_upstream (xs_stream x))) ob
      (encode_client_stream header_ok x protocol) = Ok resp
    \<and> dr_status resp = 200 \<and> dr_body resp = EventStream (stream_start codec (Created i))"
  by (simp add: encode_client_stream_def assms(3,4) ok_or_def attached [OF assms(1,2)] encoded_def observed_def)

lemma client_codec_exists:
  assumes "protocol \<in> {client_protocol.OpenAiResponses, OpenAiChatCompletions, AnthropicMessages}"
    and "protocol = client_protocol.OpenAiResponses \<longrightarrow> rs_validate_request (xs_request x) = Ok ()"
  shows "\<exists>codec. client_codec_of x protocol = Ok codec"
  using assms template_validated
  by (fastforce simp: client_codec_of_def Let_def responses_stream_codec_def responses_context_def)

lemma rs_validate_extensions: "cq_extensions a = cq_extensions b \<Longrightarrow> rs_validate_request a = rs_validate_request b"
  by (simp add: rs_validate_request_def validate_extension_def)

definition request_accepted :: "client_protocol \<Rightarrow> canonical_request \<Rightarrow> bool" where
  "request_accepted protocol canonical = (protocol = client_protocol.OpenAiResponses \<longrightarrow> rs_validate_request canonical = Ok ())"

definition served_as :: "client_protocol \<Rightarrow> executed_stream \<Rightarrow> data_response \<Rightarrow> bool" where
  "served_as protocol x resp =
     (dr_status resp = 200
      \<and> (\<exists>codec i. client_codec_of x protocol = Ok codec \<and> ss_first_event (xs_stream x) = Some (Created i)
           \<and> dr_body resp = EventStream (stream_start codec (Created i))))"

lemma served_answer: "served_as protocol x resp \<Longrightarrow> stream_answer protocol resp"
  by (auto simp: served_as_def stream_answer_def dest: client_codec_protocol)






lemma text_response_answered:
  assumes "headers_take header_ok" "safe_env (sv_env sv)" "fst (run_canonical to_vec sv canonical OpText t) = r"
    and "protocol \<in> {client_protocol.OpenAiResponses, OpenAiChatCompletions, AnthropicMessages}" "request_accepted protocol canonical"
    and "\<And>x. safe_id (ur_upstream_request_id (xr_response x)) \<Longrightarrow> encodes_json (encode x)"
  shows "answered (\<lambda>resp. text_answer request_id protocol (cq_stream canonical) resp
      \<and> (\<forall>x. r = Ok (ExecutedStream x) \<longrightarrow> served_as protocol x resp))
    (text_response header_ok request_id protocol (cq_stream canonical) encode r)"
proof -
  note ids = execute_canonical_ids [OF assms(2), of to_vec "sv_providers sv" "sv_executor sv" "sv_client sv" canonical OpText t,
      unfolded assms(3)]
  note asked = execute_canonical_answers [OF assms(3)]
  consider (fail) e where "r = Err (Fail e)" | (response) x where "r = Ok (ExecutedResponse x)"
    | (stream) x where "r = Ok (ExecutedStream x)"
    using asked by (metis failure.exhaust executed.exhaust obj_sumE)
  then show ?thesis
  proof cases
    case fail
    with ids execution_failed_answered [OF assms(1)] show ?thesis by (simp add: text_response_def result_ids_def)
  next
    case response
    with ids asked encoded_answered [OF assms(1) _ assms(6)] show ?thesis by (simp add: text_response_def result_ids_def)
  next
    case stream
    with asked obtain i where x: "cq_stream canonical" "cq_extensions (xs_request x) = cq_extensions canonical"
      "ss_first_event (xs_stream x) = Some (Created i)" by blast
    then have "protocol = client_protocol.OpenAiResponses \<longrightarrow> rs_validate_request (xs_request x) = Ok ()"
      using assms(5) rs_validate_extensions [OF x(2)] by (simp add: request_accepted_def)
    with client_codec_exists [OF assms(4)] obtain codec where codec: "client_codec_of x protocol = Ok codec" by blast
    have "safe_id (ux_upstream_request_id (ss_upstream (xs_stream x)))" using ids stream by (simp add: result_ids_def)
    from stream_served [OF assms(1) this x(3) codec] obtain resp where
      resp: "text_response header_ok request_id protocol (cq_stream canonical) encode r = Ok resp"
        "dr_status resp = 200" "dr_body resp = EventStream (stream_start codec (Created i))"
      using stream x(1) by (fastforce simp: text_response_def)
    then have "served_as protocol x resp" using codec x(3) by (auto simp: served_as_def)
    with resp(1) stream x(1) served_answer show ?thesis by (simp add: answered_def text_answer_def)
  qed
qed

lemma rs_validate_no_panic: "rs_validate_request req \<noteq> Err Panic"
proof -
  have "validate_extension req key ok \<noteq> Err Panic" for key ok by (simp add: validate_extension_def split: option.split)
  then show ?thesis by (simp add: rs_validate_request_def and_then_eq_Err)
qed


text \<open>The three text handlers as one: validation first, for the Responses protocol only.\<close>

lemma text_handler_answered:
  assumes "headers_take header_ok" "safe_env (sv_env sv)" "decode protocol request_id bytes = Ok canonical"
    and "protocol \<in> {client_protocol.OpenAiResponses, OpenAiChatCompletions, AnthropicMessages}"
    and "data_plane_handler to_vec from_str header_ok decode sv request_id protocol bytes t = Some (r, t')"
  shows "answered (\<lambda>resp. text_answer request_id protocol (cq_stream canonical) resp
      \<and> (request_accepted protocol canonical \<longrightarrow>
          (\<forall>x. fst (run_canonical to_vec sv canonical OpText t) = Ok (ExecutedStream x) \<longrightarrow> served_as protocol x resp))) r"
proof (cases "request_accepted protocol canonical")
  case True
  note answer = text_response_answered [OF assms(1,2) refl assms(4) True]
  consider "protocol = client_protocol.OpenAiResponses" | "protocol = OpenAiChatCompletions" | "protocol = AnthropicMessages"
    using assms(4) by blast
  then show ?thesis
  proof cases
    case 1
    with assms(3,5) True have "r = text_response header_ok request_id protocol (cq_stream canonical) (responses_encode to_vec header_ok)
        (fst (run_canonical to_vec sv canonical OpText t))"
      by (simp add: data_plane_handler_def handle_responses_def execute_text_def decode_request_def has_inbound_codec_def request_accepted_def
          split: prod.splits)
    with answer [OF encoders_encode(1) [OF assms(1)]] True show ?thesis by simp
  next
    case 2
    with assms(3,5) have "r = text_response header_ok request_id protocol (cq_stream canonical) (chat_encode to_vec header_ok)
        (fst (run_canonical to_vec sv canonical OpText t))"
      by (simp add: data_plane_handler_def handle_chat_def execute_text_def decode_request_def has_inbound_codec_def split: prod.splits)
    with answer [OF encoders_encode(2) [OF assms(1)]] True show ?thesis by simp
  next
    case 3
    with assms(3,5) have "r = text_response header_ok request_id protocol (cq_stream canonical)
        (anthropic_encode_message to_vec from_str header_ok request_id) (fst (run_canonical to_vec sv canonical OpText t))"
      by (simp add: data_plane_handler_def handle_anthropic_def decode_request_def has_inbound_codec_def split: prod.splits)
    with answer [OF encoders_encode(3) [OF assms(1)]] True show ?thesis by simp
  qed
next
  case False
  then obtain e where e: "protocol = client_protocol.OpenAiResponses" "rs_validate_request canonical = Err (Fail e)"
    using rs_validate_no_panic [of canonical] unfolding request_accepted_def by (metis failure.exhaust obj_sumE old.unit.exhaust)
  with assms(3,5) have "r = gateway_error_response header_ok e request_id protocol None"
    by (simp add: data_plane_handler_def handle_responses_def execute_text_def decode_request_def has_inbound_codec_def)
  with error_text_answered [OF assms(1), of None] False show ?thesis by (simp add: safe_id_def)
qed

subsection \<open>The codec of a client stream\<close>

text \<open>
  \<open>ClientStreamCodec\<close> delegates to the codec of its protocol, so it keeps the contract of a client codec
  because each of the three does.
\<close>

definition codec_accepts :: "(json \<Rightarrow> string) \<Rightarrow> client_stream_codec \<Rightarrow> bool" where
  "codec_accepts to_vec c =
     (case c of
        ResponsesClient r \<Rightarrow> rs_validate_context to_vec (rc_limits r) (rc_context r) = Ok ()
      | ChatClient r \<Rightarrow> chat_validate_context to_vec (cc_limits r) (cc_context r) = Ok ()
      | AnthropicClient r \<Rightarrow> an_validate_context to_vec (an_limits r) (an_context r) = Ok ())"

fun client_good :: "(json \<Rightarrow> string) \<Rightarrow> client_protocol \<Rightarrow> string \<Rightarrow> client_stream_codec \<Rightarrow> bool" where
  "client_good to_vec p out (ResponsesClient r) = (p = client_protocol.OpenAiResponses \<and> rs_good to_vec out r)"
| "client_good to_vec p out (ChatClient r) = (p = OpenAiChatCompletions \<and> chat_good to_vec out r)"
| "client_good to_vec p out (AnthropicClient r) = (p = AnthropicMessages \<and> an_good to_vec out r)"

fun client_stuck :: "(json \<Rightarrow> string) \<Rightarrow> client_protocol \<Rightarrow> string \<Rightarrow> client_stream_codec \<Rightarrow> bool" where
  "client_stuck to_vec p out (ResponsesClient r) = (p = client_protocol.OpenAiResponses \<and> rs_good to_vec out r)"
| "client_stuck to_vec p out (ChatClient r) = (p = OpenAiChatCompletions \<and> chat_good to_vec out r)"
| "client_stuck to_vec p out (AnthropicClient r) = (p = AnthropicMessages \<and> an_stuck to_vec out r)"

text \<open>The bytes of a response that is complete in its protocol.\<close>

definition client_closed :: "(json \<Rightarrow> string) \<Rightarrow> client_protocol \<Rightarrow> string \<Rightarrow> bool" where
  "client_closed to_vec p out =
     (case p of
        client_protocol.OpenAiResponses \<Rightarrow> rs_closed to_vec out
      | OpenAiChatCompletions \<Rightarrow> chat_closed to_vec out
      | AnthropicMessages \<Rightarrow> an_closed to_vec out
      | _ \<Rightarrow> False)"

lemma client_encode_simps:
  "client_encode to_vec ev (ResponsesClient r) = apsnd ResponsesClient (rs_encode_event to_vec ev r)"
  "client_encode to_vec ev (ChatClient k) = apsnd ChatClient (encode_chunk to_vec ev k)"
  "client_encode to_vec ev (AnthropicClient a) = apsnd AnthropicClient (an_encode_event to_vec ev a)"
  by (simp_all add: client_encode_def apsnd_def map_prod_def)

lemma apsnd_eq_pair: "apsnd f p = (x, y) \<longleftrightarrow> (\<exists>z. p = (x, z) \<and> y = f z)"
  by (cases p) auto

lemmas client_codec_eval = client_encode_simps apsnd_eq_pair client_closed_def

interpretation data_client: client_codec "client_encode to_vec" "client_good to_vec p" "client_stuck to_vec p" "client_closed to_vec p"
  for to_vec p
proof (unfold_locales, goal_cases)
  case (1 out c ev)
  then show ?case
    using responses_client.good_no_panic chat_client.good_no_panic anthropic_client.good_no_panic
    by (cases c) (auto simp: client_codec_eval)
next
  case (2 out c ev e c')
  then show ?case
    using responses_client.good_refused chat_client.good_refused anthropic_client.good_refused
    by (cases c) (auto simp: client_codec_eval)
next
  case (3 out c ev b c')
  then show ?case
    using responses_client.good_open chat_client.good_open anthropic_client.good_open
    by (cases c) (auto simp: client_codec_eval)
next
  case (4 out c ev b c')
  then show ?case
    by (cases c)
       (auto simp: client_codec_eval dest: responses_client.good_close chat_client.good_close anthropic_client.good_close)
next
  case (5 out c ev b c' ev')
  then show ?case
    using responses_client.good_over chat_client.good_over anthropic_client.good_over
    by (cases c) (auto simp: client_codec_eval)
next
  case (6 out c)
  then show ?case using anthropic_client.good_stuck by (cases c) auto
next
  case (7 out c error)
  then show ?case
    using responses_client.stuck_failed [of to_vec out _ error] chat_client.stuck_failed [of to_vec out _ error]
      anthropic_client.stuck_failed [of to_vec out _ error]
    by (cases c) (fastforce simp: client_codec_eval)+
qed

lemma client_good_start:
  assumes "client_codec_of x protocol = Ok codec" "codec_accepts to_vec codec"
  shows "client_good to_vec protocol [] codec"
proof (cases codec)
  case (ResponsesClient r)
  with client_codec_protocol [OF assms(1)] have p: "protocol = client_protocol.OpenAiResponses" by (simp add: codec_protocol_def)
  with assms(1) ResponsesClient obtain ctx where "r = responses_codec_new ctx"
    by (auto simp: client_codec_of_def Let_def responses_stream_codec_def)
  with p ResponsesClient assms(2) show ?thesis
    by (simp add: codec_accepts_def responses_codec_new_def responses_with_limits_def
        rs_good_start [unfolded responses_with_limits_def])
next
  case (ChatClient k)
  with client_codec_protocol [OF assms(1)] have p: "protocol = OpenAiChatCompletions" by (simp add: codec_protocol_def)
  with assms(1) ChatClient obtain ctx where "k = chat_codec_new ctx"
    by (auto simp: client_codec_of_def Let_def chat_stream_codec_def)
  with p ChatClient assms(2) show ?thesis
    by (auto intro!: chat_good_start simp: codec_accepts_def chat_live_def chat_codec_new_def)
       (simp add: chat_with_limits_def)
next
  case (AnthropicClient a)
  with client_codec_protocol [OF assms(1)] have p: "protocol = AnthropicMessages" by (simp add: codec_protocol_def)
  with assms(1) AnthropicClient obtain ctx where "a = anthropic_codec_new ctx"
    by (auto simp: client_codec_of_def Let_def anthropic_stream_codec_def)
  with p AnthropicClient assms(2) show ?thesis
    by (simp add: codec_accepts_def anthropic_codec_new_def an_with_limits_def an_good_start [unfolded an_with_limits_def])
qed

lemma client_stream_ends:
  assumes "client_good to_vec p [] codec" "run_client (client_encode to_vec) ins (stream_start codec first) = (ps, s)"
  shows "PollPanic \<notin> set ps \<and> PollDiverges \<notin> set ps
    \<and> (cs_finished s \<and> CancelRequest \<notin> set ins \<longrightarrow> client_closed to_vec p (sent ps))
    \<and> (cs_finished s \<longrightarrow> (\<forall>more. sent (fst (run_client (client_encode to_vec) more s)) = []))
    \<and> (CloseSender \<in> set ins \<longrightarrow>
         cs_finished (snd (run_client (client_encode to_vec) (replicate (length (cs_queue s) + 2) PollOnce) s)))"
proof -
  note inv = data_client.run_client_inv [OF data_client.run_inv_start [OF assms(1)] assms(2)]
  have "cs_finished (snd (run_client (client_encode to_vec) (replicate (length (cs_queue s) + 2) PollOnce) s))"
    if "CloseSender \<in> set ins"
  proof (rule data_client.polls_finish)
    show "data_client.run_inv to_vec p (CancelRequest \<in> set ins) ([] @ sent ps) s" using inv by simp
    show "cs_closed s" using run_client_closed [OF assms(2)] that by blast
    show "data_client.pending s < length (cs_queue s) + 2" by (simp add: data_client.pending_def)
  qed
  moreover have "cs_finished s \<and> CancelRequest \<notin> set ins \<longrightarrow> client_closed to_vec p (sent ps)"
    using inv by (auto simp: data_client.run_inv_def)
  ultimately show ?thesis using inv run_finished_silent by blast
qed

text \<open>An event stream comes from \<open>encode_client_stream\<close> alone, with the codec of the protocol.\<close>

definition starts_stream :: "client_protocol \<Rightarrow> 'e + data_response \<Rightarrow> bool" where
  "starts_stream protocol r =
     (\<forall>resp s0. r = Ok resp \<longrightarrow> dr_body resp = EventStream s0 \<longrightarrow>
        (\<exists>x codec first. client_codec_of x protocol = Ok codec \<and> s0 = stream_start codec first))"

lemma starts_stream_Err [simp]: "starts_stream protocol (Err e)"
  by (simp add: starts_stream_def)

lemma attached_body: "attach_upstream_request_id header_ok resp i = Ok resp' \<Longrightarrow> dr_body resp' = dr_body resp"
  by (auto simp: attach_upstream_request_id_def split: option.splits if_splits)

lemma starts_stream_error [simp]: "starts_stream protocol (gateway_error_response header_ok e request_id protocol' i)"
  by (auto simp: starts_stream_def gateway_error_response_def public_error_def dest!: attached_body)

lemma starts_stream_observed [simp]: "starts_stream protocol r \<Longrightarrow> starts_stream protocol (observed ob r)"
  by (auto simp: starts_stream_def observed_def)

lemma starts_stream_json [simp]: "starts_stream protocol (bounded_json_response to_vec header_ok v i)"
  by (auto simp: starts_stream_def bounded_json_response_def dest!: attached_body split: sum.splits)

lemma starts_stream_client [simp]: "starts_stream protocol (encode_client_stream header_ok x protocol)"
  by (auto simp: starts_stream_def encode_client_stream_def dest!: attached_body) blast

lemma starts_stream_then: "(\<And>v. starts_stream protocol (f v)) \<Longrightarrow> starts_stream protocol (and_then r f)"
  by (cases r) simp_all

lemma starts_stream_encoders [simp]:
  "starts_stream protocol (responses_encode to_vec header_ok x)" "starts_stream protocol (chat_encode to_vec header_ok x)"
  "starts_stream protocol (anthropic_encode_message to_vec from_str header_ok request_id x)"
  "starts_stream protocol (encode_token_count to_vec header_ok x)"
  by (auto simp: responses_encode_def chat_encode_def anthropic_encode_message_def encode_token_count_def
      intro!: starts_stream_then split: upstream_execution_output.split)

lemma starts_stream_encoded [simp]:
  "starts_stream protocol r \<Longrightarrow> starts_stream protocol (encoded header_ok request_id protocol' i ob r)"
  unfolding encoded_def by (rule starts_stream_observed) (auto simp: starts_stream_def [of _ "Ok _"] split: sum.split failure.split)

lemma starts_stream_text [simp]:
  "(\<And>x. starts_stream protocol (encode x)) \<Longrightarrow> starts_stream protocol (text_response header_ok request_id protocol streaming encode r)"
  by (auto simp: text_response_def execution_failed_def Let_def split: sum.split failure.split executed.split option.split)

lemma handler_stream_start:
  assumes "data_plane_handler to_vec from_str header_ok decode sv request_id protocol bytes t = Some (Ok resp, t')"
    and "dr_body resp = EventStream s0"
  shows "\<exists>x codec first. client_codec_of x protocol = Ok codec \<and> s0 = stream_start codec first"
proof -
  have "starts_stream protocol (fst p)"
    if "data_plane_handler to_vec from_str header_ok decode sv request_id protocol bytes t = Some p" for p
    using that
    by (auto simp: data_plane_handler_def handle_responses_def handle_chat_def handle_anthropic_def handle_count_tokens_def
        execute_text_def execution_failed_def Let_def
        split: client_protocol.splits sum.splits failure.splits prod.splits executed.splits option.splits)
  from this [OF assms(1)] assms(2) show ?thesis by (simp add: starts_stream_def)
qed

subsection \<open>Properties\<close>


definition dp_demo_server :: server_view where
  "dp_demo_server =
     \<lparr>sv_env = dp_demo_env, sv_providers = Some dp_demo_snapshot, sv_executor = True, sv_client = ClientId ''c''\<rparr>"

definition dp_demo_handled :: "(handled \<times> account_health_table) option" where
  "dp_demo_handled =
     data_plane_handler (\<lambda>_. []) (\<lambda>_. None) (\<lambda>_. True) (\<lambda>_ _ _. Ok dp_demo_request) dp_demo_server ''r''
       OpenAiChatCompletions [] sample_table"

lemma dp_demo_handled_some: "\<exists>r t. dp_demo_handled = Some (r, t)"
  by (simp add: dp_demo_handled_def data_plane_handler_def)

lemma dp_demo_safe: "headers_take (\<lambda>_. True)" "safe_env (sv_env dp_demo_server)"
  by (simp_all add: headers_take_def safe_env_def dp_demo_server_def dp_demo_env_def safe_result_def safe_id_def stream_channel_def)


text \<open>
  C7. Every stream that a handler returns is well formed and ends. Take any response with an event
  stream whose codec accepts its context, and let the upstream deliver anything in any order, with the
  polls interleaved in any way. The stream neither panics nor spins; when it finishes and was not cancelled,
  the bytes sent are a complete response of the protocol the client asked in: numbered Responses events
  up to a final or an error event, chat chunks up to \<open>[DONE]\<close>, or Messages events up to \<open>message_stop\<close> or an
  error; after that nothing is sent; and once the sender is gone, at most two polls more than there are
  queued items finish it.
\<close>

theorem served_stream_well_formed:
  assumes "data_plane_handler to_vec from_str header_ok decode sv request_id protocol bytes t = Some (Ok resp, t')"
    and "dr_body resp = EventStream s0" "codec_accepts to_vec (cs_codec s0)"
    and "run_client (client_encode to_vec) ins s0 = (ps, s)"
  shows "PollPanic \<notin> set ps \<and> PollDiverges \<notin> set ps
    \<and> (cs_finished s \<and> CancelRequest \<notin> set ins \<longrightarrow> client_closed to_vec protocol (sent ps))
    \<and> (cs_finished s \<longrightarrow> (\<forall>more. sent (fst (run_client (client_encode to_vec) more s)) = []))
    \<and> (CloseSender \<in> set ins \<longrightarrow>
         cs_finished (snd (run_client (client_encode to_vec) (replicate (length (cs_queue s) + 2) PollOnce) s)))"
proof -
  obtain x codec first where "client_codec_of x protocol = Ok codec" "s0 = stream_start codec first"
    using handler_stream_start [OF assms(1,2)] by blast
  with assms(3,4) show ?thesis
    using client_stream_ends [OF client_good_start] by (simp add: stream_start_def)
qed

lemma dp_demo_stream:
  "\<exists>resp t s0. dp_demo_handled = Some (Ok resp, t) \<and> dr_body resp = EventStream s0 \<and> codec_accepts (\<lambda>_. []) (cs_codec s0)"
proof -
  obtain x where x: "fst (run_canonical (\<lambda>_. []) dp_demo_server dp_demo_request OpText sample_table) = Ok (ExecutedStream x)"
    using dp_demo_executed by (auto simp: dp_demo_server_def)
  have model: "xs_public_model x = ''m''"
    using execute_canonical_answers [OF x] by (simp add: dp_demo_request_def)
  obtain r t where h: "dp_demo_handled = Some (r, t)" using dp_demo_handled_some by blast
  obtain resp where resp: "r = Ok resp" "served_as OpenAiChatCompletions x resp"
    using text_handler_answered [OF dp_demo_safe refl _ h [unfolded dp_demo_handled_def]] x
    by (auto simp: request_accepted_def answered_def)
  have "chat_live (\<lambda>_. []) (chat_stream_codec ''m'' created reason)" for created reason
    by (rule chat_stream_codec_live) (simp add: servable_def)
  then have "codec_accepts (\<lambda>_. []) (ChatClient (chat_stream_codec ''m'' created reason))" for created reason
    by (simp add: codec_accepts_def chat_live_def) (simp add: chat_stream_codec_def chat_codec_new_def chat_with_limits_def)
  with resp h model show ?thesis
    by (auto simp: served_as_def client_codec_of_def Let_def stream_start_def)
qed

theorem served_stream_well_formed_witness:
  "\<exists>resp t s0. dp_demo_handled = Some (Ok resp, t) \<and> dr_body resp = EventStream s0
     \<and> (let s = snd (run_client (client_encode (\<lambda>_. [])) [PollOnce, CloseSender] s0)
        in cs_finished (snd (run_client (client_encode (\<lambda>_. [])) (replicate (length (cs_queue s) + 2) PollOnce) s)))"
proof -
  obtain resp t s0 where h: "dp_demo_handled = Some (Ok resp, t)" "dr_body resp = EventStream s0"
    "codec_accepts (\<lambda>_. []) (cs_codec s0)" using dp_demo_stream by blast
  from served_stream_well_formed [OF h(1) [unfolded dp_demo_handled_def] h(2,3) prod.collapse [symmetric], of "[PollOnce, CloseSender]"]
    h(1,2)
  show ?thesis by (auto simp: Let_def)
qed

text \<open>
  A failure is reported alike wherever it happens. An upstream failure that ends an attempt before the
  response and the same failure inside a running stream reach the client with the same code, the same
  message and the same status, although the two paths translate it separately, the first through the
  attempt's failure kinds and its checked status code. Except for a malformed response even the kind is the
  same, with its status and its delay.
\<close>

lemma failure_reported_alike:
  "(let before = map_terminal (Upstream (attempt_failure_new (map_failure_kind (uf_kind f)) (uf_status f) (uf_retry_after_ms f)) boundary);
        within = map_stream_failure f
    in ge_code before = ge_code within \<and> public_message before = public_message within
       \<and> http_status before = http_status within
       \<and> (ge_kind before = ge_kind within \<or> uf_kind f = UfMalformedResponse))"
  using order_trans [of "100 :: u16" 500]
  by (cases "uf_kind f")
     (auto simp: map_terminal_def map_stream_failure_def map_failure_kind_def attempt_failure_new_def Let_def
       transport_error_def upstream_response_def rate_limited_def upstream_5xx_def upstream_auth_def invalid_request_def
       unsupported_capability_def gateway_error_new_def with_diagnostic_def ge_code_def public_message_def http_status_def
       split: option.split)

end
