(* ===== verification/Config_Store.thy ===== *)
theory Config_Store
  imports Core_Config Secret_Store
begin

text \<open>
  The configuration file, \<open>crates/wokcore-storage/src/config\<close>: loading, and committing a new
  configuration against an expected revision with an atomic replacement of the file. The TOML
  decoder \<open>de\<close> and encoder \<open>ser\<close> are parameters, as is the URL parser of the shape check. A commit
  holds the exclusive file lock from reading the current revision to replacing the file, so one
  commit is one step. The record \<open>commit_io\<close> says which system calls of it succeed. The platform chooses
  how the file is replaced: by \<open>rename\<close>, which is atomic, and on Windows, over an existing file, by
  \<open>ReplaceFileW\<close> without a backup name, which is documented to fail in two ways: with both files left
  as they were, or with the replaced file gone.
\<close>

subsection \<open>Definitions\<close>

record app_config =
  ac_port :: u16
  ac_providers :: provider_config
  ac_routing :: routing_config

record versioned_config =
  vc_revision :: u64
  vc_config :: app_config

record persisted_config =
  pc_revision :: u64
  pc_port :: u16
  pc_providers :: provider_config
  pc_routing :: routing_config

definition app_config_default :: app_config where
  "app_config_default =
     \<lparr>ac_port = 10101, ac_providers = \<lparr>instances = [], accounts = []\<rparr>,
      ac_routing = \<lparr>aliases = [], rules = [], default_target = None\<rparr>\<rparr>"

text \<open>The file: missing, not readable as UTF-8 text, or a document.\<close>

datatype config_file = FileMissing | FileUnreadable | FileDocument string

datatype platform = Unix | Windows | OtherPlatform

datatype replace_call = ReplaceDone | ReplaceFailed | ReplaceLost

record commit_io =
  io_lock :: bool
  io_temporary :: bool
  io_write :: bool
  io_replace :: replace_call
  io_sync_parent :: bool
  io_unlock :: bool

definition config_validate :: "url_parser \<Rightarrow> app_config \<Rightarrow> storage_error + unit" where
  "config_validate parse c =
     (if ac_port c = 0 then Err InvalidConfig
      else map_err (\<lambda>_. InvalidConfig)
             (validate_provider_configuration_shape parse (ac_providers c) (ac_routing c)))"

definition config_load ::
  "url_parser \<Rightarrow> (string \<Rightarrow> persisted_config option) \<Rightarrow> config_file \<Rightarrow> storage_error + versioned_config" where
  "config_load parse de file =
     (case file of
        FileMissing \<Rightarrow> Ok \<lparr>vc_revision = 0, vc_config = app_config_default\<rparr>
      | FileUnreadable \<Rightarrow> Err StorageIo
      | FileDocument document \<Rightarrow>
          and_then (ok_or (de document) InvalidConfig) (\<lambda>persisted.
            let loaded = \<lparr>vc_revision = pc_revision persisted,
                  vc_config = \<lparr>ac_port = pc_port persisted, ac_providers = pc_providers persisted,
                    ac_routing = pc_routing persisted\<rparr>\<rparr>
            in and_then (config_validate parse (vc_config loaded)) (\<lambda>_. Ok loaded)))"

definition rename_file :: "replace_call \<Rightarrow> string \<Rightarrow> config_file \<Rightarrow> (storage_error + unit) \<times> config_file" where
  "rename_file call contents file =
     (if call = ReplaceDone then (Ok (), FileDocument contents) else (Err StorageIo, file))"

fun ReplaceFileW :: "replace_call \<Rightarrow> string \<Rightarrow> config_file \<Rightarrow> (storage_error + unit) \<times> config_file" where
  "ReplaceFileW ReplaceDone contents file = (Ok (), FileDocument contents)"
| "ReplaceFileW ReplaceFailed contents file = (Err StorageIo, file)"
| "ReplaceFileW ReplaceLost contents file = (Err StorageIo, FileMissing)"

definition replace_file ::
  "platform \<Rightarrow> replace_call \<Rightarrow> string \<Rightarrow> config_file \<Rightarrow> (storage_error + unit) \<times> config_file" where
  "replace_file platform call contents file =
     (if platform = Windows
      then if file = FileMissing then rename_file call contents file else ReplaceFileW call contents file
      else rename_file call contents file)"

definition sync_parent_directory :: "platform \<Rightarrow> commit_io \<Rightarrow> storage_error + unit" where
  "sync_parent_directory platform io =
     (if platform = Unix then if io_sync_parent io then Ok () else Err StorageIo else Ok ())"

definition replace_atomically ::
  "platform \<Rightarrow> commit_io \<Rightarrow> string \<Rightarrow> config_file \<Rightarrow> (storage_error + unit) \<times> config_file" where
  "replace_atomically platform io contents file =
     (if \<not> io_temporary io then (Err StorageIo, file)
      else if \<not> io_write io then (Err StorageIo, file)
      else st_then (replace_file platform (io_replace io) contents file)
             (\<lambda>_ f. (sync_parent_directory platform io, f)))"

definition commit_locked ::
  "url_parser \<Rightarrow> (string \<Rightarrow> persisted_config option) \<Rightarrow> (persisted_config \<Rightarrow> string option) \<Rightarrow> platform \<Rightarrow> commit_io
    \<Rightarrow> u64 \<Rightarrow> app_config \<Rightarrow> config_file \<Rightarrow> (storage_error + versioned_config) \<times> config_file" where
  "commit_locked parse de ser platform io expected candidate file =
     (case config_load parse de file of
        Inl e \<Rightarrow> (Err e, file)
      | Inr current \<Rightarrow>
          if expected \<noteq> vc_revision current then (Err (RevisionConflict expected (vc_revision current)), file)
          else (case checked_add (vc_revision current) 1 of
              None \<Rightarrow> (Err InvalidConfig, file)
            | Some revision \<Rightarrow>
                let committed = \<lparr>vc_revision = revision, vc_config = candidate\<rparr>;
                    persisted = \<lparr>pc_revision = revision, pc_port = ac_port candidate,
                      pc_providers = ac_providers candidate, pc_routing = ac_routing candidate\<rparr>
                in (case ser persisted of
                      None \<Rightarrow> (Err SerializeConfig, file)
                    | Some document \<Rightarrow>
                        st_then (replace_atomically platform io document file) (\<lambda>_ f. (Ok committed, f)))))"

definition config_commit ::
  "url_parser \<Rightarrow> (string \<Rightarrow> persisted_config option) \<Rightarrow> (persisted_config \<Rightarrow> string option) \<Rightarrow> platform \<Rightarrow> commit_io
    \<Rightarrow> u64 \<Rightarrow> app_config \<Rightarrow> config_file \<Rightarrow> (storage_error + versioned_config) \<times> config_file" where
  "config_commit parse de ser platform io expected candidate file =
     (case config_validate parse candidate of
        Inl e \<Rightarrow> (Err e, file)
      | Inr _ \<Rightarrow>
          if \<not> io_lock io then (Err StorageIo, file)
          else (case commit_locked parse de ser platform io expected candidate file of
              (Inr committed, file') \<Rightarrow> (if io_unlock io then Ok committed else Err StorageIo, file')
            | (Inl e, file') \<Rightarrow> (Err e, file')))"

subsection \<open>One commit\<close>

definition toml_roundtrip :: "(string \<Rightarrow> persisted_config option) \<Rightarrow> (persisted_config \<Rightarrow> string option) \<Rightarrow> bool" where
  "toml_roundtrip de ser = (\<forall>p document. ser p = Some document \<longrightarrow> de document = Some p)"

definition loads_revision :: "url_parser \<Rightarrow> (string \<Rightarrow> persisted_config option) \<Rightarrow> config_file \<Rightarrow> u64 \<Rightarrow> bool" where
  "loads_revision parse de file r = (\<exists>v. config_load parse de file = Ok v \<and> vc_revision v = r)"

text \<open>The file held the expected revision and now holds the next one, with the candidate.\<close>

definition advanced ::
  "url_parser \<Rightarrow> (string \<Rightarrow> persisted_config option) \<Rightarrow> u64 \<Rightarrow> app_config \<Rightarrow> config_file \<Rightarrow> config_file \<Rightarrow> bool" where
  "advanced parse de expected candidate file file' =
     (expected \<noteq> - 1 \<and> loads_revision parse de file expected
      \<and> config_load parse de file' = Ok \<lparr>vc_revision = expected + 1, vc_config = candidate\<rparr>)"

text \<open>What a failed commit may have done to the file.\<close>

definition lost_on_replace :: "platform \<Rightarrow> commit_io \<Rightarrow> config_file \<Rightarrow> bool" where
  "lost_on_replace platform io file =
     (platform = Windows \<and> file \<noteq> FileMissing \<and> io_temporary io \<and> io_write io \<and> io_replace io = ReplaceLost)"

definition fails_after_replace :: "platform \<Rightarrow> commit_io \<Rightarrow> bool" where
  "fails_after_replace platform io =
     (io_replace io = ReplaceDone \<and> (platform = Unix \<and> \<not> io_sync_parent io \<or> \<not> io_unlock io))"

lemma replace_atomically_cases:
  assumes "replace_atomically platform io contents file = (r, file')"
  shows "r = Ok () \<and> io_replace io = ReplaceDone \<and> file' = FileDocument contents
    \<or> r = Err StorageIo \<and> (\<not> lost_on_replace platform io file \<and> file' = file
        \<or> lost_on_replace platform io file \<and> file' = FileMissing
        \<or> fails_after_replace platform io \<and> file' = FileDocument contents)"
  using assms
  by (cases "io_replace io")
     (auto simp: replace_atomically_def replace_file_def rename_file_def sync_parent_directory_def lost_on_replace_def
       fails_after_replace_def split: if_splits)

lemma replace_atomically_lost:
  "lost_on_replace platform io file \<Longrightarrow> replace_atomically platform io contents file = (Err StorageIo, FileMissing)"
  by (simp add: lost_on_replace_def replace_atomically_def replace_file_def)

lemma load_replaced:
  assumes "toml_roundtrip de ser" "config_validate parse c = Ok ()"
    and "ser \<lparr>pc_revision = r, pc_port = ac_port c, pc_providers = ac_providers c, pc_routing = ac_routing c\<rparr> = Some document"
  shows "config_load parse de (FileDocument document) = Ok \<lparr>vc_revision = r, vc_config = c\<rparr>"
  using assms by (cases c) (simp add: toml_roundtrip_def config_load_def Let_def)

lemma checked_add_one_iff:
  "checked_add (r :: 'a::len word) 1 = (if r = - 1 then None else Some (r + 1))"
proof -
  have "unat r < 2 ^ LENGTH('a)" by (rule unsigned_less)
  then have "\<not> Suc (unat r) < 2 ^ LENGTH('a) \<longleftrightarrow> unat r = 2 ^ LENGTH('a) - 1" by linarith
  then show ?thesis by (auto simp: checked_add_def unat_max_word word_unat_eq_iff)
qed

definition persisted_of :: "u64 \<Rightarrow> app_config \<Rightarrow> persisted_config" where
  "persisted_of revision c =
     \<lparr>pc_revision = revision, pc_port = ac_port c, pc_providers = ac_providers c, pc_routing = ac_routing c\<rparr>"

lemma commit_locked_replaces:
  assumes "loads_revision parse de file e" "e \<noteq> - 1"
  shows "commit_locked parse de ser platform io e c file =
    (case ser (persisted_of (e + 1) c) of None \<Rightarrow> (Err SerializeConfig, file)
     | Some d \<Rightarrow> st_then (replace_atomically platform io d file) (\<lambda>_ f. (Ok \<lparr>vc_revision = e + 1, vc_config = c\<rparr>, f)))"
proof -
  from assms(2) have "checked_add e 1 = Some (e + 1)" by (simp add: checked_add_one_iff)
  with assms(1) show ?thesis
    by (auto simp: loads_revision_def commit_locked_def persisted_of_def Let_def split: option.split)
qed

lemma commit_locked_refuses:
  assumes "\<not> (loads_revision parse de file e \<and> e \<noteq> - 1)"
  shows "\<exists>err. commit_locked parse de ser platform io e c file = (Err err, file)"
  using assms
  by (auto simp: loads_revision_def commit_locked_def checked_add_one_iff split: sum.split option.split)

text \<open>The result of a commit and the file after it.\<close>

definition commit_effect ::
  "url_parser \<Rightarrow> (string \<Rightarrow> persisted_config option) \<Rightarrow> platform \<Rightarrow> commit_io \<Rightarrow> u64 \<Rightarrow> app_config
    \<Rightarrow> config_file \<Rightarrow> storage_error + versioned_config \<Rightarrow> config_file \<Rightarrow> bool" where
  "commit_effect parse de platform io e c file r file' =
     (case r of
        Inr v \<Rightarrow> io_replace io = ReplaceDone \<and> advanced parse de e c file file' \<and> v = \<lparr>vc_revision = e + 1, vc_config = c\<rparr>
      | Inl err \<Rightarrow> file' = file
          \<or> err = StorageIo \<and> fails_after_replace platform io \<and> advanced parse de e c file file'
          \<or> err = StorageIo \<and> lost_on_replace platform io file \<and> loads_revision parse de file e \<and> file' = FileMissing)"

lemma commit_locked_cases:
  assumes "toml_roundtrip de ser" "config_validate parse c = Ok ()"
    and "commit_locked parse de ser platform io e c file = (r, file')"
  shows "commit_effect parse de platform io e c file r file'"
proof (cases "loads_revision parse de file e \<and> e \<noteq> - 1")
  case False
  with assms(3) commit_locked_refuses [OF False, of ser platform io c] show ?thesis
    by (auto simp: commit_effect_def)
next
  case True
  then have adv: "advanced parse de e c file (FileDocument d)" if "ser (persisted_of (e + 1) c) = Some d" for d
    using load_replaced [OF assms(1,2), of "e + 1" d] that by (simp add: advanced_def persisted_of_def)
  show ?thesis
  proof (cases "ser (persisted_of (e + 1) c)")
    case None
    with assms(3) True show ?thesis by (auto simp: commit_locked_replaces commit_effect_def)
  next
    case (Some d)
    obtain q f where "replace_atomically platform io d file = (q, f)" by fastforce
    with assms(3) True Some adv [OF Some] replace_atomically_cases [of platform io d "file" q f] show ?thesis
      by (auto simp: commit_locked_replaces commit_effect_def)
  qed
qed

lemma config_commit_cases:
  assumes "toml_roundtrip de ser" "config_commit parse de ser platform io e c file = (r, file')"
  shows "commit_effect parse de platform io e c file r file'"
proof (cases "config_validate parse c = Ok () \<and> io_lock io")
  case False
  with assms(2) show ?thesis by (auto simp: config_commit_def commit_effect_def split: sum.splits if_splits)
next
  case True
  obtain r' f where rf: "commit_locked parse de ser platform io e c file = (r', f)" by fastforce
  with True have "commit_effect parse de platform io e c file r' f"
    using commit_locked_cases [OF assms(1)] by blast
  with True assms(2) rf show ?thesis
    by (auto simp: config_commit_def commit_effect_def fails_after_replace_def split: sum.splits if_splits)
qed

lemma config_commit_loses:
  assumes "config_validate parse c = Ok ()" "io_lock io" "loads_revision parse de file e" "e \<noteq> - 1"
    and "ser (persisted_of (e + 1) c) \<noteq> None" "lost_on_replace platform io file"
  shows "config_commit parse de ser platform io e c file = (Err StorageIo, FileMissing)"
  using assms by (auto simp: config_commit_def commit_locked_replaces replace_atomically_lost)

subsection \<open>Sequences of commits\<close>

record commit_request =
  cr_io :: commit_io
  cr_expected :: u64
  cr_candidate :: app_config

definition run_commit ::
  "url_parser \<Rightarrow> (string \<Rightarrow> persisted_config option) \<Rightarrow> (persisted_config \<Rightarrow> string option) \<Rightarrow> platform
    \<Rightarrow> config_file \<Rightarrow> commit_request \<Rightarrow> config_file" where
  "run_commit parse de ser platform file q =
     snd (config_commit parse de ser platform (cr_io q) (cr_expected q) (cr_candidate q) file)"

definition at_least :: "url_parser \<Rightarrow> (string \<Rightarrow> persisted_config option) \<Rightarrow> nat \<Rightarrow> config_file \<Rightarrow> bool" where
  "at_least parse de n file = (\<exists>r. loads_revision parse de file r \<and> n \<le> unat r)"

lemma advanced_at_least:
  "advanced parse de e c file file' \<Longrightarrow> loads_revision parse de file' (e + 1) \<and> unat (e + 1) = Suc (unat e)"
  by (simp add: advanced_def loads_revision_def unat_inc)

lemma loads_revision_unique:
  "loads_revision parse de file r \<Longrightarrow> loads_revision parse de file q \<Longrightarrow> r = q"
  by (auto simp: loads_revision_def)

text \<open>A commit that cannot lose the file: on Windows, the call that loses the replaced file does not happen.\<close>

definition loses_nothing :: "platform \<Rightarrow> commit_request \<Rightarrow> bool" where
  "loses_nothing platform q = (platform = Windows \<longrightarrow> io_replace (cr_io q) \<noteq> ReplaceLost)"

lemma run_commit_at_least:
  assumes "toml_roundtrip de ser" "at_least parse de n file" "loses_nothing platform q"
  shows "at_least parse de n (run_commit parse de ser platform file q)"
proof -
  obtain r f where c: "config_commit parse de ser platform (cr_io q) (cr_expected q) (cr_candidate q) file = (r, f)"
    by fastforce
  have "f = file \<or> advanced parse de (cr_expected q) (cr_candidate q) file f"
    using config_commit_cases [OF assms(1) c] assms(3)
    by (auto simp: commit_effect_def lost_on_replace_def loses_nothing_def split: sum.splits)
  then show ?thesis
  proof
    assume "f = file"
    with c assms(2) show ?thesis by (simp add: run_commit_def)
  next
    assume adv: "advanced parse de (cr_expected q) (cr_candidate q) file f"
    obtain r0 where r0: "loads_revision parse de file r0" "n \<le> unat r0" using assms(2) by (auto simp: at_least_def)
    moreover have "loads_revision parse de file (cr_expected q)" using adv by (simp add: advanced_def)
    ultimately have "r0 = cr_expected q" by (blast intro: loads_revision_unique)
    with r0(2) advanced_at_least [OF adv] c show ?thesis by (auto simp: run_commit_def at_least_def)
  qed
qed

lemma exec_commits_at_least:
  assumes "toml_roundtrip de ser" "\<forall>q \<in> set commits. loses_nothing platform q" "at_least parse de n file"
  shows "at_least parse de n (exec (run_commit parse de ser platform) file commits)"
  using assms(2,3)
  by (induction commits arbitrary: "file") (auto intro: run_commit_at_least [OF assms(1)])

subsection \<open>Properties\<close>

definition demo_persisted :: persisted_config where
  "demo_persisted =
     \<lparr>pc_revision = 1, pc_port = ac_port app_config_default, pc_providers = ac_providers app_config_default,
      pc_routing = ac_routing app_config_default\<rparr>"

definition demo_ser :: "persisted_config \<Rightarrow> string option" where
  "demo_ser p = (if p = demo_persisted then Some ''revision = 1''
     else if p = demo_persisted\<lparr>pc_revision := 2\<rparr> then Some ''revision = 2'' else None)"

definition demo_de :: "string \<Rightarrow> persisted_config option" where
  "demo_de d = (if d = ''revision = 1'' then Some demo_persisted
     else if d = ''revision = 2'' then Some (demo_persisted\<lparr>pc_revision := 2\<rparr>) else None)"

definition demo_io :: commit_io where
  "demo_io = \<lparr>io_lock = True, io_temporary = True, io_write = True, io_replace = ReplaceDone, io_sync_parent = True,
     io_unlock = True\<rparr>"

lemma demo_toml: "toml_roundtrip demo_de demo_ser"
  by (simp add: toml_roundtrip_def demo_de_def demo_ser_def)

lemma demo_commit:
  "config_commit (\<lambda>_. None) demo_de demo_ser Unix demo_io 0 app_config_default FileMissing =
     (Ok \<lparr>vc_revision = 1, vc_config = app_config_default\<rparr>, FileDocument ''revision = 1'')"
  by (simp add: config_commit_def config_validate_def commit_locked_def config_load_def replace_atomically_def
      replace_file_def rename_file_def sync_parent_directory_def
      demo_ser_def demo_persisted_def demo_io_def app_config_default_def checked_add_def Let_def config_eval)

lemma demo_loss:
  "config_commit (\<lambda>_. None) demo_de demo_ser Windows (demo_io\<lparr>io_replace := ReplaceLost\<rparr>) 1 app_config_default
     (FileDocument ''revision = 1'') = (Err StorageIo, FileMissing)"
  by (simp add: config_commit_def config_validate_def commit_locked_def config_load_def replace_atomically_def
      replace_file_def demo_ser_def demo_de_def demo_persisted_def demo_io_def app_config_default_def
      checked_add_def Let_def config_eval)

text \<open>
  C40. What a commit does to the file, whichever system call fails. When it succeeds, the file held the
  expected revision and now loads as the candidate with the next revision, which did not wrap around.
  When it fails, the file is as before, or the failure came after the replacement (syncing the directory
  or unlocking) and the file loads as the complete new revision, or Windows lost the replaced file. On
  every other platform the commit is thus all or nothing. On Windows it is not: whenever a commit gets
  as far as a replacement that fails this way, it returns an I/O error and the configuration loads as
  revision 0 with the defaults.
\<close>

theorem config_commit_atomic:
  assumes "toml_roundtrip de ser" "config_commit parse de ser platform io expected candidate file = (result, file')"
  shows "(case result of
      Inr committed \<Rightarrow> loads_revision parse de file expected \<and> config_load parse de file' = Ok committed
        \<and> vc_config committed = candidate \<and> unat (vc_revision committed) = unat expected + 1
    | Inl err \<Rightarrow> file' = file
        \<or> err = StorageIo \<and> fails_after_replace platform io \<and> loads_revision parse de file expected
          \<and> config_load parse de file' = Ok \<lparr>vc_revision = expected + 1, vc_config = candidate\<rparr>
        \<or> err = StorageIo \<and> platform = Windows \<and> io_replace io = ReplaceLost \<and> file \<noteq> FileMissing \<and> file' = FileMissing)
    \<and> (config_validate parse candidate = Ok () \<and> io_lock io \<and> loads_revision parse de file expected \<and> expected \<noteq> - 1
        \<and> ser (persisted_of (expected + 1) candidate) \<noteq> None \<and> lost_on_replace platform io file \<longrightarrow>
       result = Err StorageIo \<and> config_load parse de file' = Ok \<lparr>vc_revision = 0, vc_config = app_config_default\<rparr>)"
proof (rule conjI, goal_cases)
  case 1
  from config_commit_cases [OF assms] show ?case
    by (auto simp: commit_effect_def advanced_def lost_on_replace_def unat_inc split: sum.split)
next
  case 2
  then show ?case using assms(2) config_commit_loses by (fastforce simp: config_load_def)
qed

text \<open>A commit that succeeds, and one on Windows that loses revision 1.\<close>

theorem config_commit_atomic_witness:
  "config_load (\<lambda>_. None) demo_de (FileDocument ''revision = 1'') = Ok \<lparr>vc_revision = 1, vc_config = app_config_default\<rparr>
   \<and> config_load (\<lambda>_. None) demo_de FileMissing = Ok \<lparr>vc_revision = 0, vc_config = app_config_default\<rparr>"
proof (intro conjI)
  show "config_load (\<lambda>_. None) demo_de (FileDocument ''revision = 1'') = Ok \<lparr>vc_revision = 1, vc_config = app_config_default\<rparr>"
    using config_commit_atomic [OF demo_toml demo_commit] by simp
  show "config_load (\<lambda>_. None) demo_de FileMissing = Ok \<lparr>vc_revision = 0, vc_config = app_config_default\<rparr>"
    using config_commit_atomic [OF demo_toml demo_loss]
    by (simp add: lost_on_replace_def loads_revision_def config_load_def config_validate_def demo_ser_def demo_de_def
        demo_persisted_def persisted_of_def demo_io_def app_config_default_def Let_def config_eval)
qed

text \<open>
  C14. No lost updates. Once a commit against a revision has succeeded, no later commit against the
  same revision succeeds, whatever commits of the store, failed or not, come in between, as long as none
  of them lets Windows lose the file.
\<close>

theorem config_no_lost_update:
  assumes "toml_roundtrip de ser" "\<forall>q \<in> set commits. platform = Windows \<longrightarrow> io_replace (cr_io q) \<noteq> ReplaceLost"
    and "config_commit parse de ser platform io expected candidate file = (Ok committed, file1)"
    and "config_commit parse de ser platform io' expected candidate' (exec (run_commit parse de ser platform) file1 commits)
       = (result, file2)"
  shows "\<not> is_ok result"
proof
  assume "is_ok result"
  then have "loads_revision parse de (exec (run_commit parse de ser platform) file1 commits) expected"
    using config_commit_cases [OF assms(1,4)] by (auto simp: is_ok_iff commit_effect_def advanced_def)
  moreover have "at_least parse de (Suc (unat expected)) file1"
    using config_commit_cases [OF assms(1,3)] advanced_at_least [of parse de expected candidate "file" file1]
    by (auto simp: commit_effect_def at_least_def)
  then have "at_least parse de (Suc (unat expected)) (exec (run_commit parse de ser platform) file1 commits)"
    using exec_commits_at_least [OF assms(1)] assms(2) by (simp add: loses_nothing_def)
  ultimately show False by (auto simp: at_least_def dest: loads_revision_unique)
qed

theorem config_no_lost_update_witness:
  "\<not> is_ok (fst (config_commit (\<lambda>_. None) demo_de demo_ser Unix demo_io 0 app_config_default
     (exec (run_commit (\<lambda>_. None) demo_de demo_ser Unix) (FileDocument ''revision = 1'')
       [\<lparr>cr_io = demo_io, cr_expected = 1, cr_candidate = app_config_default\<rparr>])))"
  using config_no_lost_update [OF demo_toml _ demo_commit prod.collapse [symmetric]] by fastforce

end
