(* ===== verification/Spec2Isabelle.thy ===== *)
theory Spec2Isabelle
  imports Account_Steps Provider_Config Routing_Facts Affinity Execution Transport Lifecycle Sse
    Management_Api Diag_Ring Data_Handlers_Facts Config_Store
begin

text \<open>
  A verification development for WokCore, a local gateway between clients of several LLM
  protocols and the accounts of upstream providers. Source files below are relative to \<open>src/\<close>.

  \<^bold>\<open>The program.\<close> A request enters the HTTP server (\<open>crates/wokcore-server\<close>), whose middleware
  checks host, origin and token and asks the lifecycle for admission. A data plane handler
  decodes the body, the engine (\<open>crates/wokcore-engine\<close>) routes the model to a provider instance of
  the published snapshot, picks a healthy account, builds an outbound request and retries within
  its policy; the transport enforces the network policy. The upstream answers with server-sent
  events; the protocol layer (\<open>crates/wokcore-protocols\<close>) turns them into canonical events and those
  into the chunks or the completion of the client's protocol. Configuration, secrets and tokens
  live in \<open>crates/wokcore-storage\<close>, diagnostic events in \<open>crates/wokcore-diagnostics\<close>.

  \<^bold>\<open>Theories.\<close>
  \<^item> \<open>Prelude\<close>, \<open>Ordered_Map\<close>, \<open>Rust_Str\<close>, \<open>Str_Ops\<close>, \<open>Net_Url\<close>: results and panics, machine
    integers, reachability and the locales \<open>invariant_system\<close> and \<open>invariant_machine\<close>; \<open>BTreeMap\<close>
    as the locale \<open>ordered_map\<close> with its sorted-list model; \<open>str\<close> as UTF-8 bytes; addresses and
    parsed URLs.
  \<^item> \<open>Core_Config\<close>, \<open>Catalog\<close>, \<open>Provider_Config\<close>: identifiers and configuration of
    \<open>crates/wokcore-core\<close>, \<open>catalog.rs\<close> and \<open>config.rs\<close> of the engine. Validation accepts exactly the
    well-formed configurations.
  \<^item> \<open>Accounts\<close>, \<open>Account_Health\<close>, \<open>Account_Steps\<close>: \<open>accounts.rs\<close>, a table of 64 shards with selection,
    observation, cooldown, quarantine, snapshots and restore. The shards refine one map; selection is
    fair and total; a failed account stays out for the exact bounded time. \<open>Account_Steps\<close> has the
    atomic steps of several threads, of which every operation is a run: what holds in every
    interleaving, and the interleaving of two selections that reconfiguration does not survive.
  \<^item> \<open>Routing\<close>, \<open>Routing_Facts\<close>: \<open>routing.rs\<close>, \<open>snapshot.rs\<close>, \<open>models.rs\<close>. Building a snapshot of a
    validated configuration does not panic, routing follows the documented precedence, and endpoints
    obey their access class, with one exception that is made exact.
  \<^item> \<open>Affinity\<close>: \<open>affinity.rs\<close>, the bounded table that binds threads to accounts.
  \<^item> \<open>Execution\<close>: \<open>retry.rs\<close>, \<open>execution.rs\<close>, \<open>auth.rs\<close>, the attempt loop over an environment that
    stands for executor, clock, jitter and cancellation. The history holds exactly the attempts that
    were completed, with their answers.
  \<^item> \<open>Transport\<close>: \<open>transport.rs\<close>, request building, the configured clients and their selection, address
    policy and body limits. Nothing at an address that the policy forbids takes part in a request.
  \<^item> \<open>Lifecycle\<close>: \<open>lifecycle/admission.rs\<close> and \<open>service.rs\<close> as a step relation on the shared atomics,
    so the invariants hold under every interleaving of admission, drain and stop.
  \<^item> \<open>Secret_Store\<close>, \<open>Client_Tokens\<close>, \<open>Auth\<close>: secret references and stores (locale \<open>secret_store\<close>,
    interpreted by the memory, environment and file store), the token tables of
    \<open>state/store.rs\<close>, and the registry of \<open>auth/\<close>, which follows the database through any calls,
    failures and restarts.
  \<^item> \<open>Api_Security\<close>, \<open>Management_Api\<close>: \<open>api/security.rs\<close>, the route table of \<open>api/mod.rs\<close> and the
    handlers for client tokens. A handler runs only for an authorised, admitted request.
  \<^item> \<open>Config_Store\<close>: \<open>config/store.rs\<close>, commits against an expected revision, under every failing system
    call. They are atomic where the file is replaced by \<open>rename\<close>; on Windows the replacement may lose
    the file, which is part of the model.
  \<^item> \<open>Sse\<close>: \<open>stream/sse.rs\<close>, the incremental decoder, which does not depend on chunk boundaries, and
    the encoder.
  \<^item> \<open>Canonical\<close>, \<open>Chat_Codec\<close>, \<open>Chat_Facts\<close>: gateway errors and events of \<open>canonical/\<close>, and
    \<open>outbound/openai_chat.rs\<close>. The aggregator simulates the streaming codec, so streaming and
    collecting agree.
  \<^item> \<open>Upstream\<close>: what an executor returns, and its bounds, from \<open>data_plane/execute.rs\<close>.
  \<^item> \<open>Client_Stream\<close>: \<open>data_plane/stream.rs\<close> over any codec that keeps the locale \<open>client_codec\<close>: streams
    are well formed, end, and send exactly the bytes of accepted events. \<open>Chat_Stream\<close>,
    \<open>Anthropic_Stream\<close> and \<open>Responses_Stream\<close> interpret the locale for the three client protocols,
    \<open>Data_Handlers_Facts\<close> for the codec of the data plane that is one of them.
  \<^item> \<open>Anthropic_Codec\<close>, \<open>Anthropic_Facts\<close>, \<open>Anthropic_Response\<close>: \<open>outbound/anthropic.rs\<close>, a client's
    reader that checks the event grammar and accepts all the codec sends, and the simulation between
    the aggregator, the codec and the reader.
  \<^item> \<open>Responses_Codec\<close>, \<open>Responses_Facts\<close>, \<open>Responses_Stream\<close>: \<open>outbound/openai_responses.rs\<close> and
    \<open>data_plane/responses.rs\<close>. A client's reader checks the numbering of the events and the life of every
    output item, joins the deltas, and ends with the response that is also returned in one piece.
  \<^item> \<open>Canonical_Request\<close>, \<open>Data_Plane\<close>, \<open>Data_Plane_Facts\<close>: the canonical request and
    \<open>execute_canonical\<close> of \<open>data_plane/execute.rs\<close>, which composes routing, account health and the attempt
    loop. The executor is asked only for the routed provider with the credentials of the account it is
    told, and while an account is healthy no request is refused for want of one before an attempt.
  \<^item> \<open>Data_Handlers\<close>, \<open>Data_Handlers_Facts\<close>: the handlers of \<open>routes.rs\<close> with \<open>response.rs\<close> and the
    entry of \<open>stream.rs\<close>. Every text request is answered in its protocol and mode without a panic, a stream
    names the model and the reasoning effort that the client asked for, and every stream that is returned
    is well formed and ends.
  \<^item> \<open>Diag_Ring\<close>: \<open>ring.rs\<close>, the bounded ring of diagnostic events and its pages.
  \<^item> This theory holds the properties that compose the stream, the codec and the decoder.

  \<^bold>\<open>How code is represented.\<close> A struct is a record, an enum a datatype; \<open>Result\<close> is a sum with \<open>Ok\<close>
  and \<open>Err\<close>, and \<open>and_then\<close> is the question-mark operator. A method on \<open>&mut self\<close> returns its
  result with the new state, also on errors. \<open>u8\<close>, \<open>u16\<close> and \<open>u64\<close> are words, with the saturating and
  checked operations of the source; byte and element counts (\<open>usize\<close>) are natural numbers, compared
  with \<open>usize_max\<close> where the source does. A panic, such as an index out of range or a failed
  \<open>expect\<close>, is the value \<open>Panic\<close>. Code behind a lock is one step; atomics without a lock are
  separate steps (\<open>Lifecycle\<close>, \<open>Account_Steps\<close>). The attempt loop uses the account table one operation
  at a time, with the operations of other requests between its own.

  \<^bold>\<open>Parameters.\<close> Third-party code is an argument of the definitions: the URL parser, SHA-256,
  base64 and random bytes, TOML and JSON serialisation, DNS, what an HTTP client connects to and
  answers, the outcome of the file system calls of a commit, the check of a header value, and the executor of an attempt with the events that it
  sends. The decoder of request bodies is an argument too. Where a theorem needs something of them, it is
  a hypothesis with a witness at a concrete function, for example that decoding gives back what
  encoding wrote.

  \<^bold>\<open>Bounds and fuel.\<close> Loops are structural recursion or recursion with a termination proof. The
  attempt loop runs on the bound \<open>MAX_TOTAL_ATTEMPTS\<close> of the source, which is proved to be enough for
  every execution to return. The paging of the ring is proved complete with fuel one above the
  number of events. No other fuel is used.

  \<^bold>\<open>Not modelled.\<close> The codecs of upstream protocols (Gemini, Azure, Cursor), images, the model list
  endpoint, and the decoding of request bodies, which is mostly \<open>serde\<close> derivation; session readers,
  exporters, diagnostics segments and platform services, which are file formats and operating
  system calls; background tasks (schedulers, writers, memory reclamation); SQL beyond the tables
  of tokens; self update; the command line and the provider simulator. Timing, channel capacity
  and log output are not part of any model.
\<close>

subsection \<open>From the upstream to the client\<close>

lemma frames_sse:
  "frames to_vec vs @ sse_done =
     concat (map (\<lambda>(ev, json). encode_sse ev json) (map (\<lambda>v. (None, to_vec v)) vs @ [(None, ''[DONE]'')]))"
  by (simp add: frames_def sse_done_def encode_sse_def comp_def)

lemma length_frames: "v \<in> set vs \<Longrightarrow> length (to_vec v) + 8 \<le> length (frames to_vec vs)"
  by (induction vs) (auto simp: frames_def encode_sse_def)

lemma length_frames_count: "length vs \<le> length (frames to_vec vs)"
  by (induction vs) (simp_all add: frames_def encode_sse_def)

lemma frames_encodable:
  assumes "\<forall>v. utf8_valid (to_vec v) \<and> CR \<notin> set (to_vec v) \<and> LF \<notin> set (to_vec v)"
    and "length (frames to_vec vs @ sse_done) \<le> m"
  shows "\<forall>e \<in> set (map (\<lambda>v. (None, to_vec v)) vs @ [(None, ''[DONE]'')]). encodable m e"
  using assms length_frames [of _ vs to_vec]
  by (fastforce simp: encodable_def encode_sse_def sse_done_def utf8_valid_def utf8_next_def byte_def)

text \<open>
  C39. From the upstream to the client. Take a streamed chat response that has finished without being
  cancelled, and let the network cut its bytes anywhere. A client with the gateway's own event
  decoder, with limits no smaller than the response, decodes one event for every chunk, then
  \<open>[DONE]\<close>, and the stream ends without error. Serialised JSON is assumed to be UTF-8 without raw
  line breaks.
\<close>

theorem client_decodes_whole_stream:
  assumes "servable to_vec requested_model"
    and "\<forall>v. utf8_valid (to_vec v) \<and> CR \<notin> set (to_vec v) \<and> LF \<notin> set (to_vec v)"
    and "run_client (encode_chunk to_vec) ins (stream_start (chat_stream_codec requested_model created_at reason) first) = (ps, s)"
    and "cs_finished s" "CancelRequest \<notin> set ins"
    and "concat cs = sent ps" "length (sent ps) \<le> m" "m < usize_max" "length (sent ps) \<le> n"
  shows "\<exists>vs d. sent ps = frames to_vec vs @ sse_done
    \<and> push_all cs (with_limits m n) =
        (Ok (map (\<lambda>v. \<lparr>sf_event = None, sf_data = to_vec v\<rparr>) vs @ [\<lparr>sf_event = None, sf_data = ''[DONE]''\<rparr>]), d)
    \<and> fst (finish d) = Ok []"
proof -
  obtain vs where vs: "sent ps = frames to_vec vs @ sse_done"
    using chat_run_inv [OF assms(1,3)] assms(4,5) by (auto simp: chat_client.run_inv_def chat_closed_def)
  let ?evs = "map (\<lambda>v. (None, to_vec v)) vs @ [(None, ''[DONE]'')]"
  have "Suc (length vs) \<le> length (sent ps)"
    using length_frames_count [of vs to_vec] by (simp add: vs sse_done_def)
  then have n: "length ?evs \<le> n" using assms(9) by simp
  have "\<exists>d. push_all cs (with_limits m n) = (Ok (map decoded ?evs), d) \<and> fst (finish d) = Ok []"
    by (rule push_all_encoded [OF _ frames_encodable [OF assms(2)] n assms(8)])
       (use assms(6,7) vs frames_sse in auto)
  then show ?thesis using vs by (auto simp: decoded_def comp_def)
qed

theorem client_decodes_whole_stream_witness:
  "\<exists>(vs :: json list) d. push_all [sent (fst (run_client (encode_chunk (\<lambda>_. ''{}'')) demo_inputs
        (stream_start (chat_stream_codec ''m'' 7 UpStop) (Created ''r''))))] (with_limits 1024 1024) =
      (Ok (map (\<lambda>v. \<lparr>sf_event = None, sf_data = ''{}''\<rparr>) vs @ [\<lparr>sf_event = None, sf_data = ''[DONE]''\<rparr>]), d)
    \<and> fst (finish d) = Ok []"
proof -
  let ?r = "run_client (encode_chunk (\<lambda>_. ''{}'')) demo_inputs
        (stream_start (chat_stream_codec ''m'' 7 UpStop) (Created ''r''))"
  have "length (sent (fst ?r)) \<le> 1024"
    by (simp add: demo_inputs_def stream_start_def chat_stream_codec_def chat_codec_new_def poll_next_def
        handle_item_def stream_encode_event_def encode_chunk_def chat_transition_def chat_eval
        chat_created_def chat_text_delta_def chat_failed_def emit_protocol_error_def emit_error_def event_outcome_def
        stream_finish_def observe_bytes_def encode_sse_def sse_done_def Let_def)
  moreover have "servable (\<lambda>_. ''{}'') ''m''" by (simp add: servable_def)
  moreover have "utf8_valid ''{}'' \<and> CR \<notin> set ''{}'' \<and> LF \<notin> set ''{}''"
    by (simp add: utf8_valid_def utf8_next_def byte_def)
  moreover have "CancelRequest \<notin> set demo_inputs" by (simp add: demo_inputs_def)
  ultimately show ?thesis
    using client_decodes_whole_stream [of "\<lambda>_. ''{}''" "''m''" demo_inputs 7 UpStop "Created ''r''"
        "fst ?r" "snd ?r" "[sent (fst ?r)]" 1024 1024] demo_run
    by (simp add: usize_max_def del: push_all.simps) blast
qed

text \<open>
  C8. What is streamed is the response. Let the upstream deliver the events of a response that the
  gateway would also return as one completion, and let the arrivals and the polls interleave in any
  way, until enough polls have followed the last event. The stream has then finished, and the client
  has received chunks that it joins to exactly that completion, and one \<open>[DONE]\<close>: nothing is lost,
  repeated or reordered on the way.
\<close>

theorem streamed_response_is_the_response:
  assumes "servable to_vec requested_model"
    and "encode_response to_vec (cc_context (chat_stream_codec requested_model created_at reason)) (first # events) = Ok v"
    and "\<nexists>e. Failed e \<in> set (first # events)"
    and "\<forall>i \<in> set ins. i = PollOnce \<or> (\<exists>ev. i = Arrive (ItemEvent ev))" "concat (map arrived ins) = events"
    and "length events < n"
    and "run_client (encode_chunk to_vec) (ins @ replicate n PollOnce)
        (stream_start (chat_stream_codec requested_model created_at reason) first) = (ps, s)"
  shows "cs_finished s
    \<and> (\<exists>chunks. sent ps = frames to_vec chunks @ sse_done \<and> assemble chunks = read_completion v
         \<and> (\<forall>w \<in> set chunks. same_response w v))"
proof -
  let ?c = "chat_stream_codec requested_model created_at reason"
  have new: "chat_codec_new (cc_context ?c) = ?c"
    by (simp add: chat_stream_codec_def chat_codec_new_def chat_with_limits_def)
  have "crt_include_usage (cec_response (cc_context ?c))"
    by (simp add: chat_stream_codec_def chat_codec_new_def chat_with_limits_def)
  from chat_stream_assembles [OF assms(2) this] assms(3) obtain chunks c where
    chunks: "feed (encode_chunk to_vec) (first # events) ?c = (Ok (frames to_vec chunks @ sse_done), c)"
      "assemble chunks = read_completion v" "\<forall>w \<in> set chunks. same_response w v"
    by (auto simp: new encode_chunks_feed simp del: feed.simps)
  from chat_client.run_client_complete [OF chat_good_start [OF chat_stream_codec_live [OF assms(1)]] chunks(1)
      encode_response_ends [OF assms(2)] assms(4-7)] chunks(2,3) show ?thesis by blast
qed

definition demo_arrivals :: "stream_input list" where
  "demo_arrivals =
     [PollOnce, Arrive (ItemEvent (OutputTextDelta ''t'' ''hi'')), Arrive (ItemEvent (UsageEvent demo_usage)), PollOnce,
      PollOnce, Arrive (ItemEvent Completed)]"

theorem streamed_response_is_the_response_witness:
  "\<exists>chunks. sent (fst (run_client (encode_chunk (\<lambda>_. ''{}'')) (demo_arrivals @ replicate 4 PollOnce)
      (stream_start (chat_stream_codec ''m'' 7 UpStop) (Created ''r'')))) = frames (\<lambda>_. ''{}'') chunks @ sse_done
    \<and> as_text (assemble chunks) = ''hi''"
proof -
  let ?evs = "[OutputTextDelta ''t'' ''hi'', UsageEvent demo_usage, Completed]"
  have "\<exists>v. encode_response (\<lambda>_. ''{}'') (cc_context (chat_stream_codec ''m'' 7 UpStop)) (Created ''r'' # ?evs) = Ok v
      \<and> as_text (read_completion v) = ''hi''"
    by (simp add: chat_stream_codec_def chat_codec_new_def demo_usage_def agg_eval chat_eval usize_max_def
        read_completion_def response_value_def Let_def tool_of_def filtered_extra_def)
  then obtain v where v: "encode_response (\<lambda>_. ''{}'') (cc_context (chat_stream_codec ''m'' 7 UpStop)) (Created ''r'' # ?evs) = Ok v"
    "as_text (read_completion v) = ''hi''" by blast
  have serv: "servable (\<lambda>_. ''{}'') ''m''" by (simp add: servable_def)
  have ok: "\<nexists>e. Failed e \<in> set (Created ''r'' # ?evs)" by simp
  have ins: "\<forall>i \<in> set demo_arrivals. i = PollOnce \<or> (\<exists>ev. i = Arrive (ItemEvent ev))"
    "concat (map arrived demo_arrivals) = ?evs" "length ?evs < 4" by (simp_all add: demo_arrivals_def)
  from streamed_response_is_the_response [OF serv v(1) ok ins prod.collapse [symmetric]] v(2) show ?thesis by metis
qed

end
